(* ===== verification/Pig_Prelude.thy ===== *)
theory Pig_Prelude
  imports Main "HOL-Library.Word" "HOL-Library.Monad_Syntax"
begin

text \<open>
  Prelude of the pigOS development: the machine integer types, the treatment of C buffers
  and of undefined behaviour, the searches over fixed tables that almost every module of the
  kernel performs, and the lemma collections the component theories share.

  \<^item> A C string is a \<^typ>\<open>string\<close> without its terminating NUL byte.
  \<^item> A copy into a buffer of a fixed size goes through \<open>fits\<close>: the kernel's own copy
    routines never check a bound, so a string that does not fit overruns the buffer. Behaviour
    the C standard leaves undefined (an overrun, a signed overflow, a read past an object) is
    the value \<^term>\<open>None\<close> of an \<^typ>\<open>'a option\<close>; a handler that returns
    \<^term>\<open>Some s\<close> has stayed inside its objects.
  \<^item> Signed C integers are \<^typ>\<open>int\<close> with the 32-bit range written out where a value can
    leave it; unsigned ones are words.
\<close>

type_synonym u8 = "8 word"
type_synonym u16 = "16 word"
type_synonym u32 = "32 word"
type_synonym u64 = "64 word"

named_theorems frame_simps
  \<open>what an operation leaves unchanged\<close>

named_theorems inv_intros
  \<open>preservation of a component's invariant\<close>

named_theorems step_simps
  \<open>unfolding of single operations in evaluation\<close>

subsection \<open>Signed 32-bit and 64-bit integers\<close>

definition i32 :: "int \<Rightarrow> bool" where
  "i32 n \<longleftrightarrow> -(2 ^ 31) \<le> n \<and> n < 2 ^ 31"

definition chk32 :: "int \<Rightarrow> int option" where
  "chk32 n = (if -(2 ^ 31) \<le> n \<and> n < 2 ^ 31 then Some n else None)"

definition chk64 :: "int \<Rightarrow> int option" where
  "chk64 n = (if -(2 ^ 63) \<le> n \<and> n < 2 ^ 63 then Some n else None)"

lemma chk32_Some [simp]: "i32 n \<Longrightarrow> chk32 n = Some n"
  by (simp add: chk32_def i32_def)

lemma chk32_eq_Some: "chk32 n = Some m \<longleftrightarrow> m = n \<and> i32 n"
  by (auto simp: chk32_def i32_def)

lemma chk64_eq_Some: "chk64 n = Some m \<longleftrightarrow> m = n \<and> -(2 ^ 63) \<le> n \<and> n < 2 ^ 63"
  by (auto simp: chk64_def)

text \<open>Division and remainder of C truncate towards zero.\<close>

definition c_div :: "int \<Rightarrow> int \<Rightarrow> int" where
  "c_div a b = sgn a * sgn b * (\<bar>a\<bar> div \<bar>b\<bar>)"

definition c_mod :: "int \<Rightarrow> int \<Rightarrow> int" where
  "c_mod a b = a - b * c_div a b"

lemma c_div_mod: "b * c_div a b + c_mod a b = a"
  by (simp add: c_mod_def)

lemma c_div_nonneg: "0 \<le> a \<Longrightarrow> 0 < b \<Longrightarrow> c_div a b = a div b"
  by (cases "a = 0") (simp_all add: c_div_def)

lemma c_mod_nonneg: "0 \<le> a \<Longrightarrow> 0 < b \<Longrightarrow> c_mod a b = a mod b"
  by (simp add: c_mod_def c_div_nonneg minus_mult_div_eq_mod)

subsection \<open>C strings and fixed buffers\<close>

definition cstr :: "string \<Rightarrow> bool" where
  "cstr s \<longleftrightarrow> CHR 0x00 \<notin> set s"

text \<open>A copy of \<open>s\<close> and its terminator into an array of \<open>cap\<close> bytes.\<close>

definition fits :: "nat \<Rightarrow> string \<Rightarrow> string option" where
  "fits cap s = (if length s < cap then Some s else None)"

lemma fits_Some [simp]: "length s < cap \<Longrightarrow> fits cap s = Some s"
  by (simp add: fits_def)

lemma fits_None [simp]: "cap \<le> length s \<Longrightarrow> fits cap s = None"
  by (simp add: fits_def)

lemma fits_eq_Some: "fits cap s = Some t \<longleftrightarrow> t = s \<and> length s < cap"
  by (auto simp: fits_def)

lemma fits_eq_None: "fits cap s = None \<longleftrightarrow> cap \<le> length s"
  by (auto simp: fits_def)

text \<open>The character at position \<open>i\<close> of a C string: its NUL terminator just past the end.\<close>

definition cget :: "string \<Rightarrow> nat \<Rightarrow> char" where
  "cget s i = (if i < length s then s ! i else CHR 0x00)"

lemma cget_Nil [simp]: "cget [] i = CHR 0x00"
  by (simp add: cget_def)

lemma cget_Cons_0 [simp]: "cget (c # s) 0 = c"
  by (simp add: cget_def)

lemma cget_Cons_Suc [simp]: "cget (c # s) (Suc i) = cget s i"
  by (simp add: cget_def)

lemma cget_Cons_numeral [simp]: "cget (c # s) (numeral k) = cget s (pred_numeral k)"
  by (simp add: numeral_eq_Suc)

lemma cget_drop: "cget (drop i s) j = cget s (i + j)"
  by (auto simp: cget_def)

lemma cget_0: "cget s 0 = (case s of [] \<Rightarrow> CHR 0x00 | c # _ \<Rightarrow> c)"
  by (cases s) auto

lemma cget_eq_NUL: "cstr s \<Longrightarrow> cget s i = CHR 0x00 \<longleftrightarrow> length s \<le> i"
  by (auto simp: cget_def cstr_def in_set_conv_nth)

lemma cstr_simps [simp]:
  "cstr []" "cstr (c # s) \<longleftrightarrow> c \<noteq> CHR 0x00 \<and> cstr s" "cstr (s @ t) \<longleftrightarrow> cstr s \<and> cstr t"
  by (auto simp: cstr_def)

lemma cstr_take: "cstr s \<Longrightarrow> cstr (take n s)"
  by (auto simp: cstr_def dest: in_set_takeD)

lemma cstr_drop: "cstr s \<Longrightarrow> cstr (drop n s)"
  by (auto simp: cstr_def dest: in_set_dropD)

text \<open>The scanning loops \<open>while(*p==' ')p++;\<close> and \<open>while(*p&&*p!=' ')p++;\<close>.\<close>

abbreviation skip_sp :: "string \<Rightarrow> string" where
  "skip_sp \<equiv> dropWhile (\<lambda>c. c = CHR '' '')"

abbreviation word_of :: "string \<Rightarrow> string" where
  "word_of \<equiv> takeWhile (\<lambda>c. c \<noteq> CHR '' '')"

abbreviation after_word :: "string \<Rightarrow> string" where
  "after_word \<equiv> dropWhile (\<lambda>c. c \<noteq> CHR '' '')"

text \<open>The loop \<open>while(*p&&*p!=' '&&i<lim) buf[i++]=*p++;\<close>: the word it copies, cut at
  \<open>lim\<close> characters, and the rest of the input where \<open>p\<close> then points.\<close>

definition take_word :: "nat \<Rightarrow> string \<Rightarrow> string \<times> string" where
  "take_word lim p = (let w = take lim (word_of p) in (w, drop (length w) p))"

lemma take_word_len: "length (fst (take_word lim p)) \<le> lim"
  by (simp add: take_word_def Let_def)

lemma take_word_append: "fst (take_word lim p) @ snd (take_word lim p) = p"
proof -
  have "take lim (word_of p) = take (min lim (length (word_of p))) p"
    by (metis min.commute take_take takeWhile_eq_take)
  then show ?thesis
    by (simp add: take_word_def Let_def) (metis append_take_drop_id length_take takeWhile_eq_take
        min.commute take_take)
qed

subsection \<open>Searches over tables\<close>

text \<open>The index of the first entry that satisfies \<open>P\<close>: the loop
  \<open>for(i=0;i<n;i++) if(P(i)) return i;\<close>.\<close>

fun find_idx :: "('a \<Rightarrow> bool) \<Rightarrow> 'a list \<Rightarrow> nat option" where
  "find_idx P [] = None"
| "find_idx P (x # xs) = (if P x then Some 0 else map_option Suc (find_idx P xs))"

lemma find_idx_Some: "find_idx P xs = Some i \<longleftrightarrow>
    i < length xs \<and> P (xs ! i) \<and> (\<forall>j < i. \<not> P (xs ! j))"
proof (induction xs arbitrary: i)
  case Nil
  then show ?case by simp
next
  case (Cons x xs)
  show ?case
  proof (cases i)
    case 0
    then show ?thesis by auto
  next
    case (Suc k)
    then show ?thesis
      using Cons.IH[of k] by (auto simp: All_less_Suc2)
  qed
qed

lemma find_idx_None: "find_idx P xs = None \<longleftrightarrow> (\<forall>x \<in> set xs. \<not> P x)"
  by (induction xs) auto

lemma find_idx_less: "find_idx P xs = Some i \<Longrightarrow> i < length xs"
  by (simp add: find_idx_Some)

lemma find_idx_sat: "find_idx P xs = Some i \<Longrightarrow> P (xs ! i)"
  by (simp add: find_idx_Some)

lemma find_idx_append: "find_idx P (xs @ ys) =
    (case find_idx P xs of Some i \<Rightarrow> Some i
     | None \<Rightarrow> map_option (\<lambda>i. length xs + i) (find_idx P ys))"
  by (induction xs) (auto split: option.splits simp: map_option_case)

lemma find_idx_cong:
  "(\<And>x. x \<in> set xs \<Longrightarrow> P x = Q x) \<Longrightarrow> find_idx P xs = find_idx Q xs"
  by (induction xs) auto

text \<open>A search is stable under an update of the entry it found, when the updated entry still
  satisfies the predicate.\<close>

lemma find_idx_update:
  "find_idx P xs = Some i \<Longrightarrow> P y \<Longrightarrow> find_idx P (xs[i := y]) = Some i"
  by (auto simp: find_idx_Some)

subsection \<open>Sequences of operations\<close>

text \<open>A block of statements, run from the first to the last.\<close>

fun seqs :: "('s \<Rightarrow> 's) list \<Rightarrow> 's \<Rightarrow> 's" where
  "seqs [] s = s"
| "seqs (f # fs) s = seqs fs (f s)"

lemma seqs_append [simp]: "seqs (fs @ gs) s = seqs gs (seqs fs s)"
  by (induction fs arbitrary: s) auto

subsection \<open>Folding a fallible step\<close>

text \<open>A loop whose body may leave the model: it stops at the first \<^term>\<open>None\<close>.\<close>

fun ofold :: "('a \<Rightarrow> 's \<Rightarrow> 's option) \<Rightarrow> 'a list \<Rightarrow> 's \<Rightarrow> 's option" where
  "ofold f [] s = Some s"
| "ofold f (x # xs) s = Option.bind (f x s) (ofold f xs)"

lemma ofold_inv:
  assumes "\<And>x s s'. x \<in> set xs \<Longrightarrow> I s \<Longrightarrow> f x s = Some s' \<Longrightarrow> I s'"
    and "I s" and "ofold f xs s = Some s'"
  shows "I s'"
  using assms
  by (induction xs arbitrary: s) (auto split: bind_splits)

lemma ofold_append: "ofold f (xs @ ys) s = Option.bind (ofold f xs s) (ofold f ys)"
  by (induction xs arbitrary: s) (auto split: bind_splits)

text \<open>Repeated appends to one buffer: the result is the concatenation, and it fitted.\<close>

lemma ofold_fits:
  "ofold (\<lambda>i buf. fits cap (buf @ f i)) xs b = Some b' \<Longrightarrow>
   b' = b @ concat (map f xs) \<and> (xs \<noteq> [] \<longrightarrow> length b' < cap)"
proof (induction xs arbitrary: b)
  case (Cons x xs)
  then show ?case
    using Cons.IH[of "b @ f x"] by (cases xs) (auto simp: fits_eq_Some split: bind_splits)
qed simp

subsection \<open>Lists\<close>

lemma nth_take_drop_split:
  "i < length xs \<Longrightarrow> take i xs @ xs ! i # drop (Suc i) xs = xs"
  by (simp add: id_take_nth_drop [symmetric])

lemma list_update_split:
  "i < length xs \<Longrightarrow> xs[i := y] = take i xs @ y # drop (Suc i) xs"
  by (simp add: upd_conv_take_nth_drop)

lemma fold_inv:
  assumes "\<And>x s. x \<in> set xs \<Longrightarrow> I s \<Longrightarrow> I (f x s)" and "I s"
  shows "I (fold f xs s)"
  using assms by (induction xs arbitrary: s) auto

lemma unat_of_nat_small: "n < 2 ^ LENGTH('a::len) \<Longrightarrow> unat (of_nat n :: 'a word) = n"
  by (simp add: unsigned_of_nat take_bit_nat_eq_self)

end
