(* ===== verification/Pig_Mem.thy ===== *)
theory Pig_Mem
  imports Pig_Prelude "HOL-Library.Char_ord" "HOL-Library.List_Lexorder"
begin

text \<open>
  The memory and string routines every other module of the kernel is written with:
  \<open>kernel/mem.h\<close> (the bump allocator and the \<open>k*\<close> routines) and
  \<open>kernel/libc_stubs.c\<close> (the libc subset the network stack is linked against).

  Two views of a string are used. The byte level view is a memory \<^typ>\<open>nat \<Rightarrow> u8\<close>; the copy
  loops are run on it and are shown to write the bytes they should and no other. The value level
  view is a \<^typ>\<open>string\<close>; the last section shows that the byte level loops implement it, which
  justifies the use of \<^const>\<open>fits\<close> for \<open>kcp\<close> and \<open>kcat\<close> in the other theories.
\<close>

unbundle bit_operations_syntax

section \<open>Definitions\<close>

subsection \<open>The bump allocator\<close>

definition HEAP_BASE :: u64 where "HEAP_BASE = 0x400000"
definition HEAP_SIZE :: u64 where "HEAP_SIZE = 4 * 1024 * 1024"
definition HEAP_LIMIT :: u64 where "HEAP_LIMIT = HEAP_BASE + HEAP_SIZE"

text \<open>The mask \<open>~15u\<close> is an \<open>unsigned int\<close>, so it is widened with zeros.\<close>

definition round16 :: "u64 \<Rightarrow> u64" where
  "round16 n = (n + 15) AND ucast (NOT 15 :: u32)"

definition km :: "u64 \<Rightarrow> u64 \<Rightarrow> u64 option \<times> u64" where
  "km n hp =
     (let m = round16 n in
      if hp + m > HEAP_LIMIT then (None, hp) else (Some hp, hp + m))"

definition kf :: "u64 \<Rightarrow> u64 \<Rightarrow> u64" where
  "kf p hp = hp"

text \<open>A sequence of requests, with the block each one was given.\<close>

fun km_run :: "u64 list \<Rightarrow> u64 \<Rightarrow> (u64 \<times> u64) list \<times> u64" where
  "km_run [] hp = ([], hp)"
| "km_run (n # ns) hp =
     (case km n hp of
        (None, hp') \<Rightarrow> km_run ns hp'
      | (Some p, hp') \<Rightarrow> let (bs, hp'') = km_run ns hp' in ((p, n) # bs, hp''))"

definition heap_ok :: "u64 \<Rightarrow> bool" where
  "heap_ok hp \<longleftrightarrow> HEAP_BASE \<le> hp \<and> hp \<le> HEAP_LIMIT \<and> 16 dvd unat hp"

subsection \<open>Byte loops\<close>

type_synonym bytes = "nat \<Rightarrow> u8"

fun kms :: "nat \<Rightarrow> int \<Rightarrow> nat \<Rightarrow> bytes \<Rightarrow> bytes" where
  "kms d v 0 m = m"
| "kms d v (Suc n) m = kms (d + 1) v n (m(d := word_of_int v))"

fun kmc :: "nat \<Rightarrow> nat \<Rightarrow> nat \<Rightarrow> bytes \<Rightarrow> bytes" where
  "kmc d s 0 m = m"
| "kmc d s (Suc n) m = kmc (d + 1) (s + 1) n (m(d := m s))"

fun copy_up :: "nat \<Rightarrow> nat \<Rightarrow> nat \<Rightarrow> nat \<Rightarrow> bytes \<Rightarrow> bytes" where
  "copy_up d s i 0 m = m"
| "copy_up d s i (Suc k) m = copy_up d s (i + 1) k (m(d + i := m (s + i)))"

fun copy_down :: "nat \<Rightarrow> nat \<Rightarrow> nat \<Rightarrow> bytes \<Rightarrow> bytes" where
  "copy_down d s 0 m = m"
| "copy_down d s (Suc i) m = copy_down d s i (m(d + i := m (s + i)))"

definition pig_memcpy :: "nat \<Rightarrow> nat \<Rightarrow> nat \<Rightarrow> bytes \<Rightarrow> bytes" where
  "pig_memcpy d s n m = copy_up d s 0 n m"

definition pig_memmove :: "nat \<Rightarrow> nat \<Rightarrow> nat \<Rightarrow> bytes \<Rightarrow> bytes" where
  "pig_memmove d s n m = (if d < s then copy_up d s 0 n m else copy_down d s n m)"

fun pig_memset :: "nat \<Rightarrow> int \<Rightarrow> nat \<Rightarrow> bytes \<Rightarrow> bytes" where
  "pig_memset s c 0 m = m"
| "pig_memset s c (Suc n) m = pig_memset (Suc s) c n (m(s := word_of_int c))"

fun pig_memcmp :: "nat \<Rightarrow> nat \<Rightarrow> nat \<Rightarrow> bytes \<Rightarrow> int" where
  "pig_memcmp p1 p2 0 m = 0"
| "pig_memcmp p1 p2 (Suc n) m =
     (if m p1 \<noteq> m p2 then (if m p1 < m p2 then -1 else 1)
      else pig_memcmp (p1 + 1) (p2 + 1) n m)"

text \<open>The loops that stop at a NUL byte need not stop at all: not returning is \<^term>\<open>None\<close>.\<close>

partial_function (option) ksl_mem :: "nat \<Rightarrow> bytes \<Rightarrow> nat option" where
  "ksl_mem s m = (if m s = 0 then Some 0 else do { n \<leftarrow> ksl_mem (s + 1) m; Some (Suc n) })"

partial_function (option) kcp_mem :: "nat \<Rightarrow> nat \<Rightarrow> bytes \<Rightarrow> bytes option" where
  "kcp_mem d s m =
     (let m' = m(d := m s) in if m s = 0 then Some m' else kcp_mem (d + 1) (s + 1) m')"

partial_function (option) kcat_mem :: "nat \<Rightarrow> nat \<Rightarrow> bytes \<Rightarrow> bytes option" where
  "kcat_mem d s m = (if m d = 0 then kcp_mem d s m else kcat_mem (d + 1) s m)"

subsection \<open>Strings as values\<close>

definition ksl :: "string \<Rightarrow> nat" where
  "ksl s = length s"

definition byte_diff :: "char \<Rightarrow> char \<Rightarrow> int" where
  "byte_diff a b = of_char a - of_char b"

fun ksc :: "string \<Rightarrow> string \<Rightarrow> int" where
  "ksc [] [] = 0"
| "ksc [] (b # bs) = byte_diff CHR 0x00 b"
| "ksc (a # as) [] = byte_diff a CHR 0x00"
| "ksc (a # as) (b # bs) = (if a = b then ksc as bs else byte_diff a b)"

fun ksnc :: "string \<Rightarrow> string \<Rightarrow> nat \<Rightarrow> int" where
  "ksnc as bs 0 = 0"
| "ksnc [] [] (Suc n) = 0"
| "ksnc [] (b # bs) (Suc n) = byte_diff CHR 0x00 b"
| "ksnc (a # as) [] (Suc n) = byte_diff a CHR 0x00"
| "ksnc (a # as) (b # bs) (Suc n) = (if a = b then ksnc as bs n else byte_diff a b)"

fun pig_strncmp :: "string \<Rightarrow> string \<Rightarrow> nat \<Rightarrow> int" where
  "pig_strncmp as bs 0 = 0"
| "pig_strncmp [] [] (Suc n) = 0"
| "pig_strncmp [] (b # bs) (Suc n) = -1"
| "pig_strncmp (a # as) [] (Suc n) = 1"
| "pig_strncmp (a # as) (b # bs) (Suc n) =
     (if a \<noteq> b then (if a < b then -1 else 1) else pig_strncmp as bs n)"

subsection \<open>Numbers\<close>

definition digit_char :: "nat \<Rightarrow> char" where
  "digit_char d = char_of (48 + d)"

fun kia_digits :: "nat \<Rightarrow> string" where
  "kia_digits n = (if n = 0 then [] else digit_char (n mod 10) # kia_digits (n div 10))"

declare kia_digits.simps [simp del]

definition kia_str :: "int \<Rightarrow> string" where
  "kia_str n =
     (if n = 0 then ''0''
      else if n < 0 then ''-'' @ rev (kia_digits (nat (- n)))
      else rev (kia_digits (nat n)))"

text \<open>\<open>n=-n\<close> overflows for the least \<open>int\<close>.\<close>

definition kia :: "int \<Rightarrow> string option" where
  "kia n = (if n = -(2 ^ 31) then None else Some (kia_str n))"

fun kuia_digits :: "nat \<Rightarrow> nat \<Rightarrow> string" where
  "kuia_digits base n =
     (if n = 0 \<or> base \<le> 1 then []
      else ''0123456789abcdef'' ! (n mod base) # kuia_digits base (n div base))"

declare kuia_digits.simps [simp del]

text \<open>The digits are collected in \<open>char t[20]\<close>; with base 1 the loop never ends.\<close>

definition kuia :: "u64 \<Rightarrow> nat \<Rightarrow> string option" where
  "kuia n base =
     (if n = 0 then Some ''0''
      else if base \<le> 1 \<or> base > 16 then None
      else (let t = kuia_digits base (unat n) in if length t \<le> 20 then Some (rev t) else None))"

fun strtol_loop :: "int \<Rightarrow> int \<Rightarrow> string \<Rightarrow> (int \<times> string) option" where
  "strtol_loop base val [] = Some (val, [])"
| "strtol_loop base val (c # cs) =
     (if CHR ''0'' \<le> c \<and> c \<le> CHR ''9''
      then do { v \<leftarrow> chk64 (val * base); w \<leftarrow> chk64 (v + (of_char c - 48)); strtol_loop base w cs }
      else Some (val, c # cs))"

definition pig_strtol :: "string \<Rightarrow> int \<Rightarrow> (int \<times> string) option" where
  "pig_strtol nptr base =
     (let p = dropWhile (\<lambda>c. c = CHR '' '' \<or> c = CHR 0x09) nptr;
          neg = (cget p 0 = CHR ''-'');
          p = (if cget p 0 = CHR ''-'' \<or> cget p 0 = CHR ''+'' then tl p else p)
      in do { (val, rest) \<leftarrow> strtol_loop base 0 p;
              v \<leftarrow> (if neg then chk64 (- val) else Some val);
              Some (v, rest) })"

subsection \<open>The millisecond clock\<close>

record tsc_clock =
  tsc_start :: u64
  tsc_init :: bool

text \<open>\<open>tsc\<close> is the value \<open>rdtsc\<close> reads.\<close>

definition sys_now :: "u64 \<Rightarrow> tsc_clock \<Rightarrow> u32 \<times> tsc_clock" where
  "sys_now tsc st =
     (if \<not> tsc_init st then (0, st\<lparr>tsc_start := tsc, tsc_init := True\<rparr>)
      else (ucast ((tsc - tsc_start st) div 2400000), st))"

section \<open>The allocator\<close>

lemma mask_round16: "(ucast (NOT 15 :: u32) :: u64) = push_bit 4 (mask 28)"
  by (simp add: mask_numeral)

lemma unat_round16: "unat (round16 n) = 16 * (unat (n + 15) div 16 mod 2 ^ 28)"
proof -
  have "(n + 15) AND push_bit 4 (mask 28) = push_bit 4 (take_bit 28 (drop_bit 4 (n + 15)))"
    by (rule bit_word_eqI) (auto simp: bit_simps)
  moreover have "unat (n + 15) mod 2 ^ 64 = unat (n + 15)"
    using unsigned_less[where ?'a = nat, of "n + 15"] by simp
  then have "unat (push_bit 4 (take_bit 28 (drop_bit 4 (n + 15)))) =
      16 * (unat (n + 15) div 16 mod 2 ^ 28)"
    by (simp add: unsigned_push_bit_eq unsigned_take_bit_eq unsigned_drop_bit_eq
        take_bit_nat_def push_bit_nat_def drop_bit_nat_def min_def)
  ultimately show ?thesis
    unfolding round16_def mask_round16 by simp
qed

lemma round16_small:
  assumes "unat n \<le> 2 ^ 32 - 16"
  shows "unat n \<le> unat (round16 n)" "unat (round16 n) < unat n + 16"
proof -
  have "unat (n + 15) = unat n + 15"
    using assms by (simp add: unat_word_ariths)
  moreover have "(unat n + 15) div 16 < 2 ^ 28"
    using assms by simp
  ultimately have "unat (round16 n) = 16 * ((unat n + 15) div 16)"
    by (simp add: unat_round16)
  then show "unat n \<le> unat (round16 n)" "unat (round16 n) < unat n + 16"
    by simp_all
qed

lemma round16_bound: "unat (round16 n) < 2 ^ 32"
  by (simp add: unat_round16)

lemma heap_consts: "unat HEAP_BASE = 0x400000" "unat HEAP_LIMIT = 0x800000"
  by (simp_all add: HEAP_BASE_def HEAP_LIMIT_def HEAP_SIZE_def)

lemma heap_ok_bounds:
  assumes "heap_ok hp"
  shows "0x400000 \<le> unat hp" "unat hp \<le> 0x800000" "16 dvd unat hp"
  using assms by (simp_all add: heap_ok_def word_le_nat_alt heap_consts)

lemma unat_hp_add: "heap_ok hp \<Longrightarrow> unat (hp + round16 n) = unat hp + unat (round16 n)"
  using heap_ok_bounds(2)[of hp] round16_bound[of n] by (simp add: unat_word_ariths)

lemma km_Some:
  assumes "heap_ok hp" "km n hp = (Some p, hp')"
  shows "p = hp" "unat hp' = unat hp + unat (round16 n)" "heap_ok hp'"
proof -
  have *: "p = hp" "hp' = hp + round16 n" "\<not> HEAP_LIMIT < hp + round16 n"
    using assms(2) by (auto simp: km_def Let_def split: if_splits)
  then show "p = hp" "unat hp' = unat hp + unat (round16 n)"
    using unat_hp_add[OF assms(1)] by simp_all
  then show "heap_ok hp'"
    using * assms(1) heap_ok_bounds[OF assms(1)]
    by (auto simp: heap_ok_def word_le_nat_alt word_less_nat_alt heap_consts unat_round16)
qed

lemma km_None: "km n hp = (None, hp') \<Longrightarrow> hp' = hp"
  by (simp add: km_def Let_def split: if_splits)

lemma km_fits:
  assumes "heap_ok hp" "unat n \<le> 2 ^ 32 - 16"
  shows "km n hp = (None, hp) \<longleftrightarrow> unat HEAP_LIMIT < unat hp + unat (round16 n)"
  using unat_hp_add[OF assms(1), of n]
  by (simp add: km_def Let_def word_less_nat_alt)

text \<open>The blocks of a run: in the heap, aligned, in address order and pairwise disjoint.\<close>

lemma km_run_blocks:
  assumes "heap_ok hp" "\<forall>n \<in> set ns. unat n \<le> 2 ^ 32 - 16" "km_run ns hp = (bs, hp')"
  shows "heap_ok hp' \<and> unat hp \<le> unat hp' \<and>
    (\<forall>(p, n) \<in> set bs. unat hp \<le> unat p \<and> unat p + unat n \<le> unat hp' \<and> 16 dvd unat p) \<and>
    sorted_wrt (\<lambda>(p, n) (q, k). unat p + unat n \<le> unat q) bs"
  using assms
proof (induction ns arbitrary: hp bs)
  case Nil
  then show ?case by simp
next
  case (Cons n ns)
  show ?case
  proof (cases "fst (km n hp)")
    case None
    then have k: "km n hp = (None, hp)"
      by (metis km_None prod.collapse)
    show ?thesis
      using Cons.IH[of hp bs] Cons.prems k by simp
  next
    case (Some p)
    then obtain h1 where k: "km n hp = (Some p, h1)" by (metis prod.collapse)
    obtain bs' where r: "km_run ns h1 = (bs', hp')" "bs = (p, n) # bs'"
      using Cons.prems(3) k by (auto split: prod.splits)
    note s = km_Some[OF Cons.prems(1) k]
    have n: "unat n \<le> unat (round16 n)"
      using Cons.prems(2) by (intro round16_small) simp
    have "heap_ok hp' \<and> unat h1 \<le> unat hp' \<and>
        (\<forall>(p, n) \<in> set bs'. unat h1 \<le> unat p \<and> unat p + unat n \<le> unat hp' \<and> 16 dvd unat p) \<and>
        sorted_wrt (\<lambda>(p, n) (q, k). unat p + unat n \<le> unat q) bs'"
      using Cons.IH[OF s(3) _ r(1)] Cons.prems(2) by simp
    then show ?thesis
      using s n r(2) heap_ok_bounds(3)[OF Cons.prems(1)] by fastforce
  qed
qed

section \<open>Byte loops\<close>

text \<open>The region \<open>[d, d+n)\<close> of \<open>m\<close> replaced by the bytes that \<open>m\<close> held at \<open>[s, s+n)\<close>.\<close>

definition moved :: "nat \<Rightarrow> nat \<Rightarrow> nat \<Rightarrow> bytes \<Rightarrow> bytes" where
  "moved d s n m = (\<lambda>a. if d \<le> a \<and> a < d + n then m (s + (a - d)) else m a)"

lemma copy_up_at:
  assumes "d \<le> s \<or> s + i + k \<le> d + i"
  shows "copy_up d s i k m a = (if d + i \<le> a \<and> a < d + i + k then m (s + (a - d)) else m a)"
  using assms
proof (induction k arbitrary: i m)
  case (Suc k)
  have "s + (a - d) \<noteq> d + i" if "d + i < a" "a < d + i + Suc k"
    using that Suc.prems by arith
  then show ?case
    using Suc.IH[of "i + 1"] Suc.prems by (cases "a = d + i") auto
qed auto

lemma copy_down_at:
  assumes "s \<le> d"
  shows "copy_down d s i m a = (if d \<le> a \<and> a < d + i then m (s + (a - d)) else m a)"
  using assms by (induction i arbitrary: m) auto

lemma kmc_copy_up: "kmc (d + i) (s + i) k m = copy_up d s i k m"
proof (induction k arbitrary: i m)
  case (Suc k)
  show ?case
    by (simp only: kmc.simps copy_up.simps Suc.IH [symmetric] add.assoc)
qed simp

lemma pig_memcpy_moved: "d \<le> s \<or> s + n \<le> d \<Longrightarrow> pig_memcpy d s n m = moved d s n m"
  by (auto simp: pig_memcpy_def moved_def copy_up_at)

lemma kmc_pig_memcpy: "kmc d s n m = pig_memcpy d s n m"
  using kmc_copy_up[of d 0 s n m] by (simp add: pig_memcpy_def)

lemma pig_memmove_moved: "pig_memmove d s n m = moved d s n m"
  by (auto simp: pig_memmove_def moved_def copy_up_at copy_down_at)

lemma pig_memset_at:
  "pig_memset s c n m a = (if s \<le> a \<and> a < s + n then word_of_int c else m a)"
  by (induction n arbitrary: s m) auto

lemma kms_pig_memset: "kms d v n m = pig_memset d v n m"
  by (induction n arbitrary: d m) auto

definition bytes_at :: "nat \<Rightarrow> nat \<Rightarrow> bytes \<Rightarrow> u8 list" where
  "bytes_at p n m = map m [p ..< p + n]"

lemma bytes_at_Suc: "bytes_at p (Suc n) m = m p # bytes_at (Suc p) n m"
  by (simp add: bytes_at_def upt_rec[of p] del: upt_Suc)

lemma pig_memcmp_cases:
  "pig_memcmp p q n m =
     (if bytes_at p n m = bytes_at q n m then 0
      else if bytes_at p n m < bytes_at q n m then -1 else 1)"
  by (induction n arbitrary: p q) (auto simp: bytes_at_Suc, simp add: bytes_at_def)

subsection \<open>NUL terminated strings in memory\<close>

definition byte_of :: "char \<Rightarrow> u8" where
  "byte_of c = of_char c"

text \<open>The string \<open>s\<close> and its terminator stand in \<open>m\<close> at address \<open>a\<close>.\<close>

fun str_at :: "bytes \<Rightarrow> nat \<Rightarrow> string \<Rightarrow> bool" where
  "str_at m a [] \<longleftrightarrow> m a = 0"
| "str_at m a (c # s) \<longleftrightarrow> c \<noteq> CHR 0x00 \<and> m a = byte_of c \<and> str_at m (a + 1) s"

lemma unat_byte_of: "unat (byte_of c) = of_char c"
  unfolding byte_of_def of_nat_of_char [symmetric, where ?'a = u8]
  by (rule unat_of_nat_small) (use nat_of_char_less_256[of c] in simp)

lemma byte_of_inject: "byte_of c = byte_of d \<longleftrightarrow> c = d"
  by (metis of_char_eqI unat_byte_of)

lemma byte_of_0: "byte_of c = 0 \<longleftrightarrow> c = CHR 0x00"
  using byte_of_inject[of c "CHR 0x00"] by (simp add: byte_of_def)

lemma str_at_cong:
  "(\<And>b. a \<le> b \<Longrightarrow> b \<le> a + length s \<Longrightarrow> m b = m' b) \<Longrightarrow> str_at m a s = str_at m' a s"
proof (induction s arbitrary: a)
  case Nil
  then show ?case by simp
next
  case (Cons c s)
  have "str_at m (a + 1) s = str_at m' (a + 1) s"
    using Cons.prems by (intro Cons.IH) auto
  then show ?case using Cons.prems[of a] by simp
qed

lemma ksl_mem_str: "str_at m a s \<Longrightarrow> ksl_mem a m = Some (ksl s)"
proof (induction s arbitrary: a)
  case Nil
  then show ?case by (subst ksl_mem.simps) (simp add: ksl_def)
next
  case (Cons c s)
  then show ?case by (subst ksl_mem.simps) (simp add: ksl_def byte_of_0)
qed

text \<open>\<open>kcp\<close> returns, leaves the string at the destination, and writes only the
  \<open>length s + 1\<close> bytes of it: the copy stays in a buffer exactly when \<^const>\<open>fits\<close> says so.\<close>

lemma kcp_mem_str:
  assumes "str_at m s t" "d + length t < s \<or> s + length t < d"
  shows "\<exists>m'. kcp_mem d s m = Some m' \<and> str_at m' d t \<and>
    (\<forall>a. a < d \<or> d + length t < a \<longrightarrow> m' a = m a)"
  using assms
proof (induction t arbitrary: d s m)
  case Nil
  then show ?case by (subst kcp_mem.simps) simp
next
  case (Cons c t)
  let ?m = "m(d := m s)"
  have "str_at ?m (s + 1) t = str_at m (s + 1) t"
    using Cons.prems by (intro str_at_cong) auto
  then have "str_at ?m (s + 1) t" and "d + 1 + length t < s + 1 \<or> s + 1 + length t < d + 1"
    using Cons.prems by auto
  from Cons.IH[OF this] obtain m' where m': "kcp_mem (d + 1) (s + 1) ?m = Some m'" "str_at m' (d + 1) t"
      "\<forall>a. a < d + 1 \<or> d + 1 + length t < a \<longrightarrow> m' a = ?m a"
    by blast
  have "kcp_mem d s m = Some m'"
    using Cons.prems m'(1) by (subst kcp_mem.simps) (simp add: byte_of_0)
  moreover have "m' d = byte_of c"
    using m'(3) Cons.prems by simp
  ultimately show ?case
    using Cons.prems m' by auto
qed

lemma kcat_mem_str:
  assumes "str_at m d u" "str_at m s t" "d + length u + length t < s \<or> s + length t < d"
  shows "\<exists>m'. kcat_mem d s m = Some m' \<and> str_at m' d (u @ t) \<and>
    (\<forall>a. a < d + length u \<or> d + length u + length t < a \<longrightarrow> m' a = m a)"
  using assms
proof (induction u arbitrary: d)
  case Nil
  then show ?case
    using kcp_mem_str[of m s t d] by (subst kcat_mem.simps) simp
next
  case (Cons c u)
  then obtain m' where m': "kcat_mem (d + 1) s m = Some m'" "str_at m' (d + 1) (u @ t)"
      "\<forall>a. a < d + 1 + length u \<or> d + 1 + length u + length t < a \<longrightarrow> m' a = m a"
    using Cons.IH[of "d + 1"] by auto
  have "kcat_mem d s m = Some m'"
    using Cons.prems m'(1) by (subst kcat_mem.simps) (simp add: byte_of_0)
  then show ?case
    using Cons.prems m' by auto
qed

section \<open>String comparison\<close>

lemma byte_diff_0 [simp]: "byte_diff a b = 0 \<longleftrightarrow> a = b"
  by (simp add: byte_diff_def)

lemma byte_diff_neg: "byte_diff a b < 0 \<longleftrightarrow> a < b"
proof -
  have "(of_char a :: int) < of_char b \<longleftrightarrow> (of_char a :: nat) < of_char b"
    by (simp only: of_nat_of_char [symmetric, where ?'a = int] of_nat_less_iff)
  then show ?thesis by (simp add: byte_diff_def less_char_def)
qed

lemma NUL_less: "CHR 0x00 < c \<longleftrightarrow> c \<noteq> CHR 0x00"
proof -
  have "CHR 0x00 < c \<longleftrightarrow> (of_char c :: nat) \<noteq> of_char CHR 0x00"
    by (simp add: less_char_def)
  then show ?thesis by (metis of_char_eqI)
qed

lemma not_less_NUL: "\<not> c < CHR 0x00"
  using NUL_less[of c] by (cases "c = CHR 0x00") auto

lemma sgn_byte_diff: "sgn (byte_diff a b) = (if a = b then 0 else if a < b then -1 else 1)"
  using byte_diff_neg[of a b] byte_diff_0[of a b] by (auto simp: sgn_if simp del: byte_diff_0)

lemma ksc_eq_0 [simp]: "cstr a \<Longrightarrow> cstr b \<Longrightarrow> ksc a b = 0 \<longleftrightarrow> a = b"
  by (induction a b rule: ksc.induct) auto

lemma ksc_neg: "cstr a \<Longrightarrow> cstr b \<Longrightarrow> ksc a b < 0 \<longleftrightarrow> a < b"
  by (induction a b rule: ksc.induct) (auto simp: byte_diff_neg NUL_less not_less_NUL)

lemma ksnc_eq_0 [simp]: "cstr a \<Longrightarrow> cstr b \<Longrightarrow> ksnc a b n = 0 \<longleftrightarrow> take n a = take n b"
  by (induction a b n rule: ksnc.induct) auto

lemma pig_strncmp_ksnc: "cstr a \<Longrightarrow> cstr b \<Longrightarrow> pig_strncmp a b n = sgn (ksnc a b n)"
  by (induction a b n rule: ksnc.induct) (auto simp: sgn_byte_diff NUL_less not_less_NUL)

lemma ksnc_prefix: "cstr a \<Longrightarrow> cstr b \<Longrightarrow> ksnc a b (length b) = 0 \<longleftrightarrow> take (length b) a = b"
  by simp

section \<open>Numbers\<close>

lemma of_char_digit: "d < 10 \<Longrightarrow> (of_char (digit_char d) :: nat) = 48 + d"
  by (simp add: digit_char_def)

lemma digit_char_range:
  assumes "d < 10"
  shows "CHR ''0'' \<le> digit_char d" "digit_char d \<le> CHR ''9''"
  using of_char_digit[OF assms] assms by (simp_all add: less_eq_char_def)

lemma of_char_digit_int: "d < 10 \<Longrightarrow> (of_char (digit_char d) :: int) = 48 + int d"
  by (metis (mono_tags, lifting) of_char_digit of_nat_add of_nat_numeral of_nat_of_char)

lemma strtol_loop_snoc:
  assumes "strtol_loop b v xs = Some (w, [])"
  shows "strtol_loop b v (xs @ ys) = strtol_loop b w ys"
  using assms
proof (induction xs arbitrary: v)
  case (Cons c cs)
  then show ?case by (auto split: if_splits bind_splits)
qed simp

lemma strtol_loop_digits:
  "n < 2 ^ 63 \<Longrightarrow> strtol_loop 10 0 (rev (kia_digits n)) = Some (int n, [])"
proof (induction n rule: kia_digits.induct)
  case (1 n)
  show ?case
  proof (cases "n = 0")
    case True
    then show ?thesis by (simp add: kia_digits.simps)
  next
    case False
    have d: "n mod 10 < 10" by simp
    have "strtol_loop 10 0 (rev (kia_digits (n div 10))) = Some (int (n div 10), [])"
      using 1 False by simp
    moreover have "rev (kia_digits n) = rev (kia_digits (n div 10)) @ [digit_char (n mod 10)]"
      using False by (simp add: kia_digits.simps[of n])
    moreover have "int (n div 10) * 10 + int (n mod 10) = int n"
      by (metis mult.commute of_nat_add of_nat_mult of_nat_numeral mult_div_mod_eq)
    ultimately show ?thesis
      using 1(2) digit_char_range[OF d]
      by (simp add: strtol_loop_snoc of_char_digit_int[OF d] chk64_def)
  qed
qed

lemma kia_digits_set: "c \<in> set (kia_digits n) \<Longrightarrow> CHR ''0'' \<le> c \<and> c \<le> CHR ''9''"
  by (induction n rule: kia_digits.induct)
    (subst (asm) (2) kia_digits.simps, auto split: if_splits intro: digit_char_range)

lemma kia_digits_length: "n < 10 ^ k \<Longrightarrow> length (kia_digits n) \<le> k"
proof (induction k arbitrary: n)
  case 0
  then show ?case by (simp add: kia_digits.simps)
next
  case (Suc k)
  then show ?case by (subst kia_digits.simps) simp
qed

lemma kia_str_length:
  assumes "i32 n"
  shows "length (kia_str n) \<le> 11"
proof -
  have "nat n < 10 ^ 10" "nat (- n) < 10 ^ 10"
    using assms by (simp_all add: i32_def) linarith+
  then show ?thesis
    using kia_digits_length[of "nat n" 10] kia_digits_length[of "nat (- n)" 10]
    by (auto simp: kia_str_def)
qed

lemma digit_not_space:
  assumes "CHR ''0'' \<le> c" "c \<le> CHR ''9''"
  shows "c \<noteq> CHR '' ''" "c \<noteq> CHR 0x09" "c \<noteq> CHR ''-''" "c \<noteq> CHR ''+''" "c \<noteq> CHR 0x00"
  using assms by (auto simp: less_eq_char_def)

lemma cstr_kia_str: "cstr (kia_str n)"
  using kia_digits_set digit_not_space(5) by (fastforce simp: kia_str_def cstr_def)

lemma pig_strtol_digits:
  assumes "\<forall>c \<in> set ds. CHR ''0'' \<le> c \<and> c \<le> CHR ''9''" "ds \<noteq> []"
  shows "pig_strtol ds 10 = strtol_loop 10 0 ds"
    and "pig_strtol (CHR ''-'' # ds) 10 =
      do { (v, rest) \<leftarrow> strtol_loop 10 0 ds; v \<leftarrow> chk64 (- v); Some (v, rest) }"
proof -
  obtain c cs where ds: "ds = c # cs" using assms(2) by (cases ds) auto
  note c = digit_not_space[of c]
  show "pig_strtol ds 10 = strtol_loop 10 0 ds"
    using c assms by (simp add: pig_strtol_def ds Let_def split: bind_splits)
  show "pig_strtol (CHR ''-'' # ds) 10 =
      do { (v, rest) \<leftarrow> strtol_loop 10 0 ds; v \<leftarrow> chk64 (- v); Some (v, rest) }"
    by (simp add: pig_strtol_def)
qed

lemma strtol_kia_str:
  assumes "i32 n"
  shows "pig_strtol (kia_str n) 10 = Some (n, [])"
proof -
  have ne: "rev (kia_digits m) \<noteq> []" if "m > 0" for m
    using that by (simp add: kia_digits.simps)
  have digs: "\<forall>c \<in> set (rev (kia_digits m)). CHR ''0'' \<le> c \<and> c \<le> CHR ''9''" for m
    using kia_digits_set by auto
  consider "n = 0" | "n > 0" | "n < 0" by linarith
  then show ?thesis
  proof cases
    case 1
    then show ?thesis by (simp add: kia_str_def pig_strtol_def chk64_def less_eq_char_def)
  next
    case 2
    then show ?thesis
      using assms pig_strtol_digits(1)[OF digs ne, of "nat n"]
      by (simp add: kia_str_def strtol_loop_digits i32_def)
  next
    case 3
    then show ?thesis
      using assms pig_strtol_digits(2)[OF digs ne, of "nat (- n)"]
      by (simp add: kia_str_def strtol_loop_digits i32_def chk64_def)
  qed
qed

lemma kuia_digits_length: "2 \<le> base \<Longrightarrow> n < base ^ k \<Longrightarrow> length (kuia_digits base n) \<le> k"
proof (induction k arbitrary: n)
  case 0
  then show ?case by (simp add: kuia_digits.simps)
next
  case (Suc k)
  then show ?case
    by (subst kuia_digits.simps) (simp add: less_mult_imp_div_less mult.commute)
qed

section \<open>Properties\<close>



text \<open>\<open>pig_memmove\<close> moves \<open>n\<close> bytes from \<open>s\<close> to \<open>d\<close> as if through a copy, for every
  overlap of the two regions, and leaves every other byte as it was.\<close>
theorem pig_memmove_correct:
  "bytes_at d n (pig_memmove d s n m) = bytes_at s n m \<and>
   (a < d \<or> d + n \<le> a \<longrightarrow> pig_memmove d s n m a = m a)"
  unfolding pig_memmove_moved
  by (auto simp: bytes_at_def moved_def list_eq_iff_nth_eq)

theorem pig_memmove_correct_witness:
  "bytes_at 2 3 (pig_memmove 2 1 3 of_nat) = [1, 2, 3] \<and> pig_memmove 2 1 3 of_nat 5 = 5"
  using pig_memmove_correct[of 2 3 1 of_nat 5] by (simp add: bytes_at_def upt_rec)

text \<open>\<open>kcp\<close> on a NUL terminated source that does not overlap the destination returns,
  leaves the string at the destination, and changes no byte outside the \<open>length t + 1\<close> bytes
  it occupies there.\<close>
theorem kcp_writes_only_string:
  assumes "str_at m s t" "d + length t < s \<or> s + length t < d"
  shows "\<exists>m'. kcp_mem d s m = Some m' \<and> str_at m' d t \<and>
    (\<forall>a. a < d \<or> d + length t < a \<longrightarrow> m' a = m a)"
  by (rule kcp_mem_str[OF assms])

theorem kcp_writes_only_string_witness:
  "\<exists>m'. kcp_mem 9 0 ((\<lambda>_. 0)(0 := 111, 1 := 107)) = Some m' \<and> str_at m' 9 ''ok'' \<and>
    (\<forall>a. a < 9 \<or> 9 + length ''ok'' < a \<longrightarrow> m' a = ((\<lambda>_. 0)(0 := 111, 1 := 107)) a)"
  using kcp_writes_only_string[of "(\<lambda>_. 0)(0 := 111, 1 := 107)" 0 "''ok''" 9]
  by (simp add: byte_of_def)

text \<open>the text \<open>kia\<close> prints for an \<open>int\<close> fits the smallest buffer a full \<open>int\<close> needs
  (12 bytes) and is read back by \<open>pig_strtol\<close> as the same number with nothing left over; the
  least \<open>int\<close> is the only one on which \<open>kia\<close> has no defined result.\<close>
theorem strtol_kia_roundtrip:
  assumes "i32 n" "n \<noteq> -(2 ^ 31)"
  shows "\<exists>t. kia n = Some t \<and> fits 12 t = Some t \<and> pig_strtol t 10 = Some (n, [])"
  using assms kia_str_length[of n] strtol_kia_str[of n] by (simp add: kia_def)

theorem strtol_kia_roundtrip_witness:
  "\<exists>t. kia (-407) = Some t \<and> fits 12 t = Some t \<and> pig_strtol t 10 = Some (-407, [])"
  using strtol_kia_roundtrip[of "-407"] by (simp add: i32_def)

end
