(* ===== verification/Pig_Ring.thy ===== *)
theory Pig_Ring
  imports Pig_Prelude
begin

text \<open>
  Fixed rings that overwrite their oldest entry. The console's scrollback, the kernel log
  (\<open>kernel/logger.h\<close>) and the network log (\<open>kernel/netlog.h\<close>) all keep such a ring: an array,
  the next position to write and, in two of them, the number of entries written so far.

  \<open>ring_list\<close> reads the entries oldest first; \<open>ring_put\<close> is the index arithmetic the three
  implementations share. The locale \<open>ring_log\<close> is what their users rely on: storing an entry
  appends it and forgets the oldest entries beyond the capacity.
\<close>

definition last_n :: "nat \<Rightarrow> 'a list \<Rightarrow> 'a list" where
  "last_n n xs = drop (length xs - n) xs"

lemma last_n_length [simp]: "length (last_n n xs) = min n (length xs)"
  by (simp add: last_n_def min_def)

lemma last_n_short: "length xs \<le> n \<Longrightarrow> last_n n xs = xs"
  by (simp add: last_n_def)

lemma last_n_append: "last_n n (last_n n xs @ ys) = last_n n (xs @ ys)"
proof (cases "length xs \<le> n")
  case False
  then show ?thesis by (simp add: last_n_def add.commute)
qed (simp add: last_n_def)

definition ring_list :: "(nat \<Rightarrow> 'e) \<Rightarrow> nat \<Rightarrow> nat \<Rightarrow> nat \<Rightarrow> 'e list" where
  "ring_list b cap pos count = map (\<lambda>i. b ((pos + (cap - count) + i) mod cap)) [0 ..< count]"

lemma ring_list_length [simp]: "length (ring_list b cap pos count) = count"
  by (simp add: ring_list_def)

lemma mod_eq_self_shift:
  fixes pos cap k :: nat
  assumes "pos < cap" "k < cap" "(pos + k) mod cap = pos"
  shows "k = 0"
proof (cases "pos + k < cap")
  case True
  then show ?thesis using assms by simp
next
  case False
  then have "(pos + k) mod cap = pos + k - cap"
    using assms by (simp add: mod_if[of "pos + k"] mod_if[of "pos + k - cap"] less_diff_conv2)
  then show ?thesis using assms False by simp
qed

text \<open>The arithmetic of a store: position \<open>pos\<close> is overwritten and becomes the newest entry.\<close>

lemma ring_put:
  assumes "pos < cap" "count \<le> cap"
  shows "ring_list (b(pos := e)) cap ((pos + 1) mod cap) (if count < cap then count + 1 else count) =
    last_n cap (ring_list b cap pos count @ [e])"
proof (cases "count < cap")
  case True
  have idx: "((pos + 1) mod cap + (cap - (count + 1)) + i) mod cap =
      (pos + (cap - count) + i) mod cap" for i
  proof -
    have "((pos + 1) mod cap + (cap - (count + 1)) + i) mod cap =
        (pos + 1 + (cap - (count + 1)) + i) mod cap"
      by (simp add: mod_simps add.assoc)
    moreover have "pos + 1 + (cap - (count + 1)) + i = pos + (cap - count) + i"
      using True by linarith
    ultimately show ?thesis by metis
  qed
  have old: "(pos + (cap - count) + i) mod cap \<noteq> pos" if "i < count" for i
  proof -
    have "cap - count + i < cap" "cap - count + i \<noteq> 0"
      using that True by linarith+
    then show ?thesis
      using mod_eq_self_shift[of pos cap "cap - count + i"] assms(1) by (metis add.assoc)
  qed
  have new: "(pos + (cap - count) + count) mod cap = pos"
    using True assms by simp
  have "ring_list (b(pos := e)) cap ((pos + 1) mod cap) (count + 1) =
      map (\<lambda>i. (b(pos := e)) ((pos + (cap - count) + i) mod cap)) ([0 ..< count] @ [count])"
    unfolding ring_list_def idx by simp
  also have "\<dots> = ring_list b cap pos count @ [e]"
    unfolding map_append ring_list_def
    by (rule arg_cong2[where f = append]) (use old new in \<open>simp_all del: diff_add_assoc2\<close>)
  finally show ?thesis
    using True by (simp add: last_n_short)
next
  case False
  then have [simp]: "count = cap" using assms by simp
  have step: "(Suc pos mod cap + i) mod cap = Suc (pos + i) mod cap" for i
    by (simp add: mod_simps)
  have old: "Suc (pos + i) mod cap \<noteq> pos" if "Suc i < cap" for i
    using mod_eq_self_shift[of pos cap "Suc i"] that assms by auto
  show ?thesis
  proof (rule nth_equalityI)
    fix i assume "i < length (ring_list (b(pos := e)) cap ((pos + 1) mod cap)
      (if count < cap then count + 1 else count))"
    then have i: "i < cap" by simp
    show "ring_list (b(pos := e)) cap ((pos + 1) mod cap)
        (if count < cap then count + 1 else count) ! i =
      last_n cap (ring_list b cap pos count @ [e]) ! i"
    proof (cases "Suc i < cap")
      case True
      then show ?thesis
        using old[OF True] i
        by (simp add: ring_list_def step last_n_def nth_append less_diff_conv)
    next
      case False
      then have "cap = Suc i" using i by simp
      then have "Suc (pos + i) = pos + cap" by simp
      then have "Suc (pos + i) mod cap = pos" using assms(1) by (metis mod_add_self2 mod_less)
      then show ?thesis
        using i False by (simp add: ring_list_def step last_n_def nth_append less_diff_conv)
    qed
  qed simp
qed

locale ring_log =
  fixes cap :: nat
    and put :: "'e \<Rightarrow> 's \<Rightarrow> 's"
    and entries :: "'s \<Rightarrow> 'e list"
    and inv :: "'s \<Rightarrow> bool"
    and elem_ok :: "'e \<Rightarrow> bool"
  assumes put_inv: "inv s \<Longrightarrow> elem_ok e \<Longrightarrow> inv (put e s)"
    and put_entries: "inv s \<Longrightarrow> elem_ok e \<Longrightarrow> entries (put e s) = last_n cap (entries s @ [e])"
    and entries_le: "inv s \<Longrightarrow> length (entries s) \<le> cap"
begin

lemma puts_inv: "inv s \<Longrightarrow> \<forall>e \<in> set es. elem_ok e \<Longrightarrow> inv (fold put es s)"
  by (induction es arbitrary: s) (auto simp: put_inv)

lemma puts_entries:
  "inv s \<Longrightarrow> \<forall>e \<in> set es. elem_ok e \<Longrightarrow> entries (fold put es s) = last_n cap (entries s @ es)"
proof (induction es arbitrary: s)
  case Nil
  then show ?case by (simp add: last_n_short entries_le)
next
  case (Cons e es)
  then show ?case
    using last_n_append[of cap "entries s @ [e]" es] by (simp add: put_inv put_entries)
qed

text \<open>The newest entry is kept, and a ring that is not full forgets nothing.\<close>

lemma put_last: "inv s \<Longrightarrow> elem_ok e \<Longrightarrow> 0 < cap \<Longrightarrow> last (entries (put e s)) = e"
  by (simp add: put_entries last_n_def last_drop)

lemma puts_no_loss:
  "inv s \<Longrightarrow> \<forall>e \<in> set es. elem_ok e \<Longrightarrow> length (entries s) + length es \<le> cap \<Longrightarrow>
   entries (fold put es s) = entries s @ es"
  by (simp add: puts_entries last_n_short)

end

end
