(* ===== verification/Pig_Vga.thy ===== *)
theory Pig_Vga
  imports Pig_Mem Pig_Ring
begin

text \<open>
  The text console of \<open>drivers/vga/vga.h\<close>: 25 rows of 80 cells, the hardware cursor, the
  scrollback ring and the pipe buffer that captures output while a pipeline runs. The driver's
  global variables are the record \<open>vga\<close>. Every command of the kernel prints, so the state of
  every later component extends the record \<open>kst\<close>, whose one field \<open>con\<close> is the console;
  \<open>pr\<close> runs a console operation on it.

  The video memory is a function on cell numbers, so a store outside the 2000 cells would be
  visible. Port writes are recorded, newest first; what a port read returns is up to the device
  and is the parameter \<open>port_read\<close> of the state, a function of the writes made so far.
\<close>

unbundle bit_operations_syntax

section \<open>Definitions\<close>

abbreviation (input) VGA_W :: int where "VGA_W \<equiv> 80"
abbreviation (input) VGA_H :: int where "VGA_H \<equiv> 25"
abbreviation VGA_PORT_IDX :: u16 where "VGA_PORT_IDX \<equiv> 0x3D4"
abbreviation VGA_PORT_DATA :: u16 where "VGA_PORT_DATA \<equiv> 0x3D5"
abbreviation (input) SCROLLBACK_LINES :: int where "SCROLLBACK_LINES \<equiv> 100"

abbreviation (input) C_BLACK :: u8 where "C_BLACK \<equiv> 0"
abbreviation (input) C_BLUE :: u8 where "C_BLUE \<equiv> 1"
abbreviation (input) C_GREEN :: u8 where "C_GREEN \<equiv> 2"
abbreviation (input) C_CYAN :: u8 where "C_CYAN \<equiv> 3"
abbreviation (input) C_RED :: u8 where "C_RED \<equiv> 4"
abbreviation (input) C_MAG :: u8 where "C_MAG \<equiv> 5"
abbreviation (input) C_BROWN :: u8 where "C_BROWN \<equiv> 6"
abbreviation (input) C_LGREY :: u8 where "C_LGREY \<equiv> 7"
abbreviation (input) C_DGREY :: u8 where "C_DGREY \<equiv> 8"
abbreviation (input) C_LBLUE :: u8 where "C_LBLUE \<equiv> 9"
abbreviation (input) C_LGREEN :: u8 where "C_LGREEN \<equiv> 10"
abbreviation (input) C_LCYAN :: u8 where "C_LCYAN \<equiv> 11"
abbreviation (input) C_LRED :: u8 where "C_LRED \<equiv> 12"
abbreviation (input) C_LMAG :: u8 where "C_LMAG \<equiv> 13"
abbreviation (input) C_YELLOW :: u8 where "C_YELLOW \<equiv> 14"
abbreviation (input) C_WHITE :: u8 where "C_WHITE \<equiv> 15"

definition COL :: "u8 \<Rightarrow> u8 \<Rightarrow> u8" where
  "COL fg bg = fg OR push_bit 4 bg"

definition ENT :: "char \<Rightarrow> u8 \<Rightarrow> u16" where
  "ENT c col = ucast (byte_of c) OR push_bit 8 (ucast col)"

definition blank :: u16 where
  "blank = ENT CHR '' '' (COL C_WHITE C_BLACK)"

text \<open>The escape sequence \<open>vset_truecolor\<close> builds in a buffer of 32 bytes.\<close>

definition dec3 :: "u8 \<Rightarrow> string" where
  "dec3 r = [digit_char (unat r div 100), digit_char ((unat r div 10) mod 10),
             digit_char (unat r mod 10)]"

definition vset_truecolor :: "u8 \<Rightarrow> u8 \<Rightarrow> u8 \<Rightarrow> string" where
  "vset_truecolor r g b =
     [CHR 0x1B] @ ''[38;2;'' @ dec3 r @ '';'' @ dec3 g @ '';'' @ dec3 b @ ''m''"

record vga =
  vx :: int
  vy :: int
  vc :: u8
  vga_cursor_enabled :: bool
  scrollback :: "int \<Rightarrow> nat \<Rightarrow> u16"
  scrollback_pos :: int
  scrollback_count :: int
  VGA_MEM :: "nat \<Rightarrow> u16"
  pipe_buf :: string
  pipe_tail :: string
  pipe_active :: bool
  port_writes :: "(u16 \<times> u8) list"
  port_read :: "(u16 \<times> u8) list \<Rightarrow> u16 \<Rightarrow> u8"

definition outb :: "u16 \<Rightarrow> u8 \<Rightarrow> vga \<Rightarrow> vga" where
  "outb p v st = st\<lparr>port_writes := (p, v) # port_writes st\<rparr>"

definition inb :: "u16 \<Rightarrow> vga \<Rightarrow> u8" where
  "inb p st = port_read st (port_writes st) p"

subsection \<open>Hardware cursor\<close>

definition cursor_cell :: "vga \<Rightarrow> u16" where
  "cursor_cell st = word_of_int (vy st * VGA_W + vx st)"

definition vga_update_hw_cursor :: "vga \<Rightarrow> vga" where
  "vga_update_hw_cursor st =
     (if \<not> vga_cursor_enabled st then st
      else (let pos = cursor_cell st in
        (seqs [outb VGA_PORT_IDX 0x0F, outb VGA_PORT_DATA (ucast (pos AND 0xFF)),
         outb VGA_PORT_IDX 0x0E, outb VGA_PORT_DATA (ucast (drop_bit 8 pos))]) st))"

definition vga_enable_cursor :: "u8 \<Rightarrow> u8 \<Rightarrow> vga \<Rightarrow> vga" where
  "vga_enable_cursor start end' st =
     (let st = outb VGA_PORT_IDX 0x0A st;
          st = outb VGA_PORT_DATA ((inb VGA_PORT_DATA st AND 0xC0) OR start) st;
          st = outb VGA_PORT_IDX 0x0B st;
          st = outb VGA_PORT_DATA ((inb VGA_PORT_DATA st AND 0xE0) OR end') st
      in st\<lparr>vga_cursor_enabled := True\<rparr>)"

definition vga_disable_cursor :: "vga \<Rightarrow> vga" where
  "vga_disable_cursor st =
     (outb VGA_PORT_DATA 0x20 (outb VGA_PORT_IDX 0x0A st))\<lparr>vga_cursor_enabled := False\<rparr>"

subsection \<open>Cells\<close>

definition vset :: "u8 \<Rightarrow> u8 \<Rightarrow> vga \<Rightarrow> vga" where
  "vset fg bg st = st\<lparr>vc := COL fg bg\<rparr>"

definition vrst :: "vga \<Rightarrow> vga" where
  "vrst st = st\<lparr>vc := COL C_WHITE C_BLACK\<rparr>"

definition on_screen :: "int \<Rightarrow> int \<Rightarrow> bool" where
  "on_screen x y \<longleftrightarrow> \<not> (x < 0 \<or> x \<ge> VGA_W \<or> y < 0 \<or> y \<ge> VGA_H)"

definition cell :: "int \<Rightarrow> int \<Rightarrow> nat" where
  "cell x y = nat (y * VGA_W + x)"

definition vat :: "char \<Rightarrow> u8 \<Rightarrow> int \<Rightarrow> int \<Rightarrow> vga \<Rightarrow> vga" where
  "vat c col x y st =
     (if \<not> on_screen x y then st
      else st\<lparr>VGA_MEM := (VGA_MEM st)(cell x y := ENT c col)\<rparr>)"

definition vget :: "int \<Rightarrow> int \<Rightarrow> vga \<Rightarrow> u16" where
  "vget x y st = (if \<not> on_screen x y then 0 else VGA_MEM st (cell x y))"

definition vfill ::
    "int \<Rightarrow> int \<Rightarrow> int \<Rightarrow> int \<Rightarrow> char \<Rightarrow> u8 \<Rightarrow> vga \<Rightarrow> vga" where
  "vfill x y w h ch col =
     fold (\<lambda>r. fold (\<lambda>c. vat ch col (x + c) (y + r)) [0 .. w - 1]) [0 .. h - 1]"

subsection \<open>Scrolling\<close>

text \<open>The two inner loops on a row: copy row \<open>s\<close> over row \<open>d\<close>, and fill row \<open>d\<close>.\<close>

definition copy_row :: "nat \<Rightarrow> nat \<Rightarrow> (nat \<Rightarrow> u16) \<Rightarrow> (nat \<Rightarrow> u16)" where
  "copy_row d s m = fold (\<lambda>c m. m(d * 80 + c := m (s * 80 + c))) [0 ..< 80] m"

definition fill_row :: "nat \<Rightarrow> (nat \<Rightarrow> u16) \<Rightarrow> (nat \<Rightarrow> u16) \<Rightarrow> (nat \<Rightarrow> u16)" where
  "fill_row d f m = fold (\<lambda>c m. m(d * 80 + c := f c)) [0 ..< 80] m"

definition vga_init :: "vga \<Rightarrow> vga" where
  "vga_init st =
     (let st = st\<lparr>vx := 0, vy := 0, vc := COL C_WHITE C_BLACK\<rparr>;
          st = st\<lparr>VGA_MEM := fold (\<lambda>r. fill_row r (\<lambda>_. blank)) [0 ..< 25] (VGA_MEM st)\<rparr>
      in vga_update_hw_cursor (vga_enable_cursor 13 15 st))"

text \<open>The first half of \<open>vscroll\<close>: the line \<open>line\<close> goes into the scrollback ring.\<close>

definition save_line :: "(nat \<Rightarrow> u16) \<Rightarrow> vga \<Rightarrow> vga" where
  "save_line line st =
     (let saved = fold (\<lambda>c l. l(c := line c)) [0 ..< 80] (scrollback st (scrollback_pos st));
          st = st\<lparr>scrollback := (scrollback st)(scrollback_pos st := saved)\<rparr>;
          st = st\<lparr>scrollback_pos := c_mod (scrollback_pos st + 1) SCROLLBACK_LINES\<rparr>
      in if scrollback_count st < SCROLLBACK_LINES
         then st\<lparr>scrollback_count := scrollback_count st + 1\<rparr> else st)"

definition vscroll :: "vga \<Rightarrow> vga" where
  "vscroll st =
     (let st = save_line (VGA_MEM st) st;
          m = fold (\<lambda>r. copy_row (r - 1) r) [1 ..< 25] (VGA_MEM st);
          m = fill_row 24 (\<lambda>_. ENT CHR '' '' (vc st)) m
      in st\<lparr>VGA_MEM := m, vy := VGA_H - 1\<rparr>)"

definition vscroll_up :: "vga \<Rightarrow> vga" where
  "vscroll_up st =
     (if scrollback_count st = 0 then st
      else (let m = fold (\<lambda>r. copy_row r (r - 1)) (rev [1 ..< 25]) (VGA_MEM st);
                sb_idx = c_mod (scrollback_pos st - scrollback_count st + SCROLLBACK_LINES)
                           SCROLLBACK_LINES;
                sb_idx = (if sb_idx < 0 then sb_idx + SCROLLBACK_LINES else sb_idx);
                m = fill_row 0 (scrollback st sb_idx) m
            in vga_update_hw_cursor (st\<lparr>VGA_MEM := m, vy := 0\<rparr>)))"

definition vscroll_down :: "vga \<Rightarrow> vga" where
  "vscroll_down st =
     (if scrollback_count st = 0 then st
      else (let m = fold (\<lambda>r. copy_row r (r + 1)) [0 ..< 24] (VGA_MEM st);
                m = fill_row 24 (\<lambda>_. ENT CHR '' '' (vc st)) m
            in vga_update_hw_cursor (st\<lparr>VGA_MEM := m, vy := VGA_H - 1\<rparr>)))"

fun scroll_loop :: "(vga \<Rightarrow> vga) \<Rightarrow> nat \<Rightarrow> vga \<Rightarrow> vga"
where
  "scroll_loop f 0 st = st"
| "scroll_loop f (Suc k) st = (if scrollback_count st > 0 then scroll_loop f k (f st) else st)"

definition vscroll_pageup :: "vga \<Rightarrow> vga" where
  "vscroll_pageup = scroll_loop vscroll_up 10"

definition vscroll_pagedown :: "vga \<Rightarrow> vga" where
  "vscroll_pagedown = scroll_loop vscroll_down 10"

definition vcursor_left :: "vga \<Rightarrow> vga" where
  "vcursor_left st = vga_update_hw_cursor
     (if vx st > 0 then st\<lparr>vx := vx st - 1\<rparr>
      else if vy st > 0 then st\<lparr>vy := vy st - 1, vx := VGA_W - 1\<rparr>
      else st)"

definition vcursor_right :: "vga \<Rightarrow> vga" where
  "vcursor_right st = vga_update_hw_cursor
     (if vx st < VGA_W - 1 then st\<lparr>vx := vx st + 1\<rparr>
      else (let st = st\<lparr>vx := 0\<rparr> in
            if vy st < VGA_H - 1 then st\<lparr>vy := vy st + 1\<rparr> else st))"

definition vat_cur :: "char \<Rightarrow> vga \<Rightarrow> vga" where
  "vat_cur c st = vat c (vc st) (vx st) (vy st) st"

subsection \<open>Printing\<close>

definition next_line :: "vga \<Rightarrow> vga" where
  "next_line st =
     (let st = st\<lparr>vx := 0\<rparr>; st = st\<lparr>vy := vy st + 1\<rparr>
      in if vy st \<ge> VGA_H then vscroll st else st)"

definition vpc :: "char \<Rightarrow> vga \<Rightarrow> vga" where
  "vpc c st = vga_update_hw_cursor
     (if c = CHR 0x0A then next_line st
      else if c = CHR 0x0D then st\<lparr>vx := 0\<rparr>
      else if c = CHR 0x08 then
        (if vx st > 0 then (let st = st\<lparr>vx := vx st - 1\<rparr> in vat CHR '' '' (vc st) (vx st) (vy st) st)
         else st)
      else if c = CHR 0x09 then
        (let st = st\<lparr>vx := (vx st + 8) AND NOT 7\<rparr> in if vx st \<ge> VGA_W then next_line st else st)
      else
        (let st = vat c (vc st) (vx st) (vy st) st; st = st\<lparr>vx := vx st + 1\<rparr>
         in if vx st \<ge> VGA_W then next_line st else st))"

text \<open>The array \<open>pipe_buf\<close> is kept in two parts: the \<open>pipe_buf_len\<close> bytes written by the pipeline
  that runs, and \<open>pipe_tail\<close>, what earlier pipelines have left behind them; the bytes after both are
  0. Writing never stores a terminating NUL.\<close>

definition pipe_put :: "string \<Rightarrow> vga \<Rightarrow> vga" where
  "pipe_put s st =
     (let t = take (4095 - length (pipe_buf st)) s
      in st\<lparr>pipe_buf := pipe_buf st @ t, pipe_tail := drop (length t) (pipe_tail st)\<rparr>)"

definition vps :: "string \<Rightarrow> vga \<Rightarrow> vga" where
  "vps s st = (if pipe_active st then pipe_put s st else fold vpc s st)"

definition vpln :: "string \<Rightarrow> vga \<Rightarrow> vga" where
  "vpln s st =
     (let st = vps s st in
      if \<not> pipe_active st then vpc CHR 0x0A st
      else if length (pipe_buf st) < 4095 then pipe_put [CHR 0x0A] st
      else st)"

text \<open>What the start of a pipeline does to the buffer, and the C string it holds.\<close>

definition pipe_open :: "vga \<Rightarrow> vga" where
  "pipe_open st =
     st\<lparr>pipe_buf := [],
        pipe_tail := (case pipe_buf st @ pipe_tail st of [] \<Rightarrow> [] | _ # r \<Rightarrow> CHR 0x00 # r)\<rparr>"

definition pipe_str :: "vga \<Rightarrow> string" where
  "pipe_str st = takeWhile (\<lambda>c. c \<noteq> CHR 0x00) (pipe_buf st @ pipe_tail st)"

definition vclear :: "vga \<Rightarrow> vga" where
  "vclear = vga_init"

fun vstr :: "int \<Rightarrow> int \<Rightarrow> u8 \<Rightarrow> string \<Rightarrow> vga \<Rightarrow> vga" where
  "vstr x y col [] st = st"
| "vstr x y col (c # s) st = vstr (x + 1) y col s (vat c col x y st)"

definition vitoa :: "int \<Rightarrow> string option" where
  "vitoa n = (if n = -(2 ^ 31) then None else Some (kia_str n))"

subsection \<open>Boxes\<close>

abbreviation "CH_TL \<equiv> CHR 0xC9"
abbreviation "CH_TR \<equiv> CHR 0xBB"
abbreviation "CH_BL \<equiv> CHR 0xC8"
abbreviation "CH_BR \<equiv> CHR 0xBC"
abbreviation "CH_H \<equiv> CHR 0xCD"
abbreviation "CH_V \<equiv> CHR 0xBA"
abbreviation "CH_ML \<equiv> CHR 0xCC"
abbreviation "CH_MR \<equiv> CHR 0xB9"
abbreviation "CH_STL \<equiv> CHR 0xDA"
abbreviation "CH_STR \<equiv> CHR 0xBF"
abbreviation "CH_SH \<equiv> CHR 0xC4"
abbreviation "CH_BLOCK \<equiv> CHR 0xDB"

text \<open>The title loop \<open>for(i=0;i<tl&&tx+i<x+w-4;i++)\<close> of the window frame.\<close>

fun title_loop :: "int \<Rightarrow> int \<Rightarrow> int \<Rightarrow> u8 \<Rightarrow> string \<Rightarrow> vga \<Rightarrow> vga" where
  "title_loop tx y lim col [] st = st"
| "title_loop tx y lim col (c # s) st =
     (if tx < lim then title_loop (tx + 1) y lim col s (vat c col tx y st) else st)"

definition vbox_win10 ::
    "int \<Rightarrow> int \<Rightarrow> int \<Rightarrow> int \<Rightarrow> u8 \<Rightarrow> string option \<Rightarrow> bool \<Rightarrow> vga \<Rightarrow> vga"
where
  "vbox_win10 x y w h title_bg title focused =
     (let shadow = COL C_DGREY C_DGREY;
          tb1 = (if focused then COL C_WHITE C_BLUE else COL C_LGREY C_DGREY);
          tb2 = (if focused then COL C_LCYAN C_BLUE else COL C_DGREY C_DGREY);
          bc = (if focused then COL C_LBLUE C_LBLUE else COL C_DGREY C_DGREY)
      in
        seqs [fold (\<lambda>r. vat CH_BLOCK shadow (x + w) (y + r)) [1 .. h - 1],
        fold (\<lambda>c. vat CH_BLOCK shadow (x + c) (y + h)) [1 .. w],
        vfill x y w h CHR '' '' (COL C_WHITE C_BLACK),
        vfill x y w 1 CHR '' '' tb1,
        vfill x (y + 1) w 1 CHR '' '' tb1,
        vfill x (y + 2) w 1 CHR '' '' tb2,
        (case title of None \<Rightarrow> id | Some t \<Rightarrow> title_loop (x + 1) (y + 1) (x + w - 4) tb1 t),
        (if w \<ge> 8 then
           seqs [vat CH_SH (COL C_WHITE C_DGREY) (x + w - 7) (y + 1),
           vat CHR '' '' (COL C_WHITE C_DGREY) (x + w - 6) (y + 1),
           vat CH_STL (COL C_WHITE C_DGREY) (x + w - 5) (y + 1),
           vat CH_STR (COL C_WHITE C_DGREY) (x + w - 4) (y + 1),
           vat CHR '' '' (COL C_WHITE C_DGREY) (x + w - 3) (y + 1),
           vat CHR ''X'' (COL C_WHITE C_LRED) (x + w - 2) (y + 1),
           vat CHR '' '' (COL C_WHITE C_LRED) (x + w - 1) (y + 1)]
         else id),
        fold (\<lambda>r. vat CHR '' '' bc (x - 1) r) [y .. y + h - 1],
        fold (\<lambda>r. vat CHR '' '' bc (x + w) r) [y .. y + h - 1],
        fold (\<lambda>c. vat CHR '' '' bc c (y + h)) [x .. x + w - 1]])"

definition vbox ::
    "int \<Rightarrow> int \<Rightarrow> int \<Rightarrow> int \<Rightarrow> u8 \<Rightarrow> u8 \<Rightarrow> string option \<Rightarrow> vga \<Rightarrow> vga"
where
  "vbox x y w h bc tc title =
     seqs [vfill (x + 1) (y + 1) (w - 2) (h - 2) CHR '' '' (COL C_WHITE C_BLACK),
     vat CH_TL bc x y,
     fold (\<lambda>i. vat CH_H bc (x + i) y) [1 .. w - 2],
     vat CH_TR bc (x + w - 1) y,
     vfill (x + 1) (y + 1) (w - 2) 1 CHR '' '' tc,
     (case title of None \<Rightarrow> id
      | Some t \<Rightarrow> vstr (x + 1 + c_div (w - 2 - int (length t)) 2) (y + 1) tc t),
     vat CHR ''['' tc (x + w - 4) (y + 1),
     vat CHR ''X'' (COL C_WHITE C_RED) (x + w - 3) (y + 1),
     vat CHR '']'' tc (x + w - 2) (y + 1),
     vat CH_ML bc x (y + 2),
     fold (\<lambda>i. vat CH_H bc (x + i) (y + 2)) [1 .. w - 2],
     vat CH_MR bc (x + w - 1) (y + 2),
     fold (\<lambda>r. seqs [vat CH_V bc x (y + r), vat CH_V bc (x + w - 1) (y + r)]) [3 .. h - 2],
     vat CH_BL bc x (y + h - 1),
     fold (\<lambda>i. vat CH_H bc (x + i) (y + h - 1)) [1 .. w - 2],
     vat CH_BR bc (x + w - 1) (y + h - 1)]"

subsection \<open>The console inside the kernel's state\<close>

record kst =
  con :: vga

definition pr :: "(vga \<Rightarrow> vga) \<Rightarrow> 'a kst_scheme \<Rightarrow> 'a kst_scheme" where
  "pr f st = st\<lparr>con := f (con st)\<rparr>"

lemma pr_simps [simp]: "con (pr f st) = f (con st)" "kst.more (pr f st) = kst.more st"
  by (simp_all add: pr_def)

lemma pr_pr [simp]: "pr g (pr f st) = pr (seqs [f, g]) st"
  by (simp add: pr_def)

section \<open>Drawing stays on the screen\<close>

text \<open>An operation that only draws: it stores into the 2000 cells of the screen and changes
  nothing else.\<close>

definition draws :: "(vga \<Rightarrow> vga) \<Rightarrow> bool" where
  "draws f \<longleftrightarrow> (\<forall>st. f st = st\<lparr>VGA_MEM := VGA_MEM (f st)\<rparr> \<and>
     (\<forall>a \<ge> 2000. VGA_MEM (f st) a = VGA_MEM st a))"

lemma draws_id [inv_intros]: "draws id"
  by (simp add: draws_def)

lemma draws_comp:
  assumes "draws f" "draws g"
  shows "draws (\<lambda>st. g (f st))"
  unfolding draws_def
proof (intro allI)
  fix st :: vga
  have f: "f st = st\<lparr>VGA_MEM := VGA_MEM (f st)\<rparr>" and fa: "\<forall>a \<ge> 2000. VGA_MEM (f st) a = VGA_MEM st a"
    using assms(1) unfolding draws_def by blast+
  have g: "g (f st) = (f st)\<lparr>VGA_MEM := VGA_MEM (g (f st))\<rparr>"
    and ga: "\<forall>a \<ge> 2000. VGA_MEM (g (f st)) a = VGA_MEM (f st) a"
    using assms(2) unfolding draws_def by blast+
  have "(f st)\<lparr>VGA_MEM := VGA_MEM (g (f st))\<rparr> = st\<lparr>VGA_MEM := VGA_MEM (g (f st))\<rparr>"
    by (subst f) simp
  then show "g (f st) = st\<lparr>VGA_MEM := VGA_MEM (g (f st))\<rparr> \<and>
      (\<forall>a \<ge> 2000. VGA_MEM (g (f st)) a = VGA_MEM st a)"
    using g fa ga by simp
qed

lemma draws_seqs [inv_intros]:
  "draws (seqs [])" "draws f \<Longrightarrow> draws (seqs fs) \<Longrightarrow> draws (seqs (f # fs))"
proof -
  show "draws (seqs [])" by (simp add: draws_def)
  have *: "seqs (f # fs) = (\<lambda>st. seqs fs (f st))" by (simp add: fun_eq_iff)
  show "draws f \<Longrightarrow> draws (seqs fs) \<Longrightarrow> draws (seqs (f # fs))"
    unfolding * by (rule draws_comp)
qed

lemma draws_fold [inv_intros]: "(\<And>x. draws (f x)) \<Longrightarrow> draws (fold f xs)"
proof (induction xs)
  case (Cons x xs)
  have *: "fold f (x # xs) = (\<lambda>st. fold f xs (f x st))" by (simp add: fun_eq_iff)
  show ?case unfolding * by (rule draws_comp) (use Cons in auto)
qed (simp add: draws_def)

lemma draws_if [inv_intros]: "draws f \<Longrightarrow> draws g \<Longrightarrow> draws (if b then f else g)"
  by simp

lemma cell_bound: "on_screen x y \<Longrightarrow> cell x y < 2000"
  by (simp add: on_screen_def cell_def) linarith

lemma draws_vat [inv_intros]: "draws (vat c col x y)"
  using cell_bound[of x y] by (auto simp: draws_def vat_def)

lemma draws_vfill [inv_intros]: "draws (vfill x y w h ch col)"
  unfolding vfill_def by (intro inv_intros)

lemma draws_vstr [inv_intros]: "draws (vstr x y col s)"
proof (induction s arbitrary: x)
  case Nil
  then show ?case by (simp add: draws_def)
next
  case (Cons c s)
  have *: "vstr x y col (c # s) = seqs [vat c col x y, vstr (x + 1) y col s]"
    by (simp add: fun_eq_iff)
  show ?case unfolding * using Cons by (intro inv_intros)
qed

lemma draws_title_loop [inv_intros]: "draws (title_loop tx y lim col s)"
proof (induction s arbitrary: tx)
  case Nil
  then show ?case by (simp add: draws_def)
next
  case (Cons c s)
  have *: "title_loop tx y lim col (c # s) =
      (if tx < lim then seqs [vat c col tx y, title_loop (tx + 1) y lim col s] else id)"
    by (simp add: fun_eq_iff)
  show ?case unfolding * using Cons by (intro inv_intros)
qed

lemma draws_option [inv_intros]:
  "draws f \<Longrightarrow> (\<And>t. draws (g t)) \<Longrightarrow> draws (case x of None \<Rightarrow> f | Some t \<Rightarrow> g t)"
  by (cases x) simp_all

lemma draws_vbox_win10 [inv_intros]: "draws (vbox_win10 x y w h bg title focused)"
  unfolding vbox_win10_def Let_def by (intro inv_intros)

lemma draws_vbox [inv_intros]: "draws (vbox x y w h bc tc title)"
  unfolding vbox_def by (intro inv_intros)

section \<open>Scrolling\<close>

lemma fold_row:
  assumes "k \<le> 80"
  shows "fold (\<lambda>c m. m(d * 80 + c := f c)) [0 ..< k] m a =
    (if d * 80 \<le> a \<and> a < d * 80 + k then f (a - d * 80) else m a)"
  using assms by (induction k arbitrary: a) auto

lemma fill_row_at:
  "fill_row d f m a = (if a div 80 = d then f (a mod 80) else m a)"
proof -
  have "d * 80 \<le> a \<and> a < d * 80 + 80 \<longleftrightarrow> a div 80 = d" by auto
  moreover have "a div 80 = d \<Longrightarrow> a - d * 80 = a mod 80"
    by (simp add: modulo_nat_def mult.commute)
  ultimately show ?thesis
    unfolding fill_row_def by (simp add: fold_row)
qed

lemma copy_row_fold:
  assumes "k \<le> 80" "d \<noteq> s"
  shows "fold (\<lambda>c m. m(d * 80 + c := m (s * 80 + c))) [0 ..< k] m =
    fold (\<lambda>c m'. m'(d * 80 + c := m (s * 80 + c))) [0 ..< k] m"
  using assms(1)
proof (induction k)
  case (Suc k)
  have "\<not> (d * 80 \<le> s * 80 + k \<and> s * 80 + k < d * 80 + k)"
    using Suc.prems assms(2) by (cases "d < s") auto
  then have "fold (\<lambda>c m'. m'(d * 80 + c := m (s * 80 + c))) [0 ..< k] m (s * 80 + k) =
      m (s * 80 + k)"
    using Suc.prems by (subst fold_row) auto
  then show ?case
    using Suc by (simp del: fun_upd_apply)
qed simp

lemma copy_row_at:
  assumes "d \<noteq> s"
  shows "copy_row d s m a = (if a div 80 = d then m (s * 80 + a mod 80) else m a)"
  unfolding copy_row_def copy_row_fold[OF order_refl assms]
  using fill_row_at[of d "\<lambda>c. m (s * 80 + c)" m a] by (simp add: fill_row_def)

lemma row_div: "c < 80 \<Longrightarrow> (r * 80 + c) div 80 = r" for r c :: nat
  by simp

text \<open>The loop that moves rows up, and the one that moves rows down, from the bottom.\<close>

lemma rows_up:
  "fold (\<lambda>r. copy_row (r - 1) r) [1 ..< Suc k] m a =
     (if a div 80 < k then m (a + 80) else m a)"
proof (induction k arbitrary: a)
  case (Suc k)
  let ?m = "fold (\<lambda>r. copy_row (r - 1) r) [1 ..< Suc k] m"
  have "fold (\<lambda>r. copy_row (r - 1) r) [1 ..< Suc (Suc k)] m = copy_row k (Suc k) ?m"
    by simp
  moreover have "a div 80 = k \<Longrightarrow> Suc k * 80 + a mod 80 = a + 80"
    using div_mult_mod_eq[of a 80] by auto
  ultimately show ?case
    using Suc.IH[of a] Suc.IH[of "Suc k * 80 + a mod 80"]
    by (auto simp: copy_row_at simp del: upt_Suc)
qed simp

lemma rows_down:
  "fold (\<lambda>r. copy_row r (r - 1)) (rev [1 ..< Suc k]) m a =
     (if 0 < a div 80 \<and> a div 80 \<le> k then m (a - 80) else m a)"
proof (induction k arbitrary: m)
  case (Suc k)
  have d: "a div 80 = Suc k \<Longrightarrow> k * 80 + a mod 80 = a - 80"
    using div_mult_mod_eq[of a 80] by linarith
  have *: "fold (\<lambda>r. copy_row r (r - 1)) (rev [1 ..< Suc (Suc k)]) m =
      fold (\<lambda>r. copy_row r (r - 1)) (rev [1 ..< Suc k]) (copy_row (Suc k) k m)"
    by simp
  show ?case
    unfolding * Suc.IH using d by (auto simp: copy_row_at)
qed auto

text \<open>The invariant of the driver: cursor on the screen, ring indices in range, pipe buffer
  inside its 4096 bytes.\<close>

definition vga_ok :: "vga \<Rightarrow> bool" where
  "vga_ok st \<longleftrightarrow> 0 \<le> vx st \<and> vx st < VGA_W \<and> 0 \<le> vy st \<and> vy st < VGA_H \<and>
     0 \<le> scrollback_pos st \<and> scrollback_pos st < SCROLLBACK_LINES \<and>
     0 \<le> scrollback_count st \<and> scrollback_count st \<le> SCROLLBACK_LINES \<and>
     length (pipe_buf st) + length (pipe_tail st) \<le> 4095"

lemma update_hw_cursor_sel [simp]:
  "vx (vga_update_hw_cursor st) = vx st" "vy (vga_update_hw_cursor st) = vy st"
  "vc (vga_update_hw_cursor st) = vc st" "VGA_MEM (vga_update_hw_cursor st) = VGA_MEM st"
  "scrollback (vga_update_hw_cursor st) = scrollback st"
  "scrollback_pos (vga_update_hw_cursor st) = scrollback_pos st"
  "scrollback_count (vga_update_hw_cursor st) = scrollback_count st"
  "pipe_buf (vga_update_hw_cursor st) = pipe_buf st" "pipe_tail (vga_update_hw_cursor st) = pipe_tail st"
  "pipe_active (vga_update_hw_cursor st) = pipe_active st"
  "vga_cursor_enabled (vga_update_hw_cursor st) = vga_cursor_enabled st"
  by (simp_all add: vga_update_hw_cursor_def outb_def Let_def)

lemma vat_sel [simp]:
  "vx (vat c col x y st) = vx st" "vy (vat c col x y st) = vy st" "vc (vat c col x y st) = vc st"
  "scrollback (vat c col x y st) = scrollback st"
  "scrollback_pos (vat c col x y st) = scrollback_pos st"
  "scrollback_count (vat c col x y st) = scrollback_count st"
  "pipe_buf (vat c col x y st) = pipe_buf st" "pipe_tail (vat c col x y st) = pipe_tail st" "pipe_active (vat c col x y st) = pipe_active st"
  "vga_cursor_enabled (vat c col x y st) = vga_cursor_enabled st"
  by (simp_all add: vat_def)

lemma save_line_sel [simp]:
  "vx (save_line l st) = vx st" "vy (save_line l st) = vy st" "vc (save_line l st) = vc st"
  "VGA_MEM (save_line l st) = VGA_MEM st" "pipe_buf (save_line l st) = pipe_buf st" "pipe_tail (save_line l st) = pipe_tail st"
  "pipe_active (save_line l st) = pipe_active st"
  "vga_cursor_enabled (save_line l st) = vga_cursor_enabled st"
  by (simp_all add: save_line_def Let_def)

lemma vscroll_sel [simp]:
  "vx (vscroll st) = vx st" "vy (vscroll st) = 24" "vc (vscroll st) = vc st"
  "pipe_buf (vscroll st) = pipe_buf st" "pipe_tail (vscroll st) = pipe_tail st" "pipe_active (vscroll st) = pipe_active st"
  "vga_cursor_enabled (vscroll st) = vga_cursor_enabled st"
  "scrollback (vscroll st) = scrollback (save_line (VGA_MEM st) st)"
  "scrollback_pos (vscroll st) = scrollback_pos (save_line (VGA_MEM st) st)"
  "scrollback_count (vscroll st) = scrollback_count (save_line (VGA_MEM st) st)"
  by (simp_all add: vscroll_def Let_def)

lemma save_line_pos:
  "0 \<le> scrollback_pos st \<Longrightarrow> scrollback_pos (save_line l st) = (scrollback_pos st + 1) mod 100"
  by (simp add: save_line_def Let_def c_mod_nonneg)

lemma save_line_count:
  "scrollback_count (save_line l st) =
     (if scrollback_count st < 100 then scrollback_count st + 1 else scrollback_count st)"
  by (simp add: save_line_def Let_def)

lemma save_line_ok [inv_intros]: "vga_ok st \<Longrightarrow> vga_ok (save_line l st)"
  by (auto simp: vga_ok_def save_line_count save_line_pos)

text \<open>What a scroll does to the screen: every row moves up, the last one is blank.\<close>

lemma vscroll_mem:
  "VGA_MEM (vscroll st) a =
     (if a div 80 < 24 then VGA_MEM st (a + 80)
      else if a div 80 = 24 then ENT CHR '' '' (vc st) else VGA_MEM st a)"
proof -
  have "fold (\<lambda>r. copy_row (r - 1) r) [1 ..< 25] m a = (if a div 80 < 24 then m (a + 80) else m a)"
    for m
    using rows_up[of 24 m a] by simp
  then show ?thesis
    by (simp add: vscroll_def Let_def fill_row_at)
qed

lemma next_line_ok:
  assumes "vga_ok (st\<lparr>vx := 0\<rparr>)"
  shows "vga_ok (next_line st)"
  using assms by (auto simp: next_line_def Let_def vga_ok_def save_line_pos save_line_count)

lemma tab_stop: "0 \<le> x \<Longrightarrow> x < 80 \<Longrightarrow> 0 \<le> (x + 8) AND NOT (7 :: int)"
  by simp

lemma vpc_ok [inv_intros]:
  assumes "vga_ok st"
  shows "vga_ok (vpc c st)"
proof -
  have nl: "vga_ok (next_line s)" if "s\<lparr>vx := 0\<rparr> = t\<lparr>vx := 0\<rparr>" "vga_ok t" for s t
    using that by (intro next_line_ok) (simp add: vga_ok_def)
  have up: "vga_ok (vga_update_hw_cursor s) = vga_ok s" for s
    by (simp add: vga_ok_def)
  let ?t = "st\<lparr>vx := (vx st + 8) AND NOT 7\<rparr>"
  let ?p = "vat c (vc st) (vx st) (vy st) st"
  have "vga_ok ?p"
    using assms by (simp add: vga_ok_def)
  then show ?thesis
    using assms nl[of st st] nl[of ?t st] nl[of "?p\<lparr>vx := vx ?p + 1\<rparr>" ?p]
    by (auto simp: vpc_def Let_def up) (auto simp: vga_ok_def)
qed

lemma vpc_pipe [simp]: "pipe_active (vpc c st) = pipe_active st" "pipe_buf (vpc c st) = pipe_buf st" "pipe_tail (vpc c st) = pipe_tail st"
  by (simp_all add: vpc_def next_line_def Let_def)

lemma vpc_cursor_enabled [simp]: "vga_cursor_enabled (vpc c st) = vga_cursor_enabled st"
  by (simp add: vpc_def next_line_def Let_def)

lemma fold_vpc_ok: "vga_ok st \<Longrightarrow> vga_ok (fold vpc s st)"
  by (rule fold_inv[where I = vga_ok]) (auto intro: vpc_ok)

lemma pipe_put_ok [inv_intros]: "vga_ok st \<Longrightarrow> vga_ok (pipe_put s st)"
  by (auto simp: pipe_put_def vga_ok_def Let_def)

lemma pipe_open_ok [inv_intros]: "vga_ok st \<Longrightarrow> vga_ok (pipe_open st)"
  by (auto simp: pipe_open_def vga_ok_def length_append [symmetric] simp del: length_append split: list.splits)

lemma pipe_put_active [simp]: "pipe_active (pipe_put s st) = pipe_active st" "VGA_MEM (pipe_put s st) = VGA_MEM st"
  by (simp_all add: pipe_put_def Let_def)

lemma vps_ok [inv_intros]: "vga_ok st \<Longrightarrow> vga_ok (vps s st)"
  by (simp add: vps_def pipe_put_ok fold_vpc_ok)

lemma fold_vpc_pipe [simp]: "pipe_active (fold vpc s st) = pipe_active st"
  by (induction s arbitrary: st) auto

lemma vps_pipe [simp]: "pipe_active (vps s st) = pipe_active st"
  by (simp add: vps_def)

lemma vpln_ok [inv_intros]: "vga_ok st \<Longrightarrow> vga_ok (vpln s st)"
  using vps_ok[of st s] by (auto simp: vpln_def Let_def intro: vpc_ok pipe_put_ok)

lemma vset_ok [inv_intros]: "vga_ok st \<Longrightarrow> vga_ok (vset fg bg st)"
  by (simp add: vset_def vga_ok_def)

lemma vrst_ok [inv_intros]: "vga_ok st \<Longrightarrow> vga_ok (vrst st)"
  by (simp add: vrst_def vga_ok_def)

lemma vga_init_ok [inv_intros]: "vga_ok st \<Longrightarrow> vga_ok (vga_init st)"
  by (simp add: vga_init_def vga_enable_cursor_def outb_def Let_def vga_ok_def)

section \<open>The screen as rows and the scrollback as a log of rows\<close>

definition row :: "nat \<Rightarrow> vga \<Rightarrow> u16 list" where
  "row r st = map (\<lambda>c. VGA_MEM st (r * 80 + c)) [0 ..< 80]"

definition rows :: "vga \<Rightarrow> u16 list list" where
  "rows st = map (\<lambda>r. row r st) [0 ..< 25]"

definition sb_lines :: "vga \<Rightarrow> u16 list list" where
  "sb_lines st = ring_list (\<lambda>i. map (scrollback st (int i)) [0 ..< 80]) 100
     (nat (scrollback_pos st)) (nat (scrollback_count st))"

definition put_line :: "u16 list \<Rightarrow> vga \<Rightarrow> vga" where
  "put_line l = save_line (\<lambda>c. l ! c)"

lemma save_line_scrollback:
  "scrollback (save_line l st) =
     (scrollback st)(scrollback_pos st :=
        (\<lambda>c. if c < 80 then l c else scrollback st (scrollback_pos st) c))"
  using fold_row[of 80 0 l "scrollback st (scrollback_pos st)"]
  by (simp add: save_line_def Let_def fun_eq_iff)

lemma sb_lines_save:
  assumes "vga_ok st"
  shows "sb_lines (save_line l st) = last_n 100 (sb_lines st @ [map l [0 ..< 80]])"
proof -
  let ?p = "nat (scrollback_pos st)" and ?c = "nat (scrollback_count st)"
  let ?b = "\<lambda>i. map (scrollback st (int i)) [0 ..< 80]"
  have b: "(\<lambda>i. map (scrollback (save_line l st) (int i)) [0 ..< 80]) =
      ?b(?p := map l [0 ..< 80])"
    using assms by (auto simp: save_line_scrollback vga_ok_def fun_eq_iff)
  have p: "nat (scrollback_pos (save_line l st)) = (?p + 1) mod 100"
    using assms by (simp add: save_line_pos vga_ok_def nat_mod_distrib nat_add_distrib)
  have c: "nat (scrollback_count (save_line l st)) = (if ?c < 100 then ?c + 1 else ?c)"
    using assms by (auto simp: save_line_count vga_ok_def)
  show ?thesis
    unfolding sb_lines_def b p c
    using assms by (intro ring_put) (auto simp: vga_ok_def)
qed

interpretation sb: ring_log 100 put_line sb_lines vga_ok "\<lambda>l. length l = 80"
proof unfold_locales
  show "vga_ok (put_line e s)" if "vga_ok s" "length e = 80" for s e
    using that by (simp add: put_line_def save_line_ok)
  show "sb_lines (put_line e s) = last_n 100 (sb_lines s @ [e])"
    if "vga_ok s" "length e = 80" for s e
  proof -
    have "map ((!) e) [0 ..< 80] = e" using map_nth[of e] that(2) by simp
    then show ?thesis using sb_lines_save[OF that(1), of "(!) e"] by (simp add: put_line_def)
  qed
  show "length (sb_lines s) \<le> 100" if "vga_ok s" for s
    using that by (simp add: sb_lines_def vga_ok_def nat_le_iff)
qed

lemma rows_vscroll:
  "rows (vscroll st) = tl (rows st) @ [replicate 80 (ENT CHR '' '' (vc st))]"
proof -
  have r: "row r (vscroll st) = row (Suc r) st" if "r < 24" for r
    using that by (simp add: row_def vscroll_mem add.commute add.left_commute)
  have "row 24 (vscroll st) = replicate 80 (ENT CHR '' '' (vc st))"
    using row_div[of _ 24] by (intro nth_equalityI) (simp_all add: row_def vscroll_mem)
  moreover have "rows s = map (\<lambda>r. row r s) [0 ..< 24] @ [row 24 s]" for s
    using upt_Suc_append[of 0 24] by (simp add: rows_def)
  moreover have "tl (rows st) = map (\<lambda>r. row (Suc r) st) [0 ..< 24]"
    by (simp add: rows_def map_Suc_upt [symmetric] comp_def upt_conv_Cons[of 0 25] numeral_eq_Suc)
  ultimately show ?thesis
    using r by simp
qed

lemma sb_lines_vscroll:
  assumes "vga_ok st"
  shows "sb_lines (vscroll st) = last_n 100 (sb_lines st @ [hd (rows st)])"
proof -
  have "sb_lines (vscroll st) = sb_lines (save_line (VGA_MEM st) st)"
    by (simp add: sb_lines_def)
  moreover have "hd (rows st) = map (VGA_MEM st) [0 ..< 80]"
    by (simp add: rows_def row_def hd_map)
  ultimately show ?thesis
    using sb_lines_save[OF assms] by simp
qed

lemma row_vscroll_up:
  assumes "scrollback_count st \<noteq> 0"
  shows "r < 24 \<Longrightarrow> row (Suc r) (vscroll_up st) = row r st"
    and "vga_ok st \<Longrightarrow> row 0 (vscroll_up st) = hd (sb_lines st)"
proof -
  let ?i = "c_mod (scrollback_pos st - scrollback_count st + 100) 100"
  let ?j = "if ?i < 0 then ?i + 100 else ?i"
  have m: "VGA_MEM (vscroll_up st) a =
      (if a div 80 = 0 then scrollback st ?j (a mod 80)
       else if a div 80 \<le> 24 then VGA_MEM st (a - 80) else VGA_MEM st a)" for a
    using assms rows_down[of 24 "VGA_MEM st" a]
    by (simp add: vscroll_up_def Let_def fill_row_at)
  show "row (Suc r) (vscroll_up st) = row r st" if "r < 24"
    using that by (simp add: row_def m) (auto simp: add.commute)
  assume ok: "vga_ok st"
  then have "?i = (scrollback_pos st - scrollback_count st + 100) mod 100"
    by (simp add: c_mod_nonneg vga_ok_def)
  then have i: "?j = (scrollback_pos st - scrollback_count st + 100) mod 100"
    by simp
  have "int (100 - nat (scrollback_count st)) = 100 - scrollback_count st"
    using ok by (simp add: vga_ok_def of_nat_diff nat_le_iff)
  then have "int ((nat (scrollback_pos st) + (100 - nat (scrollback_count st))) mod 100) = ?j"
    using ok unfolding i by (simp add: vga_ok_def of_nat_mod algebra_simps)
  moreover have "nat (scrollback_count st) \<noteq> 0"
    using ok assms by (simp add: vga_ok_def)
  ultimately have "hd (sb_lines st) = map (scrollback st ?j) [0 ..< 80]"
    by (simp add: sb_lines_def ring_list_def hd_map)
  then show "row 0 (vscroll_up st) = hd (sb_lines st)"
    by (simp add: row_def m)
qed

lemma vscroll_up_sel [simp]:
  "scrollback (vscroll_up st) = scrollback st" "scrollback_pos (vscroll_up st) = scrollback_pos st"
  "scrollback_count (vscroll_up st) = scrollback_count st" "vx (vscroll_up st) = vx st"
  "pipe_buf (vscroll_up st) = pipe_buf st" "pipe_tail (vscroll_up st) = pipe_tail st"
  by (simp_all add: vscroll_up_def Let_def)

lemma vscroll_up_ok [inv_intros]: "vga_ok st \<Longrightarrow> vga_ok (vscroll_up st)"
  by (auto simp: vga_ok_def vscroll_up_def Let_def)

lemma vscroll_down_ok [inv_intros]: "vga_ok st \<Longrightarrow> vga_ok (vscroll_down st)"
  by (auto simp: vga_ok_def vscroll_down_def Let_def)

lemma vcursor_left_ok [inv_intros]: "vga_ok st \<Longrightarrow> vga_ok (vcursor_left st)"
  by (auto simp: vga_ok_def vcursor_left_def)

lemma vcursor_right_ok [inv_intros]: "vga_ok st \<Longrightarrow> vga_ok (vcursor_right st)"
  by (auto simp: vga_ok_def vcursor_right_def Let_def)

lemma scroll_loop_up_row:
  assumes "vga_ok st" "scrollback_count st \<noteq> 0" "k \<le> 25" "r < k"
  shows "row r (scroll_loop vscroll_up k st) = hd (sb_lines st)"
proof -
  have "row r (scroll_loop vscroll_up k st) = hd (sb_lines st)"
    if "vga_ok st" "sb_lines st = l" "scrollback_count st \<noteq> 0" "k \<le> 25" "r < k \<or> row (r - k) st = hd l"
    "r < 25" for l
    using that
  proof (induction k arbitrary: st)
    case (Suc k)
    have pos: "scrollback_count st > 0"
      using Suc.prems by (simp add: vga_ok_def)
    have sb: "sb_lines (vscroll_up st) = l"
      using Suc.prems by (simp add: sb_lines_def)
    have "r < k \<or> row (r - k) (vscroll_up st) = hd l"
    proof (cases "r < k")
      case False
      then show ?thesis
        using Suc.prems row_vscroll_up(1)[OF Suc.prems(3), of "r - Suc k"]
          row_vscroll_up(2)[OF Suc.prems(3)]
        by (cases "r = k") (auto simp: Suc_diff_Suc [symmetric] not_less)
    qed simp
    then show ?case
      using Suc.IH[of "vscroll_up st"] Suc.prems pos sb by (simp add: vscroll_up_ok)
  qed simp
  then show ?thesis using assms by simp
qed

section \<open>Printing and the hardware cursor\<close>

lemma cursor_bytes:
  fixes pos :: u16
  shows "256 * unat (ucast (drop_bit 8 pos) :: u8) + unat (ucast (pos AND 0xFF) :: u8) = unat pos"
proof -
  have "pos AND 0xFF = take_bit 8 pos"
    by (simp add: take_bit_eq_mask mask_numeral)
  then have lo: "unat (ucast (pos AND 0xFF) :: u8) = unat pos mod 256"
    by (simp add: unsigned_ucast_eq unsigned_take_bit_eq take_bit_nat_def)
  have "unat pos < 2 ^ 16" using unsigned_less[of pos, where ?'a = nat] by simp
  then have hi: "unat (ucast (drop_bit 8 pos) :: u8) = unat pos div 256"
    by (simp add: unsigned_ucast_eq unsigned_drop_bit_eq take_bit_nat_def drop_bit_nat_def
        less_mult_imp_div_less)
  show ?thesis unfolding lo hi by simp
qed

text \<open>The last four port writes place the cursor at cell \<open>n\<close>.\<close>

definition cursor_at :: "nat \<Rightarrow> vga \<Rightarrow> bool" where
  "cursor_at n st \<longleftrightarrow> (\<exists>hi lo rest.
     port_writes st = (VGA_PORT_DATA, hi) # (VGA_PORT_IDX, 0x0E) #
                      (VGA_PORT_DATA, lo) # (VGA_PORT_IDX, 0x0F) # rest \<and>
     256 * unat hi + unat lo = n)"

lemma cursor_at_update:
  assumes "vga_ok st" "vga_cursor_enabled st"
  shows "cursor_at (nat (vy st * 80 + vx st)) (vga_update_hw_cursor st)"
proof -
  have b: "0 \<le> vy st * 80 + vx st" "vy st * 80 + vx st < 2 ^ 16"
    using assms by (auto simp: vga_ok_def)
  then have "unat (cursor_cell st) = nat (vy st * 80 + vx st)"
    by (simp only: cursor_cell_def unsigned_of_int take_bit_int_def) simp
  then show ?thesis
    using assms(2) cursor_bytes[of "cursor_cell st"]
    by (simp add: cursor_at_def vga_update_hw_cursor_def outb_def Let_def)
qed

lemma vpc_frame: "a \<ge> 2000 \<Longrightarrow> VGA_MEM (vpc c st) a = VGA_MEM st a"
proof -
  assume a: "a \<ge> 2000"
  have sc: "VGA_MEM (vscroll s) a = VGA_MEM s a" for s
    using a by (auto simp: vscroll_mem)
  have at: "VGA_MEM (vat d col x y s) a = VGA_MEM s a" for d col x y s
    using draws_vat[of d col x y] a by (simp add: draws_def)
  show ?thesis
    by (auto simp: vpc_def next_line_def Let_def sc at)
qed

lemma fold_vpc_frame: "a \<ge> 2000 \<Longrightarrow> VGA_MEM (fold vpc s st) a = VGA_MEM st a"
  by (induction s arbitrary: st) (auto simp: vpc_frame)

lemma vpc_as_update: "\<exists>t. vpc c st = vga_update_hw_cursor t"
  unfolding vpc_def by blast

lemma vpc_cursor_at:
  assumes "vga_ok st" "vga_cursor_enabled st"
  shows "cursor_at (nat (vy (vpc c st) * 80 + vx (vpc c st))) (vpc c st)"
proof -
  obtain t where t: "vpc c st = vga_update_hw_cursor t"
    using vpc_as_update by blast
  have "vga_ok t" "vga_cursor_enabled t"
    using vpc_ok[OF assms(1), of c] assms(2) vpc_cursor_enabled[of c st]
    unfolding t by (simp_all add: vga_ok_def)
  then show ?thesis
    unfolding t using cursor_at_update[of t] by simp
qed

section \<open>Properties\<close>

text \<open>C10: printing a string keeps the driver's invariant (cursor on the screen, ring indices in
  range, pipe buffer inside its array), never stores outside the 2000 cells of the screen, and
  leaves the hardware cursor, when it is enabled and something was printed to the screen, at the
  cell the software cursor is at.\<close>
theorem vps_safe:
  assumes "vga_ok st"
  shows "vga_ok (vps s st) \<and> (\<forall>a \<ge> 2000. VGA_MEM (vps s st) a = VGA_MEM st a) \<and>
    (s \<noteq> [] \<and> \<not> pipe_active st \<and> vga_cursor_enabled st \<longrightarrow>
       cursor_at (nat (vy (vps s st) * 80 + vx (vps s st))) (vps s st))"
proof -
  have en: "vga_cursor_enabled (fold vpc s st) = vga_cursor_enabled st" for s
    by (induction s arbitrary: st) auto
  have "cursor_at (nat (vy (fold vpc s st) * 80 + vx (fold vpc s st))) (fold vpc s st)"
    if "s \<noteq> []" "vga_cursor_enabled st"
  proof -
    have "fold vpc s st = vpc (last s) (fold vpc (butlast s) st)"
      using that(1) by (metis append_butlast_last_id fold_Cons fold_Nil fold_append comp_apply id_apply)
    then show ?thesis
      using vpc_cursor_at[OF fold_vpc_ok[OF assms], of "butlast s"] that(2) en by simp
  qed
  then show ?thesis
    using vps_ok[OF assms, of s] fold_vpc_frame[of _ s st] by (simp add: vps_def)
qed

definition vga0 :: vga where
  "vga0 = \<lparr>vx = 0, vy = 0, vc = 15, vga_cursor_enabled = True, scrollback = (\<lambda>_ _. 0),
     scrollback_pos = 0, scrollback_count = 0, VGA_MEM = (\<lambda>_. 0), pipe_buf = [], pipe_tail = [],
     pipe_active = False, port_writes = [], port_read = (\<lambda>_ _. 0)\<rparr>"

lemma vga0_ok: "vga_ok vga0"
  by (simp add: vga0_def vga_ok_def)

theorem vps_safe_witness:
  "cursor_at (nat (vy (vps ''hi'' vga0) * 80 + vx (vps ''hi'' vga0))) (vps ''hi'' vga0) \<and>
   vx (vps ''hi'' vga0) = 2"
  using vps_safe[OF vga0_ok, of "''hi''"]
  by (simp add: vga0_def vps_def vpc_def Let_def vat_def)

text \<open>a scroll drops the top row from the screen, appends a blank row in the current colour
  at the bottom, and records the dropped row in the scrollback, which keeps the last 100 rows.\<close>
theorem vscroll_refines:
  assumes "vga_ok st"
  shows "rows (vscroll st) = tl (rows st) @ [replicate 80 (ENT CHR '' '' (vc st))] \<and>
    sb_lines (vscroll st) = last_n 100 (sb_lines st @ [hd (rows st)])"
  using rows_vscroll sb_lines_vscroll[OF assms] by simp

theorem vscroll_refines_witness:
  "sb_lines (vscroll vga0) = last_n 100 (sb_lines vga0 @ [hd (rows vga0)]) \<and>
   length (sb_lines (vscroll vga0)) = 1"
  using vscroll_refines[OF vga0_ok] by (simp add: sb_lines_def vga0_def save_line_count)

text \<open>the page-up key fills the ten top rows of the screen with ten copies of one row, the
  oldest of the scrollback: the loop never moves to another row of the ring.\<close>
theorem vscroll_pageup_repeats_oldest:
  assumes "vga_ok st" "scrollback_count st \<noteq> 0" "r < 10"
  shows "row r (vscroll_pageup st) = hd (sb_lines st)"
  unfolding vscroll_pageup_def using assms by (intro scroll_loop_up_row) auto

theorem vscroll_pageup_repeats_oldest_witness:
  "row 3 (vscroll_pageup (vga0\<lparr>scrollback_count := 2, scrollback_pos := 2\<rparr>)) =
   hd (sb_lines (vga0\<lparr>scrollback_count := 2, scrollback_pos := 2\<rparr>))"
  using vscroll_pageup_repeats_oldest[of "vga0\<lparr>scrollback_count := 2, scrollback_pos := 2\<rparr>" 3]
  by (simp add: vga0_def vga_ok_def)

end
