(* ===== verification/Pig_Ps2.thy ===== *)
theory Pig_Ps2
  imports Pig_Vga
begin

text \<open>
  The keyboard and mouse driver \<open>drivers/ps2/ps2.h\<close>. The controller is outside the program: a
  polling loop is given the sequence of (status, data) pairs it will read, and stops at the first
  status without the output-full bit or at the end of the sequence.

  The keyboard buffer is a ring of 256 slots that can hold 255 keys; the locale
  \<open>bounded_queue\<close> is the first-in first-out contract the line editors rely on, and
  \<open>kb_push\<close>/\<open>kb_take\<close> are shown to provide it.
\<close>

unbundle bit_operations_syntax

section \<open>The interface of a bounded queue\<close>

locale bounded_queue =
  fixes cap :: nat
    and enq :: "'e \<Rightarrow> 's \<Rightarrow> 's"
    and deq :: "'s \<Rightarrow> ('e \<times> 's) option"
    and items :: "'s \<Rightarrow> 'e list"
    and inv :: "'s \<Rightarrow> bool"
  assumes enq_inv: "inv s \<Longrightarrow> inv (enq e s)"
    and enq_items: "inv s \<Longrightarrow>
      items (enq e s) = (if length (items s) < cap then items s @ [e] else items s)"
    and deq_None: "inv s \<Longrightarrow> deq s = None \<longleftrightarrow> items s = []"
    and deq_Some: "inv s \<Longrightarrow> deq s = Some (e, s') \<Longrightarrow> items s = e # items s' \<and> inv s'"
begin

lemma enqs_inv: "inv s \<Longrightarrow> inv (fold enq es s)"
  by (induction es arbitrary: s) (auto simp: enq_inv)

lemma enqs_items:
  "inv s \<Longrightarrow> length (items s) \<le> cap \<Longrightarrow>
   items (fold enq es s) = items s @ take (cap - length (items s)) es"
proof (induction es arbitrary: s)
  case (Cons e es)
  then show ?case
    by (cases "length (items s) < cap") (auto simp: enq_inv enq_items take_Cons' Suc_diff_Suc)
qed simp

fun deqs :: "nat \<Rightarrow> 's \<Rightarrow> 'e list \<times> 's" where
  "deqs 0 s = ([], s)"
| "deqs (Suc n) s = (case deq s of None \<Rightarrow> ([], s)
     | Some (e, s') \<Rightarrow> let (es, s'') = deqs n s' in (e # es, s''))"

lemma deqs_items: "inv s \<Longrightarrow> fst (deqs n s) = take n (items s)"
proof (induction n arbitrary: s)
  case (Suc n)
  show ?case
  proof (cases "deq s")
    case None
    then show ?thesis using deq_None[OF Suc.prems] by simp
  next
    case (Some p)
    then obtain e s' where p: "deq s = Some (e, s')" by (cases p) auto
    then show ?thesis
      using deq_Some[OF Suc.prems p] Suc.IH[of s'] by (simp add: split_beta)
  qed
qed simp

text \<open>First in, first out: what fits is taken out in the order it was put in.\<close>

lemma fifo:
  "inv s \<Longrightarrow> items s = [] \<Longrightarrow> length es \<le> cap \<Longrightarrow>
   fst (deqs (length es) (fold enq es s)) = es"
  by (simp add: deqs_items enqs_inv enqs_items)

end

section \<open>Definitions\<close>

abbreviation (input) KEY_UP :: int where "KEY_UP \<equiv> - 1"
abbreviation (input) KEY_DOWN :: int where "KEY_DOWN \<equiv> - 2"
abbreviation (input) KEY_LEFT :: int where "KEY_LEFT \<equiv> - 3"
abbreviation (input) KEY_RIGHT :: int where "KEY_RIGHT \<equiv> - 4"
abbreviation (input) KEY_F1 :: int where "KEY_F1 \<equiv> - 5"
abbreviation (input) KEY_F2 :: int where "KEY_F2 \<equiv> - 6"
abbreviation (input) KEY_F3 :: int where "KEY_F3 \<equiv> - 7"
abbreviation (input) KEY_F4 :: int where "KEY_F4 \<equiv> - 8"
abbreviation (input) KEY_F5 :: int where "KEY_F5 \<equiv> - 9"
abbreviation (input) KEY_F6 :: int where "KEY_F6 \<equiv> - 10"
abbreviation (input) KEY_F7 :: int where "KEY_F7 \<equiv> - 11"
abbreviation (input) KEY_F10 :: int where "KEY_F10 \<equiv> - 13"
abbreviation (input) KEY_DEL :: int where "KEY_DEL \<equiv> - 14"
abbreviation (input) KEY_HOME :: int where "KEY_HOME \<equiv> - 15"
abbreviation (input) KEY_END :: int where "KEY_END \<equiv> - 16"
abbreviation (input) KEY_PGUP :: int where "KEY_PGUP \<equiv> - 17"
abbreviation (input) KEY_PGDN :: int where "KEY_PGDN \<equiv> - 18"

definition sc_lo :: string where
  "sc_lo = [CHR 0x00, CHR 0x1B] @ ''1234567890-='' @ [CHR 0x08, CHR 0x09] @ ''qwertyuiop[]'' @
     [CHR 0x0A, CHR 0x00] @ ''asdfghjkl;'' @ [CHR 0x27, CHR 0x60, CHR 0x00, CHR 0x5C] @
     ''zxcvbnm,./'' @ [CHR 0x00] @ ''*'' @ [CHR 0x00] @ '' '' @ [CHR 0x00]"

definition sc_hi :: string where
  "sc_hi = [CHR 0x00, CHR 0x1B] @ ''!@#$%^&*()_+'' @ [CHR 0x08, CHR 0x09] @ ''QWERTYUIOP{}'' @
     [CHR 0x0A, CHR 0x00] @ ''ASDFGHJKL:'' @ [CHR 0x22, CHR 0x7E, CHR 0x00] @ ''|ZXCVBNM<>?'' @
     [CHR 0x00] @ ''*'' @ [CHR 0x00] @ '' '' @ [CHR 0x00]"

record kbd = kst +
  kb_shift :: bool
  kb_ctrl :: bool
  kb_alt :: bool
  kb_caps :: bool
  kb_ext :: bool
  kb_buf :: "nat \<Rightarrow> int"
  kb_h :: nat
  kb_t :: nat
  mouse_x :: int
  mouse_y :: int
  mouse_btn_l :: bool
  mouse_btn_r :: bool
  mouse_btn_l_prev :: bool
  mouse_enabled :: bool
  mouse_bg :: u16
  mouse_drawn :: bool
  mouse_cycle :: u8
  mouse_packet :: "nat \<Rightarrow> u8"

abbreviation KB_BUF :: nat where "KB_BUF \<equiv> 256"

definition kb_push :: "int \<Rightarrow> 'a kbd_scheme \<Rightarrow> 'a kbd_scheme" where
  "kb_push c st =
     (let n = (kb_h st + 1) mod KB_BUF in
      if n \<noteq> kb_t st then st\<lparr>kb_buf := (kb_buf st)(kb_h st := c), kb_h := n\<rparr> else st)"

subsection \<open>Keyboard\<close>

text \<open>The switch on the scan code after the \<open>0xE0\<close> prefix.\<close>

definition ext_key :: "u8 \<Rightarrow> int option" where
  "ext_key sc =
     (if sc = 0x48 then Some KEY_UP else if sc = 0x50 then Some KEY_DOWN
      else if sc = 0x4B then Some KEY_LEFT else if sc = 0x4D then Some KEY_RIGHT
      else if sc = 0x53 then Some KEY_DEL else if sc = 0x47 then Some KEY_HOME
      else if sc = 0x4F then Some KEY_END else if sc = 0x49 then Some KEY_PGUP
      else if sc = 0x51 then Some KEY_PGDN else None)"

definition fn_key :: "u8 \<Rightarrow> int option" where
  "fn_key sc =
     (if sc = 0x3B then Some KEY_F1 else if sc = 0x3C then Some KEY_F2
      else if sc = 0x3D then Some KEY_F3 else if sc = 0x3E then Some KEY_F4
      else if sc = 0x3F then Some KEY_F5 else if sc = 0x40 then Some KEY_F6
      else if sc = 0x41 then Some KEY_F7 else if sc = 0x44 then Some KEY_F10 else None)"

text \<open>The character of a scan code below \<open>sizeof(sc_lo)\<close> under the current modifiers.\<close>

definition key_char :: "u8 \<Rightarrow> 'a kbd_scheme \<Rightarrow> char" where
  "key_char sc st =
     (let i = unat sc; lo = sc_lo ! i;
          sh = (kb_shift st \<noteq> (kb_caps st \<and> CHR ''a'' \<le> lo \<and> lo \<le> CHR ''z''));
          c = (if sh then sc_hi ! i else lo)
      in if kb_ctrl st \<and> CHR ''a'' \<le> c \<and> c \<le> CHR ''z'' then char_of (of_char c - 97 + 1 :: nat) else c)"

definition ps2_byte :: "u8 \<times> u8 \<Rightarrow> 'a kbd_scheme \<Rightarrow> 'a kbd_scheme" where
  "ps2_byte = (\<lambda>(status, sc) st.
     if status AND 0x20 \<noteq> 0 then st
     else if sc = 0xE0 then st\<lparr>kb_ext := True\<rparr>
     else if kb_ext st then
       (let st = st\<lparr>kb_ext := False\<rparr> in
        if sc AND 0x80 = 0 then (case ext_key sc of Some k \<Rightarrow> kb_push k st | None \<Rightarrow> st) else st)
     else if sc = 0x2A \<or> sc = 0x36 then st\<lparr>kb_shift := True\<rparr>
     else if sc = 0xAA \<or> sc = 0xB6 then st\<lparr>kb_shift := False\<rparr>
     else if sc = 0x1D then st\<lparr>kb_ctrl := True\<rparr>
     else if sc = 0x9D then st\<lparr>kb_ctrl := False\<rparr>
     else if sc = 0x38 then st\<lparr>kb_alt := True\<rparr>
     else if sc = 0xB8 then st\<lparr>kb_alt := False\<rparr>
     else if sc = 0x3A then st\<lparr>kb_caps := \<not> kb_caps st\<rparr>
     else if fn_key sc \<noteq> None then kb_push (the (fn_key sc)) st
     else if sc AND 0x80 \<noteq> 0 then st
     else if unat sc < length sc_lo then
       (let c = key_char sc st in if c \<noteq> CHR 0x00 then kb_push (of_char c) st else st)
     else st)"

definition ps2_poll :: "(u8 \<times> u8) list \<Rightarrow> 'a kbd_scheme \<Rightarrow> 'a kbd_scheme" where
  "ps2_poll input = fold ps2_byte (takeWhile (\<lambda>(status, _). status AND 1 \<noteq> 0) input)"

definition kb_avail :: "(u8 \<times> u8) list \<Rightarrow> 'a kbd_scheme \<Rightarrow> bool \<times> 'a kbd_scheme" where
  "kb_avail input st = (let st = ps2_poll input st in (kb_h st \<noteq> kb_t st, st))"

text \<open>The body of \<open>kb_get\<close> after its waiting loop, and the loop itself over the inputs of
  successive polls; \<^term>\<open>None\<close> is a loop still waiting when the inputs end.\<close>

definition kb_take :: "'a kbd_scheme \<Rightarrow> (int \<times> 'a kbd_scheme) option" where
  "kb_take st =
     (if kb_h st \<noteq> kb_t st
      then Some (kb_buf st (kb_t st), st\<lparr>kb_t := (kb_t st + 1) mod KB_BUF\<rparr>) else None)"

fun kb_get :: "(u8 \<times> u8) list list \<Rightarrow> 'a kbd_scheme \<Rightarrow> (int \<times> 'a kbd_scheme) option" where
  "kb_get [] st = None"
| "kb_get (input # inputs) st =
     (let (avail, st) = kb_avail input st in if avail then kb_take st else kb_get inputs st)"

subsection \<open>Mouse\<close>

definition mouse_init :: "'a kbd_scheme \<Rightarrow> 'a kbd_scheme" where
  "mouse_init st =
     (let st = st\<lparr>mouse_x := 40, mouse_y := 12, mouse_btn_l := False, mouse_btn_r := False,
                  mouse_btn_l_prev := False, mouse_drawn := False\<rparr>;
          st = pr (seqs [outb 0x64 0xA8, outb 0x64 0x20]) st;
          ctrl = (inb 0x60 (con st) OR 0x02) AND 0xF7;
          st = pr (seqs [outb 0x64 0x60, outb 0x60 ctrl, outb 0x64 0xD4, outb 0x60 0xF4]) st
      in st\<lparr>mouse_enabled := True\<rparr>)"

text \<open>The clamps after a movement, in the order the code applies them.\<close>

definition clamp_mouse :: "'a kbd_scheme \<Rightarrow> 'a kbd_scheme" where
  "clamp_mouse st =
     (let st = (if mouse_x st < 1 then st\<lparr>mouse_x := 1\<rparr> else st);
          st = (if mouse_y st < 1 then st\<lparr>mouse_y := 1\<rparr> else st);
          st = (if mouse_x st \<ge> VGA_W - 1 then st\<lparr>mouse_x := VGA_W - 2\<rparr> else st)
      in if mouse_y st \<ge> VGA_H - 1 then st\<lparr>mouse_y := VGA_H - 2\<rparr> else st)"

definition mouse_packet_done :: "'a kbd_scheme \<Rightarrow> 'a kbd_scheme" where
  "mouse_packet_done st =
     (let st = st\<lparr>mouse_cycle := 0\<rparr>;
          p0 = mouse_packet st 0;
          dx = sint (mouse_packet st 1);
          dy = sint (mouse_packet st 2);
          st = st\<lparr>mouse_btn_l_prev := mouse_btn_l st\<rparr>;
          st = st\<lparr>mouse_btn_l := (p0 AND 0x01 \<noteq> 0), mouse_btn_r := (p0 AND 0x02 \<noteq> 0)\<rparr>;
          st = st\<lparr>mouse_x := mouse_x st + dx, mouse_y := mouse_y st - dy\<rparr>;
          wheel = (if p0 AND 0x20 \<noteq> 0 then - 1 else if p0 AND 0x10 \<noteq> 0 then 1 else 0 :: int);
          st = (if wheel \<noteq> 0 then (if wheel > 0 then pr vscroll_up st else pr vscroll_down st)
                else st)
      in clamp_mouse st)"

definition mouse_byte :: "u8 \<Rightarrow> 'a kbd_scheme \<Rightarrow> 'a kbd_scheme" where
  "mouse_byte b st =
     (if b AND 0x08 = 0 then st\<lparr>mouse_cycle := 0\<rparr>
      else (let st = st\<lparr>mouse_packet := (mouse_packet st)(unat (mouse_cycle st) := b),
                        mouse_cycle := mouse_cycle st + 1\<rparr>
            in if mouse_cycle st \<ge> 3 then mouse_packet_done st else st))"

definition mouse_poll :: "(u8 \<times> u8) list \<Rightarrow> 'a kbd_scheme \<Rightarrow> 'a kbd_scheme" where
  "mouse_poll input st =
     (if \<not> mouse_enabled st then st
      else fold (\<lambda>(_, b). mouse_byte b)
             (takeWhile (\<lambda>(status, _). status AND 0x01 \<noteq> 0) input) st)"

definition mouse_draw :: "'a kbd_scheme \<Rightarrow> 'a kbd_scheme" where
  "mouse_draw st =
     (if \<not> mouse_enabled st then st
      else if mouse_x st < 1 \<or> mouse_y st < 1 \<or> mouse_x st \<ge> VGA_W - 1 \<or> mouse_y st \<ge> VGA_H - 1
      then st
      else (let a = cell (mouse_x st) (mouse_y st);
                st = st\<lparr>mouse_bg := VGA_MEM (con st) a, mouse_drawn := True\<rparr>
            in pr (\<lambda>v. v\<lparr>VGA_MEM := (VGA_MEM v)(a := 0x0F20)\<rparr>) st))"

definition mouse_erase :: "'a kbd_scheme \<Rightarrow> 'a kbd_scheme" where
  "mouse_erase st =
     (if \<not> mouse_enabled st \<or> \<not> mouse_drawn st then st
      else (pr (\<lambda>v. v\<lparr>VGA_MEM := (VGA_MEM v)(cell (mouse_x st) (mouse_y st) := mouse_bg st)\<rparr>) st)
             \<lparr>mouse_drawn := False\<rparr>)"

definition mouse_draw_cursor :: "'a kbd_scheme \<Rightarrow> 'a kbd_scheme" where
  "mouse_draw_cursor st = mouse_draw (mouse_erase st)"

section \<open>What the keyboard leaves unchanged\<close>

text \<open>Polling and reading the keyboard touch neither the console nor any later component.\<close>

lemma kb_push_frame [frame_simps]:
  "kbd.more (kb_push c st) = kbd.more st" "con (kb_push c st) = con st"
  by (simp_all add: kb_push_def Let_def)

lemma ps2_byte_frame [frame_simps]:
  "kbd.more (ps2_byte b st) = kbd.more st" "con (ps2_byte b st) = con st"
  by (cases b; simp add: ps2_byte_def Let_def frame_simps split: option.split)+

lemma ps2_poll_frame [frame_simps]:
  "kbd.more (ps2_poll input st) = kbd.more st" "con (ps2_poll input st) = con st"
proof -
  have "kbd.more (fold ps2_byte bs st) = kbd.more st \<and> con (fold ps2_byte bs st) = con st" for bs
    by (induction bs arbitrary: st) (simp_all add: frame_simps)
  then show "kbd.more (ps2_poll input st) = kbd.more st" "con (ps2_poll input st) = con st"
    by (simp_all add: ps2_poll_def)
qed

lemma kb_take_frame:
  "kb_take st = Some (c, st') \<Longrightarrow> kbd.more st' = kbd.more st \<and> con st' = con st"
  by (auto simp: kb_take_def split: if_splits)

lemma kb_get_frame:
  "kb_get inputs st = Some (c, st') \<Longrightarrow> kbd.more st' = kbd.more st \<and> con st' = con st"
proof (induction inputs arbitrary: st)
  case (Cons input inputs)
  show ?case
  proof (cases "kb_h (ps2_poll input st) \<noteq> kb_t (ps2_poll input st)")
    case True
    then show ?thesis
      using Cons.prems kb_take_frame[of "ps2_poll input st" c st']
      by (simp add: kb_avail_def Let_def frame_simps)
  next
    case False
    then show ?thesis
      using Cons.prems Cons.IH[of "ps2_poll input st"]
      by (simp add: kb_avail_def Let_def frame_simps)
  qed
qed simp

section \<open>The keyboard buffer is a queue\<close>

definition kb_len :: "'a kbd_scheme \<Rightarrow> nat" where
  "kb_len st = (kb_h st + KB_BUF - kb_t st) mod KB_BUF"

definition kb_items :: "'a kbd_scheme \<Rightarrow> int list" where
  "kb_items st = map (\<lambda>i. kb_buf st ((kb_t st + i) mod KB_BUF)) [0 ..< kb_len st]"

definition kb_ok :: "'a kbd_scheme \<Rightarrow> bool" where
  "kb_ok st \<longleftrightarrow> kb_h st < KB_BUF \<and> kb_t st < KB_BUF"

lemma kb_len_cases:
  assumes "kb_ok st"
  shows "kb_len st = (if kb_t st \<le> kb_h st then kb_h st - kb_t st else kb_h st + KB_BUF - kb_t st)"
  using assms by (auto simp: kb_len_def kb_ok_def mod_if)

lemma kb_items_empty: "kb_ok st \<Longrightarrow> kb_items st = [] \<longleftrightarrow> kb_h st = kb_t st"
  by (auto simp: kb_items_def kb_len_cases kb_ok_def split: if_splits)

lemma kb_head: "kb_ok st \<Longrightarrow> (kb_t st + kb_len st) mod KB_BUF = kb_h st"
  by (auto simp: kb_len_cases kb_ok_def)

lemma kb_full: "kb_ok st \<Longrightarrow> (kb_h st + 1) mod KB_BUF = kb_t st \<longleftrightarrow> \<not> kb_len st < 255"
  by (auto simp: kb_len_cases kb_ok_def mod_if)

lemma kb_push_ok [inv_intros]: "kb_ok st \<Longrightarrow> kb_ok (kb_push c st)"
  by (auto simp: kb_push_def kb_ok_def Let_def)

lemma kb_push_items:
  assumes "kb_ok st"
  shows "kb_items (kb_push c st) =
    (if length (kb_items st) < 255 then kb_items st @ [c] else kb_items st)"
proof (cases "kb_len st < 255")
  case True
  let ?st = "kb_push c st"
  have st: "?st = st\<lparr>kb_buf := (kb_buf st)(kb_h st := c), kb_h := (kb_h st + 1) mod KB_BUF\<rparr>"
    using True kb_full[OF assms] by (simp add: kb_push_def Let_def)
  have len: "kb_len ?st = Suc (kb_len st)"
    using True assms unfolding st
    by (auto simp: kb_len_def kb_ok_def mod_if split: if_splits)
  have ne: "(kb_t st + i) mod KB_BUF \<noteq> kb_h st" if "i < kb_len st" for i
    using that True assms by (auto simp: kb_len_cases kb_ok_def mod_if split: if_splits)
  have "kb_buf ?st ((kb_t ?st + i) mod KB_BUF) = kb_buf st ((kb_t st + i) mod KB_BUF)"
    if "i < kb_len st" for i
    using ne[OF that] by (simp add: st)
  moreover have "kb_buf ?st ((kb_t ?st + kb_len st) mod KB_BUF) = c"
    using kb_head[OF assms] by (simp add: st)
  ultimately show ?thesis
    using True by (simp add: kb_items_def len)
next
  case False
  then show ?thesis
    using kb_full[OF assms] by (simp add: kb_items_def kb_push_def Let_def)
qed

lemma kb_take_items:
  assumes "kb_ok st" "kb_take st = Some (c, st')"
  shows "kb_items st = c # kb_items st' \<and> kb_ok st'"
proof -
  have st: "st' = st\<lparr>kb_t := (kb_t st + 1) mod KB_BUF\<rparr>" "c = kb_buf st (kb_t st)"
    and ne: "kb_h st \<noteq> kb_t st"
    using assms(2) by (auto simp: kb_take_def split: if_splits)
  have len: "kb_len st = Suc (kb_len st')"
    using ne assms(1) unfolding st by (auto simp: kb_len_def kb_ok_def mod_if split: if_splits)
  have "map (\<lambda>i. kb_buf st ((kb_t st + i) mod KB_BUF)) [1 ..< Suc (kb_len st')] = kb_items st'"
    unfolding kb_items_def map_Suc_upt [symmetric]
    by (simp add: st map_Suc_upt [symmetric] comp_def mod_simps del: upt_Suc)
  then show ?thesis
    using assms(1) st(2)
    by (simp add: kb_items_def len upt_conv_Cons st(1) kb_ok_def del: upt_Suc)
qed

interpretation kbq: bounded_queue 255 kb_push kb_take kb_items kb_ok
  by unfold_locales
    (simp_all add: kb_push_ok kb_push_items kb_items_empty kb_take_items, simp add: kb_take_def)

text \<open>Taking \<open>n\<close> keys, as a line editor does.\<close>

fun kb_takes :: "nat \<Rightarrow> 'a kbd_scheme \<Rightarrow> int list \<times> 'a kbd_scheme" where
  "kb_takes 0 st = ([], st)"
| "kb_takes (Suc n) st = (case kb_take st of None \<Rightarrow> ([], st)
     | Some (c, st') \<Rightarrow> let (cs, st'') = kb_takes n st' in (c # cs, st''))"

lemma kb_takes_deqs: "kb_takes n st = kbq.deqs n st"
  by (induction n arbitrary: st) (auto split: option.splits prod.splits)

section \<open>Decoding\<close>

text \<open>A step of the decoder changes the queue by at most one key at its end, and only the keys the
  header declares and non-NUL characters are ever queued.\<close>

definition valid_key :: "int \<Rightarrow> bool" where
  "valid_key k \<longleftrightarrow> (- 18 \<le> k \<and> k \<le> - 1) \<or> (1 \<le> k \<and> k \<le> 255)"

lemma ext_key_valid: "ext_key sc = Some k \<Longrightarrow> valid_key k"
  by (auto simp: ext_key_def valid_key_def split: if_splits)

lemma fn_key_valid: "fn_key sc = Some k \<Longrightarrow> valid_key k"
  by (auto simp: fn_key_def valid_key_def split: if_splits)

lemma char_key_valid: "c \<noteq> CHR 0x00 \<Longrightarrow> valid_key (of_char c)"
proof -
  assume c: "c \<noteq> CHR 0x00"
  obtain n :: nat where n: "n = of_char c" by simp
  then have "n \<noteq> of_char CHR 0x00" using c by (metis of_char_eqI)
  then have "0 < n" "n < 256" using n nat_of_char_less_256[of c] by simp_all
  moreover have "(of_char c :: int) = int n" by (simp add: n of_nat_of_char)
  ultimately show ?thesis by (simp add: valid_key_def)
qed

lemma kb_ok_upd [simp]:
  "kb_ok (st\<lparr>kb_ext := b\<rparr>) = kb_ok st" "kb_ok (st\<lparr>kb_shift := b\<rparr>) = kb_ok st"
  "kb_ok (st\<lparr>kb_ctrl := b\<rparr>) = kb_ok st" "kb_ok (st\<lparr>kb_alt := b\<rparr>) = kb_ok st"
  "kb_ok (st\<lparr>kb_caps := b\<rparr>) = kb_ok st"
  by (simp_all add: kb_ok_def)

lemma kb_items_upd [simp]:
  "kb_items (st\<lparr>kb_ext := b\<rparr>) = kb_items st" "kb_items (st\<lparr>kb_shift := b\<rparr>) = kb_items st"
  "kb_items (st\<lparr>kb_ctrl := b\<rparr>) = kb_items st" "kb_items (st\<lparr>kb_alt := b\<rparr>) = kb_items st"
  "kb_items (st\<lparr>kb_caps := b\<rparr>) = kb_items st"
  by (simp_all add: kb_items_def kb_len_def)

text \<open>\<open>appends n st st'\<close>: the queue of \<open>st'\<close> is that of \<open>st\<close> with at most \<open>n\<close> valid keys added.\<close>

definition appends :: "nat \<Rightarrow> 'a kbd_scheme \<Rightarrow> 'a kbd_scheme \<Rightarrow> bool" where
  "appends n st st' \<longleftrightarrow> kb_ok st' \<and>
     (\<exists>ks. kb_items st' = kb_items st @ ks \<and> length ks \<le> n \<and> (\<forall>k \<in> set ks. valid_key k))"

lemma appends_push:
  "kb_ok st \<Longrightarrow> kb_items st = kb_items st0 \<Longrightarrow> valid_key c \<Longrightarrow> appends 1 st0 (kb_push c st)"
  by (auto simp: appends_def kb_push_ok kb_push_items)

lemma appends_same: "kb_ok st \<Longrightarrow> kb_items st = kb_items st0 \<Longrightarrow> appends n st0 st"
  by (auto simp: appends_def)

lemma appends_trans: "appends n st st' \<Longrightarrow> appends k st' st'' \<Longrightarrow> appends (n + k) st st''"
  by (fastforce simp: appends_def)

lemma appends_if:
  "(b \<Longrightarrow> appends n st x) \<Longrightarrow> (\<not> b \<Longrightarrow> appends n st y) \<Longrightarrow> appends n st (if b then x else y)"
  by simp

lemma appends_opt:
  "(\<And>k. o' = Some k \<Longrightarrow> appends n st (f k)) \<Longrightarrow> appends n st y \<Longrightarrow>
   appends n st (case o' of Some k \<Rightarrow> f k | None \<Rightarrow> y)"
  by (cases o') auto

lemma ps2_byte_appends: "kb_ok st \<Longrightarrow> appends 1 st (ps2_byte b st)"
proof (cases b)
  case (Pair status sc)
  assume ok: "kb_ok st"
  have fn: "valid_key (the (fn_key sc))" if "fn_key sc \<noteq> None"
    using that fn_key_valid by auto
  show ?thesis
    unfolding Pair ps2_byte_def Let_def prod.case
    by (intro appends_if appends_opt; (rule appends_push | rule appends_same);
        (simp add: ok fn char_key_valid ext_key_valid)?)
qed

lemma fold_ps2_byte_appends: "kb_ok st \<Longrightarrow> appends (length bs) st (fold ps2_byte bs st)"
proof (induction bs arbitrary: st)
  case Nil
  then show ?case by (simp add: appends_same)
next
  case (Cons b bs)
  have 1: "appends 1 st (ps2_byte b st)" by (rule ps2_byte_appends[OF Cons.prems])
  then have "appends (length bs) (ps2_byte b st) (fold ps2_byte bs (ps2_byte b st))"
    by (intro Cons.IH) (simp add: appends_def)
  from appends_trans[OF 1 this] show ?case by simp
qed

section \<open>The mouse\<close>

definition mouse_ok :: "'a kbd_scheme \<Rightarrow> bool" where
  "mouse_ok st \<longleftrightarrow> 1 \<le> mouse_x st \<and> mouse_x st \<le> 78 \<and> 1 \<le> mouse_y st \<and> mouse_y st \<le> 23 \<and>
     mouse_cycle st < 3 \<and> vga_ok (con st)"

lemma clamp_mouse_range:
  "1 \<le> mouse_x (clamp_mouse st) \<and> mouse_x (clamp_mouse st) \<le> 78 \<and>
   1 \<le> mouse_y (clamp_mouse st) \<and> mouse_y (clamp_mouse st) \<le> 23"
  "con (clamp_mouse st) = con st" "mouse_cycle (clamp_mouse st) = mouse_cycle st"
  by (auto simp: clamp_mouse_def Let_def)

lemma kbd_pr [simp]:
  "mouse_x (pr f st) = mouse_x st" "mouse_y (pr f st) = mouse_y st"
  "mouse_cycle (pr f st) = mouse_cycle st" "mouse_enabled (pr f st) = mouse_enabled st"
  "mouse_packet (pr f st) = mouse_packet st" "mouse_drawn (pr f st) = mouse_drawn st"
  "mouse_bg (pr f st) = mouse_bg st" "mouse_btn_l (pr f st) = mouse_btn_l st"
  by (simp_all add: pr_def)

lemma mouse_packet_done_ok: "vga_ok (con st) \<Longrightarrow> mouse_ok (mouse_packet_done st)"
  by (simp add: mouse_ok_def mouse_packet_done_def Let_def clamp_mouse_range
      vscroll_up_ok vscroll_down_ok)

lemma mouse_byte_ok [inv_intros]:
  assumes "mouse_ok st"
  shows "mouse_ok (mouse_byte b st)"
proof -
  have "mouse_cycle st + 1 < 3" if "\<not> 3 \<le> mouse_cycle st + 1"
    using that by simp
  then show ?thesis
    using assms by (auto simp: mouse_byte_def Let_def intro!: mouse_packet_done_ok)
      (auto simp: mouse_ok_def)
qed

lemma mouse_poll_ok: "mouse_ok st \<Longrightarrow> mouse_ok (mouse_poll input st)"
  unfolding mouse_poll_def by (auto intro!: fold_inv[where I = mouse_ok] mouse_byte_ok)

text \<open>Any data byte without bit 3 restarts the packet, though the bit is only set by the protocol
  in the first byte of a packet.\<close>

lemma mouse_byte_resync: "b AND 0x08 = 0 \<Longrightarrow> mouse_byte b st = st\<lparr>mouse_cycle := 0\<rparr>"
  by (simp add: mouse_byte_def)

section \<open>Properties\<close>

definition kbd0 :: kbd where
  "kbd0 = \<lparr>con = vga0, kb_shift = False, kb_ctrl = False, kb_alt = False, kb_caps = False,
     kb_ext = False, kb_buf = (\<lambda>_. 0), kb_h = 250, kb_t = 250, mouse_x = 40, mouse_y = 12,
     mouse_btn_l = False, mouse_btn_r = False, mouse_btn_l_prev = False, mouse_enabled = True,
     mouse_bg = 0, mouse_drawn = False, mouse_cycle = 0, mouse_packet = (\<lambda>_. 0)\<rparr>"

lemma kbd0_ok: "kb_ok kbd0" "kb_items kbd0 = []" "mouse_ok kbd0"
  by (simp_all add: kbd0_def kb_ok_def kb_items_def kb_len_def mouse_ok_def vga0_ok)



text \<open>a poll of the controller keeps the keys already typed, in order, and appends at most one
  key per byte read; every key it queues is one of the codes of the header or a character other
  than NUL; the ring indices stay in range.\<close>
theorem ps2_poll_appends:
  assumes "kb_ok st"
  shows "kb_ok (ps2_poll input st) \<and>
    (\<exists>ks. kb_items (ps2_poll input st) = kb_items st @ ks \<and> length ks \<le> length input \<and>
       (\<forall>k \<in> set ks. valid_key k))"
  using fold_ps2_byte_appends[OF assms, of "takeWhile (\<lambda>(status, _). status AND 1 \<noteq> 0) input"]
    length_takeWhile_le[of "\<lambda>(status, _). status AND 1 \<noteq> 0" input]
  by (fastforce simp: appends_def ps2_poll_def)

theorem ps2_poll_appends_witness:
  "kb_ok (ps2_poll [(1, 0x2A), (1, 0x1E)] kbd0) \<and>
   kb_items (ps2_poll [(1, 0x2A), (1, 0x1E)] kbd0) = [65]"
proof
  show "kb_ok (ps2_poll [(1, 0x2A), (1, 0x1E)] kbd0)"
    using ps2_poll_appends[OF kbd0_ok(1)] by blast
  show "kb_items (ps2_poll [(1, 0x2A), (1, 0x1E)] kbd0) = [65]"
    by code_simp
qed

text \<open>however many bytes the mouse sends, the pointer stays strictly inside the screen's
  border, the packet index stays inside the three bytes of the packet, and the console keeps its
  invariant while the wheel scrolls it.\<close>
theorem mouse_poll_on_screen:
  assumes "mouse_ok st"
  shows "mouse_ok (mouse_poll input st)"
  by (rule mouse_poll_ok[OF assms])

theorem mouse_poll_on_screen_witness:
  "mouse_ok (mouse_poll [(1, 0x09), (1, 0x7F), (1, 0x08)] kbd0) \<and>
   mouse_x (mouse_poll [(1, 0x09), (1, 0x7F), (1, 0x08)] kbd0) = 78"
proof
  show "mouse_ok (mouse_poll [(1, 0x09), (1, 0x7F), (1, 0x08)] kbd0)"
    by (rule mouse_poll_on_screen) (rule kbd0_ok)
  show "mouse_x (mouse_poll [(1, 0x09), (1, 0x7F), (1, 0x08)] kbd0) = 78"
    by code_simp
qed

text \<open>a well-formed three byte packet whose horizontal movement has bit 3 clear is thrown away:
  neither the pointer nor the buttons change.\<close>
theorem mouse_packet_lost:
  assumes "mouse_cycle st = 0" "dx AND 0x08 = 0"
  shows "let st' = fold mouse_byte [b0, dx, dy] st in
    mouse_x st' = mouse_x st \<and> mouse_y st' = mouse_y st \<and>
    mouse_btn_l st' = mouse_btn_l st \<and> mouse_btn_r st' = mouse_btn_r st"
proof -
  have "\<not> (3 :: u8) \<le> 1" by (simp add: word_le_nat_alt)
  then show ?thesis
    using assms by (simp add: mouse_byte_def Let_def)
qed

theorem mouse_packet_lost_witness:
  "mouse_x (fold mouse_byte [0x09, 0x05, 0x00] kbd0) = 40 \<and>
   mouse_btn_l (fold mouse_byte [0x09, 0x05, 0x00] kbd0) = False"
  using mouse_packet_lost[of kbd0 "0x05" "0x09" "0x00"] by (simp add: kbd0_def Let_def)

text \<open>the pointer's saved background is put back at the pointer's current cell, not where it
  was drawn: after a movement the block stays at the old cell and the old cell's contents
  overwrite the new one.\<close>
theorem mouse_erase_after_move:
  assumes "mouse_enabled st" "mouse_ok st" "on_screen x y"
    and "cell x y \<noteq> cell (mouse_x st) (mouse_y st)"
  shows "let st' = mouse_erase ((mouse_draw st)\<lparr>mouse_x := x, mouse_y := y\<rparr>) in
    VGA_MEM (con st') (cell (mouse_x st) (mouse_y st)) = 0x0F20 \<and>
    VGA_MEM (con st') (cell x y) = VGA_MEM (con st) (cell (mouse_x st) (mouse_y st))"
  using assms by (auto simp: mouse_draw_def mouse_erase_def mouse_ok_def Let_def pr_def)

theorem mouse_erase_after_move_witness:
  "VGA_MEM (con (mouse_erase ((mouse_draw kbd0)\<lparr>mouse_x := 41, mouse_y := 12\<rparr>)))
     (cell 40 12) = 0x0F20"
  using mouse_erase_after_move[of kbd0 41 12] kbd0_ok(3)
  by (simp add: kbd0_def on_screen_def cell_def Let_def)

end
