(* ===== verification/Pig_Log.thy ===== *)
theory Pig_Log
  imports Pig_Vga
begin

text \<open>
  The three logs of the kernel: \<open>kernel/logger.h\<close> (64 entries), \<open>kernel/netlog.h\<close> (256 entries)
  and the log inside the network driver \<open>lwip/port/netif/rtl8139.h\<close> (64 entries). The first two
  are shown to be ring logs; the third counts its first event twice, and reading it back leaves
  the array until 64 events have been logged.

  Event numbers are natural numbers: the \<open>int\<close> counters would only overflow after \<open>2^31\<close> events.
\<close>


section \<open>Definitions\<close>

subsection \<open>The kernel log\<close>

record log_entry =
  le_seq :: nat
  le_level :: string
  le_msg :: string

record klog =
  log_buffer :: "nat \<Rightarrow> log_entry"
  log_count :: nat
  log_index :: nat
  log_initialized :: bool

abbreviation (input) LOG_ENTRIES :: nat where "LOG_ENTRIES \<equiv> 64"

definition log_init :: "klog \<Rightarrow> klog" where
  "log_init l = l\<lparr>log_count := 0, log_index := 0, log_initialized := True,
     log_buffer := (\<lambda>i. if i < LOG_ENTRIES then (log_buffer l i)\<lparr>le_msg := []\<rparr> else log_buffer l i)\<rparr>"

definition log_add :: "string \<Rightarrow> string \<Rightarrow> klog \<Rightarrow> klog" where
  "log_add level msg l =
     (let l = (if \<not> log_initialized l then log_init l else l);
          idx = log_index l mod LOG_ENTRIES;
          l = l\<lparr>log_index := log_index l + 1\<rparr>;
          l = (if log_count l < LOG_ENTRIES then l\<lparr>log_count := log_count l + 1\<rparr> else l)
      in l\<lparr>log_buffer := (log_buffer l)(idx :=
             \<lparr>le_seq = log_index l, le_level = take 7 level, le_msg = take 127 msg\<rparr>)\<rparr>)"

definition log_get_count :: "klog \<Rightarrow> nat" where
  "log_get_count l = log_count l"

text \<open>What the loop leaves in \<open>out\<close>, a buffer of \<open>max\<close> bytes.\<close>

definition log_get_entry :: "int \<Rightarrow> nat \<Rightarrow> klog \<Rightarrow> string" where
  "log_get_entry n mx l =
     (if n < 0 \<or> n \<ge> int (log_count l) then []
      else (let e = log_buffer l ((log_index l - log_count l + nat n) mod LOG_ENTRIES)
            in take (mx - 1) (le_level e @ '' '' @ le_msg e)))"

definition log_clear :: "klog \<Rightarrow> klog" where
  "log_clear l = l\<lparr>log_count := 0, log_index := 0\<rparr>"

subsection \<open>The network log\<close>

record net_entry =
  ne_tick :: nat
  ne_event :: string
  ne_detail :: string

record netlog =
  net_log :: "nat \<Rightarrow> net_entry"
  net_log_idx :: nat
  net_log_count :: nat

abbreviation (input) NET_LOG_MAX :: nat where "NET_LOG_MAX \<equiv> 256"

definition net_log_init :: "netlog \<Rightarrow> netlog" where
  "net_log_init l = l\<lparr>net_log_idx := 0, net_log_count := 0,
     net_log := (\<lambda>i. if i < NET_LOG_MAX then (net_log l i)\<lparr>ne_event := []\<rparr> else net_log l i)\<rparr>"

definition net_log_event :: "string \<Rightarrow> string \<Rightarrow> netlog \<Rightarrow> netlog" where
  "net_log_event event detail l =
     (let idx = net_log_idx l mod NET_LOG_MAX;
          l = l\<lparr>net_log_idx := net_log_idx l + 1\<rparr>;
          l = (if net_log_count l < NET_LOG_MAX then l\<lparr>net_log_count := net_log_count l + 1\<rparr> else l)
      in l\<lparr>net_log := (net_log l)(idx :=
             \<lparr>ne_tick = net_log_idx l, ne_event = take 63 event, ne_detail = take 95 detail\<rparr>)\<rparr>)"

definition net_log_at :: "netlog \<Rightarrow> nat \<Rightarrow> net_entry" where
  "net_log_at l i = net_log l ((net_log_idx l - net_log_count l + i) mod NET_LOG_MAX)"

definition net_log_dump :: "netlog \<Rightarrow> vga \<Rightarrow> vga" where
  "net_log_dump l =
     seqs [vpln ''=== Network Debug Log ==='',
     fold (\<lambda>i. let e = net_log_at l i in
             if ne_event e \<noteq> [] then
               seqs [vps ''['', vps (ne_event e), vps ''] '', vpln (ne_detail e)]
             else id) [0 ..< net_log_count l]]"

text \<open>The text built for the log file: the header is erased again by the second \<open>kcp\<close>, whose
  result also leaves \<open>pos\<close> at 0, so the bound \<open>pos<4000\<close> of the loop never applies and the only
  limit is the buffer of 4096 bytes.\<close>

definition net_log_line :: "net_entry \<Rightarrow> string" where
  "net_log_line e = (if ne_event e \<noteq> [] then ''['' @ ne_event e @ ''] '' @ ne_detail e @ [CHR 0x0A] else [])"

definition net_log_save_text :: "netlog \<Rightarrow> string option" where
  "net_log_save_text l =
     ofold (\<lambda>i buf. fits 4096 (buf @ net_log_line (net_log_at l i))) [0 ..< net_log_count l] []"

subsection \<open>The driver's log\<close>

record rtl_log =
  rtl_net_log :: "nat \<Rightarrow> net_entry"
  rtl_net_log_idx :: nat
  rtl_net_log_count :: nat
  rtl_net_tick :: nat

abbreviation (input) RTL_LOG_MAX :: nat where "RTL_LOG_MAX \<equiv> 64"

definition rtl_net_log_event :: "string \<Rightarrow> string \<Rightarrow> rtl_log \<Rightarrow> rtl_log" where
  "rtl_net_log_event event detail l =
     (let l = (if rtl_net_log_count l = 0 then l\<lparr>rtl_net_log_count := 1\<rparr> else l);
          idx = rtl_net_log_idx l mod RTL_LOG_MAX;
          l = l\<lparr>rtl_net_log_idx := rtl_net_log_idx l + 1, rtl_net_tick := rtl_net_tick l + 1\<rparr>;
          l = (if rtl_net_log_count l < RTL_LOG_MAX
               then l\<lparr>rtl_net_log_count := rtl_net_log_count l + 1\<rparr> else l)
      in l\<lparr>rtl_net_log := (rtl_net_log l)(idx :=
             \<lparr>ne_tick = rtl_net_tick l, ne_event = take 15 event, ne_detail = take 47 detail\<rparr>)\<rparr>)"

text \<open>The index of a read is an \<open>int\<close> and \<open>%\<close> keeps its sign: a negative one is outside the array.\<close>

definition rtl_log_at :: "rtl_log \<Rightarrow> nat \<Rightarrow> net_entry option" where
  "rtl_log_at l i =
     (let idx = c_mod (int (rtl_net_log_idx l) - int (rtl_net_log_count l) + int i) 64
      in if idx < 0 then None else Some (rtl_net_log l (nat idx)))"

definition rtl_net_log_dump :: "rtl_log \<Rightarrow> vga \<Rightarrow> vga option" where
  "rtl_net_log_dump l v =
     (if rtl_net_log_count l = 0 then Some (vpln ''[no network events logged yet]'' v)
      else ofold (\<lambda>i v. do {
             e \<leftarrow> rtl_log_at l i;
             Some (if ne_event e \<noteq> [] then
                     (seqs [vps ''['', vps (ne_event e), vps ''] '', vpln (ne_detail e)]) v
                   else v) }) [0 ..< rtl_net_log_count l] v)"

text \<open>The copying loop: nothing is read once the buffer is full.\<close>

definition rtl_log_line :: "net_entry \<Rightarrow> string" where
  "rtl_log_line e = (if ne_event e \<noteq> [] then ne_event e @ '' '' @ ne_detail e @ [CHR 0x0A] else [])"

definition rtl_net_log_get :: "nat \<Rightarrow> rtl_log \<Rightarrow> string option" where
  "rtl_net_log_get mx l =
     ofold (\<lambda>i out. if length out < mx - 1 then do {
              e \<leftarrow> rtl_log_at l i; Some (take (mx - 1) (out @ rtl_log_line e)) } else Some out)
       [0 ..< rtl_net_log_count l] []"

section \<open>The kernel log and the network log are ring logs\<close>

definition log_ok :: "klog \<Rightarrow> bool" where
  "log_ok l \<longleftrightarrow> log_initialized l \<and> log_count l \<le> LOG_ENTRIES \<and> log_count l \<le> log_index l"

definition log_texts :: "klog \<Rightarrow> (string \<times> string) list" where
  "log_texts l = ring_list (\<lambda>i. (le_level (log_buffer l i), le_msg (log_buffer l i))) LOG_ENTRIES
     (log_index l mod LOG_ENTRIES) (log_count l)"

lemma ring_read:
  fixes idx :: nat
  assumes "count \<le> idx" "count \<le> cap" "n < count"
  shows "(idx - count + n) mod cap = (idx mod cap + (cap - count) + n) mod cap"
proof -
  have "(idx - count + n) mod cap = (idx - count + n + cap) mod cap" by simp
  also have "idx - count + n + cap = idx + (cap - count) + n" using assms by linarith
  also have "(idx + (cap - count) + n) mod cap = (idx mod cap + (cap - count) + n) mod cap"
    by (metis mod_add_left_eq)
  finally show ?thesis .
qed

interpretation klogs: ring_log 64 "\<lambda>(level, msg). log_add level msg" log_texts log_ok
  "\<lambda>(level, msg). length level \<le> 7 \<and> length msg \<le> 127"
proof (unfold_locales, goal_cases)
  case (1 s e)
  then show ?case by (cases e) (auto simp: log_ok_def log_add_def Let_def)
next
  case (2 s e)
  obtain level msg where e: "e = (level, msg)" by (cases e)
  let ?b = "\<lambda>i. (le_level (log_buffer s i), le_msg (log_buffer s i))"
  have "(\<lambda>i. (le_level (log_buffer (log_add level msg s) i), le_msg (log_buffer (log_add level msg s) i)))
      = ?b(log_index s mod 64 := (level, msg))"
    using 2 by (auto simp: log_add_def Let_def e log_ok_def fun_eq_iff)
  moreover have "log_index (log_add level msg s) mod 64 = (log_index s mod 64 + 1) mod 64"
    "log_count (log_add level msg s) = (if log_count s < 64 then log_count s + 1 else log_count s)"
    using 2 by (auto simp: log_add_def Let_def log_ok_def mod_Suc_eq)
  ultimately show ?case
    using 2 ring_put[of "log_index s mod 64" 64 "log_count s" ?b "(level, msg)"]
    by (simp add: log_texts_def e log_ok_def)
next
  case (3 s)
  then show ?case by (simp add: log_texts_def log_ok_def)
qed

definition netlog_ok :: "netlog \<Rightarrow> bool" where
  "netlog_ok l \<longleftrightarrow> net_log_count l \<le> NET_LOG_MAX \<and> net_log_count l \<le> net_log_idx l"

definition net_texts :: "netlog \<Rightarrow> (string \<times> string) list" where
  "net_texts l = ring_list (\<lambda>i. (ne_event (net_log l i), ne_detail (net_log l i))) NET_LOG_MAX
     (net_log_idx l mod NET_LOG_MAX) (net_log_count l)"

interpretation netlogs: ring_log 256 "\<lambda>(event, detail). net_log_event event detail" net_texts netlog_ok
  "\<lambda>(event, detail). length event \<le> 63 \<and> length detail \<le> 95"
proof (unfold_locales, goal_cases)
  case (1 s e)
  then show ?case by (cases e) (auto simp: netlog_ok_def net_log_event_def Let_def)
next
  case (2 s e)
  obtain ev de where e: "e = (ev, de)" by (cases e)
  let ?b = "\<lambda>i. (ne_event (net_log s i), ne_detail (net_log s i))"
  have "(\<lambda>i. (ne_event (net_log (net_log_event ev de s) i), ne_detail (net_log (net_log_event ev de s) i)))
      = ?b(net_log_idx s mod 256 := (ev, de))"
    using 2 by (auto simp: net_log_event_def Let_def e fun_eq_iff)
  moreover have "net_log_idx (net_log_event ev de s) mod 256 = (net_log_idx s mod 256 + 1) mod 256"
    "net_log_count (net_log_event ev de s) =
      (if net_log_count s < 256 then net_log_count s + 1 else net_log_count s)"
    by (auto simp: net_log_event_def Let_def mod_Suc_eq)
  ultimately show ?case
    using 2 ring_put[of "net_log_idx s mod 256" 256 "net_log_count s" ?b "(ev, de)"]
    by (simp add: net_texts_def e netlog_ok_def)
next
  case (3 s)
  then show ?case by (simp add: net_texts_def netlog_ok_def)
qed

text \<open>The reader of the kernel log returns the entries of the ring, oldest first.\<close>

lemma log_get_entry_text:
  assumes "log_ok l" "n < log_count l"
  shows "log_get_entry (int n) mx l =
    take (mx - 1) (fst (log_texts l ! n) @ '' '' @ snd (log_texts l ! n))"
proof -
  have "(log_index l - log_count l + n) mod 64 =
      (log_index l mod 64 + (64 - log_count l) + n) mod 64"
    using assms by (intro ring_read) (auto simp: log_ok_def)
  then show ?thesis
    using assms(2) by (simp add: log_get_entry_def log_texts_def ring_list_def Let_def)
qed

section \<open>The driver's log\<close>

definition rtl_log0 :: rtl_log where
  "rtl_log0 = \<lparr>rtl_net_log = (\<lambda>_. \<lparr>ne_tick = 0, ne_event = [], ne_detail = []\<rparr>),
     rtl_net_log_idx = 0, rtl_net_log_count = 0, rtl_net_tick = 0\<rparr>"

abbreviation rtl_logged :: "(string \<times> string) list \<Rightarrow> rtl_log" where
  "rtl_logged es \<equiv> fold (\<lambda>(e, d). rtl_net_log_event e d) es rtl_log0"

lemma rtl_counts:
  assumes "es \<noteq> []" "length es \<le> 63"
  shows "rtl_net_log_idx (rtl_logged es) = length es \<and>
    rtl_net_log_count (rtl_logged es) = Suc (length es)"
  using assms
proof (induction es rule: rev_induct)
  case (snoc x xs)
  then show ?case
    by (cases "xs = []"; cases x)
      (auto simp: rtl_net_log_event_def Let_def rtl_log0_def split: prod.splits)
qed simp

lemma rtl_log_first_read:
  assumes "es \<noteq> []" "length es \<le> 63"
  shows "rtl_log_at (rtl_logged es) 0 = None"
  using rtl_counts[OF assms] by (simp add: rtl_log_at_def Let_def c_mod_def c_div_def)

section \<open>Properties\<close>

definition klog0 :: klog where
  "klog0 = \<lparr>log_buffer = (\<lambda>_. \<lparr>le_seq = 0, le_level = [], le_msg = []\<rparr>), log_count = 0,
     log_index = 0, log_initialized = True\<rparr>"

lemma klog0_ok: "log_ok klog0" "log_texts klog0 = []"
  by (simp_all add: klog0_def log_ok_def log_texts_def ring_list_def)

text \<open>after any sequence of short entries added to an empty kernel log, the log counts the last
  64 of them, and \<open>log_get_entry\<close> returns them oldest first, each as level, space and message cut
  to the caller's buffer.\<close>
theorem log_get_after_adds:
  assumes "log_ok l" "log_texts l = []" "\<forall>(level, msg) \<in> set es. length level \<le> 7 \<and> length msg \<le> 127"
    and "l' = fold (\<lambda>(level, msg). log_add level msg) es l"
  shows "log_get_count l' = min 64 (length es) \<and>
    (\<forall>n < log_get_count l'. log_get_entry (int n) mx l' =
       take (mx - 1) (fst (last_n 64 es ! n) @ '' '' @ snd (last_n 64 es ! n)))"
proof -
  have ok: "log_ok l'"
    using klogs.puts_inv[OF assms(1,3)] by (simp add: assms(4))
  have t: "log_texts l' = last_n 64 es"
    using klogs.puts_entries[OF assms(1,3)] assms(2) by (simp add: assms(4))
  have c: "log_count l' = min 64 (length es)"
    using arg_cong[OF t, of length] by (simp add: log_texts_def)
  show ?thesis
    using log_get_entry_text[OF ok] t c by (simp add: log_get_count_def)
qed

theorem log_get_after_adds_witness:
  "log_get_entry 1 32 (log_add ''NET'' ''up'' (log_add ''INFO'' ''boot'' klog0)) = ''NET up''"
proof -
  let ?l = "log_add ''NET'' ''up'' (log_add ''INFO'' ''boot'' klog0)"
  have "log_get_count ?l = 2 \<and> (\<forall>n < log_get_count ?l. log_get_entry (int n) 32 ?l =
      take 31 (fst ([(''INFO'', ''boot''), (''NET'', ''up'')] ! n) @ '' '' @
        snd ([(''INFO'', ''boot''), (''NET'', ''up'')] ! n)))"
    using log_get_after_adds[OF klog0_ok, of "[(''INFO'', ''boot''), (''NET'', ''up'')]" ?l 32]
    by (simp add: last_n_def)
  then have "log_get_entry (int 1) 32 ?l = take 31 (''NET'' @ '' '' @ ''up'')"
    by (elim conjE allE[of _ 1]) simp
  then show ?thesis by simp
qed

text \<open>the network driver's log reads outside its array: as soon as one event is logged, and
  until 64 are, the first entry that \<open>net_log_dump\<close> and \<open>rtl_net_log_get\<close> read has index -1.\<close>
theorem rtl_log_read_out_of_bounds:
  assumes "es \<noteq> []" "length es \<le> 63" "2 \<le> mx"
  shows "rtl_net_log_get mx (rtl_logged es) = None \<and> rtl_net_log_dump (rtl_logged es) v = None"
proof -
  have "[0 ..< Suc (length es)] = 0 # [1 ..< Suc (length es)]"
    by (simp add: upt_conv_Cons del: upt_Suc)
  then show ?thesis
    using rtl_log_first_read[OF assms(1,2)] rtl_counts[OF assms(1,2)] assms(3)
    by (simp add: rtl_net_log_get_def rtl_net_log_dump_def del: upt_Suc)
qed

theorem rtl_log_read_out_of_bounds_witness:
  "rtl_net_log_get 2048 (rtl_logged [(''RTL'', ''Starting'')]) = None"
  using rtl_log_read_out_of_bounds[of "[(''RTL'', ''Starting'')]" 2048 vga0] by simp

text \<open>saving the network log overruns its 4096 byte buffer once the lines of the log add up to
  that size; the size bound in the loop has no effect.\<close>
theorem net_log_save_overrun:
  assumes "i \<le> net_log_count l"
    and "4096 \<le> length (concat (map (\<lambda>i. net_log_line (net_log_at l i)) [0 ..< i]))"
  shows "net_log_save_text l = None"
proof -
  let ?f = "\<lambda>i. net_log_line (net_log_at l i)"
  let ?step = "\<lambda>i buf. fits 4096 (buf @ ?f i)"
  have split: "[0 ..< net_log_count l] = [0 ..< i] @ [i ..< net_log_count l]"
    using assms(1) by (metis le_add_diff_inverse upt_add_eq_append zero_le)
  have "ofold ?step [0 ..< i] [] = None"
  proof (rule ccontr)
    assume "ofold ?step [0 ..< i] [] \<noteq> None"
    then obtain b' where "ofold ?step [0 ..< i] [] = Some b'" by blast
    then show False using ofold_fits[of 4096 ?f "[0 ..< i]" "[]" b'] assms(2) by (cases "i = 0") auto
  qed
  then show ?thesis
    unfolding net_log_save_text_def split ofold_append by simp
qed

theorem net_log_save_overrun_witness:
  "net_log_save_text \<lparr>net_log = (\<lambda>_. \<lparr>ne_tick = 0, ne_event = replicate 63 CHR ''e'',
     ne_detail = replicate 95 CHR ''d''\<rparr>), net_log_idx = 256, net_log_count = 256\<rparr> = None"
  by (rule net_log_save_overrun[of 26])
    (simp_all add: net_log_at_def net_log_line_def length_concat comp_def map_replicate_const sum_list_replicate)

end
