(* ===== verification/Pig_Fs.thy ===== *)
theory Pig_Fs
  imports Pig_Ps2 Pig_Log
begin

text \<open>
  The file system of \<open>kernel/pigfs.h\<close>: the read-only tree compiled into the kernel (\<open>VFS\<close>), the
  in-memory files (\<open>memfs\<close>), the store of deleted paths that survives a soft reboot, and path
  resolution. The commands built on them are in the theory \<open>Pig_FsCmd\<close>.

  \<open>memfs\<close> is the list of the first \<open>memfs_n\<close> entries of the array; a \<open>MemFile*\<close> is the index of
  an entry. \<open>deleted_paths\<close> is the list of the first \<open>deleted_n\<close> local entries; the store at the
  fixed physical address is kept apart, since it can hold anything at boot. A copy of a path that
  does not fit its 128 or 256 byte buffer is \<^term>\<open>None\<close>.
\<close>

section \<open>Definitions\<close>

subsection \<open>The compiled-in tree\<close>

abbreviation nl :: string where "nl \<equiv> [CHR 0x0A]"
abbreviation tb :: string where "tb \<equiv> [CHR 0x09]"
abbreviation sq :: string where "sq \<equiv> [CHR 0x27]"

datatype vnode = VNode (vn_path: string) (vn_is_dir: bool) (vn_content: "string option")

definition VFS :: "vnode list" where
  "VFS = [
     VNode (''/'') True None,
     VNode (''/boot'') True None,
     VNode (''/kernel'') True None,
     VNode (''/drivers'') True None,
     VNode (''/drivers/vga'') True None,
     VNode (''/drivers/kbd'') True None,
     VNode (''/drivers/ps2'') True None,
     VNode (''/drivers/net'') True None,
     VNode (''/shell'') True None,
     VNode (''/shell/games'') True None,
     VNode (''/wm'') True None,
     VNode (''/crypto'') True None,
     VNode (''/dev'') True None,
     VNode (''/proc'') True None,
     VNode (''/etc'') True None,
     VNode (''/etc/skel'') True None,
     VNode (''/root'') True None,
     VNode (''/home'') True None,
     VNode (''/tmp'') True None,
     VNode (''/usr'') True None,
     VNode (''/usr/bin'') True None,
     VNode (''/usr/lib'') True None,
     VNode (''/var'') True None,
     VNode (''/var/log'') True None,
     VNode (''/bin'') True None,
     VNode (''/sbin'') True None,
     VNode (''/proc/net'') True None,
     VNode (''/kernel/poing'') True None,
     VNode (''/README.txt'') False (Some (''pigOS v1.0 x86_64 - type '' @ sq @ ''help'' @ sq @
        '' for commands'' @ nl @ ''type '' @ sq @ ''wm'' @ sq @ '' for desktop'' @ nl)),
     VNode (''/Makefile'') False (Some (''CC=gcc'' @ nl @ ''NASM=nasm'' @ nl @
        ''CFLAGS=-m64 -ffreestanding'' @ nl @ ''all: dirs pigOS.iso'' @ nl)),
     VNode (''/linker.ld'') False (Some (''ENTRY(_start)'' @ nl @
        ''SECTIONS { . = 1M; .text BLOCK(4K): ... }'' @ nl)),
     VNode (''/boot/README.txt'') False (Some (''boot/ - FLARE Bootloader'' @ nl @
        ''boot.asm: x86_64 Long Mode bootstrap'' @ nl @ ''pig.bin: compiled pigKernel ELF'' @ nl @
        ''grub.cfg: hidden GRUB config'' @ nl)),
     VNode (''/boot/boot.asm'') False (Some (''; FLARE x86_64 bootstrap'' @ nl @
        ''; PML4->PDPT->PD page tables (2MB pages)'' @ nl @
        ''; Long Mode, calls kernel_main(magic, mb_info)'' @ nl)),
     VNode (''/boot/pig.bin'') False (Some (''[pigKernel ELF binary - 151KB]'')),
     VNode (''/boot/grub.cfg'') False (Some (''# FLARE - 5s countdown'' @ nl @ ''set timeout=5'' @
        nl @ ''set timeout_style=countdown'' @ nl @ ''menuentry '' @ [CHR 0x22] @ ''pigOS'' @
        [CHR 0x22] @ '' { multiboot /boot/pig.bin; boot }'')),
     VNode (''/kernel/README.txt'') False (Some (''kernel/ - pigKernel Core'' @ nl @
        ''kernel.c:  main entry, FLARE splash, verbose poing boot'' @ nl @
        ''mem.h:     4MB bump allocator @ 0x400000'' @ nl @ ''users.h:   user/group system'' @ nl @
        ''pigfs.h:   virtual filesystem'' @ nl @ ''poing/:    poing init system (13 units)'' @
        nl)),

             VNode (''/kernel/kernel.c'') False (Some (''// pigKernel - FLARE splash + verbose poing boot + shell_run()'')),
     VNode (''/kernel/mem.h'') False (Some (''// 4MB bump allocator @ 0x400000'' @ nl @
        ''// km() kf() kmc() kms() ksl() ksc()'')),

             VNode (''/kernel/users.h'') False (Some (''// User/group: adduser, usermod, groupadd, passwd, rok, su'')),

             VNode (''/kernel/pigfs.h'') False (Some (''// Virtual FS: path resolution, ls, cat, cd, grep, find, rm, touch'')),
     VNode (''/kernel/poing/poing.h'') False (Some (''// poing init system v1.0'' @ nl @
        ''// poingctl status|start|stop|enable|disable|restart|reload|reboot|halt|shutdown|sleep'')),
     VNode (''/drivers/README.txt'') False (Some (''drivers/ - Hardware Drivers'' @ nl @
        ''vga/vga.h:     VGA 80x25 CP437 + hardware cursor'' @ nl @
        ''kbd/keyboard.h: PS/2 keyboard (arrows, F-keys, ctrl)'' @ nl @
        ''ps2/ps2.h:     Combined PS/2 controller'' @ nl @
        ''net/network.h: RTL8139 PCI detection'' @ nl)),
     VNode (''/drivers/vga/vga.h'') False (Some (''// VGA 80x25 CP437 driver'' @ nl @
        ''// Hardware cursor, colors, box chars'')),
     VNode (''/drivers/kbd/keyboard.h'') False (Some (''// PS/2 keyboard driver'')),
     VNode (''/drivers/ps2/ps2.h'') False (Some (''// PS/2 combined controller'' @ nl @
        ''// Mouse disabled until IRQ support added'')),
     VNode (''/drivers/net/network.h'') False (Some (''// RTL8139 Ethernet driver'' @ nl @
        ''// PCI detection, TX/RX skeleton'')),
     VNode (''/shell/README.txt'') False (Some (''shell/ - larpshell v2.2'' @ nl @
        ''shell.h:    150+ commands'' @ nl @ ''fastfetch.h: fastfetch with pig art'' @ nl @
        ''polctl.h:   log viewer (journalctl-style)'' @ nl @ ''rpk.h:      package manager'' @ nl @
        ''netpg.h:    network manager'' @ nl @ ''vi.h:       pi/pivi modal editor'' @ nl @
        ''games/:     snake tetris matrix'' @ nl)),
     VNode (''/shell/shell.h'') False (Some (''// larpshell v2.2'' @ nl @
        ''// 150+ commands, tab complete, history, pi, pnano'')),
     VNode (''/shell/vi.h'') False (Some (''// pi/pivi modal editor'' @ nl @
        ''// i=insert ESC=normal :wq=save+quit dd=delete'')),

             VNode (''/shell/fastfetch.h'') False (Some (''// fastfetch - system info with pig ASCII art'')),

             VNode (''/shell/polctl.h'') False (Some (''// polctl - log viewer (-f -n N -p PRI -u UNIT)'')),

             VNode (''/shell/rpk.h'') False (Some (''// rpk - package manager (on/install/remove/list/roam)'')),

             VNode (''/shell/netpg.h'') False (Some (''// netpg - network manager (status/up/down/ip/dhcp)'')),
     VNode (''/shell/games/tetris.h'') False (Some (''// Tetris game with 7 tetrominoes'')),
     VNode (''/wm/README.txt'') False (Some (''wm/ - PigWM compositor'' @ nl @
        ''Win10-style desktop, taskbar, menubar'' @ nl @
        ''F2=terminal window  F3=Robin  F5=power'' @ nl @ ''TAB=cycle focus  ESC=shell'' @ nl)),
     VNode (''/wm/wm.h'') False (Some (''// PigWM - Win10-style WM'')),
     VNode (''/crypto/README.txt'') False (Some (''crypto/ - pigssl'' @ nl @
        ''pigssl.h: pigcrypt pigdecrypt pighash pigkey pigcert'' @ nl)),
     VNode (''/crypto/pigssl.h'') False (Some (''// pigssl crypto subsystem'')),
     VNode (''/dev/tty0'') False (Some (''[VGA console - 80x25 text]'')),
     VNode (''/dev/kbd'') False (Some (''[PS/2 keyboard]'')),
     VNode (''/dev/mouse'') False (Some (''[PS/2 mouse - disabled until IRQ]'')),
     VNode (''/dev/null'') False (Some ([])),
     VNode (''/dev/zero'') False (Some (''[zeros]'')),
     VNode (''/dev/random'') False (Some (''[entropy]'')),
     VNode (''/dev/mem'') False (Some (''[physical memory]'')),
     VNode (''/dev/eth0'') False (Some (''[RTL8139 - 10/100Mbps]'')),
     VNode (''/proc/cpuinfo'') False (Some (''processor'' @ tb @ '': 0'' @ nl @ ''vendor_id'' @ tb @
        '': pigOS'' @ nl @ ''model name'' @ tb @ '': x86_64 Virtual CPU'' @ nl @ ''flags'' @
        [CHR 0x09, CHR 0x09] @ '': fpu pae lm nx sse2'' @ nl @ ''bogomips'' @ tb @ '': 9999.99'' @
        nl)),
     VNode (''/proc/meminfo'') False (Some (''MemTotal:'' @ tb @ ''4096 kB'' @ nl @ ''MemFree:'' @
        tb @ ''3072 kB'' @ nl @ ''MemAvailable:'' @ tb @ ''3072 kB'' @ nl)),
     VNode (''/proc/version'') False (Some (''pigOS 1.0.0 pigKernel #1 SMP x86_64'')),
     VNode (''/proc/uptime'') False (Some (''999.0 999.0'')),
     VNode (''/proc/mounts'') False (Some (''pigfs / pigfs rw 0 0'' @ nl @
        ''devfs /dev devfs rw 0 0'' @ nl @ ''proc /proc proc rw 0 0'' @ nl)),
     VNode (''/proc/net/dev'') False (Some (''Inter-|Receive|Transmit'' @ nl @ ''lo:0 0'' @ nl @
        ''eth0:0 0'' @ nl)),
     VNode (''/etc/passwd'') False (Some (''root:x:0:0:root:/root:/bin/pig'' @ nl)),
     VNode (''/etc/shadow'') False (Some (''root:$pig$hash:19000:0:99999:7:::'' @ nl)),
     VNode (''/etc/group'') False (Some (''root:x:0:root'' @ nl @ ''wheel:x:1:root'' @ nl @
        ''users:x:2:'' @ nl)),
     VNode (''/etc/hostname'') False (Some (''pigOS'' @ nl)),
     VNode (''/etc/fstab'') False (Some (''pigfs / pigfs defaults 0 0'' @ nl)),
     VNode (''/etc/pig.conf'') False (Some (''INIT=poing'' @ nl @ ''SHELL=/bin/pig'' @ nl @
        ''WM=PigWM'' @ nl @ ''NET=pig-net'' @ nl)),
     VNode (''/etc/hosts'') False (Some (''127.0.0.1 localhost'' @ nl @ ''127.0.0.1 pigOS'' @
        nl)),
     VNode (''/etc/resolv.conf'') False (Some (''nameserver 8.8.8.8'' @ nl @
        ''nameserver 8.8.4.4'' @ nl)),
     VNode (''/etc/skel/.lashrc'') False (Some (''# .lashrc - larpshell config'' @ nl @
        ''alias ll='' @ sq @ ''ls -la'' @ [CHR 0x27, CHR 0x0A] @ ''alias la='' @ sq @ ''ls -la'' @
        [CHR 0x27, CHR 0x0A] @ ''alias cls='' @ sq @ ''clear'' @ [CHR 0x27, CHR 0x0A] @
        ''alias wd='' @ sq @ ''fastfetch'' @ [CHR 0x27, CHR 0x0A])),
     VNode (''/usr/bin/pig'') False (Some (''[larpshell binary]'')),
     VNode (''/usr/bin/rpk'') False (Some (''[rpk binary]'')),
     VNode (''/usr/bin/netpg'') False (Some (''[netpg binary]'')),
     VNode (''/usr/bin/pigssl'') False (Some (''[pigssl binary]'')),
     VNode (''/var/log/poing.log'') False None,
     VNode (''/var/log/kernel.log'') False None,
     VNode (''/var/log/net.log'') False None,
     VNode (''/var/log/netdebug.log'') False None]"

subsection \<open>State\<close>

record memfile =
  mf_path :: string
  mf_content :: string
  mf_used :: bool
  mf_is_dir :: bool

abbreviation (input) MEMFS_MAX :: nat where "MEMFS_MAX \<equiv> 64"
abbreviation (input) DELETED_MAX :: nat where "DELETED_MAX \<equiv> 64"
abbreviation (input) LOG_MAX :: nat where "LOG_MAX \<equiv> 128"
abbreviation (input) LOG_LINE :: nat where "LOG_LINE \<equiv> 96"
abbreviation (input) DEL_MAGIC :: u32 where "DEL_MAGIC \<equiv> 0xDEAD1337"

record fs = kbd +
  memfs :: "memfile list"
  poing_log :: "string list"
  kern_log :: "string list"
  store_magic :: u32
  store_count :: u32
  store_paths :: "nat \<Rightarrow> string"
  deleted_paths :: "string list"
  grep_pipe_input :: bool
  grep_pipe_input_len :: nat
  grep_found :: nat
  drv_log :: rtl_log

lemma fs_pr [simp]:
  "memfs (pr f st) = memfs st" "poing_log (pr f st) = poing_log st" "kern_log (pr f st) = kern_log st"
  "store_magic (pr f st) = store_magic st" "store_count (pr f st) = store_count st"
  "store_paths (pr f st) = store_paths st" "deleted_paths (pr f st) = deleted_paths st"
  "grep_pipe_input (pr f st) = grep_pipe_input st"
  "grep_pipe_input_len (pr f st) = grep_pipe_input_len st" "grep_found (pr f st) = grep_found st"
  "drv_log (pr f st) = drv_log st"
  by (simp_all add: pr_def)

definition log_poing :: "string \<Rightarrow> 'a fs_scheme \<Rightarrow> 'a fs_scheme option" where
  "log_poing msg st =
     (if length (poing_log st) < LOG_MAX
      then do { m \<leftarrow> fits LOG_LINE msg; Some (st\<lparr>poing_log := poing_log st @ [m]\<rparr>) }
      else Some st)"

definition log_kern :: "string \<Rightarrow> 'a fs_scheme \<Rightarrow> 'a fs_scheme option" where
  "log_kern msg st =
     (if length (kern_log st) < LOG_MAX
      then do { m \<leftarrow> fits LOG_LINE msg; Some (st\<lparr>kern_log := kern_log st @ [m]\<rparr>) }
      else Some st)"

subsection \<open>Deleted paths\<close>

definition del_store_init :: "'a fs_scheme \<Rightarrow> 'a fs_scheme" where
  "del_store_init st =
     (if store_magic st \<noteq> DEL_MAGIC
      then st\<lparr>store_magic := DEL_MAGIC, store_count := 0,
              store_paths := (\<lambda>i. if i < DELETED_MAX then [] else store_paths st i)\<rparr>
      else st)"

definition store_cnt :: "'a fs_scheme \<Rightarrow> nat" where
  "store_cnt st = (if unat (store_count st) > DELETED_MAX then DELETED_MAX else unat (store_count st))"

text \<open>The stored count is read back as an \<open>int\<close>.\<close>

definition del_sync_from_store :: "'a fs_scheme \<Rightarrow> 'a fs_scheme option" where
  "del_sync_from_store st =
     (let st = del_store_init st;
          n = sint (store_count st);
          n = (if n > int DELETED_MAX then int DELETED_MAX else n)
      in do { ps \<leftarrow> those (map (\<lambda>i. fits 128 (store_paths st i)) [0 ..< nat n]);
              Some (st\<lparr>deleted_paths := ps\<rparr>) })"

definition del_sync_to_store :: "'a fs_scheme \<Rightarrow> 'a fs_scheme" where
  "del_sync_to_store st =
     (let st = del_store_init st; ds = deleted_paths st
      in st\<lparr>store_count := of_nat (length ds),
             store_paths := (\<lambda>i. if i < length ds then ds ! i else store_paths st i)\<rparr>)"

text \<open>Does the store or the local mirror name the path? The query initialises the store before it
  reads it; \<open>kernel_main\<close> has done so at boot, after which \<open>del_store_init\<close> changes nothing
  (\<open>del_store_init_id\<close> below), so the query is a function of the state.\<close>

definition fs_is_deleted :: "string \<Rightarrow> 'a fs_scheme \<Rightarrow> bool" where
  "fs_is_deleted p st =
     (let s = del_store_init st in
      (\<exists>i \<in> set [0 ..< store_cnt s]. ksc (store_paths s i) p = 0) \<or>
      (\<exists>d \<in> set (deleted_paths st). ksc d p = 0))"

definition fs_mark_deleted :: "string \<Rightarrow> 'a fs_scheme \<Rightarrow> 'a fs_scheme option" where
  "fs_mark_deleted p st =
     (if length (deleted_paths st) < DELETED_MAX
      then do { q \<leftarrow> fits 128 p;
                Some (del_sync_to_store (st\<lparr>deleted_paths := deleted_paths st @ [q]\<rparr>)) }
      else Some (del_sync_to_store st))"

definition fs_restore :: "string \<Rightarrow> 'a fs_scheme \<Rightarrow> 'a fs_scheme" where
  "fs_restore p st = del_sync_to_store
     (case find_idx (\<lambda>d. ksc d p = 0) (deleted_paths st) of
        None \<Rightarrow> st
      | Some i \<Rightarrow> st\<lparr>deleted_paths := take i (deleted_paths st) @ drop (Suc i) (deleted_paths st)\<rparr>)"

subsection \<open>In-memory files\<close>

definition mf_live :: "string \<Rightarrow> 'a fs_scheme \<Rightarrow> memfile \<Rightarrow> bool" where
  "mf_live p st m \<longleftrightarrow> mf_used m \<and> ksc (mf_path m) p = 0 \<and> \<not> fs_is_deleted (mf_path m) st"

definition memfs_find :: "string \<Rightarrow> 'a fs_scheme \<Rightarrow> nat option" where
  "memfs_find p st = find_idx (mf_live p st) (memfs st)"

definition ends_slash :: "string \<Rightarrow> bool" where
  "ends_slash p \<longleftrightarrow> length p > 1 \<and> last p = CHR ''/''"

text \<open>The result is the index of the entry and the new state; \<open>Some (None, st)\<close> is a full table,
  \<^term>\<open>None\<close> a path longer than its field.\<close>

definition memfs_create ::
    "string \<Rightarrow> 'a fs_scheme \<Rightarrow> (nat option \<times> 'a fs_scheme) option" where
  "memfs_create p st =
     (case memfs_find p st of
        Some i \<Rightarrow> Some (Some i, st)
      | None \<Rightarrow>
          if length (memfs st) \<ge> MEMFS_MAX then Some (None, st)
          else do {
            q \<leftarrow> fits 128 p;
            Some (Some (length (memfs st)),
              st\<lparr>memfs := memfs st @
                [\<lparr>mf_path = q, mf_content = [], mf_used = True, mf_is_dir = ends_slash p\<rparr>]\<rparr>) })"

definition fs_find_vnode :: "string \<Rightarrow> 'a fs_scheme \<Rightarrow> vnode option" where
  "fs_find_vnode p st =
     (if fs_is_deleted p st then None else List.find (\<lambda>v. ksc (vn_path v) p = 0) VFS)"

text \<open>Writing the whole content of an open file, \<open>kcp(m->content, s)\<close>.\<close>

definition mf_write :: "nat \<Rightarrow> string \<Rightarrow> 'a fs_scheme \<Rightarrow> 'a fs_scheme option" where
  "mf_write i s st =
     do { c \<leftarrow> fits 2048 s;
          Some (st\<lparr>memfs := (memfs st)[i := (memfs st ! i)\<lparr>mf_content := c\<rparr>]\<rparr>) }"

subsection \<open>Paths\<close>

definition strip_slash :: "string \<Rightarrow> string" where
  "strip_slash p = (if ends_slash p then butlast p else p)"

text \<open>The collapsing loop with its index: at \<open>//\<close> the tail is shifted left and the index stays.\<close>

function collapse_loop :: "nat \<Rightarrow> string \<Rightarrow> string" where
  "collapse_loop i p =
     (if i < length p then
        (if p ! i = CHR ''/'' \<and> cget p (i + 1) = CHR ''/''
         then collapse_loop i (take i p @ drop (i + 1) p)
         else collapse_loop (i + 1) p)
      else p)"
  by pat_completeness auto
termination
  by (relation "measure (\<lambda>(i, p). length p - i)") auto

declare collapse_loop.simps [simp del]

definition path_normalize :: "string \<Rightarrow> string" where
  "path_normalize p = collapse_loop 0 (strip_slash p)"

text \<open>One step up: the loop \<open>while(l>1&&out[l-1]!='/') l--\<close> and the two adjustments after it. With
  an empty buffer the length becomes 1 while the first byte is still NUL.\<close>

fun up_scan :: "string \<Rightarrow> nat \<Rightarrow> nat" where
  "up_scan out l = (if l > 1 \<and> out ! (l - 1) \<noteq> CHR ''/'' then up_scan out (l - 1) else l)"

declare up_scan.simps [simp del]

definition go_up :: "string \<Rightarrow> string" where
  "go_up out =
     (let l = up_scan out (length out); l = (if l > 1 then l - 1 else l); l = (if l < 1 then 1 else l)
      in take l (out @ [CHR 0x00]))"

definition skip1_slash :: "string \<Rightarrow> string" where
  "skip1_slash p = (if cget p 0 = CHR ''/'' then tl p else p)"

abbreviation skip_slashes :: "string \<Rightarrow> string" where
  "skip_slashes \<equiv> dropWhile (\<lambda>c. c = CHR ''/'')"

definition is_dotdot :: "string \<Rightarrow> bool" where
  "is_dotdot p \<longleftrightarrow> cget p 0 = CHR ''.'' \<and> cget p 1 = CHR ''.'' \<and>
     (cget p 2 = CHR ''/'' \<or> cget p 2 = CHR 0x00)"

definition is_dot :: "string \<Rightarrow> bool" where
  "is_dot p \<longleftrightarrow> cget p 0 = CHR ''.'' \<and> (cget p 1 = CHR ''/'' \<or> cget p 1 = CHR 0x00)"

definition add_sep :: "string \<Rightarrow> string" where
  "add_sep out = (if out \<noteq> [] \<and> last out \<noteq> CHR ''/'' then out @ ''/'' else out)"

text \<open>\<open>comp_of room p\<close>: the part of the next component that \<open>room\<close> more bytes can take.\<close>

definition comp_of :: "nat \<Rightarrow> string \<Rightarrow> string" where
  "comp_of room p = take room (takeWhile (\<lambda>c. c \<noteq> CHR ''/'') p)"

lemma skip1_slash_length: "length (skip1_slash p) \<le> length p"
  by (simp add: skip1_slash_def)

lemma skip_slashes_length: "length (skip_slashes p) \<le> length p"
  by (simp add: length_dropWhile_le)

lemma comp_of_pos:
  assumes "q \<noteq> []" "q = skip_slashes p" "0 < room"
  shows "0 < length (comp_of room q)"
proof -
  have "hd q \<noteq> CHR ''/''"
    using assms(1,2) hd_dropWhile[of "\<lambda>c. c = CHR ''/''" p] by simp
  then show ?thesis
    using assms(1,3) by (cases q) (auto simp: comp_of_def)
qed

function resolve_loop :: "nat \<Rightarrow> string \<Rightarrow> string \<Rightarrow> string" where
  "resolve_loop outsz out path =
     (let p = skip_slashes path in
      if p = [] then out
      else if is_dotdot p then resolve_loop outsz (go_up out) (skip1_slash (drop 2 p))
      else if is_dot p then resolve_loop outsz out (skip1_slash (drop 1 p))
      else if outsz \<le> length out + 2 then out
      else (let out = add_sep out; c = comp_of (outsz - 1 - length out) p
            in resolve_loop outsz (out @ c) (skip1_slash (drop (length c) p))))"
  by pat_completeness auto
termination
proof (relation "measure (\<lambda>(outsz, out, p). length p)", goal_cases)
  case 1
  show ?case by simp
next
  case (2 outsz out path p)
  then have "0 < length p" "length p \<le> length path"
    using skip_slashes_length[of path] by auto
  then show ?case
    using skip1_slash_length[of "drop 2 p"] unfolding length_drop in_measure prod.case by linarith
next
  case (3 outsz out path p)
  then have "0 < length p" "length p \<le> length path"
    using skip_slashes_length[of path] by auto
  then show ?case
    using skip1_slash_length[of "drop 1 p"] unfolding length_drop in_measure prod.case by linarith
next
  case (4 outsz out path p out' c)
  then have p: "0 < length p" "length p \<le> length path"
    using skip_slashes_length[of path] by auto
  have "0 < outsz - 1 - length out'"
    using 4 by (auto simp: add_sep_def)
  then have "0 < length c"
    using comp_of_pos[of p path "outsz - 1 - length out'"] 4 by simp
  then show ?case
    using p skip1_slash_length[of "drop (length c) p"]
    unfolding length_drop in_measure prod.case by linarith
qed

declare resolve_loop.simps [simp del]

definition cut_nul :: "string \<Rightarrow> string" where
  "cut_nul = takeWhile (\<lambda>c. c \<noteq> CHR 0x00)"

text \<open>An absent path argument is the empty string.\<close>

definition fs_resolve :: "string \<Rightarrow> string \<Rightarrow> nat \<Rightarrow> string option" where
  "fs_resolve cwd path outsz =
     (if path = [] \<or> path = ''.'' then do { out \<leftarrow> fits outsz cwd; Some (path_normalize out) }
      else if ksc path ''~'' = 0 then fits outsz ''/''
      else (let out = (if cget path 0 = CHR ''/'' then take (outsz - 1) path
                       else cut_nul (resolve_loop outsz (take (outsz - 1) cwd) path));
                out = (if out = [] then ''/'' else out)
            in Some (path_normalize out)))"

section \<open>Normalisation\<close>

text \<open>The in-place loop computes the recursive function that drops a slash before a slash.\<close>

fun collapse :: "string \<Rightarrow> string" where
  "collapse (a # b # r) =
     (if a = CHR ''/'' \<and> b = CHR ''/'' then collapse (b # r) else a # collapse (b # r))"
| "collapse p = p"

lemma collapse_loop_collapse:
  "i \<le> length p \<Longrightarrow> collapse_loop i p = take i p @ collapse (drop i p)"
proof (induction i p rule: collapse_loop.induct)
  case (1 i p)
  show ?case
  proof (cases "i < length p")
    case False
    then show ?thesis using 1 by (simp add: collapse_loop.simps)
  next
    case True
    then obtain a r where d: "drop i p = a # r" "p ! i = a"
      by (metis Cons_nth_drop_Suc)
    have d': "drop (Suc i) p = r" using d(1) by (metis drop_Suc list.sel(3) tl_drop)
    have t: "take (Suc i) p = take i p @ [a]" using True d(2) by (simp add: take_Suc_conv_app_nth)
    have g: "cget p (i + 1) = (case r of [] \<Rightarrow> CHR 0x00 | b # _ \<Rightarrow> b)"
      using cget_drop[of "Suc i" p 0] d' by (simp add: cget_0)
    show ?thesis
    proof (cases "a = CHR ''/'' \<and> cget p (i + 1) = CHR ''/''")
      case sl: True
      then obtain r' where "r = CHR ''/'' # r'" using g by (cases r) auto
      then show ?thesis
        using 1(1)[OF True] sl True d d' by (subst collapse_loop.simps) (simp add: min_def)
    next
      case sl: False
      then have "collapse (a # r) = a # collapse r" using g by (cases r) auto
      then show ?thesis
        using 1(2)[OF True] sl True d d' t by (subst collapse_loop.simps) auto
    qed
  qed
qed

lemma path_normalize_collapse: "path_normalize p = collapse (strip_slash p)"
  by (simp add: path_normalize_def collapse_loop_collapse)

fun dslash :: "string \<Rightarrow> bool" where
  "dslash (a # b # r) \<longleftrightarrow> a = CHR ''/'' \<and> b = CHR ''/'' \<or> dslash (b # r)"
| "dslash p \<longleftrightarrow> False"

lemma collapse_hd: "collapse p = [] \<longleftrightarrow> p = []" "p \<noteq> [] \<Longrightarrow> hd (collapse p) = hd p"
  by (induction p rule: collapse.induct) auto

lemma collapse_no_dslash: "\<not> dslash (collapse p)"
proof (induction p rule: collapse.induct)
  case (1 a b r)
  then show ?case
    using collapse_hd[of "b # r"] by (cases "collapse (b # r)") auto
qed auto

lemma collapse_id: "\<not> dslash p \<Longrightarrow> collapse p = p"
  by (induction p rule: collapse.induct) auto

lemma collapse_length: "length (collapse p) \<le> length p"
  by (induction p rule: collapse.induct) auto

lemma collapse_set: "set (collapse p) \<subseteq> set p"
  by (induction p rule: collapse.induct) auto

lemma strip_slash_hd: "p \<noteq> [] \<Longrightarrow> strip_slash p \<noteq> [] \<and> hd (strip_slash p) = hd p"
  by (cases p) (auto simp: strip_slash_def ends_slash_def)

lemma path_normalize_props:
  assumes "p \<noteq> []"
  shows "path_normalize p \<noteq> []" "hd (path_normalize p) = hd p" "\<not> dslash (path_normalize p)"
    "length (path_normalize p) \<le> length p" "cstr p \<Longrightarrow> cstr (path_normalize p)"
proof -
  note h = strip_slash_hd[OF assms]
  show "path_normalize p \<noteq> []" "hd (path_normalize p) = hd p" "\<not> dslash (path_normalize p)"
    using h collapse_hd[of "strip_slash p"] collapse_no_dslash
    by (simp_all add: path_normalize_collapse)
  have "length (strip_slash p) \<le> length p" "set (strip_slash p) \<subseteq> set p"
    by (auto simp: strip_slash_def dest: in_set_butlastD)
  then show "length (path_normalize p) \<le> length p" "cstr p \<Longrightarrow> cstr (path_normalize p)"
    using collapse_length[of "strip_slash p"] collapse_set[of "strip_slash p"]
    by (auto simp: path_normalize_collapse cstr_def)
qed

section \<open>Resolution stays absolute and inside its buffer\<close>

lemma up_scan_le: "up_scan out l \<le> l"
  by (induction out l rule: up_scan.induct) (subst up_scan.simps, auto)

lemma up_scan_pos: "0 < l \<Longrightarrow> 0 < up_scan out l"
  by (induction out l rule: up_scan.induct) (subst up_scan.simps, auto)

text \<open>Nonempty, starting with a slash, at most \<open>k\<close> long and without NUL.\<close>

definition abs_path :: "nat \<Rightarrow> string \<Rightarrow> bool" where
  "abs_path k out \<longleftrightarrow> out \<noteq> [] \<and> hd out = CHR ''/'' \<and> length out \<le> k \<and> cstr out"

lemma go_up_take:
  assumes "out \<noteq> []"
  shows "\<exists>l. 0 < l \<and> l \<le> length out \<and> go_up out = take l out"
  using assms up_scan_le[of out "length out"] up_scan_pos[of "length out" out]
  by (intro exI[of _ "length (go_up out)"]) (auto simp: go_up_def Let_def)

lemma go_up_abs: "abs_path k out \<Longrightarrow> abs_path k (go_up out)"
  using go_up_take[of out] by (auto simp: abs_path_def cstr_take hd_take)

lemma skip1_slash_cstr: "cstr p \<Longrightarrow> cstr (skip1_slash p)"
  by (cases p) (auto simp: skip1_slash_def)

lemma skip_slashes_cstr: "cstr p \<Longrightarrow> cstr (skip_slashes p)"
  by (auto simp: cstr_def dest: set_dropWhileD)

lemma resolve_loop_abs:
  assumes "abs_path (outsz - 1) out" "cstr path"
  shows "abs_path (outsz - 1) (resolve_loop outsz out path)"
  using assms
proof (induction outsz out path rule: resolve_loop.induct)
  case (1 outsz out path)
  let ?p = "skip_slashes path"
  have p: "cstr ?p" using 1(5) by (rule skip_slashes_cstr)
  have up: "abs_path (outsz - 1) (resolve_loop outsz (go_up out) (skip1_slash (drop 2 ?p)))"
    if "?p \<noteq> []" "is_dotdot ?p"
    using 1(1)[OF refl that go_up_abs[OF 1(4)]] p by (simp add: skip1_slash_cstr cstr_drop)
  have dot: "abs_path (outsz - 1) (resolve_loop outsz out (skip1_slash (drop 1 ?p)))"
    if "?p \<noteq> []" "\<not> is_dotdot ?p" "is_dot ?p"
    using 1(2)[OF refl that 1(4)] p by (simp add: skip1_slash_cstr cstr_drop)
  have comp: "abs_path (outsz - 1) (resolve_loop outsz (add_sep out @ c)
      (skip1_slash (drop (length c) ?p)))"
    if "?p \<noteq> []" "\<not> is_dotdot ?p" "\<not> is_dot ?p" "\<not> outsz \<le> length out + 2"
      "c = comp_of (outsz - 1 - length (add_sep out)) ?p" for c
  proof (rule 1(3)[OF refl that(1-4) refl that(5)])
    have "cstr c" using p that(5) by (auto simp: comp_of_def cstr_def dest!: in_set_takeD set_takeWhileD)
    moreover have "length (add_sep out) \<le> outsz - 1" using that(4) by (auto simp: add_sep_def)
    moreover have "length c \<le> outsz - 1 - length (add_sep out)" using that(5) by (simp add: comp_of_def)
    ultimately show "abs_path (outsz - 1) (add_sep out @ c)"
      using 1(4) by (auto simp: abs_path_def add_sep_def)
    show "cstr (skip1_slash (drop (length c) ?p))" using p by (simp add: skip1_slash_cstr cstr_drop)
  qed
  show ?case
    using 1(4) up dot comp by (subst resolve_loop.simps) (simp add: Let_def)
qed

lemma cut_nul_cstr: "cstr p \<Longrightarrow> cut_nul p = p"
  by (auto simp: cut_nul_def cstr_def)

lemma fs_resolve_abs:
  assumes "abs_path (n - 1) cwd" "cstr path" "2 \<le> n" "fs_resolve cwd path n = Some q"
  shows "abs_path (n - 1) q \<and> \<not> dslash q"
proof -
  have norm: "abs_path (n - 1) (path_normalize out) \<and> \<not> dslash (path_normalize out)"
    if "abs_path (n - 1) out" for out
    using that path_normalize_props[of out] by (auto simp: abs_path_def)
  have root: "abs_path (n - 1) ''/''" using assms(3) by (simp add: abs_path_def)
  consider "path = [] \<or> path = ''.''" | "ksc path ''~'' = 0" "\<not> (path = [] \<or> path = ''.'')"
    | "\<not> (path = [] \<or> path = ''.'')" "ksc path ''~'' \<noteq> 0" by blast
  then show ?thesis
  proof cases
    case 1
    then show ?thesis
      using assms norm[of cwd] by (auto simp: fs_resolve_def fits_def split: if_splits)
  next
    case 2
    then show ?thesis
      using assms root by (auto simp: fs_resolve_def fits_eq_Some)
  next
    case 3
    let ?rel = "cut_nul (resolve_loop n (take (n - 1) cwd) path)"
    have "abs_path (n - 1) (take (n - 1) cwd)" using assms(1) by (simp add: abs_path_def)
    from resolve_loop_abs[OF this assms(2)] have rel: "abs_path (n - 1) ?rel"
      by (simp add: abs_path_def cut_nul_cstr)
    have "abs_path (n - 1) (take (n - 1) path)" if "cget path 0 = CHR ''/''"
      using that assms(2,3) by (cases path) (auto simp: abs_path_def cstr_take)
    then show ?thesis
      using 3 assms(4) norm rel root by (auto simp: fs_resolve_def Let_def split: if_splits)
  qed
qed

section \<open>Resolution on component lists\<close>

definition join_path :: "string list \<Rightarrow> string" where
  "join_path cs = (if cs = [] then ''/'' else concat (map (\<lambda>c. CHR ''/'' # c) cs))"

fun rel_str :: "string list \<Rightarrow> string" where
  "rel_str [] = []"
| "rel_str [c] = c"
| "rel_str (c # d # cs) = c @ CHR ''/'' # rel_str (d # cs)"

definition name_ok :: "string \<Rightarrow> bool" where
  "name_ok c \<longleftrightarrow> c \<noteq> [] \<and> CHR ''/'' \<notin> set c \<and> cstr c"

definition comp_step :: "string list \<Rightarrow> string \<Rightarrow> string list" where
  "comp_step cs c = (if c = ''..'' then butlast cs else if c = ''.'' then cs else cs @ [c])"

lemma join_path_Nil [simp]: "join_path [] = ''/''"
  by (simp add: join_path_def)

lemma join_path_ne: "join_path cs \<noteq> []"
  by (cases cs) (auto simp: join_path_def)

lemma join_path_snoc:
  "join_path (cs @ [c]) = (if cs = [] then CHR ''/'' # c else join_path cs @ CHR ''/'' # c)"
  by (simp add: join_path_def)

lemma last_join: "\<forall>c \<in> set cs. name_ok c \<Longrightarrow> cs \<noteq> [] \<Longrightarrow> last (join_path cs) \<noteq> CHR ''/''"
proof (induction cs rule: rev_induct)
  case (snoc c cs)
  then have c: "c \<noteq> []" "CHR ''/'' \<notin> set c" by (auto simp: name_ok_def)
  then have "last c \<noteq> CHR ''/''" using last_in_set by metis
  then show ?case using c by (simp add: join_path_snoc)
qed simp

lemma add_sep_join:
  "\<forall>c \<in> set cs. name_ok c \<Longrightarrow> add_sep (join_path cs) @ c = join_path (cs @ [c])"
  using last_join[of cs] join_path_ne[of cs]
  by (auto simp: add_sep_def join_path_snoc)

lemma up_scan_comp:
  assumes "CHR ''/'' \<notin> set c" "l \<le> length c"
  shows "up_scan (pre @ CHR ''/'' # c) (Suc (length pre + l)) =
    (if pre = [] \<and> l = 0 then 1 else Suc (length pre))"
  using assms
proof (induction l)
  case 0
  show ?case by (subst up_scan.simps) (simp add: nth_append)
next
  case (Suc l)
  then have "c ! l \<noteq> CHR ''/''"
    using nth_mem[of l c] by (metis Suc_le_eq)
  then have "(pre @ CHR ''/'' # c) ! (Suc (length pre + Suc l) - 1) \<noteq> CHR ''/''"
    by (simp add: nth_append)
  then show ?case using Suc by (subst up_scan.simps) simp
qed

lemma go_up_join:
  assumes "\<forall>c \<in> set cs. name_ok c"
  shows "go_up (join_path cs) = join_path (butlast cs)"
proof (cases cs rule: rev_exhaust)
  case Nil
  then show ?thesis by (simp add: join_path_def go_up_def up_scan.simps)
next
  case (snoc ds c)
  define pre where "pre = (if ds = [] then [] else join_path ds)"
  have j: "join_path cs = pre @ CHR ''/'' # c" by (simp add: snoc join_path_snoc pre_def)
  have c: "CHR ''/'' \<notin> set c" using assms snoc by (simp add: name_ok_def)
  have "up_scan (join_path cs) (length (join_path cs)) = Suc (length pre)"
    using up_scan_comp[OF c, of "length c" pre] by (simp add: j)
  moreover have "pre = [] \<longleftrightarrow> ds = []"
    by (auto simp: pre_def join_path_def)
  ultimately show ?thesis
    by (cases "ds = []") (simp_all add: go_up_def Let_def j snoc, simp_all add: pre_def join_path_def)
qed

lemma rel_str_Cons:
  "\<exists>r. rel_str (c # cs) = c @ r \<and> skip1_slash r = rel_str cs \<and>
     (cs = [] \<and> r = [] \<or> cs \<noteq> [] \<and> r = CHR ''/'' # rel_str cs)"
  by (cases cs) (auto simp: skip1_slash_def)

lemma name_prefix:
  assumes "name_ok c" "r = [] \<or> r = CHR ''/'' # r'"
  shows "skip_slashes (c @ r) = c @ r" "takeWhile (\<lambda>x. x \<noteq> CHR ''/'') (c @ r) = c"
    "is_dotdot (c @ r) \<longleftrightarrow> c = ''..''" "is_dot (c @ r) \<longleftrightarrow> c = ''.''"
proof -
  obtain x xs where c: "c = x # xs" "x \<noteq> CHR ''/''"
    using assms(1) by (cases c) (auto simp: name_ok_def)
  show "skip_slashes (c @ r) = c @ r" using c by simp
  have "\<And>y. y \<in> set c \<Longrightarrow> y \<noteq> CHR ''/''" "\<And>y. y \<in> set c \<Longrightarrow> y \<noteq> CHR 0x00"
    using assms(1) by (auto simp: name_ok_def cstr_def)
  note ne = this
  show "takeWhile (\<lambda>x. x \<noteq> CHR ''/'') (c @ r) = c"
    using ne(1) assms(2) by (elim disjE) (simp_all add: takeWhile_eq_all_conv [THEN iffD2])
  show "is_dotdot (c @ r) \<longleftrightarrow> c = ''..''"
  proof (cases xs)
    case Nil
    then show ?thesis
      using assms(2) by (elim disjE) (simp_all add: c is_dotdot_def)
  next
    case (Cons y ys)
    then show ?thesis
      using assms(2) ne[of "hd ys"]
      by (cases ys; elim disjE) (simp_all add: c is_dotdot_def)
  qed
  show "is_dot (c @ r) \<longleftrightarrow> c = ''.''"
    using assms(2) ne[of "hd xs"] by (cases xs; elim disjE) (simp_all add: c is_dot_def)
qed

lemma join_path_len: "cs \<noteq> [] \<Longrightarrow> length (join_path (cs @ [c])) = length (join_path cs) + 1 + length c"
  by (simp add: join_path_snoc)

lemma comp_step_ok: "\<forall>c \<in> set cs. name_ok c \<Longrightarrow> name_ok d \<Longrightarrow> \<forall>c \<in> set (comp_step cs d). name_ok c"
  by (auto simp: comp_step_def dest: in_set_butlastD)

lemma resolve_loop_join:
  assumes "\<forall>c \<in> set cs. name_ok c" "\<forall>d \<in> set ds. name_ok d"
    and "length (join_path cs) + length (rel_str ds) + 2 < n"
  shows "resolve_loop n (join_path cs) (rel_str ds) = join_path (foldl comp_step cs ds)"
  using assms
proof (induction ds arbitrary: cs)
  case Nil
  then show ?case by (simp add: resolve_loop.simps)
next
  case (Cons d ds)
  obtain r where r: "rel_str (d # ds) = d @ r" "skip1_slash r = rel_str ds"
      and r': "ds = [] \<and> r = [] \<or> ds \<noteq> [] \<and> r = CHR ''/'' # rel_str ds"
    using rel_str_Cons by blast
  have d: "name_ok d" "d \<noteq> []" using Cons.prems by (auto simp: name_ok_def)
  have "r = [] \<or> r = CHR ''/'' # rel_str ds" using r' by auto
  note np = name_prefix[OF d(1) this]
  have ok: "\<forall>c \<in> set (comp_step cs d). name_ok c"
    using comp_step_ok[OF Cons.prems(1) d(1)] .
  have len: "length (rel_str ds) \<le> length r" using r' by auto
  show ?case
  proof (cases "d = ''..'' \<or> d = ''.''")
    case True
    have "length (join_path (comp_step cs d)) \<le> length (join_path cs)"
      using True by (cases cs rule: rev_exhaust) (auto simp: join_path_def comp_step_def)
    then have "resolve_loop n (join_path (comp_step cs d)) (rel_str ds) =
        join_path (foldl comp_step (comp_step cs d) ds)"
      using Cons.prems ok len r(1) by (intro Cons.IH) auto
    moreover have "resolve_loop n (join_path cs) (d @ r) =
        resolve_loop n (join_path (comp_step cs d)) (rel_str ds)"
      using True np d(2) go_up_join[of cs] Cons.prems(1) r(2)
      by (subst resolve_loop.simps) (auto simp: Let_def comp_step_def)
    ultimately show ?thesis using r(1) by simp
  next
    case False
    then have step: "comp_step cs d = cs @ [d]" by (simp add: comp_step_def)
    have sep: "add_sep (join_path cs) @ d = join_path (cs @ [d])"
      using add_sep_join[OF Cons.prems(1)] .
    have room: "length (join_path cs) + length d + length r + 2 < n"
      using Cons.prems(3) r(1) by simp
    have "length (add_sep (join_path cs)) \<le> length (join_path cs) + 1"
      by (simp add: add_sep_def)
    then have "comp_of (n - 1 - length (add_sep (join_path cs))) (d @ r) = d"
      using room np(2) by (simp add: comp_of_def)
    then have "resolve_loop n (join_path cs) (d @ r) =
        resolve_loop n (join_path (cs @ [d])) (rel_str ds)"
      using False np d(2) room sep r(2) by (subst resolve_loop.simps) (simp add: Let_def)
    moreover have "length (join_path (cs @ [d])) + length (rel_str ds) + 2 < n \<or> ds = []"
      using room r' join_path_len[of cs d] by (cases "cs = []") (auto simp: join_path_def)
    then have "resolve_loop n (join_path (cs @ [d])) (rel_str ds) =
        join_path (foldl comp_step (cs @ [d]) ds)"
      using Cons.IH[of "cs @ [d]"] Cons.prems ok step by (auto simp: resolve_loop.simps)
    ultimately show ?thesis using r(1) step by simp
  qed
qed

lemma dslash_append: "dslash (xs @ ys) \<longleftrightarrow> dslash xs \<or> dslash ys \<or>
    (xs \<noteq> [] \<and> ys \<noteq> [] \<and> last xs = CHR ''/'' \<and> hd ys = CHR ''/'')"
proof (induction xs)
  case (Cons x xs)
  then show ?case by (cases xs; cases ys) auto
qed simp

lemma dslash_name: "CHR ''/'' \<notin> set c \<Longrightarrow> \<not> dslash c"
  by (induction c rule: dslash.induct) auto

lemma dslash_comp: "name_ok c \<Longrightarrow> \<not> dslash (CHR ''/'' # c)"
  using dslash_append[of "[CHR ''/'']" c] dslash_name[of c]
  by (cases c) (auto simp: name_ok_def)

lemma join_no_dslash: "\<forall>c \<in> set cs. name_ok c \<Longrightarrow> \<not> dslash (join_path cs)"
proof (induction cs rule: rev_induct)
  case (snoc c cs)
  then show ?case
    using dslash_comp[of c] last_join[of cs] dslash_append[of "join_path cs" "CHR ''/'' # c"]
    by (auto simp: join_path_snoc)
qed simp

lemma normalize_join:
  assumes "\<forall>c \<in> set cs. name_ok c"
  shows "path_normalize (join_path cs) = join_path cs"
proof -
  have "\<not> ends_slash (join_path cs)"
    using last_join[OF assms] by (cases "cs = []") (auto simp: ends_slash_def)
  then show ?thesis
    using join_no_dslash[OF assms] by (simp add: path_normalize_collapse strip_slash_def collapse_id)
qed

lemma cstr_join: "\<forall>c \<in> set cs. name_ok c \<Longrightarrow> cstr (join_path cs)"
  by (auto simp: join_path_def cstr_def name_ok_def)

lemma cstr_rel_str: "\<forall>d \<in> set ds. name_ok d \<Longrightarrow> cstr (rel_str ds)"
  by (induction ds rule: rel_str.induct) (auto simp: name_ok_def)

lemma rel_str_hd: "\<forall>d \<in> set ds. name_ok d \<Longrightarrow> ds \<noteq> [] \<Longrightarrow>
    rel_str ds \<noteq> [] \<and> cget (rel_str ds) 0 \<noteq> CHR ''/''"
proof (cases ds rule: rel_str.cases)
  case (2 c)
  then show "\<forall>d \<in> set ds. name_ok d \<Longrightarrow> ?thesis" by (cases c) (auto simp: name_ok_def)
next
  case (3 c d cs)
  then show "\<forall>d \<in> set ds. name_ok d \<Longrightarrow> ?thesis" by (cases c) (auto simp: name_ok_def)
qed auto

lemma rel_str_single: "\<forall>d \<in> set ds. name_ok d \<Longrightarrow> rel_str ds = [x] \<Longrightarrow> ds = [[x]]"
  by (cases ds rule: rel_str.cases) (auto simp: name_ok_def append_eq_Cons_conv)

lemma foldl_comp_ok:
  "\<forall>c \<in> set cs. name_ok c \<Longrightarrow> \<forall>d \<in> set ds. name_ok d \<Longrightarrow>
   \<forall>c \<in> set (foldl comp_step cs ds). name_ok c"
proof (induction ds arbitrary: cs)
  case (Cons d ds)
  have d: "name_ok d" "\<forall>d \<in> set ds. name_ok d" using Cons.prems(2) by simp_all
  show ?case
    unfolding foldl.simps by (rule Cons.IH[OF comp_step_ok[OF Cons.prems(1) d(1)] d(2)])
qed simp

lemma fs_resolve_join:
  assumes "\<forall>c \<in> set cs. name_ok c" "\<forall>d \<in> set ds. name_ok d" "ds \<noteq> []" "ds \<noteq> [''~'']"
    and "length (join_path cs) + length (rel_str ds) + 2 < n"
  shows "fs_resolve (join_path cs) (rel_str ds) n = Some (join_path (foldl comp_step cs ds))"
proof (cases "rel_str ds = ''.''")
  case True
  then have "ds = [''.'']" using rel_str_single[OF assms(2)] by simp
  then show ?thesis
    using assms normalize_join[OF assms(1)] by (simp add: fs_resolve_def comp_step_def)
next
  case False
  have til: "ksc (rel_str ds) ''~'' \<noteq> 0"
    using rel_str_single[OF assms(2), of "CHR ''~''"] assms(4) cstr_rel_str[OF assms(2)] by auto
  have t: "take (n - 1) (join_path cs) = join_path cs"
    using assms(5) by simp
  have "resolve_loop n (join_path cs) (rel_str ds) = join_path (foldl comp_step cs ds)"
    using assms by (intro resolve_loop_join)
  moreover have "cut_nul (join_path (foldl comp_step cs ds)) = join_path (foldl comp_step cs ds)"
    using foldl_comp_ok[OF assms(1,2)] by (intro cut_nul_cstr cstr_join)
  ultimately show ?thesis
    using False til rel_str_hd[OF assms(2,3)] t normalize_join[OF foldl_comp_ok[OF assms(1,2)]]
    by (simp add: fs_resolve_def Let_def join_path_ne)
qed

text \<open>A current directory kept with a trailing slash, as \<open>fs_cd\<close> keeps the in-memory ones: going
  up only removes the slash.\<close>

lemma go_up_trailing:
  assumes "\<forall>c \<in> set cs. name_ok c" "cs \<noteq> []"
  shows "go_up (join_path cs @ ''/'') = join_path cs"
proof -
  have "length (join_path cs) \<ge> 1" using join_path_ne[of cs] by (cases "join_path cs") auto
  then show ?thesis
    using join_path_ne[of cs] by (simp add: go_up_def Let_def up_scan.simps)
qed

section \<open>Deleted paths\<close>

definition store_ok :: "'a fs_scheme \<Rightarrow> bool" where
  "store_ok st \<longleftrightarrow> store_magic st = DEL_MAGIC \<and> length (deleted_paths st) \<le> DELETED_MAX \<and>
     store_count st = of_nat (length (deleted_paths st)) \<and>
     (\<forall>i < length (deleted_paths st). store_paths st i = deleted_paths st ! i) \<and>
     (\<forall>p \<in> set (deleted_paths st). cstr p \<and> length p < 128)"

lemma del_store_init_id: "store_ok st \<Longrightarrow> del_store_init st = st"
  by (simp add: del_store_init_def store_ok_def)

lemma store_cnt_len: "store_ok st \<Longrightarrow> store_cnt st = length (deleted_paths st)"
proof -
  assume "store_ok st"
  then have "length (deleted_paths st) \<le> 64" "store_count st = of_nat (length (deleted_paths st))"
    by (auto simp: store_ok_def)
  then show ?thesis
    using unat_of_nat_small[of "length (deleted_paths st)", where ?'a = 32]
    by (simp add: store_cnt_def)
qed

lemma fs_is_deleted_iff:
  assumes "store_ok st" "cstr p"
  shows "fs_is_deleted p st \<longleftrightarrow> p \<in> set (deleted_paths st)"
proof -
  have "ksc (store_paths st i) p = 0 \<longleftrightarrow> deleted_paths st ! i = p"
    if "i < length (deleted_paths st)" for i
    using assms that by (auto simp: store_ok_def)
  moreover have "ksc d p = 0 \<longleftrightarrow> d = p" if "d \<in> set (deleted_paths st)" for d
    using assms that by (auto simp: store_ok_def)
  ultimately show ?thesis
    using assms(1)
    by (auto simp: fs_is_deleted_def Let_def del_store_init_id store_cnt_len in_set_conv_nth)
qed

lemma del_sync_to_store_ok:
  assumes "store_magic st = DEL_MAGIC" "length (deleted_paths st) \<le> DELETED_MAX"
    "\<forall>p \<in> set (deleted_paths st). cstr p \<and> length p < 128"
  shows "store_ok (del_sync_to_store st)" "deleted_paths (del_sync_to_store st) = deleted_paths st"
    "memfs (del_sync_to_store st) = memfs st"
  using assms by (simp_all add: store_ok_def del_sync_to_store_def del_store_init_def Let_def)

lemma fs_mark_deleted_ok:
  assumes "store_ok st" "cstr p" "fs_mark_deleted p st = Some st'"
  shows "store_ok st' \<and> memfs st' = memfs st \<and>
    deleted_paths st' =
      (if length (deleted_paths st) < DELETED_MAX then deleted_paths st @ [p] else deleted_paths st)"
proof (cases "length (deleted_paths st) < DELETED_MAX")
  case True
  let ?s = "st\<lparr>deleted_paths := deleted_paths st @ [p]\<rparr>"
  have st': "st' = del_sync_to_store ?s" "length p < 128"
    using assms(3) True by (auto simp: fs_mark_deleted_def fits_eq_Some split: bind_splits)
  have s: "store_magic ?s = DEL_MAGIC" "length (deleted_paths ?s) \<le> DELETED_MAX"
    "\<forall>p \<in> set (deleted_paths ?s). cstr p \<and> length p < 128"
    using assms True st'(2) by (auto simp: store_ok_def)
  show ?thesis
    using del_sync_to_store_ok[OF s] True by (simp add: st'(1))
next
  case False
  have s: "store_magic st = DEL_MAGIC" "length (deleted_paths st) \<le> DELETED_MAX"
    "\<forall>p \<in> set (deleted_paths st). cstr p \<and> length p < 128"
    using assms(1) by (auto simp: store_ok_def)
  show ?thesis
    using del_sync_to_store_ok[OF s] assms(3) False by (simp add: fs_mark_deleted_def)
qed

text \<open>A reboot loses the local mirror and reads it back from the store.\<close>

lemma those_map_Some: "(\<And>x. x \<in> set xs \<Longrightarrow> f x = Some (g x)) \<Longrightarrow> those (map f xs) = Some (map g xs)"
  by (induction xs) auto

lemma reboot_restores:
  assumes "store_ok st"
  shows "del_sync_from_store (st\<lparr>deleted_paths := ds\<rparr>) = Some st"
proof -
  let ?n = "length (deleted_paths st)"
  have n: "?n \<le> 64" and c: "store_count st = of_nat ?n" and m: "store_magic st = DEL_MAGIC"
    and p: "\<forall>i < ?n. store_paths st i = deleted_paths st ! i"
    and q: "\<forall>p \<in> set (deleted_paths st). length p < 128"
    using assms by (auto simp: store_ok_def)
  have "sint (of_nat ?n :: u32) = int ?n"
    using n by (simp add: signed_of_nat signed_take_bit_int_eq_self)
  then have "sint (store_count st) = int ?n"
    using c by simp
  moreover have "those (map (\<lambda>i. fits 128 (store_paths st i)) [0 ..< ?n]) = Some (deleted_paths st)"
    using p q those_map_Some[of "[0 ..< ?n]" "\<lambda>i. fits 128 (store_paths st i)"
        "\<lambda>i. deleted_paths st ! i"]
    by (simp add: map_nth)
  ultimately show ?thesis
    using m n by (simp add: del_sync_from_store_def del_store_init_def Let_def)
qed

section \<open>In-memory files as a store of named contents\<close>

text \<open>What the editors, the package manager and the user database rely on when they save a file:
  creating a name makes it findable, unless the name is blocked; writing a file changes its
  content and no other.\<close>

locale file_store =
  fixes inv :: "'s \<Rightarrow> bool"
    and find :: "string \<Rightarrow> 's \<Rightarrow> nat option"
    and content :: "nat \<Rightarrow> 's \<Rightarrow> string"
    and create :: "string \<Rightarrow> 's \<Rightarrow> (nat option \<times> 's) option"
    and wr :: "nat \<Rightarrow> string \<Rightarrow> 's \<Rightarrow> 's option"
    and blocked :: "string \<Rightarrow> 's \<Rightarrow> bool"
  assumes create_ok: "inv s \<Longrightarrow> cstr p \<Longrightarrow> \<not> blocked p s \<Longrightarrow> create p s = Some (Some i, s') \<Longrightarrow>
      inv s' \<and> find p s' = Some i \<and>
      (\<forall>q j. cstr q \<longrightarrow> q \<noteq> p \<longrightarrow> find q s = Some j \<longrightarrow>
         find q s' = Some j \<and> j \<noteq> i \<and> content j s' = content j s)"
    and write_ok: "inv s \<Longrightarrow> cstr t \<Longrightarrow> find p s = Some i \<Longrightarrow> wr i t s = Some s' \<Longrightarrow>
      inv s' \<and> content i s' = t \<and> (\<forall>q. find q s' = find q s) \<and>
      (\<forall>j. j \<noteq> i \<longrightarrow> content j s' = content j s)"
begin

definition save :: "string \<Rightarrow> string \<Rightarrow> 's \<Rightarrow> 's option" where
  "save p t s = do { (r, s) \<leftarrow> create p s; case r of None \<Rightarrow> None | Some i \<Rightarrow> wr i t s }"

definition read_file :: "string \<Rightarrow> 's \<Rightarrow> string option" where
  "read_file p s = map_option (\<lambda>i. content i s) (find p s)"

lemma save_read:
  assumes "inv s" "cstr p" "cstr t" "\<not> blocked p s" "save p t s = Some s'"
  shows "inv s' \<and> read_file p s' = Some t \<and>
    (\<forall>q c. cstr q \<longrightarrow> q \<noteq> p \<longrightarrow> read_file q s = Some c \<longrightarrow> read_file q s' = Some c)"
proof -
  obtain i s1 where c: "create p s = Some (Some i, s1)" "wr i t s1 = Some s'"
    using assms(5) by (auto simp: save_def split: bind_splits option.splits)
  note co = create_ok[OF assms(1,2,4) c(1)]
  then have co': "inv s1" "find p s1 = Some i"
    "\<And>q j. cstr q \<Longrightarrow> q \<noteq> p \<Longrightarrow> find q s = Some j \<Longrightarrow>
      find q s1 = Some j \<and> j \<noteq> i \<and> content j s1 = content j s"
    by blast+
  note wo = write_ok[OF co'(1) assms(3) co'(2) c(2)]
  show ?thesis
    using wo co' by (fastforce simp: read_file_def)
qed

end

definition fs_ok :: "'a fs_scheme \<Rightarrow> bool" where
  "fs_ok st \<longleftrightarrow> store_ok st \<and> length (memfs st) \<le> MEMFS_MAX \<and>
     (\<forall>m \<in> set (memfs st). cstr (mf_path m) \<and> length (mf_path m) < 128 \<and>
        cstr (mf_content m) \<and> length (mf_content m) < 2048)"

definition mf_get :: "nat \<Rightarrow> 'a fs_scheme \<Rightarrow> string" where
  "mf_get i st = mf_content (memfs st ! i)"

lemma fs_okD:
  assumes "fs_ok st"
  shows "store_ok st" "length (memfs st) \<le> 64" "m \<in> set (memfs st) \<Longrightarrow> cstr (mf_path m)"
  using assms by (auto simp: fs_ok_def)

lemma fs_is_deleted_memfs [simp]:
  "fs_is_deleted p (st\<lparr>memfs := ms\<rparr>) = fs_is_deleted p st"
  by (simp add: fs_is_deleted_def Let_def del_store_init_def store_cnt_def)

lemma mf_live_memfs [simp]: "mf_live p (st\<lparr>memfs := ms\<rparr>) = mf_live p st"
  by (simp add: fun_eq_iff mf_live_def)

lemma store_ok_memfs [simp]: "store_ok (st\<lparr>memfs := ms\<rparr>) = store_ok st"
  by (simp add: store_ok_def)

lemma mf_live_iff:
  "fs_ok st \<Longrightarrow> m \<in> set (memfs st) \<Longrightarrow> cstr p \<Longrightarrow>
   mf_live p st m \<longleftrightarrow> mf_used m \<and> mf_path m = p \<and> p \<notin> set (deleted_paths st)"
  using fs_is_deleted_iff[of st p] fs_okD(1)[of st] fs_okD(3)[of st m] by (auto simp: mf_live_def)

lemma memfs_find_Some:
  assumes "fs_ok st" "cstr p" "memfs_find p st = Some i"
  shows "i < length (memfs st)" "mf_used (memfs st ! i)" "mf_path (memfs st ! i) = p"
    "p \<notin> set (deleted_paths st)"
proof -
  show i: "i < length (memfs st)"
    using assms(3) by (simp add: memfs_find_def find_idx_less)
  have "mf_live p st (memfs st ! i)"
    using assms(3) by (simp add: memfs_find_def find_idx_sat)
  then show "mf_used (memfs st ! i)" "mf_path (memfs st ! i) = p" "p \<notin> set (deleted_paths st)"
    using mf_live_iff[OF assms(1) nth_mem[OF i] assms(2)] by auto
qed

lemma memfs_create_ok:
  assumes "fs_ok st" "cstr p" "p \<notin> set (deleted_paths st)"
    and "memfs_create p st = Some (Some i, st')"
  shows "fs_ok st' \<and> memfs_find p st' = Some i \<and>
    (\<forall>q j. cstr q \<longrightarrow> q \<noteq> p \<longrightarrow> memfs_find q st = Some j \<longrightarrow>
       memfs_find q st' = Some j \<and> j \<noteq> i \<and> mf_get j st' = mf_get j st)"
proof (cases "memfs_find p st")
  case (Some k)
  then have "st' = st" "k = i" using assms(4) by (simp_all add: memfs_create_def)
  then show ?thesis
    using assms(1,2) Some memfs_find_Some(3)[OF assms(1)] by auto
next
  case None
  let ?m = "\<lparr>mf_path = p, mf_content = [], mf_used = True, mf_is_dir = ends_slash p\<rparr>"
  have st': "st' = st\<lparr>memfs := memfs st @ [?m]\<rparr>" "i = length (memfs st)"
    and len: "length (memfs st) < 64" "length p < 128"
    using assms(4) None by (auto simp: memfs_create_def fits_eq_Some split: if_splits bind_splits)
  have ok: "fs_ok st'"
    using assms(1,2) len by (auto simp: fs_ok_def st')
  have "mf_live p st' ?m"
    using mf_live_iff[OF ok _ assms(2), of ?m] assms(3) by (simp add: st')
  then have "memfs_find p st' = Some i"
    using None by (simp add: st' memfs_find_def find_idx_append)
  moreover have "memfs_find q st' = Some j \<and> j \<noteq> i \<and> mf_get j st' = mf_get j st"
    if "cstr q" "q \<noteq> p" "memfs_find q st = Some j" for q j
    using that memfs_find_Some(1)[OF assms(1) that(1,3)]
    by (simp add: st' memfs_find_def find_idx_append mf_get_def nth_append)
  ultimately show ?thesis using ok by blast
qed

lemma mf_write_ok:
  assumes "fs_ok st" "cstr t" "memfs_find p st = Some i" "mf_write i t st = Some st'"
  shows "fs_ok st' \<and> mf_get i st' = t \<and> (\<forall>q. memfs_find q st' = memfs_find q st) \<and>
    (\<forall>j. j \<noteq> i \<longrightarrow> mf_get j st' = mf_get j st)"
proof -
  have st': "st' = st\<lparr>memfs := (memfs st)[i := (memfs st ! i)\<lparr>mf_content := t\<rparr>]\<rparr>" "length t < 2048"
    using assms(4) by (auto simp: mf_write_def fits_eq_Some split: bind_splits)
  have i: "i < length (memfs st)"
    using assms(3) by (simp add: memfs_find_def find_idx_less)
  have "memfs st ! i \<in> set (memfs st)" using i by simp
  then have "fs_ok st'"
    using assms(1,2) st'(2) by (auto simp: fs_ok_def st'(1) dest!: set_update_subset_insert[THEN subsetD])
  moreover have "memfs_find q st' = memfs_find q st" for q
  proof -
    have "find_idx P (xs[k := x]) = find_idx P xs" if "P x = P (xs ! k)" "k < length xs"
      for P and xs :: "memfile list" and k x
      using that
    proof (induction xs arbitrary: k)
      case (Cons y ys)
      then show ?case by (cases k) auto
    qed simp
    then show ?thesis
      using i by (simp add: memfs_find_def st'(1)) (simp add: mf_live_def)
  qed
  ultimately show ?thesis
    using i by (simp add: st'(1) mf_get_def)
qed

interpretation mfs: file_store fs_ok memfs_find mf_get memfs_create mf_write
  "\<lambda>p st. p \<in> set (deleted_paths st)"
proof (unfold_locales, goal_cases)
  case (1 s p i s')
  then show ?case by (rule memfs_create_ok)
next
  case (2 s t p i s')
  then show ?case by (rule mf_write_ok)
qed

text \<open>A name in the deletion store can be created, but the entry is never found again.\<close>

lemma memfs_create_blocked:
  assumes "fs_ok st" "cstr p" "p \<in> set (deleted_paths st)"
    and "memfs_create p st = Some (r, st')"
  shows "memfs_find p st' = None"
proof -
  have none: "find_idx (mf_live p st) xs = None" if "\<forall>m \<in> set xs. cstr (mf_path m)" for xs
    using that assms(2,3) fs_is_deleted_iff[OF fs_okD(1)[OF assms(1)], of p]
    by (auto simp: find_idx_None mf_live_def)
  have "\<forall>m \<in> set (memfs st). cstr (mf_path m)"
    using assms(1) by (simp add: fs_ok_def)
  then show ?thesis
    using assms(2,4) none[of "memfs st"] none[of "memfs st'"]
    by (auto simp: memfs_create_def memfs_find_def fits_eq_Some split: if_splits bind_splits)
qed

section \<open>Properties\<close>

text \<open>The file system after a first boot: no file in memory, nothing deleted.\<close>

definition fs0 :: fs where
  "fs0 = \<lparr>con = vga0, kb_shift = False, kb_ctrl = False, kb_alt = False, kb_caps = False,
     kb_ext = False, kb_buf = (\<lambda>_. 0), kb_h = 0, kb_t = 0, mouse_x = 40, mouse_y = 12,
     mouse_btn_l = False, mouse_btn_r = False, mouse_btn_l_prev = False, mouse_enabled = False,
     mouse_bg = 0, mouse_drawn = False, mouse_cycle = 0, mouse_packet = (\<lambda>_. 0),
     memfs = [], poing_log = [], kern_log = [], store_magic = DEL_MAGIC, store_count = 0,
     store_paths = (\<lambda>_. []), deleted_paths = [], grep_pipe_input = False, grep_pipe_input_len = 0, grep_found = 0,
     drv_log = rtl_log0\<rparr>"

lemma fs0_ok: "fs_ok fs0"
  by (simp add: fs_ok_def store_ok_def fs0_def)

text \<open>from an absolute current directory, whatever the user types resolves to an absolute path
  that fits the caller's buffer and contains no double slash.\<close>
theorem fs_resolve_absolute:
  assumes "abs_path (n - 1) cwd" "cstr path" "2 \<le> n" "fs_resolve cwd path n = Some q"
  shows "hd q = CHR ''/'' \<and> q \<noteq> [] \<and> length q < n \<and> cstr q \<and> \<not> dslash q"
  using fs_resolve_abs[OF assms] assms(3) by (auto simp: abs_path_def)

theorem fs_resolve_absolute_witness:
  "fs_resolve ''/home'' ''..//a///b/'' 256 = Some ''/a/b'' \<and> \<not> dslash ''/a/b''"
proof -
  have r: "fs_resolve ''/home'' ''..//a///b/'' 256 = Some ''/a/b''" by code_simp
  show ?thesis
    using r fs_resolve_absolute[OF _ _ _ r] by (simp add: abs_path_def)
qed



text \<open>C7: saving a text under a name that is not in the deletion store makes that text readable
  under the name, keeps every other readable file, and keeps the file system's invariant.\<close>
theorem memfs_save_read:
  assumes "fs_ok st" "cstr p" "cstr t" "p \<notin> set (deleted_paths st)"
    and "memfs_create p st = Some (Some i, st1)" "mf_write i t st1 = Some st2"
  shows "fs_ok st2 \<and> (\<exists>j. memfs_find p st2 = Some j \<and> mf_get j st2 = t) \<and>
    (\<forall>q j. cstr q \<and> q \<noteq> p \<and> memfs_find q st = Some j \<longrightarrow>
       (\<exists>k. memfs_find q st2 = Some k \<and> mf_get k st2 = mf_get j st))"
proof -
  have "mfs.save p t st = Some st2"
    using assms(5,6) by (simp add: mfs.save_def)
  from mfs.save_read[OF assms(1,2,3,4) this] show ?thesis
    by (fastforce simp: mfs.read_file_def)
qed

theorem memfs_save_read_witness:
  "\<exists>st1 st2 j. memfs_create ''/tmp/a'' fs0 = Some (Some 0, st1) \<and>
     mf_write 0 ''hello'' st1 = Some st2 \<and>
     memfs_find ''/tmp/a'' st2 = Some j \<and> mf_get j st2 = ''hello''"
proof -
  obtain st1 where 1: "memfs_create ''/tmp/a'' fs0 = Some (Some 0, st1)"
    by (simp add: memfs_create_def memfs_find_def fs0_def)
  moreover obtain st2 where 2: "mf_write 0 ''hello'' st1 = Some st2"
    by (simp add: mf_write_def)
  ultimately show ?thesis
    using memfs_save_read[OF fs0_ok _ _ _ 1 2] by (auto simp: fs0_def)
qed

text \<open>creating a file under a name in the deletion store reports success and uses up an entry,
  but the file cannot be found afterwards: a deleted system file can never be replaced.\<close>
theorem memfs_create_deleted_lost:
  assumes "fs_ok st" "cstr p" "p \<in> set (deleted_paths st)"
    and "memfs_create p st = Some (Some i, st')"
  shows "memfs_find p st' = None \<and> length (memfs st') = length (memfs st) + 1"
proof -
  have "memfs_find p st = None"
    using memfs_find_Some(4)[OF assms(1,2)] assms(3) by (cases "memfs_find p st") auto
  then show ?thesis
    using memfs_create_blocked[OF assms] assms(4)
    by (auto simp: memfs_create_def split: if_splits bind_splits)
qed

theorem memfs_create_deleted_lost_witness:
  "\<exists>st st'. fs_mark_deleted ''/etc/hosts'' fs0 = Some st \<and>
     memfs_create ''/etc/hosts'' st = Some (Some 0, st') \<and> memfs_find ''/etc/hosts'' st' = None"
proof -
  obtain st where st: "fs_mark_deleted ''/etc/hosts'' fs0 = Some st"
    by (simp add: fs_mark_deleted_def fs0_def)
  then have d: "store_ok st" "memfs st = []" "deleted_paths st = [''/etc/hosts'']"
    using fs_mark_deleted_ok[of fs0 "''/etc/hosts''" st] fs0_ok by (auto simp: fs0_def fs_ok_def)
  then have ok: "fs_ok st" by (simp add: fs_ok_def)
  obtain st' where c: "memfs_create ''/etc/hosts'' st = Some (Some 0, st')"
    using d(2) by (simp add: memfs_create_def memfs_find_def)
  then show ?thesis
    using memfs_create_deleted_lost[OF ok _ _ c] st d(3) by auto
qed

end
