(* ===== verification/Pig_FsCmd.thy ===== *)
theory Pig_FsCmd
  imports Pig_Fs
begin

text \<open>
  The file commands of \<open>kernel/pigfs.h\<close>: \<open>ls\<close>, \<open>cat\<close>, \<open>touch\<close>, \<open>rm\<close>, \<open>grep\<close>, \<open>find\<close>, \<open>cd\<close> and
  \<open>pwd\<close>. Each is a function of the current directory, the argument string and the state; it
  returns \<^term>\<open>None\<close> when a buffer is overrun. Removing a critical path halts the machine, which
  is the result \<open>Halted\<close>.
\<close>


section \<open>Definitions\<close>

datatype 's outcome = Done 's | Halted 's

abbreviation out :: "(vga \<Rightarrow> vga) \<Rightarrow> 'a kst_scheme \<Rightarrow> 'a kst_scheme option" where
  "out f st \<equiv> Some (pr f st)"

definition err_out :: "(vga \<Rightarrow> vga) \<Rightarrow> vga \<Rightarrow> vga" where
  "err_out f = seqs [vset C_LRED C_BLACK, f, vrst]"

subsection \<open>ls\<close>

text \<open>The option loop: (long format, show hidden, rest of the argument).\<close>

function ls_flags :: "string \<Rightarrow> bool \<Rightarrow> bool \<Rightarrow> bool \<times> bool \<times> string" where
  "ls_flags p lf sh =
     (if cget p 0 = CHR ''-'' then
        (let p = tl p; f = takeWhile (\<lambda>c. c \<noteq> CHR '' '' \<and> c \<noteq> CHR ''-'') p
         in ls_flags (skip_sp (drop (length f) p))
              (lf \<or> CHR ''l'' \<in> set f \<or> CHR ''h'' \<in> set f)
              (sh \<or> CHR ''a'' \<in> set f \<or> CHR ''A'' \<in> set f))
      else (lf, sh, p))"
  by pat_completeness auto
termination
proof (relation "measure (\<lambda>(p, _, _). length p)", goal_cases)
  case (2 p lf sh p' f)
  have "p \<noteq> []" using 2(1) by auto
  moreover have "length (skip_sp (drop (length f) p')) \<le> length p'"
    using length_dropWhile_le[of _ "drop (length f) p'"] by (rule le_trans) simp
  ultimately show ?case using 2(2) by (cases p) auto
qed simp

declare ls_flags.simps [simp del]

definition mf_path_at :: "'a fs_scheme \<Rightarrow> nat \<Rightarrow> string" where
  "mf_path_at st i = mf_path (memfs st ! i)"

definition mf_dir_at :: "'a fs_scheme \<Rightarrow> nat \<Rightarrow> bool" where
  "mf_dir_at st i = mf_is_dir (memfs st ! i)"

text \<open>What the search of \<open>fs_ls\<close> finds: a file to print, a directory with its path, or nothing.\<close>

datatype ls_target = Ls_file string | Ls_dir string | Ls_none

text \<open>One attempt on a spelling of the path: \<open>Ls_none\<close> when it is not a file in memory.\<close>

definition ls_try :: "string \<Rightarrow> 'a fs_scheme \<Rightarrow> ls_target" where
  "ls_try p st =
     (case memfs_find p st of
        None \<Rightarrow> Ls_none
      | Some i \<Rightarrow> if mf_dir_at st i then Ls_dir (mf_path_at st i) else Ls_file (mf_path_at st i))"

text \<open>The exact path, the path with a slash added, with one removed, and the argument taken as an
  absolute path, without and with a trailing slash, in this order.\<close>

definition ls_lookup :: "string \<Rightarrow> string \<Rightarrow> 'a fs_scheme \<Rightarrow> ls_target option" where
  "ls_lookup path_arg path st =
     (if fs_find_vnode path st \<noteq> None then Some (Ls_dir path)
      else case ls_try path st of
        Ls_file f \<Rightarrow> Some (Ls_file f)
      | Ls_dir d \<Rightarrow> Some (Ls_dir path)
      | Ls_none \<Rightarrow> do {
          t1 \<leftarrow> (if length path > 1 \<and> last path \<noteq> CHR ''/''
                then do { q \<leftarrow> fits 256 (path @ ''/''); Some (ls_try q st) } else Some Ls_none);
          t2 \<leftarrow> (if t1 = Ls_none \<and> ends_slash path then Some (ls_try (butlast path) st) else Some t1);
          if t2 \<noteq> Ls_none then Some t2
          else do {
            ab \<leftarrow> (if cget path_arg 0 = CHR ''/'' then Some path_arg else fits 256 (''/'' @ path_arg));
            let ab' = strip_slash ab;
            if ls_try ab' st \<noteq> Ls_none then Some (ls_try ab' st)
            else do { q \<leftarrow> fits 256 (ab' @ ''/''); Some (ls_try q st) } } })"

definition last_name :: "string \<Rightarrow> string" where
  "last_name p = rev (takeWhile (\<lambda>c. c \<noteq> CHR ''/'') (rev p))"

text \<open>Is a node of the compiled-in tree a direct child of \<open>path\<close>, and shown?\<close>

definition ls_shows :: "bool \<Rightarrow> string \<Rightarrow> vnode \<Rightarrow> 'a fs_scheme \<Rightarrow> bool" where
  "ls_shows sh path v st =
     (let vp = vn_path v; plen = length path in
      \<not> fs_is_deleted vp st \<and> length vp > plen \<and>
      (if plen = 1 \<and> cget path 0 = CHR ''/''
       then cget vp 0 = CHR ''/'' \<and> drop 1 vp \<noteq> [] \<and> CHR ''/'' \<notin> set (drop 1 vp)
       else ksnc vp path plen = 0 \<and> cget vp plen = CHR ''/'' \<and>
            drop (plen + 1) vp \<noteq> [] \<and> CHR ''/'' \<notin> set (drop (plen + 1) vp)) \<and>
      last_name vp \<noteq> [] \<and> (sh \<or> cget (last_name vp) 0 \<noteq> CHR ''.''))"

definition ls_node :: "bool \<Rightarrow> vnode \<Rightarrow> vga \<Rightarrow> vga option" where
  "ls_node lf v w =
     (let sl = last_name (vn_path v) in
      if lf then
        (if vn_is_dir v then
           Some ((seqs [vset C_LBLUE C_BLACK, vps ''drwxr-xr-x  root root    - '', vps sl,
                  vpc CHR ''/'', vpc CHR 0x0A]) w)
         else do {
           sz \<leftarrow> kia (case vn_content v of None \<Rightarrow> 0 | Some c \<Rightarrow> int (length c));
           sb \<leftarrow> fits 8 sz;
           Some ((seqs [vset C_WHITE C_BLACK, vps ''-rw-r--r--  root root '',
                  fold (\<lambda>_. vpc CHR '' '') [length sb ..< 5],
                  vps sb, vps '' '', vps sl, vpc CHR 0x0A]) w) })
      else if vn_is_dir v then Some ((seqs [vset C_LBLUE C_BLACK, vps sl, vps ''/  '']) w)
      else Some ((seqs [vset C_WHITE C_BLACK, vps sl, vps ''  '']) w))"

text \<open>The name under which a file in memory appears in the listing of \<open>path\<close>.\<close>

definition ls_entry :: "bool \<Rightarrow> string \<Rightarrow> memfile \<Rightarrow> 'a fs_scheme \<Rightarrow> string option" where
  "ls_entry sh path m st =
     (let mp = mf_path m; plen = length path; rel0 = drop plen mp;
          slash_end = (cget path (plen - 1) = CHR ''/'');
          rel = (if slash_end then rel0 else drop 1 rel0);
          entry = takeWhile (\<lambda>c. c \<noteq> CHR ''/'') rel
      in if \<not> mf_used m \<or> fs_is_deleted mp st then None
         else if length mp \<le> plen \<or> ksnc mp path plen \<noteq> 0 then None
         else if \<not> slash_end \<and> cget rel0 0 \<noteq> CHR ''/'' then None
         else if CHR ''/'' \<in> set rel \<and> (length entry \<ge> 128 \<or> entry = []) then None
         else if \<not> sh \<and> cget entry 0 = CHR ''.'' then None
         else Some entry)"

text \<open>The collected entries, at most 64, each name once.\<close>

definition ls_collect ::
    "bool \<Rightarrow> string \<Rightarrow> 'a fs_scheme \<Rightarrow> memfile \<Rightarrow> (string \<times> bool) list \<Rightarrow> (string \<times> bool) list" where
  "ls_collect sh path st m es =
     (case ls_entry sh path m st of
        None \<Rightarrow> es
      | Some e \<Rightarrow>
          (case find_idx (\<lambda>(n, _). ksc n e = 0) es of
             Some j \<Rightarrow> if mf_is_dir m then es[j := (fst (es ! j), True)] else es
           | None \<Rightarrow> if length es < 64 then es @ [(e, mf_is_dir m)] else es))"

definition ls_item :: "bool \<Rightarrow> string \<times> bool \<Rightarrow> vga \<Rightarrow> vga" where
  "ls_item lf = (\<lambda>(n, d).
     if lf then
       (if d then seqs [vset C_LBLUE C_BLACK, vps ''drwxr-xr-x  root root    - '', vps n, vps (''/'' @ nl)]
        else seqs [vset C_LGREEN C_BLACK, vps ''-rw-r--r--  root root   -  '', vps n, vpc CHR 0x0A])
     else if d then seqs [vset C_LBLUE C_BLACK, vps n, vps ''/  '']
     else seqs [vset C_LGREEN C_BLACK, vps n, vps ''  ''])"

definition ls_dots :: "bool \<Rightarrow> string \<Rightarrow> vga \<Rightarrow> vga" where
  "ls_dots lf path =
     (if length path > 1 \<or> cget path 0 \<noteq> CHR ''/'' then
        seqs [vset C_LBLUE C_BLACK,
        (if lf then seqs [vpln ''drwxr-xr-x  root root    -  .'', vpln ''drwxr-xr-x  root root    -  ..'']
         else vps ''.  ../  ''), vrst]
      else id)"

definition ls_list :: "bool \<Rightarrow> bool \<Rightarrow> string \<Rightarrow> 'a fs_scheme \<Rightarrow> 'a fs_scheme option" where
  "ls_list lf sh path st =
     (let w = (if sh then ls_dots lf path else id) (con st) in
      do {
        w \<leftarrow> ofold (\<lambda>v w. if ls_shows sh path v st then ls_node lf v w else Some w) VFS w;
        let es = fold (ls_collect sh path st) (memfs st) [];
        let w = fold (ls_item lf) es w;
        let w = (if lf then w else vpc CHR 0x0A w);
        Some (st\<lparr>con := vrst w\<rparr>) })"

definition fs_ls :: "string \<Rightarrow> string \<Rightarrow> 'a fs_scheme \<Rightarrow> 'a fs_scheme option" where
  "fs_ls cwd arg st =
     (let (lf, sh, p) = ls_flags (skip_sp arg) False False in
      do {
        path_arg \<leftarrow> (if p \<noteq> [] then do { q \<leftarrow> fits 256 p; Some (strip_slash q) } else Some ''.'');
        path \<leftarrow> fs_resolve cwd path_arg 256;
        t \<leftarrow> ls_lookup path_arg path st;
        case t of
          Ls_file f \<Rightarrow> out (vpln f) st
        | Ls_none \<Rightarrow> out (err_out (seqs [vps (''ls: cannot access '' @ sq), vps path_arg,
                         vpln (sq @ '': No such file or directory'')])) st
        | Ls_dir d \<Rightarrow> ls_list lf sh d st })"

subsection \<open>cat\<close>

definition skip_flag :: "string \<Rightarrow> string" where
  "skip_flag a = (if cget a 0 = CHR ''-'' then skip_sp (after_word a) else a)"

definition print_lines :: "string list \<Rightarrow> vga \<Rightarrow> vga" where
  "print_lines ls = fold vpln ls"

definition cat_node :: "string \<Rightarrow> vnode \<Rightarrow> 'a fs_scheme \<Rightarrow> 'a fs_scheme option" where
  "cat_node a n st =
     (if vn_is_dir n then out (err_out (seqs [vps ''cat: '', vps a, vpln '': Is a directory''])) st
      else if ksc (vn_path n) ''/var/log/poing.log'' = 0 then
        (if poing_log st = [] then out (vpln ''[poing.log empty - start services to generate logs]'') st
         else out (print_lines (poing_log st)) st)
      else if ksc (vn_path n) ''/var/log/kernel.log'' = 0 then
        (if kern_log st = [] then out (vpln ''[kernel.log empty]'') st
         else out (print_lines (kern_log st)) st)
      else if ksc (vn_path n) ''/var/log/netdebug.log'' = 0 then
        do { buf \<leftarrow> rtl_net_log_get 2048 (drv_log st);
             if buf \<noteq> [] then out (seqs [vps buf, vpc CHR 0x0A]) st
             else out (vpln ''[netdebug.log empty - run rtldebug first]'') st }
      else out (seqs [(case vn_content n of None \<Rightarrow> id | Some c \<Rightarrow> vps c), vpc CHR 0x0A]) st)"

definition fs_cat :: "string \<Rightarrow> string \<Rightarrow> 'a fs_scheme \<Rightarrow> 'a fs_scheme option" where
  "fs_cat cwd arg st =
     (if arg = [] then out (vpln ''usage: cat <file>'') st
      else (let a = skip_flag arg in
        if a = [] then out (vpln ''usage: cat <file>'') st
        else do {
          path \<leftarrow> fs_resolve cwd a 256;
          case memfs_find path st of
            Some i \<Rightarrow> out (seqs [(if mf_get i st \<noteq> [] then vps (mf_get i st) else id), vpc CHR 0x0A]) st
          | None \<Rightarrow>
              (case fs_find_vnode path st of
                 None \<Rightarrow> out (err_out (seqs [vps ''cat: '', vps a, vpln '': No such file or directory''])) st
               | Some n \<Rightarrow> cat_node a n st) }))"

subsection \<open>touch\<close>

definition fs_touch :: "string \<Rightarrow> string \<Rightarrow> 'a fs_scheme \<Rightarrow> 'a fs_scheme option" where
  "fs_touch cwd arg st =
     (if arg = [] then out (vpln ''usage: touch <file>'') st
      else do {
        path \<leftarrow> fs_resolve cwd arg 256;
        if memfs_find path st \<noteq> None then out (vpln ''touch: file exists'') st
        else if fs_find_vnode path st \<noteq> None then out (vpln ''touch: file exists in pigfs'') st
        else do {
          (m, st) \<leftarrow> memfs_create path st;
          if m \<noteq> None then out (seqs [vps (''touch: created '' @ sq), vps path, vpln sq]) st
          else out (vpln ''touch: memory full'') st } })"

subsection \<open>rm\<close>

definition CRITICAL_PATHS :: "string list" where
  "CRITICAL_PATHS = [''/'', ''/etc'', ''/dev'', ''/proc'', ''/root'', ''/boot'', ''/kernel'', ''/drivers'',
     ''/shell'', ''/crypto'', ''/boot/pig.bin'', ''/boot/boot.asm'', ''/boot/grub.cfg'',
     ''/kernel/kernel.c'', ''/kernel/pigfs.h'', ''/kernel/mem.h'']"

definition is_critical_path :: "string \<Rightarrow> bool" where
  "is_critical_path path \<longleftrightarrow>
     (cget path 0 = CHR ''/'' \<and> cget path 1 = CHR 0x00) \<or>
     (cget path 0 = CHR ''/'' \<and>
      (\<exists>c \<in> set CRITICAL_PATHS.
         \<not> (length c = 1 \<and> cget c 0 = CHR ''/'') \<and> ksnc path c (length c) = 0 \<and>
         (cget path (length c) = CHR 0x00 \<or> cget path (length c) = CHR ''/'')))"

definition NORETURN_KPANIC :: "string \<Rightarrow> string \<Rightarrow> vga \<Rightarrow> vga" where
  "NORETURN_KPANIC reason path =
     (let pc = COL C_WHITE C_BLUE; y = COL C_YELLOW C_BLUE; r = COL C_LRED C_BLUE in
      seqs [vclear,
      vfill 0 0 VGA_W VGA_H CHR '' '' pc,
      vstr 0 0 pc ''[  0.000000] BUG: kernel NULL pointer dereference'',
      vstr 0 1 pc ''[  0.000001] #PF: supervisor read access in kernel mode'',
      vstr 0 3 pc ''[  0.000002] Oops: Critical filesystem corruption'',
      vstr 0 4 y ''[  0.000003] REASON: pigfs: critical path removed from VFS'',
      vstr 0 5 r ''[  0.000003] PATH:   '',
      vstr 10 5 r path,
      vstr 0 7 pc ''[  0.000004] RIP: fs_rm+0x4f/0xb2 [pigfs]'',
      vstr 0 8 pc ''[  0.000005] RAX: dead00000000dead RBX: ffffc9001c013e80'',
      vstr 0 9 pc ''[  0.000006] Call Trace:'',
      vstr 0 10 pc ''[  0.000006]   fs_rm+0x4f/0xb2'',
      vstr 0 11 pc ''[  0.000007]   sh_dispatch+0x183/0x5c2'',
      vstr 0 12 pc ''[  0.000007]   shell_run+0x42/0x137'',
      vstr 0 13 pc ''[  0.000008]   kernel_main+0x2e/0x42'',
      vstr 0 15 y ''[  0.000009] Kernel panic - not syncing: VFS critical path deleted'',
      vstr 0 16 y ''[  0.000009] pigOS cannot recover - system halted.'',
      vstr 0 18 r ''[  0.000010] --- SYSTEM HALTED ---'',
      vstr 0 19 (COL C_LGREY C_BLUE) ''[  0.000010] Power off the machine or restart QEMU.'',
      vstr 0 20 pc reason,
      vga_update_hw_cursor])"

text \<open>The words of a string, in order; the loop of \<open>fs_rm\<close> keeps at most 32.\<close>

function split_words :: "string \<Rightarrow> string list" where
  "split_words s =
     (let p = skip_sp s in
      if p = [] then [] else word_of p # split_words (drop (Suc (length (word_of p))) p))"
  by pat_completeness auto
termination
proof (relation "measure length", goal_cases)
  case (2 s p)
  have "length p \<le> length s" using 2(1) by (simp add: length_dropWhile_le)
  moreover have "length p > 0" using 2(2) by simp
  ultimately show ?case by (simp del: length_greater_0_conv)
qed simp

declare split_words.simps [simp del]

record rm_opts =
  rm_recursive :: bool
  rm_no_preserve :: bool
  rm_file :: "string option"

definition rm_token :: "string \<Rightarrow> rm_opts \<Rightarrow> rm_opts" where
  "rm_token t o' =
     (if cget t 0 = CHR ''-'' then
        (if cget t 1 = CHR ''-'' then
           (if ksnc (drop 2 t) ''no-preserve-root'' 16 = 0 then o'\<lparr>rm_no_preserve := True\<rparr> else o')
         else if CHR ''r'' \<in> set (drop 1 t) then o'\<lparr>rm_recursive := True\<rparr> else o')
      else o'\<lparr>rm_file := Some t\<rparr>)"

definition rm_parse :: "string \<Rightarrow> rm_opts" where
  "rm_parse tmp = fold rm_token (take 32 (split_words tmp))
     \<lparr>rm_recursive = False, rm_no_preserve = False, rm_file = None\<rparr>"

definition rm_err :: "string \<Rightarrow> string \<Rightarrow> vga \<Rightarrow> vga" where
  "rm_err a msg = err_out (seqs [vps (''rm: cannot remove '' @ sq), vps a, vpln (sq @ msg)])"

definition rm_msg :: "string \<Rightarrow> vga \<Rightarrow> vga" where
  "rm_msg path = seqs [vps (''rm: removed '' @ sq), vps path, vpln sq]"

text \<open>The part after the root check. The tokeniser has cut the argument after its first word, so
  \<open>a\<close> is that word.\<close>

definition rm_path :: "rm_opts \<Rightarrow> string \<Rightarrow> string \<Rightarrow> 'a fs_scheme \<Rightarrow> 'a fs_scheme outcome option" where
  "rm_path o' a path st =
     (let n = fs_find_vnode path st; mf = memfs_find path st in
      if n = None \<and> mf = None then
        Some (Done (pr (rm_err a '': No such file or directory'') st))
      else if (case_option False vn_is_dir n \<or> case_option False (mf_dir_at st) mf) \<and>
              \<not> rm_recursive o' then
        Some (Done (pr (rm_err a '': Is a directory (use rm -r)'') st))
      else if is_critical_path path then
        Some (Halted (pr (NORETURN_KPANIC
          ''[PANIC] Critical system path deleted - VFS integrity lost'' path) st))
      else case mf of
        Some i \<Rightarrow> Some (Done (pr (rm_msg path)
          (st\<lparr>memfs := (memfs st)[i := (memfs st ! i)\<lparr>mf_used := False\<rparr>]\<rparr>)))
      | None \<Rightarrow> do { st \<leftarrow> fs_mark_deleted path st; Some (Done (pr (rm_msg path) st)) })"

definition fs_rm :: "string \<Rightarrow> string \<Rightarrow> 'a fs_scheme \<Rightarrow> 'a fs_scheme outcome option" where
  "fs_rm cwd arg st =
     (if arg = [] then Some (Done (pr (vpln ''usage: rm [-rf] <file>'') st))
      else do {
        tmp \<leftarrow> fits 512 arg;
        let o' = rm_parse tmp;
        let a = word_of (skip_sp tmp);
        case rm_file o' of
          None \<Rightarrow> Some (Done (pr (vpln ''usage: rm [-rf] <file>'') st))
        | Some f \<Rightarrow> do {
            path \<leftarrow> fs_resolve cwd f 256;
            let is_root = (cget path 0 = CHR ''/'' \<and> cget path 1 = CHR 0x00);
            let is_root = (is_root \<or> (a \<noteq> [] \<and> cget a 0 = CHR ''/'' \<and>
                             (length a = 1 \<or> (length a > 1 \<and> cget a 1 = CHR '' ''))));
            if is_root \<and> \<not> rm_no_preserve o' then
              Some (Done (pr (err_out (seqs [vpln (''rm: it is dangerous to operate recursively on '' @ sq @ ''/'' @ sq),
                vpln ''use --no-preserve-root to override''])) st))
            else rm_path o' a path st } })"

subsection \<open>grep\<close>

text \<open>The pointer \<open>grep_pipe_input\<close> is NULL or the console's \<open>pipe_buf\<close>, the only argument it is ever set
  from, so a flag stands for it; what it points to is the buffer at the time \<open>grep\<close> reads it.\<close>

definition grep_set_pipe_input :: "'a fs_scheme \<Rightarrow> 'a fs_scheme" where
  "grep_set_pipe_input st =
     st\<lparr>grep_pipe_input := True, grep_pipe_input_len := length (pipe_str (con st))\<rparr>"

record grep_cfg =
  grep_icase :: bool
  grep_linenum :: bool
  grep_list :: bool
  grep_pat :: string

definition to_lower :: "char \<Rightarrow> char" where
  "to_lower c = (if CHR ''A'' \<le> c \<and> c \<le> CHR ''Z'' then char_of (of_char c + 32 :: nat) else c)"

definition grep_eq :: "grep_cfg \<Rightarrow> char \<Rightarrow> char \<Rightarrow> bool" where
  "grep_eq g lc pc = (if grep_icase g then to_lower lc = to_lower pc else lc = pc)"

text \<open>Does the pattern occur in the line, at one of the positions the loop tries?\<close>

definition grep_match :: "grep_cfg \<Rightarrow> string \<Rightarrow> bool" where
  "grep_match g line \<longleftrightarrow>
     (\<exists>i \<in> set [0 ..< length line + 1 - length (grep_pat g)].
        \<forall>j \<in> set [0 ..< length (grep_pat g)]. grep_eq g (line ! (i + j)) (grep_pat g ! j))"

definition grep_line ::
    "grep_cfg \<Rightarrow> string \<Rightarrow> nat \<Rightarrow> string \<Rightarrow> 'a fs_scheme \<Rightarrow> 'a fs_scheme option" where
  "grep_line g line lineno fname st =
     (if grep_match g line then
        (let st = st\<lparr>grep_found := grep_found st + 1\<rparr> in
         if grep_list g then out (seqs [vps fname, vpc CHR 0x0A]) st
         else do {
           let st = pr (if fname \<noteq> [] then seqs [vps fname, vps '':''] else id) st;
           st \<leftarrow> (if grep_linenum g then do {
                    n \<leftarrow> kia (int lineno); lb \<leftarrow> fits 8 n;
                    out (seqs [vset C_LCYAN C_BLACK, vps lb, vps '':'', vrst]) st }
                  else Some st);
           out (seqs [vset C_LGREEN C_BLACK, fold vpc line, vpc CHR 0x0A, vrst]) st })
      else Some st)"

text \<open>The lines of a content: a last line without newline counts, an empty rest does not.\<close>

function split_lines :: "string \<Rightarrow> string list" where
  "split_lines s =
     (if s = [] then []
      else (let l = takeWhile (\<lambda>c. c \<noteq> CHR 0x0A) s in l # split_lines (drop (Suc (length l)) s)))"
  by pat_completeness auto
termination by (relation "measure length") auto

declare split_lines.simps [simp del]

definition grep_content ::
    "grep_cfg \<Rightarrow> string \<Rightarrow> string \<Rightarrow> 'a fs_scheme \<Rightarrow> 'a fs_scheme option" where
  "grep_content g content fname st =
     ofold (\<lambda>(i, l). grep_line g l (i + 1) fname) (List.enumerate 0 (split_lines content)) st"

text \<open>The option loop of \<open>grep\<close>.\<close>

function grep_flags :: "string \<Rightarrow> grep_cfg \<Rightarrow> grep_cfg \<times> string" where
  "grep_flags p g =
     (if cget p 0 = CHR ''-'' then
        (let p = tl p; f = takeWhile (\<lambda>c. c \<noteq> CHR '' '' \<and> c \<noteq> CHR ''-'') p
         in grep_flags (skip_sp (drop (length f) p))
              (g\<lparr>grep_icase := grep_icase g \<or> CHR ''i'' \<in> set f,
                 grep_list := grep_list g \<or> CHR ''l'' \<in> set f,
                 grep_linenum := grep_linenum g \<or> CHR ''n'' \<in> set f\<rparr>))
      else (g, p))"
  by pat_completeness auto
termination
proof (relation "measure (\<lambda>(p, _). length p)", goal_cases)
  case (2 p g p' f)
  have "p \<noteq> []" using 2(1) by auto
  moreover have "length (skip_sp (drop (length f) p')) \<le> length p'"
    using length_dropWhile_le[of _ "drop (length f) p'"] by (rule le_trans) simp
  ultimately show ?case using 2(2) by (cases p) auto
qed simp

declare grep_flags.simps [simp del]

definition grep_all :: "grep_cfg \<Rightarrow> 'a fs_scheme \<Rightarrow> 'a fs_scheme option" where
  "grep_all g st = do {
     st \<leftarrow> ofold (\<lambda>v st. if vn_is_dir v \<or> fs_is_deleted (vn_path v) st then Some st
             else (case vn_content v of None \<Rightarrow> Some st | Some c \<Rightarrow> grep_content g c (vn_path v) st)) VFS st;
     ofold (\<lambda>m st. if \<not> mf_used m \<or> mf_is_dir m then Some st
             else grep_content g (mf_content m) (mf_path m) st) (memfs st) st }"

definition under_dir :: "string \<Rightarrow> string \<Rightarrow> bool" where
  "under_dir d p \<longleftrightarrow> length p > length d \<and> cget p (length d) = CHR ''/'' \<and> take (length d) p = d"

definition grep_dir :: "grep_cfg \<Rightarrow> string \<Rightarrow> 'a fs_scheme \<Rightarrow> 'a fs_scheme option" where
  "grep_dir g path st = do {
     st \<leftarrow> ofold (\<lambda>v st. if vn_is_dir v \<or> fs_is_deleted (vn_path v) st then Some st
             else (case vn_content v of None \<Rightarrow> Some st
                   | Some c \<Rightarrow> if under_dir path (vn_path v)
                               then grep_content g c (drop (length path) (vn_path v)) st else Some st)) VFS st;
     ofold (\<lambda>m st. if \<not> mf_used m \<or> mf_is_dir m then Some st
             else if under_dir path (mf_path m)
             then grep_content g (mf_content m) (drop (length path) (mf_path m)) st else Some st)
       (memfs st) st }"

text \<open>Input left over from an earlier pipeline, read on the left side of a later one, is the very
  buffer the output goes to. It starts empty; a search of it after something was written there is not
  followed by the model.\<close>

definition grep_pipe :: "grep_cfg \<Rightarrow> 'a fs_scheme \<Rightarrow> 'a fs_scheme option" where
  "grep_pipe g st =
     (let d = pipe_str (con st)
      in if pipe_active (con st) \<and> d \<noteq> [] then None else grep_content g d ''(pipe)'' st)"

definition fs_grep :: "string \<Rightarrow> string \<Rightarrow> 'a fs_scheme \<Rightarrow> 'a fs_scheme option" where
  "fs_grep cwd args st =
     (if args = [] then out (vpln ''usage: grep [-r][-i][-l][-n] <pattern> [file]'') st
      else (let st = st\<lparr>grep_found := 0\<rparr>;
                (g, p) = grep_flags (skip_sp args)
                  \<lparr>grep_icase = False, grep_linenum = False, grep_list = False, grep_pat = []\<rparr>;
                (pat, p) = take_word 255 p;
                g = g\<lparr>grep_pat := pat\<rparr>; p = skip_sp p
            in do {
              file_arg \<leftarrow> fits 256 p;
              if pat = [] then out (vpln ''grep: pattern required'') st
              else if file_arg = [] then
                (if grep_pipe_input st \<and> grep_pipe_input_len st > 0 then do {
                   st \<leftarrow> grep_pipe g st;
                   Some (st\<lparr>grep_pipe_input := False, grep_pipe_input_len := 0\<rparr>) }
                 else grep_all g st)
              else do {
                path \<leftarrow> fs_resolve cwd file_arg 256;
                let vn = fs_find_vnode path st;
                if case_option False vn_is_dir vn then grep_dir g path st
                else (case (case memfs_find path st of
                              Some i \<Rightarrow> Some (mf_get i st)
                            | None \<Rightarrow> (case vn of Some v \<Rightarrow> vn_content v | None \<Rightarrow> None)) of
                        None \<Rightarrow> out (err_out (seqs [vps ''grep: '', vps file_arg, vpln '': No such file''])) st
                      | Some c \<Rightarrow> grep_content g c file_arg st) } }))"

subsection \<open>find\<close>

record find_opts =
  fo_name :: string
  fo_type_d :: bool
  fo_type_f :: bool

text \<open>One word of the option loop: a flag with its value, or something skipped. The result is the
  rest of the argument; what follows \<open>-name\<close> or \<open>-type\<close> without a space is taken as the value.\<close>

definition find_opt :: "string \<Rightarrow> find_opts \<Rightarrow> find_opts \<times> string" where
  "find_opt p fo =
     (if cget p 0 = CHR ''-'' then
        (let p = tl p in
         if ksnc p ''name'' 4 = 0 then
           (let (n, p) = take_word 63 (skip_sp (drop 4 p)) in (fo\<lparr>fo_name := n\<rparr>, p))
         else if ksnc p ''type'' 4 = 0 then
           (let p = skip_sp (drop 4 p) in
            if cget p 0 = CHR ''d'' then (fo\<lparr>fo_type_d := True\<rparr>, tl p)
            else if cget p 0 = CHR ''f'' then (fo\<lparr>fo_type_f := True\<rparr>, tl p)
            else (fo, p))
         else (fo, after_word p))
      else (fo, after_word p))"

lemma take_word_rest_len: "length (snd (take_word lim p)) \<le> length p"
  by (simp add: take_word_def Let_def)

lemma skip_sp_len: "length (skip_sp p) \<le> length p"
  by (rule length_dropWhile_le)

lemma find_opt_len:
  assumes "p \<noteq> []" "cget p 0 \<noteq> CHR '' ''"
  shows "length (snd (find_opt p fo)) < length p"
proof -
  obtain c r where p: "p = c # r" "c \<noteq> CHR '' ''" using assms by (cases p) auto
  have 1: "length (snd (take_word 63 (skip_sp (drop 4 r)))) \<le> length r"
    using take_word_rest_len[of 63 "skip_sp (drop 4 r)"] skip_sp_len[of "drop 4 r"] by simp
  have 2: "length (skip_sp (drop 4 r)) \<le> length r"
    using skip_sp_len[of "drop 4 r"] by simp
  have 3: "length (after_word r) \<le> length r" by (rule length_dropWhile_le)
  show ?thesis
    using 1 2 3 p by (auto simp: find_opt_def Let_def split_beta less_Suc_eq_le)
qed

function find_parse :: "string \<Rightarrow> find_opts \<Rightarrow> find_opts" where
  "find_parse p fo =
     (let p = skip_sp p in
      if p = [] then fo else (let (fo, p) = find_opt p fo in find_parse p fo))"
  by pat_completeness auto
termination
proof (relation "measure (\<lambda>(p, _). length p)", goal_cases)
  case (2 p fo p' r fo' q)
  have "hd p' \<noteq> CHR '' ''"
    using 2(1,2) hd_dropWhile[of "\<lambda>c. c = CHR '' ''" p] by simp
  then have "cget p' 0 \<noteq> CHR '' ''"
    using 2(2) by (simp add: cget_def hd_conv_nth)
  then have "length q < length p'"
    using find_opt_len[OF 2(2), of fo] 2(3,4) by (metis snd_conv)
  then show ?case
    using 2(1) skip_sp_len[of p] by simp
qed simp

declare find_parse.simps [simp del]

definition has_sub :: "string \<Rightarrow> string \<Rightarrow> bool" where
  "has_sub sub s \<longleftrightarrow> (\<exists>j \<in> set [0 ..< length s]. ksnc (drop j s) sub (length sub) = 0)"

definition find_name_match :: "string \<Rightarrow> string \<Rightarrow> bool" where
  "find_name_match pat sl =
     (if cget pat 0 = CHR ''*'' \<and> length pat > 1 then
        (let suf = drop 1 pat in
         (length sl \<ge> length suf \<and> ksnc (drop (length sl - length suf) sl) suf (length suf) = 0) \<or>
         has_sub suf sl)
      else if ksc sl pat = 0 then True
      else (\<exists>j \<in> set [0 ..< length sl + 1 - length pat]. ksnc (drop j sl) pat (length pat) = 0))"

definition find_node :: "string \<Rightarrow> find_opts \<Rightarrow> vnode \<Rightarrow> 'a fs_scheme \<Rightarrow> bool" where
  "find_node base fo v st \<longleftrightarrow>
     \<not> fs_is_deleted (vn_path v) st \<and>
     \<not> (length base > 1 \<and> ksnc (vn_path v) base (length base) \<noteq> 0) \<and>
     \<not> (fo_type_d fo \<and> \<not> vn_is_dir v) \<and> \<not> (fo_type_f fo \<and> vn_is_dir v) \<and>
     (fo_name fo = [] \<or> find_name_match (fo_name fo) (last_name (vn_path v)))"

definition find_mem :: "string \<Rightarrow> find_opts \<Rightarrow> memfile \<Rightarrow> bool" where
  "find_mem base fo m \<longleftrightarrow>
     mf_used m \<and> \<not> (length base > 1 \<and> ksnc (mf_path m) base (length base) \<noteq> 0) \<and>
     \<not> fo_type_d fo \<and> (fo_name fo = [] \<or> ksc (last_name (mf_path m)) (fo_name fo) = 0)"

definition fs_find_cmd :: "string \<Rightarrow> string \<Rightarrow> 'a fs_scheme \<Rightarrow> 'a fs_scheme option" where
  "fs_find_cmd cwd args st =
     (let p = skip_sp args;
          (startpath, p) = (if p \<noteq> [] \<and> cget p 0 \<noteq> CHR ''-''
             then (let (w, p) = take_word 255 p in (w, skip_sp p)) else (''.'', p));
          fo = find_parse p \<lparr>fo_name = [], fo_type_d = False, fo_type_f = False\<rparr>
      in do {
        base \<leftarrow> fs_resolve cwd startpath 256;
        let hits = map vn_path (filter (\<lambda>v. find_node base fo v st) VFS) @
                   map mf_path (filter (find_mem base fo) (memfs st));
        out (seqs [fold vpln hits, (if hits = [] then vpln ''[find: no matches]'' else id)]) st })"

subsection \<open>cd and pwd\<close>

text \<open>The result is the new current directory (a buffer of 256 bytes) and the state.\<close>

definition cd_err :: "string \<Rightarrow> string \<Rightarrow> vga \<Rightarrow> vga" where
  "cd_err arg msg = err_out (seqs [vps ''cd: '', vps arg, vpln msg])"

definition is_mem_dir :: "string \<Rightarrow> 'a fs_scheme \<Rightarrow> bool" where
  "is_mem_dir p st = case_option False (mf_dir_at st) (memfs_find p st)"

definition fs_cd :: "string \<Rightarrow> string \<Rightarrow> 'a fs_scheme \<Rightarrow> (string \<times> 'a fs_scheme) option" where
  "fs_cd cwd arg st =
     (if arg = [] then Some (''/'', st)
      else if ksc arg ''~'' = 0 then Some (''/'', st)
      else do {
        path \<leftarrow> fs_resolve cwd arg 256;
        if is_mem_dir path st then Some (path, st)
        else do {
          slashed \<leftarrow> (if length path > 1 \<and> last path \<noteq> CHR ''/''
                      then do { q \<leftarrow> fits 256 (path @ ''/''); Some (Some q) } else Some None);
          if case_option False (\<lambda>q. is_mem_dir q st) slashed then Some (the slashed, st)
          else case fs_find_vnode path st of
            Some n \<Rightarrow> if vn_is_dir n then Some (path, st)
                      else Some (cwd, pr (cd_err arg '': Not a directory'') st)
          | None \<Rightarrow>
              (let try2 = (case slashed of None \<Rightarrow> path | Some q \<Rightarrow> q) in
               case fs_find_vnode try2 st of
                 Some n \<Rightarrow> if vn_is_dir n then Some (try2, st)
                           else Some (cwd, pr (cd_err arg '': Not a directory'') st)
               | None \<Rightarrow>
                   if cget arg 0 \<noteq> CHR ''/'' then do {
                     ab \<leftarrow> fits 256 (''/'' @ arg);
                     let ab = strip_slash ab;
                     if case_option False vn_is_dir (fs_find_vnode ab st) then Some (ab, st)
                     else Some (cwd, pr (cd_err arg '': No such file or directory'') st) }
                   else Some (cwd, pr (cd_err arg '': No such file or directory'') st)) } })"

definition fs_pwd :: "string \<Rightarrow> 'a fs_scheme \<Rightarrow> 'a fs_scheme" where
  "fs_pwd cwd st = pr (vpln cwd) st"

section \<open>Every command keeps the file system's invariant\<close>

text \<open>Printing does not touch the files, so only \<open>touch\<close> and \<open>rm\<close> change them.\<close>

lemma fs_ok_pr [simp]: "fs_ok (pr f st) = fs_ok st"
  by (simp add: fs_ok_def store_ok_def)

lemma store_ok_pr [simp]: "store_ok (pr f st) = store_ok st"
  by (simp add: store_ok_def)

lemma fs_ok_con [simp]: "fs_ok (st\<lparr>con := v\<rparr>) = fs_ok st"
  by (simp add: fs_ok_def store_ok_def)

lemma fs_is_deleted_pr [simp]: "fs_is_deleted p (pr f st) = fs_is_deleted p st"
  by (simp add: fs_is_deleted_def del_store_init_def store_cnt_def Let_def)

lemma fs_find_vnode_pr [simp]: "fs_find_vnode p (pr f st) = fs_find_vnode p st"
  by (simp add: fs_find_vnode_def)

lemma mf_live_pr [simp]: "mf_live p (pr f st) = mf_live p st"
  by (simp add: mf_live_def fun_eq_iff)

lemma memfs_find_pr [simp]: "memfs_find p (pr f st) = memfs_find p st"
  by (simp add: memfs_find_def)

text \<open>\<open>same_fs st st'\<close>: nothing but the console and grep's own variables differ.\<close>

definition same_fs :: "'a fs_scheme \<Rightarrow> 'a fs_scheme \<Rightarrow> bool" where
  "same_fs st st' \<longleftrightarrow> memfs st' = memfs st \<and> deleted_paths st' = deleted_paths st \<and>
     store_magic st' = store_magic st \<and> store_count st' = store_count st \<and>
     store_paths st' = store_paths st \<and> fs.more st' = fs.more st"

lemma same_fs_refl [simp]: "same_fs st st"
  by (simp add: same_fs_def)

lemma same_fs_trans: "same_fs a b \<Longrightarrow> same_fs b c \<Longrightarrow> same_fs a c"
  by (simp add: same_fs_def)

lemma same_fs_pr [simp]: "same_fs st (pr f st)"
  by (simp add: same_fs_def pr_def)

lemma same_fs_ok: "same_fs st st' \<Longrightarrow> fs_ok st' = fs_ok st"
  by (simp add: same_fs_def fs_ok_def store_ok_def)

lemma ls_list_same: "ls_list lf sh path st = Some st' \<Longrightarrow> same_fs st st'"
  by (auto simp: ls_list_def Let_def same_fs_def split: bind_splits)

lemma fs_ls_same: "fs_ls cwd arg st = Some st' \<Longrightarrow> same_fs st st'"
  by (auto simp: fs_ls_def Let_def split: prod.splits bind_splits if_splits ls_target.splits
      dest: ls_list_same)

lemma cat_node_same: "cat_node a n st = Some st' \<Longrightarrow> same_fs st st'"
  by (auto simp: cat_node_def split: if_splits bind_splits option.splits)

lemma fs_cat_same: "fs_cat cwd arg st = Some st' \<Longrightarrow> same_fs st st'"
  by (auto simp: fs_cat_def Let_def split: if_splits bind_splits option.splits dest: cat_node_same)

lemma grep_line_same: "grep_line g l n f st = Some st' \<Longrightarrow> same_fs st st'"
  by (auto simp: grep_line_def Let_def same_fs_def pr_def split: if_splits bind_splits)

lemma ofold_same:
  assumes "\<And>x s s'. f x s = Some s' \<Longrightarrow> same_fs s s'" "ofold f xs st = Some st'"
  shows "same_fs st st'"
  using assms(2)
proof (induction xs arbitrary: st)
  case (Cons x xs)
  then obtain s1 where s1: "f x st = Some s1" "ofold f xs s1 = Some st'"
    by (auto split: bind_splits)
  show ?case using same_fs_trans[OF assms(1)[OF s1(1)] Cons.IH[OF s1(2)]] .
qed simp

lemma grep_content_same: "grep_content g c f st = Some st' \<Longrightarrow> same_fs st st'"
  unfolding grep_content_def
  by (rule ofold_same) (auto dest: grep_line_same split: prod.splits)

lemma grep_all_same:
  assumes "grep_all g st = Some st'"
  shows "same_fs st st'"
proof -
  obtain s1 where s1: "ofold (\<lambda>v st. if vn_is_dir v \<or> fs_is_deleted (vn_path v) st then Some st
        else (case vn_content v of None \<Rightarrow> Some st | Some c \<Rightarrow> grep_content g c (vn_path v) st)) VFS st = Some s1"
      "ofold (\<lambda>m st. if \<not> mf_used m \<or> mf_is_dir m then Some st
        else grep_content g (mf_content m) (mf_path m) st) (memfs s1) s1 = Some st'"
    using assms by (auto simp: grep_all_def split: bind_splits)
  have "same_fs st s1"
    using s1(1) by (rule ofold_same [rotated]) (auto split: if_splits option.splits dest: grep_content_same)
  moreover have "same_fs s1 st'"
    using s1(2) by (rule ofold_same [rotated]) (auto split: if_splits dest: grep_content_same)
  ultimately show ?thesis by (rule same_fs_trans)
qed

lemma grep_dir_same:
  assumes "grep_dir g path st = Some st'"
  shows "same_fs st st'"
proof -
  let ?f = "\<lambda>v st. if vn_is_dir v \<or> fs_is_deleted (vn_path v) st then Some st
     else (case vn_content v of None \<Rightarrow> Some st
           | Some c \<Rightarrow> if under_dir path (vn_path v)
                       then grep_content g c (drop (length path) (vn_path v)) st else Some st)"
  let ?h = "\<lambda>m st. if \<not> mf_used m \<or> mf_is_dir m then Some st
     else if under_dir path (mf_path m)
     then grep_content g (mf_content m) (drop (length path) (mf_path m)) st else Some st"
  obtain s1 where s1: "ofold ?f VFS st = Some s1" "ofold ?h (memfs s1) s1 = Some st'"
    using assms by (auto simp: grep_dir_def split: bind_splits)
  have "same_fs st s1"
    using s1(1) by (rule ofold_same [rotated]) (auto split: if_splits option.splits dest: grep_content_same)
  moreover have "same_fs s1 st'"
    using s1(2) by (rule ofold_same [rotated]) (auto split: if_splits dest: grep_content_same)
  ultimately show ?thesis by (rule same_fs_trans)
qed

lemma same_fs_grep_vars [simp]:
  "same_fs (st\<lparr>grep_found := n\<rparr>) st' = same_fs st st'"
  "same_fs st (st'\<lparr>grep_pipe_input := d\<rparr>) = same_fs st st'"
  "same_fs st (st'\<lparr>grep_pipe_input_len := n\<rparr>) = same_fs st st'"
  "same_fs st (st'\<lparr>grep_found := n\<rparr>) = same_fs st st'"
  by (simp_all add: same_fs_def)

lemma grep_pipe_same: "grep_pipe g st = Some st' \<Longrightarrow> same_fs st st'"
  by (auto simp: grep_pipe_def Let_def split: if_splits dest: grep_content_same)

lemma fs_grep_same: "fs_grep cwd args st = Some st' \<Longrightarrow> same_fs st st'"
  by (auto simp: fs_grep_def Let_def split: if_splits prod.splits bind_splits option.splits
      dest!: grep_content_same grep_pipe_same grep_all_same grep_dir_same)
    (auto simp: same_fs_def pr_def)

lemma fs_find_cmd_same: "fs_find_cmd cwd args st = Some st' \<Longrightarrow> same_fs st st'"
  by (auto simp: fs_find_cmd_def Let_def split: bind_splits prod.splits)

lemma fs_cd_same: "fs_cd cwd arg st = Some (cwd', st') \<Longrightarrow> same_fs st st'"
  by (auto simp: fs_cd_def Let_def split: if_splits bind_splits option.splits)

section \<open>touch, rm and cd\<close>

lemma fs_resolve_256:
  assumes "abs_path 255 cwd" "cstr a" "fs_resolve cwd a 256 = Some q"
  shows "abs_path 255 q" "cstr q"
  using fs_resolve_abs[of 256 cwd a q] assms by (auto simp: abs_path_def)

lemma fs_ok_upd_used:
  assumes "fs_ok st" "i < length (memfs st)"
  shows "fs_ok (st\<lparr>memfs := (memfs st)[i := (memfs st ! i)\<lparr>mf_used := b\<rparr>]\<rparr>)"
proof -
  have "memfs st ! i \<in> set (memfs st)" using assms(2) by simp
  then show ?thesis
    using assms(1) by (auto simp: fs_ok_def dest!: set_update_subset_insert[THEN subsetD])
qed

lemma memfs_create_same:
  assumes "fs_ok st" "cstr p" "memfs_create p st = Some (r, st')"
  shows "fs_ok st' \<and> deleted_paths st' = deleted_paths st \<and> fs.more st' = fs.more st"
  using assms
  by (auto simp: memfs_create_def fs_ok_def fits_eq_Some split: option.splits if_splits bind_splits)

lemma fs_touch_ok:
  assumes "fs_ok st" "abs_path 255 cwd" "cstr arg" "fs_touch cwd arg st = Some st'"
  shows "fs_ok st'"
  using assms memfs_create_same[OF assms(1)] fs_resolve_256(2)[OF assms(2,3)]
  by (auto simp: fs_touch_def split: if_splits bind_splits)

lemma split_words_set: "w \<in> set (split_words s) \<Longrightarrow> set w \<subseteq> set s"
proof (induction s rule: split_words.induct)
  case (1 s)
  let ?p = "skip_sp s"
  have p: "set ?p \<subseteq> set s" by (auto dest: set_dropWhileD)
  show ?case
  proof (cases "w = word_of ?p")
    case True
    then show ?thesis using p by (auto dest!: set_takeWhileD)
  next
    case False
    then have "?p \<noteq> []" "w \<in> set (split_words (drop (Suc (length (word_of ?p))) ?p))"
      using 1(2) by (auto simp: split_words.simps[of s] Let_def split: if_splits)
    then have "set w \<subseteq> set (drop (Suc (length (word_of ?p))) ?p)"
      using 1(1) by blast
    then show ?thesis using p by (meson dual_order.trans set_drop_subset)
  qed
qed

lemma rm_token_file: "rm_file (rm_token t o') = Some f \<Longrightarrow> rm_file o' = Some f \<or> f = t"
  by (auto simp: rm_token_def split: if_splits)

lemma rm_parse_file:
  assumes "rm_file (rm_parse tmp) = Some f" "cstr tmp"
  shows "cstr f"
proof -
  have "rm_file (fold rm_token ws o') = Some f \<Longrightarrow> rm_file o' = Some f \<or> f \<in> set ws" for ws o'
  proof (induction ws arbitrary: o')
    case (Cons w ws)
    then show ?case using rm_token_file[of w o' f] by auto
  qed simp
  from this[of "take 32 (split_words tmp)" "\<lparr>rm_recursive = False, rm_no_preserve = False, rm_file = None\<rparr>"]
  have "f \<in> set (split_words tmp)"
    using assms(1) by (auto simp: rm_parse_def dest: in_set_takeD)
  then show ?thesis
    using split_words_set assms(2) by (auto simp: cstr_def)
qed

lemma rm_path_done:
  assumes "fs_ok st" "cstr path" "rm_path o' a path st = Some (Done st')"
  shows "fs_ok st' \<and> (deleted_paths st' = deleted_paths st \<or>
     (deleted_paths st' = deleted_paths st @ [path] \<and> \<not> is_critical_path path))"
proof -
  consider (same) f where "st' = pr f st"
    | (mem) i f where "memfs_find path st = Some i"
      "st' = pr f (st\<lparr>memfs := (memfs st)[i := (memfs st ! i)\<lparr>mf_used := False\<rparr>]\<rparr>)"
    | (del) s1 f where "\<not> is_critical_path path" "fs_mark_deleted path st = Some s1" "st' = pr f s1"
    using assms(3)
    by (auto simp: rm_path_def Let_def split: if_splits option.splits bind_splits)
  then show ?thesis
  proof cases
    case same
    then show ?thesis using assms(1) by simp
  next
    case mem
    then show ?thesis
      using fs_ok_upd_used[OF assms(1)] memfs_find_Some(1)[OF assms(1,2)] by simp
  next
    case del
    then show ?thesis
      using fs_mark_deleted_ok[OF fs_okD(1)[OF assms(1)] assms(2) del(2)] assms(1)
      by (auto simp: fs_ok_def)
  qed
qed

lemma fs_rm_done:
  assumes "fs_ok st" "abs_path 255 cwd" "cstr arg" "fs_rm cwd arg st = Some (Done st')"
  shows "fs_ok st' \<and> (\<forall>p. is_critical_path p \<longrightarrow>
    (p \<in> set (deleted_paths st') \<longleftrightarrow> p \<in> set (deleted_paths st)))"
proof -
  consider f where "st' = pr f st"
    | o' a f path where "rm_file o' = Some f" "o' = rm_parse arg" "fs_resolve cwd f 256 = Some path"
      "rm_path o' a path st = Some (Done st')"
    using assms(4)
    by (auto simp: fs_rm_def Let_def fits_eq_Some split: if_splits bind_splits option.splits)
  then show ?thesis
  proof cases
    case 1
    then show ?thesis using assms(1) by simp
  next
    case 2
    have "cstr path"
      using fs_resolve_256(2)[OF assms(2) _ 2(3)] rm_parse_file[of arg f] 2(1,2) assms(3) by simp
    from rm_path_done[OF assms(1) this 2(4)] show ?thesis by auto
  qed
qed

lemma fs_cd_abs:
  assumes "abs_path 255 cwd" "cstr arg" "fs_cd cwd arg st = Some (cwd', st')"
  shows "abs_path 255 cwd'"
proof -
  have root: "abs_path 255 ''/''" by (simp add: abs_path_def)
  have ab: "abs_path 255 (strip_slash p)" if "abs_path 255 p" for p
  proof -
    have "set (strip_slash p) \<subseteq> set p" "length (strip_slash p) \<le> length p"
      by (auto simp: strip_slash_def dest: in_set_butlastD)
    then show ?thesis
      using that strip_slash_hd[of p] by (auto simp: abs_path_def cstr_def)
  qed
  have ext: "abs_path 255 (q @ ''/'')" if "abs_path 255 q" "length q < 255" for q
    using that by (simp add: abs_path_def)
  have arg: "abs_path 255 (CHR ''/'' # arg)" if "Suc (length arg) < 256"
    using that assms(2) by (simp add: abs_path_def)
  show ?thesis
    using assms(3) root assms(1) ext ab[OF arg] fs_resolve_256(1)[OF assms(1,2)]
    by (auto simp: fs_cd_def Let_def fits_eq_Some split: if_splits bind_splits option.splits)
qed

lemma cd_up_trailing:
  assumes "\<forall>c \<in> set cs. name_ok c" "cs \<noteq> []" "length (join_path cs) < 255"
    and "is_mem_dir (join_path cs @ ''/'') st" "\<not> is_mem_dir (join_path cs) st"
  shows "fs_cd (join_path cs @ ''/'') ''..'' st = Some (join_path cs @ ''/'', st)"
proof -
  have l: "last (join_path cs) \<noteq> CHR ''/''" by (rule last_join[OF assms(1,2)])
  have "length (join_path cs) > 1"
    using l join_path_ne[of cs] assms(2) by (cases cs) (auto simp: join_path_def)
  have "resolve_loop 256 (join_path cs @ ''/'') ''..'' = join_path cs"
    using go_up_trailing[OF assms(1,2)]
    by (subst resolve_loop.simps) (simp add: is_dotdot_def skip1_slash_def resolve_loop.simps)
  then have "fs_resolve (join_path cs @ ''/'') ''..'' 256 = Some (join_path cs)"
    using assms(3) normalize_join[OF assms(1)] cut_nul_cstr[OF cstr_join[OF assms(1)]]
    by (simp add: fs_resolve_def Let_def join_path_ne byte_diff_def)
  then show ?thesis
    using assms(3-5) l \<open>length (join_path cs) > 1\<close> by (simp add: fs_cd_def byte_diff_def)
qed

section \<open>grep and ls\<close>

definition fold_case :: "grep_cfg \<Rightarrow> char \<Rightarrow> char" where
  "fold_case g c = (if grep_icase g then to_lower c else c)"

lemma grep_eq_fold: "grep_eq g a b \<longleftrightarrow> fold_case g a = fold_case g b"
  by (simp add: grep_eq_def fold_case_def)

text \<open>The two nested loops find a line exactly when the pattern occurs in it, up to case when asked.\<close>

lemma grep_match_iff:
  "grep_match g line \<longleftrightarrow>
     (\<exists>pre mid post. line = pre @ mid @ post \<and> map (fold_case g) mid = map (fold_case g) (grep_pat g))"
proof
  let ?k = "length (grep_pat g)"
  assume "grep_match g line"
  then obtain i where i: "i < length line + 1 - ?k"
      "\<forall>j < ?k. fold_case g (line ! (i + j)) = fold_case g (grep_pat g ! j)"
    by (auto simp: grep_match_def grep_eq_fold)
  let ?mid = "take ?k (drop i line)"
  have "line = take i line @ ?mid @ drop ?k (drop i line)"
    by (simp only: append_take_drop_id)
  moreover have "map (fold_case g) ?mid = map (fold_case g) (grep_pat g)"
    using i by (intro nth_equalityI) (auto simp: add.commute)
  ultimately show "\<exists>pre mid post. line = pre @ mid @ post \<and>
      map (fold_case g) mid = map (fold_case g) (grep_pat g)" by blast
next
  assume "\<exists>pre mid post. line = pre @ mid @ post \<and>
      map (fold_case g) mid = map (fold_case g) (grep_pat g)"
  then obtain pre mid post where l: "line = pre @ mid @ post"
      and m: "map (fold_case g) mid = map (fold_case g) (grep_pat g)" by blast
  have len: "length mid = length (grep_pat g)" using arg_cong[OF m, of length] by simp
  have "grep_eq g (line ! (length pre + j)) (grep_pat g ! j)" if "j < length (grep_pat g)" for j
    using arg_cong[OF m, of "\<lambda>xs. xs ! j"] that len
    by (simp add: l nth_append grep_eq_fold)
  then show "grep_match g line"
    unfolding grep_match_def using len by (intro bexI[of _ "length pre"]) (auto simp: l)
qed

lemma last_name_split:
  assumes "CHR ''/'' \<notin> set n"
  shows "last_name (p @ CHR ''/'' # n) = n"
  using assms by (simp add: last_name_def takeWhile_append)

text \<open>A listing of a directory shows exactly its direct children.\<close>

lemma ls_shows_iff:
  assumes "cstr path" "cstr (vn_path v)" "path \<noteq> ''/''" "path \<noteq> []"
  shows "ls_shows True path v st \<longleftrightarrow> \<not> fs_is_deleted (vn_path v) st \<and>
    (\<exists>n. n \<noteq> [] \<and> CHR ''/'' \<notin> set n \<and> vn_path v = path @ CHR ''/'' # n)"
proof
  let ?vp = "vn_path v" and ?k = "length path"
  have ne: "\<not> (?k = 1 \<and> cget path 0 = CHR ''/'')"
    using assms(3) by (cases path) auto
  {
    assume "ls_shows True path v st"
    then have *: "\<not> fs_is_deleted ?vp st" "take ?k ?vp = path" "cget ?vp ?k = CHR ''/''"
      "drop (?k + 1) ?vp \<noteq> []" "CHR ''/'' \<notin> set (drop (?k + 1) ?vp)" "?k < length ?vp"
      using ne assms(1,2) by (auto simp: ls_shows_def Let_def)
    then have "?vp = path @ CHR ''/'' # drop (?k + 1) ?vp"
      using id_take_nth_drop[of ?k ?vp] by (simp add: cget_def)
    then show "\<not> fs_is_deleted ?vp st \<and> (\<exists>n. n \<noteq> [] \<and> CHR ''/'' \<notin> set n \<and> ?vp = path @ CHR ''/'' # n)"
      using * by blast
  }
  assume "\<not> fs_is_deleted ?vp st \<and> (\<exists>n. n \<noteq> [] \<and> CHR ''/'' \<notin> set n \<and> ?vp = path @ CHR ''/'' # n)"
  then obtain n where n: "\<not> fs_is_deleted ?vp st" "n \<noteq> []" "CHR ''/'' \<notin> set n"
      "?vp = path @ CHR ''/'' # n" by blast
  have "ksnc ?vp path ?k = 0" using assms(1,2) n(4) by simp
  then show "ls_shows True path v st"
    using n ne last_name_split[OF n(3), of path] by (simp add: ls_shows_def Let_def cget_def nth_append)
qed

section \<open>Properties\<close>

text \<open>C4: \<open>rm\<close> that returns keeps the file system's invariant and never removes a critical path: a
  critical node that was visible stays visible, whatever the argument. (Removing one halts the
  machine instead.)\<close>
theorem rm_protects_critical:
  assumes "fs_ok st" "abs_path 255 cwd" "cstr arg" "fs_rm cwd arg st = Some (Done st')"
    and "is_critical_path p" "cstr p"
  shows "fs_ok st' \<and> fs_find_vnode p st' = fs_find_vnode p st"
proof -
  have ok: "fs_ok st'" and d: "p \<in> set (deleted_paths st') \<longleftrightarrow> p \<in> set (deleted_paths st)"
    using fs_rm_done[OF assms(1-4)] assms(5) by blast+
  then show ?thesis
    using fs_is_deleted_iff[OF fs_okD(1)[OF ok] assms(6)]
      fs_is_deleted_iff[OF fs_okD(1)[OF assms(1)] assms(6)]
    by (simp add: fs_find_vnode_def)
qed

theorem rm_protects_critical_witness:
  "\<exists>st'. fs_rm ''/'' ''-rf /usr/bin'' fs0 = Some (Done st') \<and>
     fs_find_vnode ''/etc/passwd'' st' = fs_find_vnode ''/etc/passwd'' fs0"
proof -
  have "is_critical_path ''/etc/passwd''" by code_simp
  moreover have "\<exists>st'. fs_rm ''/'' ''-rf /usr/bin'' fs0 = Some (Done st')"
  proof -
    have p: "rm_parse ''-rf /usr/bin'' =
        \<lparr>rm_recursive = True, rm_no_preserve = False, rm_file = Some ''/usr/bin''\<rparr>" by code_simp
    have r: "fs_resolve ''/'' ''/usr/bin'' 256 = Some ''/usr/bin''" by code_simp
    have c: "\<not> is_critical_path ''/usr/bin''" by code_simp
    have v: "fs_find_vnode ''/usr/bin'' fs0 = Some (VNode ''/usr/bin'' True None)" by code_simp
    have m: "memfs_find ''/usr/bin'' fs0 = None" by code_simp
    have d: "fs_mark_deleted ''/usr/bin'' fs0 \<noteq> None" by (simp add: fs_mark_deleted_def)
    show ?thesis
      using p r c v m d by (auto simp: fs_rm_def rm_path_def)
  qed
  ultimately show ?thesis
    using rm_protects_critical[OF fs0_ok, of "''/''" "''-rf /usr/bin''" _ "''/etc/passwd''"]
    by (auto simp: abs_path_def)
qed

text \<open>C12: a file of the compiled-in tree that \<open>rm\<close> removes is gone for good: it is not found after a
  reboot that loses the local list of deleted paths and reads it back from the store, while there
  was room in the store.\<close>
theorem rm_survives_reboot:
  assumes "fs_ok st" "cstr path" "fs_find_vnode path st = Some v" "memfs_find path st = None"
    and "length (deleted_paths st) < 64" "rm_path o' a path st = Some (Done st')"
    and "vn_is_dir v \<longrightarrow> rm_recursive o'"
  shows "\<exists>st2. del_sync_from_store (st'\<lparr>deleted_paths := []\<rparr>) = Some st2 \<and>
    fs_find_vnode path st2 = None"
proof -
  obtain s1 f where s1: "fs_mark_deleted path st = Some s1" "st' = pr f s1"
    using assms(3-7) by (auto simp: rm_path_def Let_def split: if_splits bind_splits)
  have ok: "store_ok s1" "deleted_paths s1 = deleted_paths st @ [path]"
    using fs_mark_deleted_ok[OF fs_okD(1)[OF assms(1)] assms(2) s1(1)] assms(5) by auto
  then have "store_ok st'" by (simp add: s1(2))
  from reboot_restores[OF this, of "[]"] show ?thesis
    using fs_is_deleted_iff[OF \<open>store_ok st'\<close> assms(2)] ok(2)
    by (auto simp: s1(2) fs_find_vnode_def)
qed

theorem rm_survives_reboot_witness:
  "\<exists>st' st2. rm_path \<lparr>rm_recursive = False, rm_no_preserve = False, rm_file = None\<rparr> []
       ''/README.txt'' fs0 = Some (Done st') \<and>
     del_sync_from_store (st'\<lparr>deleted_paths := []\<rparr>) = Some st2 \<and>
     fs_find_vnode ''/README.txt'' st2 = None"
proof -
  let ?o = "\<lparr>rm_recursive = False, rm_no_preserve = False, rm_file = None\<rparr>"
  obtain c where v: "fs_find_vnode ''/README.txt'' fs0 = Some (VNode ''/README.txt'' False (Some c))"
    by (simp add: fs_find_vnode_def fs_is_deleted_def fs0_def store_cnt_def VFS_def
        del_store_init_def byte_diff_def)
  have m: "memfs_find ''/README.txt'' fs0 = None" by code_simp
  have k: "\<not> is_critical_path ''/README.txt''" by code_simp
  have "fs_mark_deleted ''/README.txt'' fs0 \<noteq> None" by (simp add: fs_mark_deleted_def)
  then obtain st' where r: "rm_path ?o [] ''/README.txt'' fs0 = Some (Done st')"
    using v m k by (auto simp: rm_path_def)
  show ?thesis
    using rm_survives_reboot[OF fs0_ok _ v m _ r] r by (auto simp: fs0_def)
qed

text \<open>\<open>cd\<close> from an absolute directory always leaves an absolute directory that fits the shell's
  256 byte buffer, and changes no file.\<close>
theorem cd_stays_absolute:
  assumes "abs_path 255 cwd" "cstr arg" "fs_cd cwd arg st = Some (cwd', st')"
  shows "abs_path 255 cwd' \<and> same_fs st st'"
  using fs_cd_abs[OF assms] fs_cd_same[OF assms(3)] by simp

theorem cd_stays_absolute_witness:
  "fs_cd ''/usr'' ''bin'' fs0 = Some (''/usr/bin'', fs0) \<and> abs_path 255 ''/usr/bin''"
proof -
  have r: "fs_resolve ''/usr'' ''bin'' 256 = Some ''/usr/bin''" by code_simp
  have m: "is_mem_dir ''/usr/bin'' fs0 = False" "is_mem_dir ''/usr/bin/'' fs0 = False" by code_simp+
  have v: "fs_find_vnode ''/usr/bin'' fs0 = Some (VNode ''/usr/bin'' True None)" by code_simp
  have c: "fs_cd ''/usr'' ''bin'' fs0 = Some (''/usr/bin'', fs0)"
    using r m v by (simp add: fs_cd_def byte_diff_def)
  show ?thesis
    using c cd_stays_absolute[OF _ _ c] by (simp add: abs_path_def)
qed

text \<open>inside a directory kept in memory, whose path \<open>cd\<close> stores with a trailing slash, \<open>cd ..\<close>
  stays where it is.\<close>
theorem cd_up_stuck:
  assumes "\<forall>c \<in> set cs. name_ok c" "cs \<noteq> []" "length (join_path cs) < 255"
    and "is_mem_dir (join_path cs @ ''/'') st" "\<not> is_mem_dir (join_path cs) st"
  shows "fs_cd (join_path cs @ ''/'') ''..'' st = Some (join_path cs @ ''/'', st)"
  by (rule cd_up_trailing[OF assms])

theorem cd_up_stuck_witness:
  "\<exists>st. memfs_create ''/home/bob/'' fs0 = Some (Some 0, st) \<and>
     fs_cd ''/home/bob/'' ''..'' st = Some (''/home/bob/'', st)"
proof -
  let ?st = "fs0\<lparr>memfs := [\<lparr>mf_path = ''/home/bob/'', mf_content = [], mf_used = True, mf_is_dir = True\<rparr>]\<rparr>"
  have c: "memfs_create ''/home/bob/'' fs0 = Some (Some 0, ?st)"
    by (simp add: memfs_create_def memfs_find_def fs0_def ends_slash_def)
  have "is_mem_dir ''/home/bob/'' ?st = True" "is_mem_dir ''/home/bob'' ?st = False"
    by code_simp+
  then have "fs_cd ''/home/bob/'' ''..'' ?st = Some (''/home/bob/'', ?st)"
    using cd_up_stuck[of "[''home'', ''bob'']" ?st] by (simp add: join_path_def name_ok_def)
  then show ?thesis using c by blast
qed

text \<open>\<open>grep\<close> reports a line exactly when the pattern occurs in it as a contiguous part, comparing
  letters without case under \<open>-i\<close>.\<close>
theorem grep_match_correct:
  "grep_match g line \<longleftrightarrow>
     (\<exists>pre mid post. line = pre @ mid @ post \<and> map (fold_case g) mid = map (fold_case g) (grep_pat g))"
  by (rule grep_match_iff)

text \<open>\<open>ls -a\<close> of a directory other than the root shows a node of the compiled-in tree exactly when
  it is not deleted and its path is the directory's path, a slash, and one name.\<close>
theorem ls_shows_children:
  assumes "cstr path" "cstr (vn_path v)" "path \<noteq> ''/''" "path \<noteq> []"
  shows "ls_shows True path v st \<longleftrightarrow> \<not> fs_is_deleted (vn_path v) st \<and>
    (\<exists>n. n \<noteq> [] \<and> CHR ''/'' \<notin> set n \<and> vn_path v = path @ CHR ''/'' # n)"
  by (rule ls_shows_iff[OF assms])

theorem ls_shows_children_witness:
  "ls_shows True ''/etc'' (VNode ''/etc/hosts'' False None) fs0 \<and>
   \<not> ls_shows True ''/etc'' (VNode ''/etc/skel/.lashrc'' False None) fs0"
  using ls_shows_children[of "''/etc''" "VNode ''/etc/hosts'' False None" fs0]
    ls_shows_children[of "''/etc''" "VNode ''/etc/skel/.lashrc'' False None" fs0]
  by (simp add: fs_is_deleted_def fs0_def store_cnt_def del_store_init_def)

text \<open>\<open>touch\<close> of a path that resolves to no existing and no deleted name creates an empty file
  that is found under the resolved path, while there is a free entry, and keeps the invariant; the
  path must be shorter than the 128 bytes of the entry's field.\<close>
theorem touch_creates:
  assumes "fs_ok st" "abs_path 255 cwd" "cstr arg" "arg \<noteq> []" "fs_resolve cwd arg 256 = Some path"
    and "memfs_find path st = None" "fs_find_vnode path st = None" "path \<notin> set (deleted_paths st)"
    and "length (memfs st) < 64" "length path < 128"
  shows "\<exists>st' i. fs_touch cwd arg st = Some st' \<and> fs_ok st' \<and> memfs_find path st' = Some i \<and>
    mf_get i st' = []"
proof -
  let ?m = "\<lparr>mf_path = path, mf_content = [], mf_used = True, mf_is_dir = ends_slash path\<rparr>"
  let ?s = "st\<lparr>memfs := memfs st @ [?m]\<rparr>"
  have c: "memfs_create path st = Some (Some (length (memfs st)), ?s)"
    using assms(6,9,10) by (simp add: memfs_create_def)
  have "cstr path" using fs_resolve_256(2)[OF assms(2,3,5)] .
  from memfs_create_ok[OF assms(1) this assms(8) c]
  have "fs_ok ?s" "memfs_find path ?s = Some (length (memfs st))" by blast+
  then show ?thesis
    using assms(4-7) c by (auto simp: fs_touch_def mf_get_def)
qed

theorem touch_creates_witness:
  "\<exists>st' i. fs_touch ''/'' ''notes'' fs0 = Some st' \<and> memfs_find ''/notes'' st' = Some i"
proof -
  have r: "fs_resolve ''/'' ''notes'' 256 = Some ''/notes''" by code_simp
  have m: "memfs_find ''/notes'' fs0 = None" "fs_find_vnode ''/notes'' fs0 = None" by code_simp+
  show ?thesis
    using touch_creates[OF fs0_ok _ _ _ r m] by (auto simp: abs_path_def fs0_def)
qed

end
