(* ===== verification/Pig_Users.thy ===== *)
theory Pig_Users
  imports Pig_FsCmd
begin

text \<open>
  Users and groups, \<open>kernel/users.h\<close>. The tables are lists of the first \<open>nu\<close> and \<open>ng\<close> entries; a
  group's members are the list of its first \<open>nm\<close> entries. The home directory of a new user is
  created in memory and filled from \<open>/etc/skel\<close>. The keys that \<open>passwd\<close> reads are a parameter, the
  results of its calls of \<open>kb_get\<close>.
\<close>

section \<open>Definitions\<close>

record user =
  u_name :: string
  u_pass :: string
  u_uid :: int
  u_gid :: int
  u_home :: string
  u_active :: bool

record group =
  g_name :: string
  g_gid :: int
  g_mem :: "nat list"

abbreviation (input) MAX_U :: nat where "MAX_U \<equiv> 16"
abbreviation (input) MAX_G :: nat where "MAX_G \<equiv> 16"

record usys = fs +
  users :: "user list"
  groups :: "group list"
  cur_uid :: int
  cur_user :: string

lemma usys_pr [simp]:
  "users (pr f st) = users st" "groups (pr f st) = groups st"
  "cur_uid (pr f st) = cur_uid st" "cur_user (pr f st) = cur_user st"
  by (simp_all add: pr_def)

text \<open>\<open>m->is_dir=1\<close> for an open file.\<close>

definition mf_set_dir :: "nat \<Rightarrow> 'a fs_scheme \<Rightarrow> 'a fs_scheme" where
  "mf_set_dir i st = st\<lparr>memfs := (memfs st)[i := (memfs st ! i)\<lparr>mf_is_dir := True\<rparr>]\<rparr>"

text \<open>\<open>MemFile*m=memfs_create(p); if(m) kcp(m->content,t);\<close>, and the variant that makes a directory.\<close>

definition put_file :: "string \<Rightarrow> string \<Rightarrow> 'a fs_scheme \<Rightarrow> 'a fs_scheme option" where
  "put_file p t st = do {
     (m, st) \<leftarrow> memfs_create p st;
     case m of None \<Rightarrow> Some st | Some i \<Rightarrow> mf_write i t st }"

definition put_dir :: "string \<Rightarrow> 'a fs_scheme \<Rightarrow> 'a fs_scheme option" where
  "put_dir p st = do {
     (m, st) \<leftarrow> memfs_create p st;
     case m of None \<Rightarrow> Some st | Some i \<Rightarrow> mf_write i ''[dir]'' (mf_set_dir i st) }"

definition skel_lashrc :: string where
  "skel_lashrc = ''# .lashrc - larpshell config'' @ nl @ ''alias ll='' @ sq @ ''ls -la'' @ sq @ nl @
     ''alias cls='' @ sq @ ''clear'' @ sq @ nl"

definition skel_profile :: string where
  "skel_profile = ''# .lashrc-profile'' @ nl @ ''[ -f ~/.lashrc ] && . ~/.lashrc'' @ nl"

definition root_tables :: "'a usys_scheme \<Rightarrow> 'a usys_scheme" where
  "root_tables st = st\<lparr>
     users := [\<lparr>u_name = ''root'', u_pass = ''toor'', u_uid = 0, u_gid = 0, u_home = ''/'', u_active = True\<rparr>],
     groups := [\<lparr>g_name = ''root'', g_gid = 0, g_mem = [0]\<rparr>,
                \<lparr>g_name = ''wheel'', g_gid = 1, g_mem = [0]\<rparr>,
                \<lparr>g_name = ''users'', g_gid = 2, g_mem = []\<rparr>]\<rparr>"

definition users_init :: "'a usys_scheme \<Rightarrow> 'a usys_scheme option" where
  "users_init st = do {
     st \<leftarrow> put_dir ''/etc/skel/'' (root_tables st);
     st \<leftarrow> put_file ''/etc/skel/.lashrc'' skel_lashrc st;
     put_file ''/etc/skel/.lashrc-profile'' skel_profile st }"

definition ufind :: "string \<Rightarrow> 'a usys_scheme \<Rightarrow> nat option" where
  "ufind n st = find_idx (\<lambda>u. u_active u \<and> ksc (u_name u) n = 0) (users st)"

definition gfind :: "string \<Rightarrow> 'a usys_scheme \<Rightarrow> nat option" where
  "gfind n st = find_idx (\<lambda>g. ksc (g_name g) n = 0) (groups st)"

definition add_mem :: "nat \<Rightarrow> nat \<Rightarrow> 'a usys_scheme \<Rightarrow> 'a usys_scheme" where
  "add_mem gi u st = st\<lparr>groups := (groups st)[gi := (groups st ! gi)\<lparr>g_mem := g_mem (groups st ! gi) @ [u]\<rparr>]\<rparr>"

text \<open>Copying one file of \<open>/etc/skel\<close> into the home directory, when it is there.\<close>

definition copy_skel :: "string \<Rightarrow> string \<Rightarrow> 'a fs_scheme \<Rightarrow> 'a fs_scheme option" where
  "copy_skel home_path file st =
     (case memfs_find (''/etc/skel/'' @ file) st of
        None \<Rightarrow> Some st
      | Some k \<Rightarrow> do {
          lpath \<leftarrow> fits 128 (home_path @ file);
          put_file lpath (mf_get k st) st })"

text \<open>The entry of a new user, its name, password and home directory copied into their fields.\<close>

definition new_user :: "string \<Rightarrow> nat \<Rightarrow> user option" where
  "new_user n k = do {
     nm \<leftarrow> fits 32 n;
     h \<leftarrow> fits 64 (''/home/'' @ n @ ''/'');
     Some \<lparr>u_name = nm, u_pass = ''changeme'', u_uid = 1000 + int k, u_gid = 2, u_home = h, u_active = True\<rparr> }"

definition adduser_report :: "string \<Rightarrow> string \<Rightarrow> 'a usys_scheme \<Rightarrow> 'a usys_scheme option" where
  "adduser_report n home_path st = do {
     let st = pr (seqs [vps (''adduser: created '' @ sq), vps n, vpln sq, vps ''home: '', vpln home_path,
                        vps ''total memfs entries: '']) st;
     k \<leftarrow> kia (int (length (memfs st)));
     mn \<leftarrow> fits 8 k;
     testpath \<leftarrow> fits 128 (home_path @ ''.lashrc'');
     let st = pr (vpln mn) st;
     let st = (if memfs_find testpath st \<noteq> None then pr (vpln ''.lashrc: OK (copied from /etc/skel/)'') st
               else pr (vpln ''.lashrc: FAILED'') st);
     Some (pr (vps (''files: .lashrc .lashrc-profile copied from /etc/skel/'' @ nl)) st) }"

definition add_user :: "string \<Rightarrow> 'a usys_scheme \<Rightarrow> (user \<times> 'a usys_scheme) option" where
  "add_user n st = do {
     u \<leftarrow> new_user n (length (users st));
     let st = st\<lparr>users := users st @ [u]\<rparr>;
     Some (u, case gfind ''users'' st of
                None \<Rightarrow> st
              | Some gi \<Rightarrow> if length (g_mem (groups st ! gi)) < MAX_U
                           then add_mem gi (length (users st) - 1) st else st) }"

definition make_home :: "string \<Rightarrow> 'a fs_scheme \<Rightarrow> 'a fs_scheme option" where
  "make_home home_path st = do {
     st \<leftarrow> put_dir home_path st;
     st \<leftarrow> copy_skel home_path ''.lashrc'' st;
     copy_skel home_path ''.lashrc-profile'' st }"

definition cmd_adduser :: "string \<Rightarrow> 'a usys_scheme \<Rightarrow> 'a usys_scheme option" where
  "cmd_adduser n st =
     (if n = [] then out (vpln ''usage: adduser <name>'') st
      else if ufind n st \<noteq> None then out (vpln ''adduser: user exists'') st
      else if length (users st) \<ge> MAX_U then out (vpln ''adduser: too many users'') st
      else do {
        (u, st) \<leftarrow> add_user n st;
        home_path \<leftarrow> fits 96 (u_home u);
        st \<leftarrow> make_home home_path st;
        adduser_report n home_path st })"

text \<open>The password loop: the typed keys up to the newline; \<^term>\<open>None\<close> while it still waits.\<close>

fun passwd_loop :: "int list \<Rightarrow> string \<Rightarrow> string option" where
  "passwd_loop [] np = None"
| "passwd_loop (c # cs) np =
     (if c = 10 then Some np
      else if c = 8 \<and> np \<noteq> [] then passwd_loop cs (butlast np)
      else if c \<ge> 32 \<and> c < 127 \<and> length np < 63 then passwd_loop cs (np @ [char_of (nat c)])
      else passwd_loop cs np)"

definition cmd_passwd :: "string \<Rightarrow> int list \<Rightarrow> 'a usys_scheme \<Rightarrow> 'a usys_scheme option" where
  "cmd_passwd n keys st =
     (let u = (if n \<noteq> [] then n else cur_user st) in
      case ufind u st of
        None \<Rightarrow> out (vpln ''passwd: user not found'') st
      | Some i \<Rightarrow> do {
          let st = pr (seqs [vps ''Changing password for '', vpln u, vps ''New password: '', vrst]) st;
          np \<leftarrow> passwd_loop keys [];
          let st = pr (vpc CHR 0x0A) st;
          if length np < 1 then out (vpln ''passwd: password unchanged'') st
          else out (vpln ''passwd: password updated successfully'')
                 (st\<lparr>users := (users st)[i := (users st ! i)\<lparr>u_pass := np\<rparr>]\<rparr>) })"

text \<open>\<open>groups[gidx].mem[groups[gidx].nm++]=ui\<close>: nothing keeps \<open>nm\<close> below the 16 members there is room for.\<close>

definition cmd_usermod :: "string \<Rightarrow> 'a usys_scheme \<Rightarrow> 'a usys_scheme option" where
  "cmd_usermod a st =
     (if a = [] then out (vpln ''usage: usermod -G <group> <user>'') st
      else if cget a 0 = CHR ''-'' \<and> cget a 1 = CHR ''G'' then
        (let (g, p) = take_word 31 (skip_sp (drop 2 a)); p = skip_sp p in
         case ufind p st of
           None \<Rightarrow> out (vpln ''usermod: user not found'') st
         | Some ui \<Rightarrow>
             (case gfind g st of
                None \<Rightarrow> out (vpln ''usermod: group not found'') st
              | Some gi \<Rightarrow>
                  if length (g_mem (groups st ! gi)) < MAX_U then
                    out (seqs [vps (''usermod: added '' @ sq), vps p, vps (sq @ '' to '' @ sq), vps g, vpln sq])
                      (add_mem gi ui st)
                  else None))
      else out (vpln ''usermod: use -G flag'') st)"

definition cmd_groupadd :: "string \<Rightarrow> 'a usys_scheme \<Rightarrow> 'a usys_scheme option" where
  "cmd_groupadd n st =
     (if n = [] then out (vpln ''usage: groupadd <name>'') st
      else if length (groups st) \<ge> MAX_G then out (vpln ''groupadd: too many groups'') st
      else do {
        nm \<leftarrow> fits 32 n;
        out (seqs [vps (''groupadd: created '' @ sq), vps n, vpln sq])
          (st\<lparr>groups := groups st @ [\<lparr>g_name = nm, g_gid = 200 + int (length (groups st)), g_mem = []\<rparr>]\<rparr>) })"

definition cmd_groups :: "string \<Rightarrow> 'a usys_scheme \<Rightarrow> 'a usys_scheme" where
  "cmd_groups n st =
     (let u = (if n \<noteq> [] then n else cur_user st) in
      case ufind u st of
        None \<Rightarrow> pr (vpln ''groups: not found'') st
      | Some ui \<Rightarrow> pr (seqs [vps u, vps '' : '',
          fold (\<lambda>g. if ui \<in> set (g_mem g) then seqs [vps (g_name g), vpc CHR '' ''] else id) (groups st),
          vpc CHR 0x0A]) st)"

definition cmd_id :: "'a usys_scheme \<Rightarrow> 'a usys_scheme option" where
  "cmd_id st = do {
     t \<leftarrow> kia (cur_uid st);
     b \<leftarrow> fits 8 t;
     out (seqs [vset C_LCYAN C_BLACK, vps ''uid='', vps b, vps ''('', vps (cur_user st),
                vps ('') gid=0(root) groups=0(root),1(wheel)'' @ nl), vrst]) st }"

section \<open>Saving files\<close>

text \<open>\<open>reads st p t\<close>: the file \<open>p\<close> is found in memory and holds \<open>t\<close>.\<close>

definition reads :: "'a fs_scheme \<Rightarrow> string \<Rightarrow> string \<Rightarrow> bool" where
  "reads st p t \<longleftrightarrow> (\<exists>i. memfs_find p st = Some i \<and> mf_get i st = t)"

lemma reads_read_file: "reads st p t \<longleftrightarrow> mfs.read_file p st = Some t"
  by (auto simp: reads_def mfs.read_file_def)

definition only_memfs :: "'a fs_scheme \<Rightarrow> 'a fs_scheme \<Rightarrow> bool" where
  "only_memfs st st' \<longleftrightarrow> (\<exists>ms. st' = st\<lparr>memfs := ms\<rparr> \<and> length ms \<le> length (memfs st) + 1)"

lemma memfs_create_only: "memfs_create p st = Some (m, st') \<Longrightarrow> only_memfs st st'"
  by (auto simp: memfs_create_def only_memfs_def fits_eq_Some
      split: option.splits if_splits bind_splits intro: exI[of _ "memfs st"])

lemma mf_write_only: "only_memfs st s1 \<Longrightarrow> mf_write i t s1 = Some s2 \<Longrightarrow> only_memfs st s2"
  by (auto simp: mf_write_def only_memfs_def split: bind_splits)

lemma mf_set_dir_only: "only_memfs st s1 \<Longrightarrow> only_memfs st (mf_set_dir i s1)"
  by (auto simp: mf_set_dir_def only_memfs_def)

lemma put_file_only:
  assumes "put_file p t st = Some st'"
  shows "only_memfs st st'"
proof -
  obtain r s1 where c: "memfs_create p st = Some (r, s1)"
      "(case r of None \<Rightarrow> Some s1 | Some i \<Rightarrow> mf_write i t s1) = Some st'"
    using assms by (auto simp: put_file_def split: bind_splits)
  show ?thesis
    using memfs_create_only[OF c(1)] c(2) mf_write_only[of st s1] by (cases r) auto
qed

lemma put_dir_only:
  assumes "put_dir p st = Some st'"
  shows "only_memfs st st'"
proof -
  obtain r s1 where c: "memfs_create p st = Some (r, s1)"
      "(case r of None \<Rightarrow> Some s1 | Some i \<Rightarrow> mf_write i ''[dir]'' (mf_set_dir i s1)) = Some st'"
    using assms by (auto simp: put_dir_def split: bind_splits)
  note 1 = memfs_create_only[OF c(1)]
  show ?thesis
  proof (cases r)
    case (Some i)
    then show ?thesis using mf_write_only[OF mf_set_dir_only[OF 1]] c(2) by simp
  qed (use 1 c(2) in simp)
qed

lemma copy_skel_only: "copy_skel h f st = Some st' \<Longrightarrow> only_memfs st st'"
proof -
  have "only_memfs st st" by (auto simp: only_memfs_def intro: exI[of _ "memfs st"])
  then show "copy_skel h f st = Some st' \<Longrightarrow> only_memfs st st'"
    by (auto simp: copy_skel_def split: bind_splits option.splits intro: put_file_only)
qed

lemma memfs_create_Some:
  assumes "length (memfs st) < 64" "length p < 128"
  shows "\<exists>i st'. memfs_create p st = Some (Some i, st')"
  using assms by (auto simp: memfs_create_def split: option.splits)

lemma put_file_save:
  assumes "length (memfs st) < 64" "length p < 128"
  shows "put_file p t st = mfs.save p t st"
  using memfs_create_Some[OF assms] by (auto simp: put_file_def mfs.save_def)

lemma put_file_reads:
  assumes "fs_ok st" "cstr p" "cstr t" "p \<notin> set (deleted_paths st)"
    and "length (memfs st) < 64" "length p < 128" "length t < 2048"
  shows "\<exists>st'. put_file p t st = Some st' \<and> fs_ok st' \<and> only_memfs st st' \<and> reads st' p t \<and>
    (\<forall>q c. cstr q \<longrightarrow> q \<noteq> p \<longrightarrow> reads st q c \<longrightarrow> reads st' q c)"
proof -
  obtain i s1 where c: "memfs_create p st = Some (Some i, s1)"
    using memfs_create_Some[OF assms(5,6)] by blast
  obtain s2 where s2: "put_file p t st = Some s2"
    using c assms(7) by (auto simp: put_file_def mf_write_def)
  then have sv: "mfs.save p t st = Some s2"
    using put_file_save[OF assms(5,6)] by simp
  show ?thesis
    using mfs.save_read[OF assms(1-4) sv] s2 put_file_only[OF s2] by (auto simp: reads_read_file)
qed

lemma mf_set_dir_find [simp]:
  "memfs_find q (mf_set_dir i st) = memfs_find q st" "mf_get j (mf_set_dir i st) = mf_get j st"
  "fs_ok st \<Longrightarrow> fs_ok (mf_set_dir i st)"
proof -
  let ?m = "(memfs st ! i)\<lparr>mf_is_dir := True\<rparr>"
  have len: "length (memfs st) \<le> i \<or> i < length (memfs st)" by linarith
  have "find_idx P (xs[k := x]) = find_idx P xs" if "k < length xs \<Longrightarrow> P x = P (xs ! k)"
    for P and xs :: "memfile list" and k x
    using that
  proof (induction xs arbitrary: k)
    case (Cons y ys)
    then show ?case by (cases k) auto
  qed simp
  from this[of i "memfs st" "mf_live q st" ?m]
  show "memfs_find q (mf_set_dir i st) = memfs_find q st"
    by (simp add: memfs_find_def mf_set_dir_def) (simp add: mf_live_def)
  show "mf_get j (mf_set_dir i st) = mf_get j st"
    using len by (cases "j = i") (auto simp: mf_get_def mf_set_dir_def list_update_beyond)
  show "fs_ok (mf_set_dir i st)" if "fs_ok st"
  proof (cases "i < length (memfs st)")
    case True
    then have "memfs st ! i \<in> set (memfs st)" by simp
    then show ?thesis
      using that by (auto simp: fs_ok_def mf_set_dir_def dest!: set_update_subset_insert[THEN subsetD])
  qed (use that in \<open>simp add: fs_ok_def mf_set_dir_def list_update_beyond\<close>)
qed

lemma put_dir_reads:
  assumes "fs_ok st" "cstr p" "p \<notin> set (deleted_paths st)" "length (memfs st) < 64" "length p < 128"
  shows "\<exists>st'. put_dir p st = Some st' \<and> fs_ok st' \<and> only_memfs st st' \<and>
    (\<forall>q c. cstr q \<longrightarrow> q \<noteq> p \<longrightarrow> reads st q c \<longrightarrow> reads st' q c)"
proof -
  obtain i s1 where c: "memfs_create p st = Some (Some i, s1)"
    using memfs_create_Some[OF assms(4,5)] by blast
  note c1 = memfs_create_ok[OF assms(1-3) c]
  obtain s2 where s2: "put_dir p st = Some s2" "mf_write i ''[dir]'' (mf_set_dir i s1) = Some s2"
    using c by (auto simp: put_dir_def mf_write_def)
  have "fs_ok (mf_set_dir i s1)" "memfs_find p (mf_set_dir i s1) = Some i" using c1 by auto
  from mf_write_ok[OF this(1) _ this(2) s2(2)]
  have w: "fs_ok s2" "\<forall>q. memfs_find q s2 = memfs_find q s1"
      "\<forall>j. j \<noteq> i \<longrightarrow> mf_get j s2 = mf_get j s1" by auto
  have "reads s2 q c" if "cstr q" "q \<noteq> p" "reads st q c" for q c
    using that c1 w by (auto simp: reads_def)
  then show ?thesis
    using s2(1) w(1) put_dir_only[OF s2(1)] by blast
qed

lemma mf_write_fs_ok:
  assumes "fs_ok st" "cstr t" "mf_write i t st = Some st'"
  shows "fs_ok st'"
proof -
  have st': "st' = st\<lparr>memfs := (memfs st)[i := (memfs st ! i)\<lparr>mf_content := t\<rparr>]\<rparr>" "length t < 2048"
    using assms(3) by (auto simp: mf_write_def fits_eq_Some split: bind_splits)
  show ?thesis
  proof (cases "i < length (memfs st)")
    case True
    then have "memfs st ! i \<in> set (memfs st)" by simp
    then show ?thesis
      using assms(1,2) st'(2)
      by (auto simp: fs_ok_def st'(1) dest!: set_update_subset_insert[THEN subsetD])
  qed (use assms(1) in \<open>simp add: st'(1) fs_ok_def list_update_beyond\<close>)
qed

lemma put_file_fs_ok:
  assumes "fs_ok st" "cstr p" "cstr t" "put_file p t st = Some st'"
  shows "fs_ok st'"
proof -
  obtain r s1 where c: "memfs_create p st = Some (r, s1)"
      "(case r of None \<Rightarrow> Some s1 | Some i \<Rightarrow> mf_write i t s1) = Some st'"
    using assms(4) by (auto simp: put_file_def split: bind_splits)
  show ?thesis
    using memfs_create_same[OF assms(1,2) c(1)] mf_write_fs_ok[of s1 t] assms(3) c(2)
    by (cases r) auto
qed

lemma put_dir_fs_ok:
  assumes "fs_ok st" "cstr p" "put_dir p st = Some st'"
  shows "fs_ok st'"
proof -
  obtain r s1 where c: "memfs_create p st = Some (r, s1)"
      "(case r of None \<Rightarrow> Some s1 | Some i \<Rightarrow> mf_write i ''[dir]'' (mf_set_dir i s1)) = Some st'"
    using assms(3) by (auto simp: put_dir_def split: bind_splits)
  have 1: "fs_ok s1" using memfs_create_same[OF assms(1,2) c(1)] by simp
  show ?thesis
  proof (cases r)
    case (Some i)
    then show ?thesis
      using mf_write_fs_ok[OF mf_set_dir_find(3)[OF 1, of i], of "''[dir]''" i] c(2) by simp
  qed (use 1 c(2) in simp)
qed

lemma fs_ok_get_cstr: "fs_ok st \<Longrightarrow> memfs_find p st = Some k \<Longrightarrow> cstr (mf_get k st)"
  using find_idx_less[of _ "memfs st" k] by (auto simp: fs_ok_def memfs_find_def mf_get_def)

lemma copy_skel_fs_ok:
  assumes "fs_ok st" "cstr h" "cstr f" "copy_skel h f st = Some st'"
  shows "fs_ok st'"
  using assms put_file_fs_ok[OF assms(1), of "h @ f"] fs_ok_get_cstr[OF assms(1)]
  by (auto simp: copy_skel_def fits_eq_Some split: bind_splits option.splits)

section \<open>The tables\<close>

text \<open>At most 16 users and groups, every string inside its field, user numbers by position (so no
  two users share one), and only existing users in a group.\<close>

definition uid_at :: "nat \<Rightarrow> int" where
  "uid_at i = (if i = 0 then 0 else 1000 + int i)"

definition tables_ok :: "user list \<Rightarrow> group list \<Rightarrow> bool" where
  "tables_ok us gs \<longleftrightarrow> length us \<le> MAX_U \<and> length gs \<le> MAX_G \<and>
     (\<forall>u \<in> set us. cstr (u_name u) \<and> length (u_name u) < 32 \<and> length (u_pass u) < 64 \<and>
        length (u_home u) < 64 \<and> u_active u) \<and> distinct (map u_name us) \<and> us \<noteq> [] \<and>
     (\<forall>i < length us. u_uid (us ! i) = uid_at i) \<and>
     (\<forall>g \<in> set gs. cstr (g_name g) \<and> length (g_name g) < 32 \<and> length (g_mem g) \<le> MAX_U \<and>
        (\<forall>m \<in> set (g_mem g). m < length us))"

definition users_ok :: "'a usys_scheme \<Rightarrow> bool" where
  "users_ok st \<longleftrightarrow> fs_ok st \<and> tables_ok (users st) (groups st)"

lemma fs_ok_tables [simp]:
  "fs_ok (st\<lparr>users := us\<rparr>) = fs_ok st" "fs_ok (st\<lparr>groups := gs\<rparr>) = fs_ok st"
  by (simp_all add: fs_ok_def store_ok_def)

lemma tables_add_user:
  assumes "tables_ok us gs" "length us < 16" "n \<notin> set (map u_name us)" "new_user n (length us) = Some u" "cstr n"
  shows "tables_ok (us @ [u]) gs" "cstr (u_name u)" "cstr (u_home u)" "u_home u = ''/home/'' @ n @ ''/''"
    "u_name u = n" "length n < 32"
proof -
  have u: "u = \<lparr>u_name = n, u_pass = ''changeme'', u_uid = 1000 + int (length us), u_gid = 2,
      u_home = ''/home/'' @ n @ ''/'', u_active = True\<rparr>" "length n < 32" "length (''/home/'' @ n @ ''/'') < 64"
    using assms(4) by (auto simp: new_user_def fits_eq_Some split: bind_splits)
  then show "cstr (u_name u)" "cstr (u_home u)" "u_home u = ''/home/'' @ n @ ''/''" "u_name u = n" "length n < 32"
    using assms(5) by auto
  show "tables_ok (us @ [u]) gs"
    using assms u unfolding tables_ok_def by (fastforce simp: nth_append less_Suc_eq uid_at_def)
qed

lemma ball_set_update: "\<forall>x \<in> set xs. P x \<Longrightarrow> P y \<Longrightarrow> \<forall>x \<in> set (xs[i := y]). P x"
  using set_update_subset_insert[of xs i y] by blast

lemma tables_add_mem:
  assumes "tables_ok us gs" "gi < length gs" "length (g_mem (gs ! gi)) < 16" "m < length us"
  shows "tables_ok us (gs[gi := (gs ! gi)\<lparr>g_mem := g_mem (gs ! gi) @ [m]\<rparr>])"
proof -
  let ?P = "\<lambda>g. cstr (g_name g) \<and> length (g_name g) < 32 \<and> length (g_mem g) \<le> 16 \<and>
    (\<forall>m \<in> set (g_mem g). m < length us)"
  have all: "\<forall>g \<in> set gs. ?P g" using assms(1) by (simp add: tables_ok_def)
  then have "?P (gs ! gi)" using assms(2) nth_mem by blast
  then have "?P ((gs ! gi)\<lparr>g_mem := g_mem (gs ! gi) @ [m]\<rparr>)" using assms(3,4) by auto
  from ball_set_update[OF all this] show ?thesis
    using assms(1) by (simp add: tables_ok_def)
qed

lemma gfind_less: "gfind n st = Some gi \<Longrightarrow> gi < length (groups st)"
  by (simp add: gfind_def find_idx_less)

lemma ufind_less: "ufind n st = Some ui \<Longrightarrow> ui < length (users st)"
  by (simp add: ufind_def find_idx_less)

lemma add_mem_ok:
  assumes "users_ok st" "gi < length (groups st)" "length (g_mem (groups st ! gi)) < 16" "m < length (users st)"
  shows "users_ok (add_mem gi m st)"
  using assms tables_add_mem[OF _ assms(2-4)] by (simp add: users_ok_def add_mem_def)

lemma users_ok_pr [simp]: "users_ok (pr f st) = users_ok st"
  by (simp add: users_ok_def)

lemma cmd_usermod_ok:
  assumes "users_ok st" "cmd_usermod a st = Some st'"
  shows "users_ok st'"
  using assms add_mem_ok[OF assms(1)] gfind_less[of _ st] ufind_less[of _ st]
  by (auto simp: cmd_usermod_def Let_def split: if_splits prod.splits option.splits)

lemma cmd_groupadd_ok:
  assumes "users_ok st" "cstr n" "cmd_groupadd n st = Some st'"
  shows "users_ok st'"
  using assms
  by (auto simp: users_ok_def cmd_groupadd_def tables_ok_def fits_eq_Some split: if_splits bind_splits)

lemma passwd_loop_len: "passwd_loop keys np = Some t \<Longrightarrow> length np \<le> 63 \<Longrightarrow> length t \<le> 63"
  by (induction keys np rule: passwd_loop.induct) (auto split: if_splits)

lemma set_pass_ok:
  assumes "users_ok st" "i < length (users st)" "length t \<le> 63"
  shows "users_ok (st\<lparr>users := (users st)[i := (users st ! i)\<lparr>u_pass := t\<rparr>]\<rparr>)"
proof -
  let ?us = "users st" and ?P = "\<lambda>u. cstr (u_name u) \<and> length (u_name u) < 32 \<and> length (u_pass u) < 64 \<and>
        length (u_home u) < 64 \<and> u_active u"
  have all: "\<forall>u \<in> set ?us. ?P u" using assms(1) by (simp add: users_ok_def tables_ok_def)
  then have "?P (?us ! i)" using assms(2) nth_mem by blast
  then have "?P ((?us ! i)\<lparr>u_pass := t\<rparr>)" using assms(3) by auto
  from ball_set_update[OF all this] show ?thesis
    using assms(1,2) by (auto simp: users_ok_def tables_ok_def nth_list_update map_update distinct_list_update list_update_same_conv)
qed

lemma cmd_passwd_ok:
  assumes "users_ok st" "cmd_passwd n keys st = Some st'"
  shows "users_ok st'"
proof -
  have "users_ok (pr f st)" for f using assms(1) by simp
  from set_pass_ok[OF this] show ?thesis
    using assms ufind_less[of _ st] passwd_loop_len[of keys "[]"]
    by (auto simp: cmd_passwd_def Let_def split: if_splits option.splits bind_splits)
qed

lemma ufind_None_names: "users_ok st \<Longrightarrow> cstr n \<Longrightarrow> ufind n st = None \<Longrightarrow> n \<notin> set (map u_name (users st))"
  by (auto simp: ufind_def find_idx_None users_ok_def tables_ok_def)

lemma add_user_ok:
  assumes "users_ok st" "cstr n" "ufind n st = None" "length (users st) < 16" "add_user n st = Some (u, st')"
  shows "users_ok st'" "users st' = users st @ [u]" "u_home u = ''/home/'' @ n @ ''/''" "length n < 32"
    "u_uid u = uid_at (length (users st))" "u_name u = n" "fs.truncate st' = fs.truncate st"
proof -
  let ?s = "st\<lparr>users := users st @ [u]\<rparr>"
  have u: "new_user n (length (users st)) = Some u" and st': "st' = (case gfind ''users'' ?s of
        None \<Rightarrow> ?s
      | Some gi \<Rightarrow> if length (g_mem (groups ?s ! gi)) < MAX_U then add_mem gi (length (users ?s) - 1) ?s else ?s)"
    using assms(5) by (auto simp: add_user_def Let_def split: bind_splits)
  have t: "tables_ok (users st) (groups st)" and fs: "fs_ok st" using assms(1) by (auto simp: users_ok_def)
  note add = tables_add_user[OF t assms(4) ufind_None_names[OF assms(1-3)] u assms(2)]
  have s: "users_ok ?s" using add(1) fs by (simp add: users_ok_def)
  show "users_ok st'"
    using s add_mem_ok[OF s] gfind_less[of _ ?s] by (auto simp: st' split: option.splits)
  show "users st' = users st @ [u]" "fs.truncate st' = fs.truncate st"
    by (auto simp: st' add_mem_def fs.defs split: option.splits)
  show "u_home u = ''/home/'' @ n @ ''/''" "length n < 32" "u_name u = n" using add by auto
  have "users st \<noteq> []" using t by (simp add: tables_ok_def)
  then show "u_uid u = uid_at (length (users st))"
    using u by (auto simp: new_user_def uid_at_def split: bind_splits)
qed

lemma only_memfs_users:
  assumes "only_memfs st st'"
  shows "users st' = users st" "groups st' = groups st"
  using assms by (auto simp: only_memfs_def)

lemma only_memfs_fs:
  assumes "only_memfs st st'"
  shows "deleted_paths st' = deleted_paths st" "length (memfs st') \<le> length (memfs st) + 1"
  using assms by (auto simp: only_memfs_def)

lemma make_home_ok:
  assumes "users_ok st" "cstr h" "make_home h st = Some st'"
  shows "users_ok st'" "users st' = users st" "groups st' = groups st"
proof -
  obtain s1 s2 where c: "put_dir h st = Some s1" "copy_skel h ''.lashrc'' s1 = Some s2"
      "copy_skel h ''.lashrc-profile'' s2 = Some st'"
    using assms(3) by (auto simp: make_home_def split: bind_splits)
  note o = c(1)[THEN put_dir_only] c(2,3)[THEN copy_skel_only]
  show 1: "users st' = users st" "groups st' = groups st" using o[THEN only_memfs_users(1)] o[THEN only_memfs_users(2)] by auto
  have "fs_ok s1" using put_dir_fs_ok[OF _ assms(2) c(1)] assms(1) by (simp add: users_ok_def)
  from copy_skel_fs_ok[OF copy_skel_fs_ok[OF this assms(2) _ c(2)] assms(2) _ c(3)] have "fs_ok st'" by simp
  then show "users_ok st'" using assms(1) 1 by (simp add: users_ok_def)
qed

lemma adduser_report_pr: "adduser_report n h st = Some st' \<Longrightarrow> \<exists>f. st' = pr f st"
  unfolding adduser_report_def Let_def by (auto split: bind_splits if_splits)

lemma cmd_adduser_ok:
  assumes "users_ok st" "cstr n" "cmd_adduser n st = Some st'"
  shows "users_ok st'"
proof (cases "n = [] \<or> ufind n st \<noteq> None \<or> length (users st) \<ge> 16")
  case True
  then show ?thesis using assms by (auto simp: cmd_adduser_def split: if_splits)
next
  case False
  then obtain u s1 s2 where c: "add_user n st = Some (u, s1)" "make_home (u_home u) s1 = Some s2"
      "adduser_report n (u_home u) s2 = Some st'"
    using assms(3) by (auto simp: cmd_adduser_def fits_eq_Some split: bind_splits if_splits)
  have f: "ufind n st = None" "length (users st) < 16" using False by auto
  note a = add_user_ok[OF assms(1,2) f c(1)]
  from make_home_ok(1)[OF a(1) _ c(2)] have "users_ok s2" using a(3) assms(2) by simp
  then show ?thesis using adduser_report_pr[OF c(3)] by auto
qed

lemma users_init_ok:
  assumes "fs_ok st" "users_init st = Some st'"
  shows "users_ok st'"
proof -
  have s0: "fs_ok (root_tables st)" "tables_ok (users (root_tables st)) (groups (root_tables st))"
    using assms by (auto simp: root_tables_def tables_ok_def uid_at_def)
  obtain s1 s2 where c: "put_dir ''/etc/skel/'' (root_tables st) = Some s1"
      "put_file ''/etc/skel/.lashrc'' skel_lashrc s1 = Some s2"
      "put_file ''/etc/skel/.lashrc-profile'' skel_profile s2 = Some st'"
    using assms by (auto simp: users_init_def split: bind_splits)
  have "fs_ok st'"
    using put_file_fs_ok[OF put_file_fs_ok[OF put_dir_fs_ok[OF s0(1) _ c(1)] _ _ c(2)] _ _ c(3)]
    by (simp add: skel_lashrc_def skel_profile_def)
  then show ?thesis
    using s0(2) c(1)[THEN put_dir_only, THEN only_memfs_users(1)] c(1)[THEN put_dir_only, THEN only_memfs_users(2)]
      c(2,3)[THEN put_file_only, THEN only_memfs_users(1)] c(2,3)[THEN put_file_only, THEN only_memfs_users(2)]
    by (simp add: users_ok_def)
qed

lemma users_init_skel:
  assumes "fs_ok st" "memfs st = []" "deleted_paths st = []"
  shows "\<exists>st'. users_init st = Some st' \<and> reads st' ''/etc/skel/.lashrc'' skel_lashrc \<and>
    length (memfs st') \<le> 3 \<and> deleted_paths st' = [] \<and> map u_name (users st') = [''root'']"
proof -
  let ?s = "root_tables st"
  have s: "fs_ok ?s" "memfs ?s = []" "deleted_paths ?s = []" "map u_name (users ?s) = [''root'']"
    using assms by (auto simp: root_tables_def)
  obtain s1 where 1: "put_dir ''/etc/skel/'' ?s = Some s1" "fs_ok s1" "only_memfs ?s s1"
    using put_dir_reads[OF s(1), of "''/etc/skel/''"] s(2,3) by auto
  note m1 = only_memfs_users[OF 1(3)] only_memfs_fs[OF 1(3)]
  obtain s2 where 2: "put_file ''/etc/skel/.lashrc'' skel_lashrc s1 = Some s2" "fs_ok s2" "only_memfs s1 s2"
      "reads s2 ''/etc/skel/.lashrc'' skel_lashrc"
    using put_file_reads[OF 1(2), of "''/etc/skel/.lashrc''" skel_lashrc] m1 s(2,3)
    by (auto simp: skel_lashrc_def)
  note m2 = only_memfs_users[OF 2(3)] only_memfs_fs[OF 2(3)]
  obtain s3 where 3: "put_file ''/etc/skel/.lashrc-profile'' skel_profile s2 = Some s3" "only_memfs s2 s3"
      "reads s3 ''/etc/skel/.lashrc'' skel_lashrc"
    using put_file_reads[OF 2(2), of "''/etc/skel/.lashrc-profile''" skel_profile] m1 m2 s(2,3) 2(4)
    by (auto simp: skel_profile_def)
  note m3 = only_memfs_users[OF 3(2)] only_memfs_fs[OF 3(2)]
  have "users_init st = Some s3" using 1(1) 2(1) 3(1) by (simp add: users_init_def)
  then show ?thesis using 3(3) m1 m2 m3 s(2-4) by simp
qed

text \<open>One command of the user and group tables, on arguments that are C strings.\<close>

inductive users_step :: "'a usys_scheme \<Rightarrow> 'a usys_scheme \<Rightarrow> bool" where
  adduser: "cstr n \<Longrightarrow> cmd_adduser n st = Some st' \<Longrightarrow> users_step st st'"
| passwd: "cmd_passwd n keys st = Some st' \<Longrightarrow> users_step st st'"
| usermod: "cmd_usermod a st = Some st' \<Longrightarrow> users_step st st'"
| groupadd: "cstr n \<Longrightarrow> cmd_groupadd n st = Some st' \<Longrightarrow> users_step st st'"

inductive_cases users_stepE: "users_step st st'"

lemma users_steps_ok: "users_step\<^sup>*\<^sup>* st st' \<Longrightarrow> users_ok st \<Longrightarrow> users_ok st'"
  by (induction rule: rtranclp_induct)
    (auto elim!: users_stepE intro: cmd_adduser_ok cmd_passwd_ok cmd_usermod_ok cmd_groupadd_ok)

lemma tables_distinct_uids: "tables_ok us gs \<Longrightarrow> distinct (map u_uid us)"
  by (auto simp: tables_ok_def distinct_conv_nth uid_at_def)

lemma copy_skel_reads:
  assumes "fs_ok st" "cstr h" "cstr f" "h @ f \<notin> set (deleted_paths st)" "length (memfs st) < 64"
    "length h < 64" "length f < 32"
  shows "\<exists>st'. copy_skel h f st = Some st' \<and> fs_ok st' \<and> only_memfs st st' \<and>
    (\<forall>t. reads st (''/etc/skel/'' @ f) t \<longrightarrow> reads st' (h @ f) t) \<and>
    (\<forall>q c. cstr q \<longrightarrow> q \<noteq> h @ f \<longrightarrow> reads st q c \<longrightarrow> reads st' q c)"
proof (cases "memfs_find (''/etc/skel/'' @ f) st")
  case None
  then show ?thesis using assms(1) by (auto simp: copy_skel_def reads_def only_memfs_def intro: exI[of _ "memfs st"])
next
  case (Some k)
  have "memfs st ! k \<in> set (memfs st)" using memfs_find_Some(1)[OF assms(1) _ Some] assms(3) by simp
  then have "cstr (mf_get k st)" "length (mf_get k st) < 2048" using assms(1) by (auto simp: fs_ok_def mf_get_def)
  from put_file_reads[OF assms(1) _ this(1) assms(4,5) _ this(2)]
  show ?thesis using assms Some by (auto simp: copy_skel_def reads_def)
qed

lemma make_home_reads:
  assumes "fs_ok st" "cstr h" "length h < 64" "length (memfs st) \<le> 61"
    and "h \<notin> set (deleted_paths st)" "h @ ''.lashrc'' \<notin> set (deleted_paths st)"
    and "h @ ''.lashrc-profile'' \<notin> set (deleted_paths st)"
    and "reads st ''/etc/skel/.lashrc'' t" "h \<noteq> ''/etc/skel/.lashrc''"
  shows "\<exists>st'. make_home h st = Some st' \<and> reads st' (h @ ''.lashrc'') t \<and> length (memfs st') \<le> 64"
proof -
  obtain s1 where 1: "put_dir h st = Some s1" "fs_ok s1" "only_memfs st s1" "reads s1 ''/etc/skel/.lashrc'' t"
    using put_dir_reads[OF assms(1,2,5)] assms(3,4,8,9) by fastforce
  note m1 = only_memfs_fs[OF 1(3)]
  obtain s2 where 2: "copy_skel h ''.lashrc'' s1 = Some s2" "fs_ok s2" "only_memfs s1 s2" "reads s2 (h @ ''.lashrc'') t"
    using copy_skel_reads[OF 1(2) assms(2), of "''.lashrc''"] 1(4) m1 assms(3,4,6) by auto
  note m2 = only_memfs_fs[OF 2(3)]
  obtain s3 where 3: "copy_skel h ''.lashrc-profile'' s2 = Some s3" "only_memfs s2 s3" "reads s3 (h @ ''.lashrc'') t"
    using copy_skel_reads[OF 2(2) assms(2), of "''.lashrc-profile''"] 2(4) m1 m2 assms(2,3,4,7) by auto
  show ?thesis using 1(1) 2(1) 3(1,3) only_memfs_fs(2)[OF 3(2)] m1 m2 assms(4) by (auto simp: make_home_def)
qed

lemma adduser_report_Some:
  assumes "length (memfs st) \<le> 64" "length h < 64"
  shows "\<exists>st'. adduser_report n h st = Some st'"
proof -
  have "length (kia_str (int (length (memfs st)))) \<le> 3"
    using kia_digits_length[of "length (memfs st)" 3] assms(1) by (auto simp: kia_str_def)
  then show ?thesis
    using assms by (simp add: adduser_report_def kia_def Let_def)
qed

lemma add_user_Some:
  "length n < 32 \<Longrightarrow> \<exists>u st'. add_user n st = Some (u, st')"
  by (auto simp: add_user_def new_user_def Let_def)

lemma reads_frame [simp]:
  "reads (pr f st) p t = reads st p t"
  "reads (st\<lparr>users := us\<rparr>) p t = reads st p t" "reads (st\<lparr>groups := gs\<rparr>) p t = reads st p t"
  by (simp_all add: reads_def memfs_find_def mf_get_def mf_live_def[abs_def] fs_is_deleted_def
      del_store_init_def store_cnt_def Let_def)

lemma add_user_frame:
  assumes "add_user n st = Some (u, st')"
  shows "memfs st' = memfs st" "deleted_paths st' = deleted_paths st" "reads st' p t = reads st p t"
  using assms by (auto simp: add_user_def add_mem_def Let_def split: bind_splits option.splits if_splits)

lemma add_user_active: "add_user n st = Some (u, st') \<Longrightarrow> u_active u"
  by (auto simp: add_user_def new_user_def Let_def split: bind_splits)

section \<open>Properties\<close>

text \<open>The user system before \<open>users_init\<close> runs on a first boot.\<close>

definition usys0 :: usys where
  "usys0 = fs.extend fs0 (usys.fields [] [] 0 ''root'')"

lemma usys0_ok: "fs_ok usys0" "memfs usys0 = []" "deleted_paths usys0 = []"
  by (simp_all add: usys0_def fs.defs usys.defs fs0_def fs_ok_def store_ok_def)



text \<open>C26: adding a user under a new name succeeds when three more files fit in memory and none of the
  home directory's names was deleted: the user can then be looked up under the name, with the next
  user number, and the home directory holds a copy of the skeleton's \<open>.lashrc\<close>.\<close>
theorem adduser_home:
  assumes "users_ok st" "cstr n" "n \<noteq> []" "length n < 32" "ufind n st = None" "length (users st) < MAX_U"
    and "length (memfs st) \<le> 61" "h = ''/home/'' @ n @ ''/''"
    and "h \<notin> set (deleted_paths st)" "h @ ''.lashrc'' \<notin> set (deleted_paths st)"
      "h @ ''.lashrc-profile'' \<notin> set (deleted_paths st)"
    and "reads st ''/etc/skel/.lashrc'' t"
  shows "\<exists>st'. cmd_adduser n st = Some st' \<and> ufind n st' = Some (length (users st)) \<and>
    u_uid (users st' ! length (users st)) = 1000 + int (length (users st)) \<and> reads st' (h @ ''.lashrc'') t"
proof -
  obtain u s1 where a: "add_user n st = Some (u, s1)" using add_user_Some[OF assms(4)] by blast
  note ok = add_user_ok[OF assms(1,2,5,6) a]
  note fr = add_user_frame[OF a]
  have h: "cstr h" "length h < 64" "h \<noteq> ''/etc/skel/.lashrc''" "u_home u = h" "fs_ok s1"
    using assms(2,4,8) ok(1,3) by (auto simp: users_ok_def)
  obtain s2 where m: "make_home h s1 = Some s2" "reads s2 (h @ ''.lashrc'') t" "length (memfs s2) \<le> 64"
    using make_home_reads[OF h(5,1,2), of t] h(3) assms(7,9-12) by (auto simp: fr)
  note k = make_home_ok[OF ok(1) h(1) m(1)]
  obtain s3 where r: "adduser_report n h s2 = Some s3" using adduser_report_Some[OF m(3) h(2)] by blast
  then obtain f where f: "s3 = pr f s2" using adduser_report_pr by blast
  have "cmd_adduser n st = Some s3"
    using assms(3,5,6) a h(2,4) m(1) r by (simp add: cmd_adduser_def)
  moreover have "ufind n s3 = Some (length (users st))"
    using assms(2,5) ok(2,6) k(2) add_user_active[OF a]
    by (simp add: f ufind_def find_idx_append)
  moreover have "u_uid (users s3 ! length (users st)) = 1000 + int (length (users st))"
    using ok(2,5) k(2) assms(1) by (auto simp: f nth_append uid_at_def users_ok_def tables_ok_def)
  ultimately show ?thesis using m(2) by (auto simp: f)
qed

theorem adduser_home_witness:
  "\<exists>st0 st'. users_init usys0 = Some st0 \<and> cmd_adduser ''bob'' st0 = Some st' \<and>
     reads st' ''/home/bob/.lashrc'' skel_lashrc"
proof -
  obtain s0 where s0: "users_init usys0 = Some s0" "reads s0 ''/etc/skel/.lashrc'' skel_lashrc"
      "length (memfs s0) \<le> 3" "deleted_paths s0 = []" "map u_name (users s0) = [''root'']"
    using users_init_skel[OF usys0_ok] by (elim exE conjE) (rule that)
  obtain r where r: "users s0 = [r]" "u_name r = ''root''" using s0(5) by (cases "users s0") simp_all
  have n: "ufind ''bob'' s0 = None" "length (users s0) < 16" unfolding ufind_def r(1) by (simp_all add: r(2))
  have l: "length (memfs s0) \<le> 61" using s0(3) by linarith
  have "\<exists>st'. cmd_adduser ''bob'' s0 = Some st' \<and> ufind ''bob'' st' = Some (length (users s0)) \<and>
    u_uid (users st' ! length (users s0)) = 1000 + int (length (users s0)) \<and>
    reads st' (''/home/bob/'' @ ''.lashrc'') skel_lashrc"
    by (rule adduser_home[OF users_init_ok[OF usys0_ok(1) s0(1)] _ _ _ n l]) (simp_all add: s0(4) s0(2))
  then obtain s1 where "cmd_adduser ''bob'' s0 = Some s1" "reads s1 (''/home/bob/'' @ ''.lashrc'') skel_lashrc"
    by blast
  then have "cmd_adduser ''bob'' s0 = Some s1" "reads s1 ''/home/bob/.lashrc'' skel_lashrc" by simp_all
  then show ?thesis using s0(1) by blast
qed

text \<open>\<open>usermod -G\<close> appends to a group without looking at its size: on a group that already has its
  16 members it writes past the end of the member array.\<close>
theorem usermod_overrun:
  assumes "cstr g" "g \<noteq> []" "CHR '' '' \<notin> set g" "length g \<le> 31" "ufind u st = Some ui" "gfind g st = Some gi"
    and "u \<noteq> []" "hd u \<noteq> CHR '' ''" "length (g_mem (groups st ! gi)) = MAX_U"
  shows "cmd_usermod (''-G '' @ g @ '' '' @ u) st = None"
proof -
  have w: "word_of (g @ CHR '' '' # u) = g" using assms(3) by (induction g) auto
  have "skip_sp (g @ CHR '' '' # u) = g @ CHR '' '' # u" using assms(2,3) by (cases g) auto
  moreover have "skip_sp (CHR '' '' # u) = u" using assms(7,8) by (cases u) auto
  ultimately show ?thesis
    using assms(4-6,9) by (simp add: cmd_usermod_def take_word_def w)
qed

theorem usermod_overrun_witness:
  "cmd_usermod ''-G wheel root'' (root_tables usys0\<lparr>groups := [\<lparr>g_name = ''wheel'', g_gid = 1, g_mem = replicate 16 0\<rparr>]\<rparr>)
   = None"
  using usermod_overrun[of "''wheel''" "''root''"
      "root_tables usys0\<lparr>groups := [\<lparr>g_name = ''wheel'', g_gid = 1, g_mem = replicate 16 0\<rparr>]\<rparr>" 0 0]
  by (simp add: ufind_def gfind_def root_tables_def)

end
