(* ===== verification/Pig_Poing.thy ===== *)
theory Pig_Poing
  imports Pig_Users
begin

text \<open>
  The init system \<open>kernel/poing/poing.h\<close>: the table of units and the command \<open>poingctl\<close>. The
  array \<open>pu\<close> and its counter \<open>pnu\<close> are one list. \<open>poingctl\<close> can stop the machine
  (\<open>cli;hlt\<close>) or block on the keyboard, which are results of their own.

  From here on a command that reads the keyboard takes the keys from the field \<open>keys\<close> of the state:
  the values its calls of \<open>kb_get\<close> will return, in order. A command blocks when they run out.
\<close>

unbundle bit_operations_syntax

section \<open>Definitions\<close>

abbreviation (input) POING_MAX :: nat where "POING_MAX \<equiv> 32"

datatype ustate = US_STOPPED | US_STARTING | US_RUNNING | US_FAILED

record punit =
  pu_name :: string
  pu_desc :: string
  pu_state :: ustate
  pu_enabled :: bool
  pu_pid :: int

record tty = usys +
  keys :: "int list"

definition next_key :: "'a tty_scheme \<Rightarrow> (int \<times> 'a tty_scheme) option" where
  "next_key st = (case keys st of [] \<Rightarrow> None | c # cs \<Rightarrow> Some (c, st\<lparr>keys := cs\<rparr>))"

record poing = tty +
  pu :: "punit list"
  prl :: int

definition poing_add :: "string \<Rightarrow> string \<Rightarrow> bool \<Rightarrow> ustate \<Rightarrow> 'a poing_scheme \<Rightarrow> 'a poing_scheme option" where
  "poing_add n d en s st =
     (if length (pu st) \<ge> POING_MAX then Some st
      else do {
        nm \<leftarrow> fits 48 n;
        ds \<leftarrow> fits 64 d;
        Some (st\<lparr>pu := pu st @ [\<lparr>pu_name = nm, pu_desc = ds, pu_state = s, pu_enabled = en,
                                  pu_pid = 100 + int (length (pu st))\<rparr>]\<rparr>) })"

text \<open>The calls of \<open>poing_init\<close>, in order.\<close>

definition poing_units :: "(string \<times> string \<times> bool \<times> ustate) list" where
  "poing_units =
    [(''poing-early.unit'', ''Early kernel setup'', True, US_RUNNING),
     (''poing-udev.unit'', ''Device manager (udev-pig)'', True, US_RUNNING),
     (''poing-vga.unit'', ''VGA console driver'', True, US_RUNNING),
     (''poing-kbd.unit'', ''PS/2 keyboard'', True, US_RUNNING),
     (''poing-mouse.unit'', ''PS/2 mouse'', True, US_RUNNING),
     (''poing-mem.unit'', ''Memory allocator'', True, US_RUNNING),
     (''poing-net.unit'', ''pig-net network manager'', True, US_RUNNING),
     (''poing-fs.unit'', ''pigfs virtual filesystem'', True, US_RUNNING),
     (''poing-crypto.unit'', ''pigssl crypto subsystem'', True, US_RUNNING),
     (''poing-wm.unit'', ''PigWM window manager'', True, US_RUNNING),
     (''poing-shell.unit'', ''larpshell on tty0'', True, US_RUNNING),
     (''poing-log.unit'', ''piglog system logger'', True, US_RUNNING),
     (''poing-cron.unit'', ''pig-cron task scheduler'', True, US_RUNNING),
     (''sshd.unit'', ''SSH daemon'', False, US_STOPPED),
     (''httpd.unit'', ''pig-httpd web server'', False, US_STOPPED),
     (''bluetooth.unit'', ''Bluetooth manager'', False, US_STOPPED)]"

definition poing_init :: "'a poing_scheme \<Rightarrow> 'a poing_scheme option" where
  "poing_init = ofold (\<lambda>(n, d, en, s). poing_add n d en s) poing_units"

definition unit_line :: "punit \<Rightarrow> 'a poing_scheme \<Rightarrow> 'a poing_scheme option" where
  "unit_line u st = do {
     k \<leftarrow> kia (pu_pid u);
     pb \<leftarrow> fits 8 k;
     let st = pr (case pu_state u of
                    US_RUNNING \<Rightarrow> seqs [vset C_LGREEN C_BLACK, vps (''  '' @ [CHR 0x10] @ '' '')]
                  | US_FAILED \<Rightarrow> seqs [vset C_LRED C_BLACK, vps (''  '' @ [CHR 0xFB] @ '' '')]
                  | _ \<Rightarrow> seqs [vset C_DGREY C_BLACK, vps ''  o  '']) st;
     Some (pr (seqs [vset C_WHITE C_BLACK, vps (pu_name u), vps '' (pid='', vps pb, vps '') - '',
                     vpln (pu_desc u)]) st) }"

definition poingctl_status :: "'a poing_scheme \<Rightarrow> 'a poing_scheme option" where
  "poingctl_status st = do {
     let st = pr (seqs [vset C_LCYAN C_BLACK,
                        vpln (''  '' @ [CHR 0x01] @ '' POING - pigOS Init System v1.0''), vrst]) st;
     k \<leftarrow> kia (prl st);
     rb \<leftarrow> fits 4 k;
     let st = pr (seqs [vps ''  Runlevel: '', vpln rb, vpln '''']) st;
     ofold unit_line (pu st) st }"

text \<open>The answer of a command: it returned, it stopped the processor, or it is still waiting for a
  key when the keys end.\<close>

datatype 's ctl = Returned 's | Stopped 's | Waiting

text \<open>The inner chain of \<open>poingctl_do\<close> on the unit that was found.\<close>

definition unit_verb :: "string \<Rightarrow> punit \<Rightarrow> punit" where
  "unit_verb sub u =
     (if sub = ''start'' then u\<lparr>pu_state := US_RUNNING, pu_enabled := True\<rparr>
      else if sub = ''stop'' then u\<lparr>pu_state := US_STOPPED, pu_enabled := False\<rparr>
      else if sub = ''enable'' then u\<lparr>pu_enabled := True\<rparr>
      else if sub = ''disable'' then u\<lparr>pu_enabled := False\<rparr>
      else if sub = ''restart'' then u\<lparr>pu_state := US_STOPPED, pu_state := US_RUNNING\<rparr>
      else u)"

definition verb_msg :: "string \<Rightarrow> string \<Rightarrow> vga \<Rightarrow> vga" where
  "verb_msg sub n =
     (if sub = ''start'' then seqs [vps ''poing: started '', vpln n]
      else if sub = ''stop'' then seqs [vps ''poing: stopped '', vpln n]
      else if sub = ''enable'' then seqs [vps ''poing: enabled '', vpln n]
      else if sub = ''disable'' then seqs [vps ''poing: disabled '', vpln n]
      else if sub = ''restart'' then seqs [vps ''poing: restarted '', vpln n]
      else if sub = ''reload'' then seqs [vps ''poing: reloaded '', vpln n]
      else seqs [vps ''poingctl: unknown: '', vpln sub])"

definition poing_halt :: "vga \<Rightarrow> vga" where
  "poing_halt =
     seqs [vclear, vset C_LRED C_BLACK, vpln ([CHR 0x0A] @ ''  poing: system shutdown''),
           vpln ''  stopping all units...'', vpln ''  it is now safe to power off.'',
           vset C_WHITE C_BLACK, outb 0xF4 0x00]"

definition poingctl_do ::
    "string \<Rightarrow> string \<Rightarrow> 'a poing_scheme \<Rightarrow> 'a poing_scheme ctl option" where
  "poingctl_do sub n st =
     (if sub = ''status'' \<or> sub = ''list'' then map_option Returned (poingctl_status st)
      else if sub = ''reboot'' then
        Some (Returned (pr (seqs [vpln ''poing: rebooting...'', outb 0x64 0xFE]) st))
      else if sub = ''halt'' \<or> sub = ''shutdown'' \<or> sub = ''poweroff'' then
        Some (Stopped (pr poing_halt st))
      else if sub = ''sleep'' then
        (let st = pr (seqs [vset C_LCYAN C_BLACK, vpln ''poing: going to sleep (press any key)'', vrst]) st
         in Some (case next_key st of None \<Rightarrow> Waiting | Some (_, st) \<Rightarrow> Returned st))
      else if n = [] then Some (Returned (pr (vpln ''poingctl: unit name required'') st))
      else (case find_idx (\<lambda>u. pu_name u = n) (pu st) of
          None \<Rightarrow> Some (Returned (pr (seqs [vps ''poingctl: unit not found: '', vpln n]) st))
        | Some i \<Rightarrow>
            Some (Returned (pr (verb_msg sub n) (st\<lparr>pu := (pu st)[i := unit_verb sub (pu st ! i)]\<rparr>)))))"

definition cmd_poingctl ::
    "string \<Rightarrow> 'a poing_scheme \<Rightarrow> 'a poing_scheme ctl option" where
  "cmd_poingctl args st =
     (if args = [] then
        Some (Returned (pr (vpln ''usage: poingctl <status|start|stop|enable|disable|restart|reload|reboot|halt|sleep> [unit]'') st))
      else (let (sub, p) = take_word 31 args in poingctl_do sub (skip_sp p) st))"

section \<open>The table of units\<close>

text \<open>Bounds of the table: the names and descriptions fit their arrays and a unit keeps the process
  number of its slot.\<close>

definition poing_ok :: "'a poing_scheme \<Rightarrow> bool" where
  "poing_ok st \<longleftrightarrow> length (pu st) \<le> POING_MAX \<and> distinct (map pu_name (pu st)) \<and>
     (\<forall>i < length (pu st). length (pu_name (pu st ! i)) < 48 \<and> length (pu_desc (pu st ! i)) < 64 \<and>
        pu_pid (pu st ! i) = 100 + int i)"

lemma poing_pu_pr [simp]: "pu (pr f st) = pu st" "prl (pr f st) = prl st"
  by (simp_all add: pr_def)

lemma unit_verb_keeps [simp]:
  "pu_name (unit_verb sub u) = pu_name u" "pu_desc (unit_verb sub u) = pu_desc u"
  "pu_pid (unit_verb sub u) = pu_pid u"
  by (simp_all add: unit_verb_def)

lemma poing_add_ok [inv_intros]:
  assumes "poing_ok st" "poing_add n d en s st = Some st'"
    and "n \<notin> pu_name ` set (pu st)"
  shows "poing_ok st'"
  using assms
  by (auto simp: poing_ok_def poing_add_def fits_eq_Some nth_append less_Suc_eq
      split: if_splits bind_splits)

lemma poing_verb_ok [inv_intros]:
  assumes "poing_ok st" "i < length (pu st)"
  shows "poing_ok (st\<lparr>pu := (pu st)[i := unit_verb sub (pu st ! i)]\<rparr>)"
proof -
  have "map pu_name ((pu st)[i := unit_verb sub (pu st ! i)]) = map pu_name (pu st)"
    using assms(2) by (simp add: map_update list_update_same_conv)
  then show ?thesis
    using assms by (simp add: poing_ok_def nth_list_update)
qed

lemma kia_small:
  assumes "0 \<le> n" "n < 1000"
  shows "\<exists>k. kia n = Some k \<and> length k \<le> 3"
proof -
  have "length (kia_digits (nat n)) \<le> 3"
    by (rule kia_digits_length) (use assms in simp)
  then show ?thesis
    using assms by (simp add: kia_def kia_str_def)
qed

lemma unit_line_defined:
  assumes "0 \<le> pu_pid u" "pu_pid u < 1000"
  shows "\<exists>f. unit_line u st = Some (pr f st)"
proof -
  obtain k where "kia (pu_pid u) = Some k" "length k \<le> 3"
    using kia_small[OF assms] by blast
  then show ?thesis
    by (simp add: unit_line_def) (blast intro: refl)
qed

lemma units_lines_defined:
  assumes "\<forall>u \<in> set us. 0 \<le> pu_pid u \<and> pu_pid u < 1000"
  shows "\<exists>f. ofold unit_line us st = Some (pr f st)"
  using assms
proof (induction us arbitrary: st)
  case Nil
  show ?case by (auto simp: pr_def intro!: exI[of _ id])
next
  case (Cons u us)
  obtain f where "unit_line u st = Some (pr f st)"
    using unit_line_defined[of u st] Cons.prems by auto
  moreover obtain g where "ofold unit_line us (pr f st) = Some (pr g (pr f st))"
    using Cons.IH[of "pr f st"] Cons.prems by auto
  ultimately show ?case by auto
qed

text \<open>The listing stays inside its two number buffers and only prints.\<close>

lemma poingctl_status_defined:
  assumes "poing_ok st" "0 \<le> prl st" "prl st < 1000"
  shows "\<exists>f. poingctl_status st = Some (pr f st)"
proof -
  obtain k where k: "kia (prl st) = Some k" "length k \<le> 3"
    using kia_small[OF assms(2,3)] by blast
  have "\<forall>u \<in> set (pu st). 0 \<le> pu_pid u \<and> pu_pid u < 1000"
    using assms(1) by (auto simp: poing_ok_def in_set_conv_nth)
  then have l: "\<exists>g. ofold unit_line (pu st) (pr f st) = Some (pr g st)" for f
    using units_lines_defined[of "pu st" "pr f st"] by auto
  show ?thesis
    using k l by (simp add: poingctl_status_def)
qed

text \<open>Two tables that differ in one slot at most.\<close>

definition same_but_one :: "punit list \<Rightarrow> punit list \<Rightarrow> bool" where
  "same_but_one us vs \<longleftrightarrow> vs = us \<or> (\<exists>i < length us. \<exists>sub. vs = us[i := unit_verb sub (us ! i)])"

lemma next_key_pu: "next_key st = Some (c, st') \<Longrightarrow> pu st' = pu st"
  by (auto simp: next_key_def split: list.splits)

lemma poing_ok_pu: "pu st' = pu st \<Longrightarrow> poing_ok st' = poing_ok st"
  by (simp add: poing_ok_def)

text \<open>The answer of a command that has kept the table.\<close>

definition table_kept :: "'a poing_scheme \<Rightarrow> 'a poing_scheme ctl option \<Rightarrow> bool" where
  "table_kept st r \<longleftrightarrow> (case r of
     None \<Rightarrow> False
   | Some (Returned st') \<Rightarrow> poing_ok st' \<and> same_but_one (pu st) (pu st')
   | Some (Stopped st') \<Rightarrow> poing_ok st' \<and> same_but_one (pu st) (pu st')
   | Some Waiting \<Rightarrow> True)"

lemma kept_if:
  "(b \<Longrightarrow> table_kept st x) \<Longrightarrow> (\<not> b \<Longrightarrow> table_kept st y) \<Longrightarrow> table_kept st (if b then x else y)"
  by simp

lemma kept_same:
  "poing_ok st \<Longrightarrow> pu st' = pu st \<Longrightarrow> table_kept st (Some (Returned st'))"
  "poing_ok st \<Longrightarrow> pu st' = pu st \<Longrightarrow> table_kept st (Some (Stopped st'))"
  by (simp_all add: table_kept_def same_but_one_def poing_ok_pu[of st' st])

lemma kept_verb:
  assumes "poing_ok st" "find_idx (\<lambda>u. pu_name u = n) (pu st) = Some i"
  shows "table_kept st (Some (Returned (pr f (st\<lparr>pu := (pu st)[i := unit_verb sub (pu st ! i)]\<rparr>))))"
proof -
  let ?st = "st\<lparr>pu := (pu st)[i := unit_verb sub (pu st ! i)]\<rparr>"
  have i: "i < length (pu st)" by (rule find_idx_less[OF assms(2)])
  have "poing_ok (pr f ?st)"
    using poing_verb_ok[OF assms(1) i, of sub] poing_ok_pu[of "pr f ?st" ?st] by (simp only: poing_pu_pr)
  moreover have "same_but_one (pu st) (pu (pr f ?st))" using i by (auto simp: same_but_one_def)
  ultimately show ?thesis by (simp only: table_kept_def option.case ctl.case)
qed

lemma poingctl_do_table:
  assumes ok: "poing_ok st" "0 \<le> prl st" "prl st < 1000"
  shows "table_kept st (poingctl_do sub n st)"
proof -
  obtain f where f: "poingctl_status st = Some (pr f st)"
    using poingctl_status_defined[OF ok] by blast
  have sl: "table_kept st (Some (case next_key (pr g st) of None \<Rightarrow> Waiting | Some (_, st) \<Rightarrow> Returned st))" for g
    using next_key_pu[of "pr g st"] kept_same(1)[OF ok(1)]
    by (auto simp: next_key_def table_kept_def same_but_one_def poing_ok_def split: list.splits)
  have un: "table_kept st (case find_idx (\<lambda>u. pu_name u = n) (pu st) of
      None \<Rightarrow> Some (Returned (pr g st))
    | Some i \<Rightarrow> Some (Returned (pr h (st\<lparr>pu := (pu st)[i := unit_verb sub (pu st ! i)]\<rparr>))))" for g h
    using kept_verb[OF ok(1)] kept_same(1)[OF ok(1)] by (cases "find_idx (\<lambda>u. pu_name u = n) (pu st)") simp_all
  show ?thesis
    unfolding poingctl_do_def Let_def f option.map
    by (intro kept_if sl un kept_same[OF ok(1)]) (simp_all only: poing_pu_pr)
qed

section \<open>Properties\<close>

text \<open>whatever is typed after \<open>poingctl\<close>, the command stays inside its buffers, and when it comes
  back (or halts the machine) the table of units is still well formed and at most one unit has
  changed, and that one by one of the documented verbs.\<close>
theorem poingctl_keeps_table:
  assumes "poing_ok st" "0 \<le> prl st" "prl st < 1000"
  shows "table_kept st (cmd_poingctl args st)"
  unfolding cmd_poingctl_def Let_def split_beta
  by (intro kept_if poingctl_do_table[OF assms] kept_same(1)[OF assms(1)]) (simp only: poing_pu_pr)

text \<open>The machine as \<open>poing_init\<close> leaves it.\<close>

definition tty0 :: tty where
  "tty0 = usys.extend usys0 (tty.fields [])"

definition poing0 :: poing where
  "poing0 = tty.extend tty0 (poing.fields [] 5)"

definition booted :: poing where
  "booted = the (poing_init poing0)"


lemma booted_pu:
  "map (\<lambda>u. (pu_name u, pu_state u, pu_enabled u)) (pu booted) =
     map (\<lambda>(n, d, en, s). (n, s, en)) poing_units"
  "prl booted = 5" "poing_init poing0 = Some booted"
  by (simp_all add: booted_def poing0_def tty0_def usys.defs tty.defs poing.defs usys0_def fs.defs fs0_def poing_init_def poing_units_def poing_add_def)

lemma booted_ok: "poing_ok booted"
  by (simp add: poing_ok_def booted_def poing0_def tty0_def usys.defs tty.defs poing.defs usys0_def fs.defs fs0_def poing_init_def poing_units_def
      poing_add_def All_less_Suc numeral_eq_Suc)

theorem poingctl_keeps_table_witness:
  "table_kept booted (cmd_poingctl ''stop poing-net.unit'' booted)"
  by (rule poingctl_keeps_table) (simp_all add: booted_ok booted_pu)

text \<open>A verb on a known unit does what its name says to that unit.\<close>

lemma word_of_word: "CHR '' '' \<notin> set w \<Longrightarrow> length w \<le> lim \<Longrightarrow>
    take_word lim (w @ CHR '' '' # n) = (w, CHR '' '' # n)"
  by (auto simp: take_word_def takeWhile_append)

lemma poingctl_verb:
  assumes "sub \<in> {''start'', ''stop'', ''enable'', ''disable'', ''restart'', ''reload''}"
    and "find_idx (\<lambda>u. pu_name u = n) (pu st) = Some i" "n \<noteq> []" "hd n \<noteq> CHR '' ''"
  shows "cmd_poingctl (sub @ '' '' @ n) st =
    Some (Returned (pr (verb_msg sub n) (st\<lparr>pu := (pu st)[i := unit_verb sub (pu st ! i)]\<rparr>)))"
proof -
  have "take_word 31 (sub @ '' '' @ n) = (sub, CHR '' '' # n)"
    using word_of_word[of sub 31 n] assms(1) by auto
  moreover have "skip_sp (CHR '' '' # n) = n"
    using assms(3,4) by (cases n) auto
  moreover have "sub @ '' '' @ n \<noteq> []" by simp
  ultimately have "cmd_poingctl (sub @ '' '' @ n) st = poingctl_do sub n st"
    by (simp add: cmd_poingctl_def)
  also have "\<dots> = Some (Returned (pr (verb_msg sub n) (st\<lparr>pu := (pu st)[i := unit_verb sub (pu st ! i)]\<rparr>)))"
    unfolding poingctl_do_def using assms(1,2,3) by auto
  finally show ?thesis .
qed

lemma poing_stop_start:
  "pu_state (unit_verb ''start'' (unit_verb ''stop'' u)) = US_RUNNING"
  "pu_state (unit_verb ''stop'' u) = US_STOPPED" "\<not> pu_enabled (unit_verb ''stop'' u)"
  "pu_enabled (unit_verb ''restart'' u) = pu_enabled u"
  by (simp_all add: unit_verb_def)

end
