(* ===== verification/Pig_Rpk.thy ===== *)
theory Pig_Rpk
  imports Pig_Poing
begin

text \<open>
  The package manager \<open>shell/rpk.h\<close>: the package database with its installed flags, the list of
  commands that installing a package registers, the command \<open>rpk\<close> and the programs it simulates. The
  array \<open>rpk_installed_cmds\<close> and its counter are one list; the delay loops are left out.
\<close>

unbundle bit_operations_syntax

section \<open>Definitions\<close>

record rpkpkg =
  rp_name :: string
  rp_version :: string
  rp_desc :: string
  rp_installed :: bool
  rp_size_kb :: int

record rpk = poing +
  rpk_db :: "rpkpkg list"
  rpk_installed_cmds :: "string list"

abbreviation (input) RPK_INSTALLED_CMDS :: nat where "RPK_INSTALLED_CMDS \<equiv> 32"

text \<open>The initialiser of the database, without the entry with the empty name that ends it.\<close>

definition rpk_table :: "(string \<times> string \<times> string \<times> int) list" where
  "rpk_table =
    [(''btop'', ''4.0.0'', ''System monitor (TUI)'', 128),
     (''htop'', ''3.3.0'', ''Interactive process viewer'', 64),
     (''pivi'', ''1.0.0'', ''Advanced text editor'', 512),
     (''python3'', ''3.12.0'', ''Python interpreter'', 4096),
     (''pip3'', ''23.3.0'', ''Python package installer'', 64),
     (''neofetch'', ''7.1.0'', ''System info tool'', 32),
     (''curl'', ''8.5.0'', ''Transfer data with URLs'', 256),
     (''wget'', ''1.21.4'', ''Network downloader'', 128),
     (''git'', ''2.44.0'', ''Version control system'', 512),
     (''pnano'', ''1.0.0'', ''Simple text editor'', 64),
     (''bash'', ''5.2.0'', ''Bourne Again Shell'', 256),
     (''gcc'', ''13.2.0'', ''GNU C compiler'', 2048),
     (''nmap'', ''7.94.0'', ''Network scanner'', 256),
     (''tcpdump'', ''4.99.4'', ''Packet analyzer'', 128),
     (''openssl'', ''3.2.1'', ''TLS/SSL toolkit'', 1024),
     (''ssh'', ''9.6.0'', ''Secure shell client/server'', 256),
     (''tmux'', ''3.4.0'', ''Terminal multiplexer'', 128),
     (''zsh'', ''5.9.0'', ''Z shell'', 512),
     (''fish'', ''3.7.0'', ''Friendly interactive shell'', 256),
     (''make'', ''4.4.1'', ''Build tool'', 512),
     (''gdb'', ''14.1.0'', ''GNU debugger'', 1024),
     (''strace'', ''6.6.0'', ''System call tracer'', 256),
     (''lsof'', ''4.98.0'', ''List open files'', 64),
     (''tree'', ''2.1.1'', ''Directory tree viewer'', 16),
     (''jq'', ''1.7.1'', ''JSON processor'', 64),
     (''ripgrep'', ''14.1.0'', ''Fast grep (rg)'', 128),
     (''fd'', ''9.0.0'', ''Fast find'', 64)]"

definition rpk_db0 :: "rpkpkg list" where
  "rpk_db0 = map (\<lambda>(n, v, d, s).
     \<lparr>rp_name = n, rp_version = v, rp_desc = d, rp_installed = False, rp_size_kb = s\<rparr>) rpk_table"

definition rpk_cmd_installed :: "string \<Rightarrow> 'a rpk_scheme \<Rightarrow> bool" where
  "rpk_cmd_installed n st \<longleftrightarrow> n \<in> set (rpk_installed_cmds st)"

definition rpk_find_pkg :: "string \<Rightarrow> 'a rpk_scheme \<Rightarrow> nat option" where
  "rpk_find_pkg n st = find_idx (\<lambda>r. rp_name r = n) (rpk_db st)"

definition rpk_bar :: "vga \<Rightarrow> vga" where
  "rpk_bar v = (vat (CHR 0xDB) (COL C_LGREEN C_BLACK) (vx v) (vy v) v)\<lparr>vx := vx v + 1\<rparr>"

definition rpk_progress :: "string \<Rightarrow> string \<Rightarrow> vga \<Rightarrow> vga" where
  "rpk_progress action pkg =
     seqs ([vset C_LCYAN C_BLACK, vps ''rpk: '', vps action, vps '' '', vset C_YELLOW C_BLACK,
            vps pkg, vrst, vpc CHR 0x0A, vps ''  ['']
           @ replicate 32 rpk_bar @ [vpln ''] done''])"

subsection \<open>Running a package\<close>

text \<open>\<open>do{cc=kb_get();}while(..);\<close>: the keys up to the first one that ends the loop.\<close>

definition wait_key :: "(int \<Rightarrow> bool) \<Rightarrow> 'a tty_scheme \<Rightarrow> 'a tty_scheme option" where
  "wait_key stop st = (case dropWhile (\<lambda>c. \<not> stop c) (keys st) of
     [] \<Rightarrow> None | _ # cs \<Rightarrow> Some (st\<lparr>keys := cs\<rparr>))"

definition after_key ::
    "(int \<Rightarrow> bool) \<Rightarrow> (vga \<Rightarrow> vga) \<Rightarrow> 'a tty_scheme \<Rightarrow> 'a tty_scheme ctl" where
  "after_key stop f st = (case wait_key stop st of None \<Rightarrow> Waiting | Some st \<Rightarrow> Returned (pr f st))"

definition top_screen :: "string \<Rightarrow> string \<Rightarrow> vga \<Rightarrow> vga" where
  "top_screen title pkg =
     seqs [vclear, vfill 0 0 VGA_W 1 CHR '' '' (COL C_BLACK C_LGREEN),
       vstr 0 0 (COL C_BLACK C_LGREEN) title, vset C_WHITE C_BLACK, vpc CHR 0x0A,
       vstr 1 2 (COL C_LCYAN C_BLACK) ''CPU['', vfill 5 2 70 1 CHR 0xDB (COL C_LGREEN C_BLACK),
       vstr 76 2 (COL C_WHITE C_BLACK) ''100%]'', vstr 1 3 (COL C_LCYAN C_BLACK) ''Mem['',
       vfill 5 3 22 1 CHR 0xDB (COL C_GREEN C_BLACK), vfill 27 3 48 1 CHR '' '' (COL C_BLACK C_BLACK),
       vstr 76 3 (COL C_WHITE C_BLACK) '' 32% ]'', vpc CHR 0x0A, vpc CHR 0x0A,
       vset C_LCYAN C_BLACK, vpln ''  PID   USER   PRI  NI  VIRT  RES  CPU%  MEM%  CMD'', vrst,
       vpln ''  100   root    20   0  4096  1024  99.9  32.0  pigKernel'',
       vpln ''    1   root    20   0   512    32   0.0   0.1  poing'',
       vpln ''  200   root    20   0   256    64   0.0   0.5  larpshell'',
       vpc CHR 0x0A, vset C_DGREY C_BLACK, vpln ''[q=quit  arrows=scroll  F10=quit]'', vrst]"

text \<open>The line buffer of the simulated Python: the \<open>pylen\<close> characters typed, and the bytes the array
  still holds behind them. The C string in the array is what stands before the first NUL of both.\<close>

type_synonym pyline = "string \<times> string"

definition py_str :: "pyline \<Rightarrow> string" where
  "py_str b = takeWhile (\<lambda>c. c \<noteq> CHR 0x00) (fst b @ snd b)"

definition py_end :: "pyline \<Rightarrow> pyline" where
  "py_end b = (fst b, CHR 0x00 # tl (snd b))"

definition py_reset :: "pyline \<Rightarrow> pyline" where
  "py_reset b = ([], CHR 0x00 # tl (fst b @ snd b))"

definition py_eval :: "pyline \<Rightarrow> vga \<Rightarrow> vga" where
  "py_eval b =
     (let s = py_str b in
      if take 6 s = ''print('' then
        seqs [vset C_WHITE C_BLACK, fold vpc (takeWhile (\<lambda>c. c \<noteq> CHR '')'') (drop 6 s)), vpc CHR 0x0A]
      else if take 6 s = ''import'' then
        seqs [vps ''[pigOS Python: import simulated] '',
              vpln (takeWhile (\<lambda>c. c \<noteq> CHR 0x00) (drop 7 (fst b @ snd b)))]
      else vpln s)"

fun py_loop :: "int list \<Rightarrow> pyline \<Rightarrow> vga \<Rightarrow> (int list \<times> vga) option" where
  "py_loop [] b v = None"
| "py_loop (c # cs) b v =
     (if c = 27 \<or> (py_str b = ''exit()'' \<and> c = 10) then Some (cs, v)
      else if c = 10 then
        (let b = py_end b; v = vpc CHR 0x0A v
         in if py_str b = ''exit()'' \<or> py_str b = ''quit()'' then Some (cs, v)
            else py_loop cs (py_reset b) (vps ''>>> '' (py_eval b v)))
      else if c = 8 then
        (if fst b \<noteq> [] then py_loop cs (butlast (fst b), last (fst b) # snd b) (vpc CHR 0x08 v)
         else py_loop cs b v)
      else if c \<ge> 32 \<and> c < 127 \<and> length (fst b) < 255 then
        py_loop cs (fst b @ [char_of (nat c)], tl (snd b)) (vpc (char_of (nat c)) v)
      else py_loop cs b v)"

definition py_banner :: "vga \<Rightarrow> vga" where
  "py_banner =
     seqs [vclear, vset C_LGREEN C_BLACK, vpln ''Python 3.12.0 (pigOS build, Jan 1 1970)'',
           vpln ''[GCC 13.2.0] on pigOS'',
           vpln (''Type '' @ [CHR 0x22] @ ''help'' @ [CHR 0x22] @ '', '' @ [CHR 0x22] @ ''copyright'' @ [CHR 0x22] @ '', '' @ [CHR 0x22] @ ''credits'' @ [CHR 0x22] @
                 '' or '' @ [CHR 0x22] @ ''license'' @ [CHR 0x22] @ '' for more information.''),
           vrst, vps ''>>> '']"

definition py_run :: "'a rpk_scheme \<Rightarrow> 'a rpk_scheme ctl" where
  "py_run st =
     (case py_loop (keys st) ([], []) (py_banner (con st)) of
        None \<Rightarrow> Waiting
      | Some (cs, v) \<Rightarrow> Returned (pr (seqs [vclear, vrst]) (st\<lparr>keys := cs, con := v\<rparr>)))"

definition git_text :: "vga \<Rightarrow> vga" where
  "git_text =
     seqs [vclear, vset C_LRED C_BLACK, vpln ''git version 2.44.0 (pigOS build)'', vrst,
           vpln ''usage: git <command> [options]'', vpln ''  init      Create empty repository'',
           vpln ''  status    Show working tree status'', vpln ''  add       Stage files'',
           vpln ''  commit    Record changes'', vpln ''  log       Show commit history'',
           vpln ''[pigOS git: virtual FS, no real storage]'']"

text \<open>The last branch indexes the database with the answer of \<open>rpk_find_pkg\<close> unchecked: a name that is
  not there reads \<open>rpk_db[-1]\<close>.\<close>

definition cmd_rpk_run :: "string \<Rightarrow> 'a rpk_scheme \<Rightarrow> 'a rpk_scheme ctl option" where
  "cmd_rpk_run pkg st =
     (if pkg = ''btop'' \<or> pkg = ''htop'' then do {
        title \<leftarrow> fits 64 ('' '' @ pkg @ '' - pigOS System Monitor'');
        Some (after_key (\<lambda>c. c = 113 \<or> c = 27 \<or> c = KEY_F10) vclear (pr (top_screen title pkg) st)) }
      else if pkg = ''python3'' then Some (py_run st)
      else if pkg = ''pivi'' \<or> pkg = ''pi'' then Some (Returned st)
      else if pkg = ''ssh'' then
        Some (Returned (pr (seqs [vpln ''ssh: pigOS SSH client (simulated)'', vpln ''Usage: ssh [user@]host'',
          vpln ''[no network - add -net nic,model=rtl8139 -net user to QEMU]'']) st))
      else if pkg = ''git'' then Some (Returned (pr git_text st))
      else if pkg = ''make'' then
        Some (Returned (pr (seqs [vpln ''make: running Makefile...'', vpln ''CC=gcc CFLAGS=-m64 -ffreestanding...'',
          vpln ''make: Nothing to be done (no real build system in kernel mode)'']) st))
      else do {
        i \<leftarrow> rpk_find_pkg pkg st;
        Some (after_key (\<lambda>c. c = 113 \<or> c = 27) id
          (pr (seqs [vps pkg, vps '' v'', vps (rp_version (rpk_db st ! i)), vpln '' (pigOS build)'',
            vps ''['', vps pkg, vpln ''] running... (simulated - type q or ESC to exit)'']) st)) })"

subsection \<open>The command rpk\<close>

definition rpk_help :: "vga \<Rightarrow> vga" where
  "rpk_help =
     seqs [vset C_LCYAN C_BLACK, vpln ''rpk - pigOS Package Manager v1.0'', vrst,
           vpln ''Usage: rpk <command> [pkg]'', vpln ''  on <pkg>        - install package'',
           vpln ''  install <pkg>   - install package'', vpln ''  remove <pkg>    - remove package'',
           vpln ''  list            - list installed'', vpln ''  roam pk [q]     - search packages'',
           vpln ''  info <pkg>      - package info'', vpln ''  update          - refresh list'',
           vpln ''  upgrade         - upgrade all'', vpln ''  clean           - clean cache'',
           vpln ''  deps <pkg>      - show deps'']"

definition set_installed :: "nat \<Rightarrow> bool \<Rightarrow> 'a rpk_scheme \<Rightarrow> 'a rpk_scheme" where
  "set_installed i b st = st\<lparr>rpk_db := (rpk_db st)[i := (rpk_db st ! i)\<lparr>rp_installed := b\<rparr>]\<rparr>"

definition register_cmd :: "string \<Rightarrow> 'a rpk_scheme \<Rightarrow> 'a rpk_scheme option" where
  "register_cmd pkg st =
     (if length (rpk_installed_cmds st) < RPK_INSTALLED_CMDS then do {
        q \<leftarrow> fits 32 pkg;
        Some (st\<lparr>rpk_installed_cmds := rpk_installed_cmds st @ [q]\<rparr>) }
      else Some st)"

definition rpk_install :: "string \<Rightarrow> 'a rpk_scheme \<Rightarrow> 'a rpk_scheme option" where
  "rpk_install pkg st =
     (if pkg = [] then out (vpln ''rpk: package name required'') st
      else case rpk_find_pkg pkg st of
        None \<Rightarrow> out (seqs [vset C_LRED C_BLACK, vps (''rpk: package '' @ sq), vps pkg,
                          vpln (sq @ '' not found. Try: rpk roam pk''), vrst]) st
      | Some i \<Rightarrow>
          if rp_installed (rpk_db st ! i) then out (seqs [vps pkg, vpln '' is already installed'']) st
          else do {
            let st = pr (seqs [rpk_progress ''downloading'' pkg, rpk_progress ''installing'' pkg]) st;
            st \<leftarrow> register_cmd pkg (set_installed i True st);
            bp \<leftarrow> fits 64 (''/usr/bin/'' @ pkg);
            st \<leftarrow> put_file bp ''[installed binary]'' st;
            k \<leftarrow> kia (rp_size_kb (rpk_db st ! i));
            sb \<leftarrow> fits 8 k;
            out (seqs [vset C_LGREEN C_BLACK, vps ''rpk: installed '', vps pkg, vps '' ('', vps sb,
                       vpln ''KB)'', vrst]) st })"

text \<open>The loop that takes a name out of the command list: the entries after its first occurrence move
  down by one.\<close>

fun drop_first :: "string \<Rightarrow> string list \<Rightarrow> string list" where
  "drop_first n [] = []"
| "drop_first n (c # cs) = (if c = n then cs else c # drop_first n cs)"

definition rpk_remove :: "string \<Rightarrow> 'a rpk_scheme \<Rightarrow> 'a rpk_scheme option" where
  "rpk_remove pkg st =
     (if pkg = [] then out (vpln ''rpk: package name required'') st
      else case rpk_find_pkg pkg st of
        None \<Rightarrow> out (seqs [vset C_LRED C_BLACK, vps (''rpk: '' @ sq), vps pkg, vpln (sq @ '' not found''), vrst]) st
      | Some i \<Rightarrow>
          if \<not> rp_installed (rpk_db st ! i) then out (seqs [vps pkg, vpln '' is not installed'']) st
          else if pkg = ''larpshell'' \<or> pkg = ''poing'' \<or> pkg = ''rpk'' then
            out (seqs [vset C_LRED C_BLACK, vpln ''rpk: cannot remove essential package'', vrst]) st
          else
            (let st = set_installed i False (pr (rpk_progress ''removing'' pkg) st);
                 st = st\<lparr>rpk_installed_cmds := drop_first pkg (rpk_installed_cmds st)\<rparr>
             in out (seqs [vset C_LGREEN C_BLACK, vps ''rpk: removed '', vpln pkg, vrst]) st))"

definition pkg_line :: "rpkpkg \<Rightarrow> vga \<Rightarrow> vga" where
  "pkg_line r =
     seqs [vps ''  '', vps (rp_name r), vset C_DGREY C_BLACK, vps [CHR 0x09], vps (rp_version r),
           vps [CHR 0x09], vset C_WHITE C_BLACK, vpln (rp_desc r)]"

definition rpk_list :: "'a rpk_scheme \<Rightarrow> 'a rpk_scheme option" where
  "rpk_list st = do {
     let is = filter rp_installed (rpk_db st);
     let st = pr (seqs [vset C_LCYAN C_BLACK, vpln ''Installed packages:'', vrst,
                        fold (\<lambda>r. seqs [vset C_LGREEN C_BLACK, pkg_line r]) is]) st;
     k \<leftarrow> kia (int (length is));
     sb \<leftarrow> fits 8 k;
     out (seqs [vps sb, vpln '' packages installed'']) st }"

definition roam_match :: "string \<Rightarrow> rpkpkg \<Rightarrow> bool" where
  "roam_match q r \<longleftrightarrow> take (length q) (rp_name r) = q \<or> take (length q) (rp_desc r) = q"

definition rpk_roam :: "string \<Rightarrow> 'a rpk_scheme \<Rightarrow> 'a rpk_scheme option" where
  "rpk_roam pkg st =
     (let q = (if cget pkg 0 = CHR ''p'' \<and> cget pkg 1 = CHR ''k'' then skip_sp (drop 2 pkg) else pkg)
      in out (seqs [vset C_LCYAN C_BLACK, vps ''Available packages'',
           if q \<noteq> [] then seqs [vps ('' matching '' @ sq), vps q, vps sq] else id, vpln '':'', vrst,
           fold (\<lambda>r. seqs [vset (if rp_installed r then C_LGREEN else C_WHITE) C_BLACK, pkg_line r])
             (filter (roam_match q) (rpk_db st))]) st)"

definition rpk_info :: "string \<Rightarrow> 'a rpk_scheme \<Rightarrow> 'a rpk_scheme option" where
  "rpk_info pkg st =
     (case rpk_find_pkg pkg st of
        None \<Rightarrow> out (seqs [vps (''rpk: '' @ sq), vps pkg, vpln (sq @ '' not found'')]) st
      | Some i \<Rightarrow> do {
          let r = rpk_db st ! i;
          k \<leftarrow> kia (rp_size_kb r);
          sb \<leftarrow> fits 8 k;
          out (seqs [vset C_LCYAN C_BLACK, vps ''Package: '', vset C_YELLOW C_BLACK, vpln (rp_name r), vrst,
                     vps ''Version:  '', vpln (rp_version r), vps ''Desc:     '', vpln (rp_desc r),
                     vps ''Size:     '', vps sb, vpln ''KB'', vps ''Status:   '',
                     vpln (if rp_installed r then ''installed'' else ''available'')]) st })"

definition cmd_rpk :: "string \<Rightarrow> 'a rpk_scheme \<Rightarrow> 'a rpk_scheme option" where
  "cmd_rpk args st =
     (if args = [] then out rpk_help st
      else (let (sub, p) = take_word 31 args; pkg = skip_sp p in
        if sub = ''install'' \<or> sub = ''on'' then rpk_install pkg st
        else if sub = ''remove'' then rpk_remove pkg st
        else if sub = ''list'' then rpk_list st
        else if sub = ''roam'' then rpk_roam pkg st
        else if sub = ''info'' then rpk_info pkg st
        else if sub = ''update'' then
          out (seqs [vset C_LCYAN C_BLACK, vpln ''rpk: refreshing package database...'', vrst,
                     vpln ''rpk: 32 packages available'']) st
        else if sub = ''upgrade'' then out (vpln ''rpk: checking upgrades... all packages up to date'') st
        else if sub = ''clean'' then out (vpln ''rpk: cache cleaned'') st
        else if sub = ''deps'' then
          out (seqs [vps ''Dependencies for '', vpln (if pkg \<noteq> [] then pkg else ''?''),
                     vpln ''  larpshell >= 2.0  poing >= 1.0'']) st
        else out (seqs [vset C_LRED C_BLACK, vps ''rpk: unknown: '', vpln sub, vrst, vpln ''rpk help'']) st))"

section \<open>The flags and the command list\<close>

definition inst :: "rpkpkg list \<Rightarrow> string \<Rightarrow> bool" where
  "inst db n \<longleftrightarrow> (\<exists>j < length db. rp_name (db ! j) = n \<and> rp_installed (db ! j))"

text \<open>The database is the compiled-in one up to its flags, and the registered commands are, each once,
  the names whose flag is set.\<close>

definition db_static :: "rpkpkg list \<Rightarrow> bool" where
  "db_static db \<longleftrightarrow> map (\<lambda>r. (rp_name r, rp_version r, rp_desc r, rp_size_kb r)) db = rpk_table"

definition rpk_ok :: "'a rpk_scheme \<Rightarrow> bool" where
  "rpk_ok st \<longleftrightarrow> db_static (rpk_db st) \<and> distinct (rpk_installed_cmds st) \<and>
     (\<forall>n. rpk_cmd_installed n st \<longleftrightarrow> inst (rpk_db st) n)"

lemma table_names: "distinct (map fst rpk_table)" "length rpk_table = 27"
  "\<forall>x \<in> set rpk_table. length (fst x) < 9 \<and> 0 \<le> snd (snd (snd x)) \<and> snd (snd (snd x)) < 10000"
  by (simp_all add: rpk_table_def)

lemma db_names:
  assumes "db_static db"
  shows "distinct (map rp_name db)" "length db = 27"
    "i < 27 \<Longrightarrow> length (rp_name (db ! i)) < 9" "i < 27 \<Longrightarrow> 0 \<le> rp_size_kb (db ! i)"
    "i < 27 \<Longrightarrow> rp_size_kb (db ! i) < 10000"
proof -
  let ?f = "\<lambda>r. (rp_name r, rp_version r, rp_desc r, rp_size_kb r)"
  have m: "map ?f db = rpk_table" using assms by (simp add: db_static_def)
  have "map fst rpk_table = map rp_name db" by (simp flip: m)
  then show "distinct (map rp_name db)" using table_names(1) by simp
  show l: "length db = 27" using arg_cong[OF m, of length] table_names(2) by simp
  have "?f (db ! i) \<in> set rpk_table" if "i < 27" for i using that l by (auto simp flip: m)
  then show "i < 27 \<Longrightarrow> length (rp_name (db ! i)) < 9" "i < 27 \<Longrightarrow> 0 \<le> rp_size_kb (db ! i)"
    "i < 27 \<Longrightarrow> rp_size_kb (db ! i) < 10000" using table_names(3) by fastforce+
qed

lemma db_static_flag:
  assumes "db_static db" "i < length db"
  shows "db_static (db[i := (db ! i)\<lparr>rp_installed := b\<rparr>])"
proof -
  let ?f = "\<lambda>r. (rp_name r, rp_version r, rp_desc r, rp_size_kb r)"
  have "map ?f (db[i := (db ! i)\<lparr>rp_installed := b\<rparr>]) = map ?f db"
    using assms(2) by (simp add: map_update list_update_same_conv)
  then show ?thesis using assms(1) unfolding db_static_def by simp
qed

lemma inst_flag:
  assumes "db_static db" "i < length db"
  shows "inst (db[i := (db ! i)\<lparr>rp_installed := b\<rparr>]) n \<longleftrightarrow>
    (if n = rp_name (db ! i) then b else inst db n)"
proof -
  have inj: "j = i" if "j < length db" "rp_name (db ! j) = rp_name (db ! i)" for j
    using db_names(1)[OF assms(1)] that assms(2) by (metis length_map nth_eq_iff_index_eq nth_map)
  show ?thesis
    using assms(2) inj by (auto simp: inst_def nth_list_update split: if_splits)
qed

lemma drop_first_distinct:
  "distinct xs \<Longrightarrow> distinct (drop_first n xs) \<and> set (drop_first n xs) = set xs - {n}"
  by (induction xs) auto

lemma drop_first_append: "n \<notin> set xs \<Longrightarrow> drop_first n (xs @ [n]) = xs"
  by (induction xs) auto

lemma rpk_ok_room:
  assumes "rpk_ok st"
  shows "length (rpk_installed_cmds st) \<le> 27"
proof -
  let ?db = "rpk_db st"
  have "set (rpk_installed_cmds st) \<subseteq> rp_name ` set ?db"
    using assms by (auto simp: rpk_ok_def inst_def rpk_cmd_installed_def)
  then have "card (set (rpk_installed_cmds st)) \<le> card (set (map rp_name ?db))"
    by (intro card_mono) auto
  also have "\<dots> \<le> 27"
    using card_length[of "map rp_name ?db"] db_names(2)[of ?db] assms by (simp add: rpk_ok_def)
  finally show ?thesis
    using assms by (simp add: rpk_ok_def distinct_card)
qed

lemma rpk_pr [simp]:
  "rpk_db (pr f st) = rpk_db st" "rpk_installed_cmds (pr f st) = rpk_installed_cmds st"
  by (simp_all add: pr_def)

lemma rpk_ok_cong:
  "rpk_db st' = rpk_db st \<Longrightarrow> rpk_installed_cmds st' = rpk_installed_cmds st \<Longrightarrow> rpk_ok st' = rpk_ok st"
  by (simp add: rpk_ok_def rpk_cmd_installed_def)

lemma rpk_ok_pr [simp]: "rpk_ok (pr f st) = rpk_ok st"
  by (rule rpk_ok_cong) simp_all

lemma put_file_rpk:
  assumes "length p < 128" "length t < 2048"
  shows "\<exists>st'. put_file p t st = Some st' \<and> rpk_db st' = rpk_db st \<and>
    rpk_installed_cmds st' = rpk_installed_cmds st"
proof -
  have "\<exists>r. memfs_create p st = Some r"
    using assms(1) by (auto simp: memfs_create_def split: option.splits)
  then obtain m s1 where "memfs_create p st = Some (m, s1)" by auto
  then obtain st' where st': "put_file p t st = Some st'"
    using assms(2) by (cases m) (auto simp: put_file_def mf_write_def)
  then show ?thesis
    using put_file_only[OF st'] by (auto simp: only_memfs_def)
qed

lemma find_pkg_Some:
  assumes "rpk_find_pkg n st = Some i"
  shows "i < length (rpk_db st)" "rp_name (rpk_db st ! i) = n"
  using find_idx_less find_idx_sat assms by (fastforce simp: rpk_find_pkg_def)+

lemma kia_small_fits: "0 \<le> n \<Longrightarrow> n < 10000 \<Longrightarrow> \<exists>k. kia n = Some k \<and> fits 8 k = Some k"
  using kia_digits_length[of "nat n" 4] by (fastforce simp: kia_def kia_str_def fits_eq_Some nat_less_iff)

text \<open>What a first installation and a removal do to the tables.\<close>

lemma rpk_install_fresh:
  assumes ok: "rpk_ok st" and i: "rpk_find_pkg p st = Some i" and n: "\<not> rp_installed (rpk_db st ! i)"
    and ne: "p \<noteq> []"
  shows "\<exists>st'. rpk_install p st = Some st' \<and>
    rpk_db st' = (rpk_db st)[i := (rpk_db st ! i)\<lparr>rp_installed := True\<rparr>] \<and>
    rpk_installed_cmds st' = rpk_installed_cmds st @ [p]"
proof -
  note db = db_names[of "rpk_db st"] find_pkg_Some[OF i]
  have l: "i < 27" "length p < 9" "db_static (rpk_db st)"
    using ok db by (auto simp: rpk_ok_def)
  have r: "length (rpk_installed_cmds st) < 32" using rpk_ok_room[OF ok] by simp
  let ?s = "\<lambda>f. (set_installed i True (pr f st))\<lparr>rpk_installed_cmds := rpk_installed_cmds st @ [p]\<rparr>"
  have u: "register_cmd p (set_installed i True (pr f st)) = Some (?s f)" for f
    using r l(2) by (simp add: register_cmd_def set_installed_def)
  have "\<exists>st'. put_file (''/usr/bin/'' @ p) ''[installed binary]'' (?s f) = Some st' \<and>
      rpk_db st' = (rpk_db st)[i := (rpk_db st ! i)\<lparr>rp_installed := True\<rparr>] \<and>
      rpk_installed_cmds st' = rpk_installed_cmds st @ [p]" for f
    using put_file_rpk[of "''/usr/bin/'' @ p" "''[installed binary]''" "?s f"] l(2)
    by (simp add: set_installed_def)
  then obtain f st' where st': "f = seqs [rpk_progress ''downloading'' p, rpk_progress ''installing'' p]"
      "put_file (''/usr/bin/'' @ p) ''[installed binary]'' (?s f) = Some st'"
      "rpk_db st' = (rpk_db st)[i := (rpk_db st ! i)\<lparr>rp_installed := True\<rparr>]"
      "rpk_installed_cmds st' = rpk_installed_cmds st @ [p]" by blast
  obtain k where k: "kia (rp_size_kb (rpk_db st' ! i)) = Some k" "fits 8 k = Some k"
    using kia_small_fits[of "rp_size_kb (rpk_db st ! i)"] db(4,5)[OF l(3,1)] st'(3) l db(2) by auto
  show ?thesis
    unfolding rpk_install_def i using ne n u[of f] st' k l(2) by (simp add: Let_def)
qed

lemma rpk_remove_installed:
  assumes i: "rpk_find_pkg p st = Some i" and n: "rp_installed (rpk_db st ! i)"
    and ne: "p \<notin> {[], ''larpshell'', ''poing'', ''rpk''}"
  shows "\<exists>st'. rpk_remove p st = Some st' \<and>
    rpk_db st' = (rpk_db st)[i := (rpk_db st ! i)\<lparr>rp_installed := False\<rparr>] \<and>
    rpk_installed_cmds st' = drop_first p (rpk_installed_cmds st)"
  unfolding rpk_remove_def i using ne n by (simp add: Let_def set_installed_def)

lemma rpk_install_ok:
  assumes ok: "rpk_ok st"
  shows "\<exists>st'. rpk_install p st = Some st' \<and> rpk_ok st'"
proof (cases "\<exists>i. rpk_find_pkg p st = Some i \<and> \<not> rp_installed (rpk_db st ! i) \<and> p \<noteq> []")
  case True
  then obtain i where i: "rpk_find_pkg p st = Some i" "\<not> rp_installed (rpk_db st ! i)" "p \<noteq> []" by blast
  obtain st' where st': "rpk_install p st = Some st'"
      "rpk_db st' = (rpk_db st)[i := (rpk_db st ! i)\<lparr>rp_installed := True\<rparr>]"
      "rpk_installed_cmds st' = rpk_installed_cmds st @ [p]"
    using rpk_install_fresh[OF ok i] by blast
  note f = find_pkg_Some[OF i(1)]
  have "(rpk_db st ! i)\<lparr>rp_installed := False\<rparr> = rpk_db st ! i"
    using i(2) by (cases "rpk_db st ! i") simp
  then have "\<not> inst (rpk_db st) p"
    using inst_flag[of "rpk_db st" i "False" p] ok f by (simp add: rpk_ok_def)
  then show ?thesis
    using st' ok f inst_flag[of "rpk_db st" i True] db_static_flag[of "rpk_db st" i True]
    by (auto simp: rpk_ok_def rpk_cmd_installed_def)
next
  case False
  then show ?thesis using ok by (auto simp: rpk_install_def split: option.splits)
qed

lemma rpk_remove_ok:
  assumes ok: "rpk_ok st"
  shows "\<exists>st'. rpk_remove p st = Some st' \<and> rpk_ok st'"
proof (cases "\<exists>i. rpk_find_pkg p st = Some i \<and> rp_installed (rpk_db st ! i) \<and>
    p \<notin> {[], ''larpshell'', ''poing'', ''rpk''}")
  case True
  then obtain i where i: "rpk_find_pkg p st = Some i" "rp_installed (rpk_db st ! i)"
    "p \<notin> {[], ''larpshell'', ''poing'', ''rpk''}" by blast
  obtain st' where st': "rpk_remove p st = Some st'"
      "rpk_db st' = (rpk_db st)[i := (rpk_db st ! i)\<lparr>rp_installed := False\<rparr>]"
      "rpk_installed_cmds st' = drop_first p (rpk_installed_cmds st)"
    using rpk_remove_installed[OF i] by blast
  note f = find_pkg_Some[OF i(1)]
  show ?thesis
    using st' ok f inst_flag[of "rpk_db st" i False] db_static_flag[of "rpk_db st" i False]
      drop_first_distinct[of "rpk_installed_cmds st" p]
    by (auto simp: rpk_ok_def rpk_cmd_installed_def)
next
  case False
  then show ?thesis using ok by (auto simp: rpk_remove_def split: option.splits)
qed

lemma rpk_list_ok:
  assumes "rpk_ok st"
  shows "\<exists>st'. rpk_list st = Some st' \<and> rpk_ok st'"
proof -
  let ?n = "length (filter rp_installed (rpk_db st))"
  have "?n \<le> 27"
    using db_names(2)[of "rpk_db st"] assms length_filter_le[of rp_installed "rpk_db st"] by (simp add: rpk_ok_def)
  then obtain k where "kia (int ?n) = Some k" "fits 8 k = Some k"
    using kia_small_fits[of "int ?n"] by auto
  then show ?thesis using assms by (simp add: rpk_list_def Let_def)
qed

lemma rpk_info_ok:
  assumes "rpk_ok st"
  shows "\<exists>st'. rpk_info p st = Some st' \<and> rpk_ok st'"
proof (cases "rpk_find_pkg p st")
  case (Some i)
  then have "i < 27" "db_static (rpk_db st)"
    using find_pkg_Some(1)[OF Some] assms db_names(2) by (auto simp: rpk_ok_def)
  then obtain k where "kia (rp_size_kb (rpk_db st ! i)) = Some k" "fits 8 k = Some k"
    using kia_small_fits db_names(4,5) by blast
  then show ?thesis using Some assms by (simp add: rpk_info_def Let_def)
qed (use assms in \<open>simp add: rpk_info_def\<close>)

section \<open>Properties\<close>

text \<open>whatever follows \<open>rpk\<close>, the command stays inside its buffers and afterwards the commands the
  shell can run are, each once, exactly the packages marked as installed.\<close>
theorem rpk_commands_match_flags:
  assumes "rpk_ok st"
  shows "\<exists>st'. cmd_rpk args st = Some st' \<and> rpk_ok st'"
proof -
  obtain sub p where tw: "take_word 31 args = (sub, p)" by fastforce
  note ops = rpk_install_ok[OF assms, of "skip_sp p"] rpk_remove_ok[OF assms, of "skip_sp p"]
    rpk_list_ok[OF assms] rpk_info_ok[OF assms, of "skip_sp p"]
  show ?thesis
    using assms ops by (simp add: cmd_rpk_def tw rpk_roam_def Let_def)
qed

definition rpk0 :: rpk where
  "rpk0 = poing.extend poing0 (rpk.fields rpk_db0 [])"

lemma rpk0_ok: "rpk_ok rpk0"
proof -
  have "db_static rpk_db0" "\<not> inst rpk_db0 n" for n
    by (simp_all add: db_static_def inst_def rpk_db0_def comp_def split_beta)
  then show ?thesis
    by (simp add: rpk_ok_def rpk0_def poing.defs rpk.defs rpk_cmd_installed_def)
qed

theorem rpk_commands_match_flags_witness:
  "\<exists>st'. cmd_rpk ''on git'' rpk0 = Some st' \<and> rpk_ok st'"
  using rpk_commands_match_flags[OF rpk0_ok] .

text \<open>installing a package makes its name a command, and removing it again restores the database
  and the list of commands.\<close>
theorem rpk_install_remove:
  assumes "rpk_ok st" "rpk_find_pkg p st = Some i" "\<not> rp_installed (rpk_db st ! i)"
    and "p \<notin> {[], ''larpshell'', ''poing'', ''rpk''}"
  shows "\<exists>s1 s2. rpk_install p st = Some s1 \<and> rpk_cmd_installed p s1 \<and> rpk_remove p s1 = Some s2 \<and>
    \<not> rpk_cmd_installed p s2 \<and> rpk_db s2 = rpk_db st \<and> rpk_installed_cmds s2 = rpk_installed_cmds st"
proof -
  obtain s1 where s1: "rpk_install p st = Some s1" "rpk_ok s1"
      "rpk_db s1 = (rpk_db st)[i := (rpk_db st ! i)\<lparr>rp_installed := True\<rparr>]"
      "rpk_installed_cmds s1 = rpk_installed_cmds st @ [p]"
    using rpk_install_fresh[OF assms(1-3)] rpk_install_ok[OF assms(1)] assms(4) by fastforce
  note f = find_pkg_Some[OF assms(2)]
  have "p \<notin> set (rpk_installed_cmds st)" using s1(2,4) by (simp add: rpk_ok_def)
  then have d: "drop_first p (rpk_installed_cmds s1) = rpk_installed_cmds st"
      "\<not> rpk_cmd_installed p st" using s1(4) by (simp_all add: drop_first_append rpk_cmd_installed_def)
  have "rpk_find_pkg p s1 = Some i"
    using assms(2) f by (simp add: rpk_find_pkg_def s1(3) find_idx_update)
  then obtain s2 where s2: "rpk_remove p s1 = Some s2" "rpk_installed_cmds s2 = rpk_installed_cmds st"
      "rpk_db s2 = (rpk_db s1)[i := (rpk_db s1 ! i)\<lparr>rp_installed := False\<rparr>]"
    using rpk_remove_installed[of p s1 i] assms(4) s1(3) f d(1) by auto
  have "(rpk_db st ! i)\<lparr>rp_installed := False\<rparr> = rpk_db st ! i"
    using assms(3) by (cases "rpk_db st ! i") simp
  then have "rpk_db s2 = rpk_db st" using s2(3) s1(3) f(1) by simp
  then show ?thesis using s1 s2 d by (auto simp: rpk_cmd_installed_def)
qed

lemma rpk0_git: "rpk_find_pkg ''git'' rpk0 = Some 8" "\<not> rp_installed (rpk_db rpk0 ! 8)"
  by (simp_all add: rpk_find_pkg_def rpk0_def poing.defs rpk.defs rpk_db0_def rpk_table_def)

theorem rpk_install_remove_witness:
  "\<exists>s1 s2. rpk_install ''git'' rpk0 = Some s1 \<and> rpk_cmd_installed ''git'' s1 \<and>
    rpk_remove ''git'' s1 = Some s2 \<and> \<not> rpk_cmd_installed ''git'' s2"
  using rpk_install_remove[OF rpk0_ok rpk0_git] by auto

text \<open>The loop of the simulated Python ends on a line that was not typed: after \<open>axit()\<close> the bytes
  \<open>xit()\<close> stay in the buffer, and \<open>e\<close> with the return key is read as \<open>exit()\<close>.\<close>

lemma py_stale_exit:
  "\<exists>v'. py_loop (map of_char ''axit()'' @ [10] @ map of_char ''e'' @ [10]) ([], []) v = Some ([], v')"
  by (simp add: py_str_def py_end_def py_reset_def py_eval_def Let_def char_of_def bit_0)

text \<open>Running a name that is not in the database reads before its first entry.\<close>

lemma rpk_run_unknown:
  assumes "rpk_find_pkg p st = None"
    and "p \<notin> {''btop'', ''htop'', ''python3'', ''pivi'', ''pi'', ''ssh'', ''git'', ''make''}"
  shows "cmd_rpk_run p st = None"
  using assms by (simp add: cmd_rpk_run_def)

text \<open>For the commands the shell lets through, a registered one, that does not happen.\<close>

lemma rpk_run_registered:
  assumes "rpk_ok st" "rpk_cmd_installed p st"
  shows "\<exists>r. cmd_rpk_run p st = Some r"
proof -
  have "inst (rpk_db st) p" using assms by (simp add: rpk_ok_def)
  then have "rpk_find_pkg p st \<noteq> None"
    by (auto simp: inst_def rpk_find_pkg_def find_idx_None)
  then show ?thesis
    by (auto simp: cmd_rpk_run_def)
qed

end
