(* ===== verification/Pig_Polctl.thy ===== *)
theory Pig_Polctl
  imports Pig_Rpk Pig_Ring
begin

text \<open>
  The log viewer \<open>shell/polctl.h\<close>: a table of fixed log entries, the option parser of \<open>polctl\<close> and the
  selection of the entries it prints. The array \<open>pollog\<close> and its counter are one list. The decimal reader
  \<open>read_dec\<close> is the loop \<open>while(*p>='0'&&*p<='9')n=n*10+(*p++-'0')\<close> that several commands share; it has no
  result when the number leaves the range of \<open>int\<close>.
\<close>

section \<open>Definitions\<close>

subsection \<open>Decimal numbers\<close>

definition is_digit :: "char \<Rightarrow> bool" where
  "is_digit c \<longleftrightarrow> 48 \<le> (of_char c :: nat) \<and> (of_char c :: nat) \<le> 57"

definition dec_value :: "string \<Rightarrow> int \<Rightarrow> int option" where
  "dec_value = ofold (\<lambda>c n. chk32 (n * 10 + (of_char c - 48)))"

definition read_dec :: "string \<Rightarrow> (int \<times> string) option" where
  "read_dec p = do { n \<leftarrow> dec_value (takeWhile is_digit p) 0; Some (n, dropWhile is_digit p) }"

text \<open>The value of a \<open>char\<close>, which is signed.\<close>

definition schar :: "char \<Rightarrow> int" where
  "schar c = (if (of_char c :: int) < 128 then of_char c else of_char c - 256)"

subsection \<open>The table\<close>

record plog =
  pl_pri :: int
  pl_unit :: string
  pl_msg :: string

record pol = rpk +
  pollog :: "plog list"

abbreviation (input) POLLOG_MAX :: nat where "POLLOG_MAX \<equiv> 128"

definition pol_add :: "int \<Rightarrow> string \<Rightarrow> string \<Rightarrow> plog list \<Rightarrow> plog list" where
  "pol_add pri u m ls =
     (if length ls \<ge> POLLOG_MAX then ls else ls @ [\<lparr>pl_pri = pri, pl_unit = u, pl_msg = m\<rparr>])"

definition pollog_init :: "plog list \<Rightarrow> plog list" where
  "pollog_init = fold (\<lambda>(pri, u, m). pol_add pri u m)
    [(6, ''poing-early.unit'', ''[  0.000] poing: kernel environment setup complete''),
     (6, ''poing-udev.unit'', ''[  0.001] udev-pig: device manager started''),
     (6, ''poing-vga.unit'', ''[  0.002] vga: 80x25 CP437 text mode @ 0xB8000''),
     (6, ''poing-kbd.unit'', ''[  0.003] kbd: PS/2 keyboard initialized''),
     (6, ''poing-mouse.unit'', ''[  0.004] mouse: PS/2 mouse driver loaded''),
     (6, ''poing-mem.unit'', ''[  0.005] mem: 4MB heap @ 0x400000''),
     (6, ''poing-net.unit'', ''[  0.006] net: scanning PCI bus...''),
     (6, ''poing-net.unit'', ''[  0.007] net: RTL8139 found at 00:03.0 [10EC:8139]''),
     (4, ''poing-net.unit'', ''[  0.008] net: RTL8139 no carrier (no cable/bridge)''),
     (6, ''poing-fs.unit'', ''[  0.009] pigfs: mounted at /''),
     (6, ''poing-crypto.unit'', ''[  0.010] pigssl: crypto subsystem ready''),
     (6, ''poing-wm.unit'', ''[  0.011] PigWM: compositor initialized''),
     (6, ''poing-shell.unit'', ''[  0.012] larpshell v5.9.3: tty0 ready''),
     (6, ''poing-log.unit'', ''[  0.013] piglog: system logger started''),
     (6, ''poing-cron.unit'', ''[  0.014] pig-cron: task scheduler ready''),
     (4, ''sshd.unit'', ''[  0.015] sshd: disabled (no network stack)''),
     (4, ''httpd.unit'', ''[  0.016] httpd: disabled (no TCP/IP)''),
     (6, ''kernel'', ''[  0.017] pigOS v1.0 boot complete'')]"

definition pol_pri_color :: "int \<Rightarrow> u8" where
  "pol_pri_color pri =
     (if pri \<le> 3 then COL C_LRED C_BLACK else if pri = 4 then COL C_YELLOW C_BLACK
      else if pri = 6 then COL C_LGREEN C_BLACK else COL C_LGREY C_BLACK)"

definition pol_pri_name :: "int \<Rightarrow> string" where
  "pol_pri_name pri =
     (if pri = 0 then ''EMERG'' else if pri = 1 then ''ALERT'' else if pri = 2 then ''CRIT ''
      else if pri = 3 then ''ERROR'' else if pri = 4 then ''WARN '' else if pri = 5 then ''NOTICE''
      else if pri = 6 then ''INFO '' else ''DEBUG'')"

definition put_at_cursor :: "char \<Rightarrow> u8 \<Rightarrow> vga \<Rightarrow> vga" where
  "put_at_cursor ch col v = (vat ch col (vx v) (vy v) v)\<lparr>vx := vx v + 1\<rparr>"

definition polctl_print_entry :: "plog \<Rightarrow> vga \<Rightarrow> vga" where
  "polctl_print_entry l =
     (let c = pol_pri_color (pl_pri l) in
      seqs [vset C_DGREY C_BLACK, vps ''-- polOS log -- '', put_at_cursor CHR ''['' c,
        vset C_WHITE C_BLACK, vps (pol_pri_name (pl_pri l)), put_at_cursor CHR '']'' c, vpc CHR '' '',
        vset C_LCYAN C_BLACK, vps (pl_unit l), vpc CHR '' '', vset C_WHITE C_BLACK, vpln (pl_msg l)])"

subsection \<open>The options\<close>

record polopts =
  filter_pri :: int
  po_last :: int
  filter_unit :: "string option"
  follow :: bool
  list_boots :: bool

datatype polparse = PHelp | POpts polopts

lemma read_dec_len: "read_dec p = Some (n, q) \<Longrightarrow> length q \<le> length p"
  by (auto simp: read_dec_def length_dropWhile_le split: bind_splits)

lemma past_option:
  assumes "skip_sp s \<noteq> []" "length q \<le> length (skip_sp s) - Suc k"
  shows "length q < length s"
proof -
  have "0 < length (skip_sp s)" using assms(1) by (simp only: length_greater_0_conv not_False_eq_True)
  moreover have "length (skip_sp s) \<le> length s" by (rule length_dropWhile_le)
  ultimately show ?thesis using assms(2) by linarith
qed

lemma word_shrinks: "length (after_word p) \<le> length p" "length (after_word (skip_sp p)) \<le> length p"
  by (auto intro: order_trans[OF length_dropWhile_le] length_dropWhile_le)

lemma number_shrinks: "read_dec (skip_sp p) = Some (n, q) \<Longrightarrow> length q \<le> length p"
  using read_dec_len[of "skip_sp p" n q] order_trans[OF _ length_dropWhile_le] by blast

function pol_parse :: "string \<Rightarrow> polopts \<Rightarrow> polparse option" where
  "pol_parse s o' =
     (let p = skip_sp s in
      if p = [] then Some (POpts o')
      else if hd p = CHR ''-'' then
        (if cget p 1 = CHR ''-'' then
           (if take 5 (drop 2 p) = ''since'' then pol_parse (after_word (drop 7 p)) o'
            else if take 10 (drop 2 p) = ''list-boots'' then pol_parse (drop 12 p) (o'\<lparr>list_boots := True\<rparr>)
            else if take 4 (drop 2 p) = ''help'' then Some PHelp
            else pol_parse (drop 2 p) o')
         else if cget p 1 = CHR ''f'' then pol_parse (drop 2 p) (o'\<lparr>follow := True\<rparr>)
         else if cget p 1 = CHR ''n'' then
           (case read_dec (skip_sp (drop 2 p)) of
              None \<Rightarrow> None
            | Some (n, q) \<Rightarrow> pol_parse q (o'\<lparr>po_last := n\<rparr>))
         else if cget p 1 = CHR ''p'' then
           (let q = skip_sp (drop 2 p)
            in pol_parse (after_word q) (o'\<lparr>filter_pri := schar (cget q 0) - 48\<rparr>))
         else if cget p 1 = CHR ''u'' then
           (let q = skip_sp (drop 2 p) in pol_parse (after_word q) (o'\<lparr>filter_unit := Some q\<rparr>))
         else pol_parse (after_word (drop 1 p)) o')
      else Some (POpts o'))"
  by pat_completeness auto
termination
proof (relation "measure (\<lambda>(s, o'). length s)", goal_cases)
  case (2 s o' p)
  then show ?case using past_option[of s _ 6] word_shrinks(1)[of "drop 7 p"] by simp
next
  case (3 s o' p)
  then show ?case using past_option[of s "drop 12 p" 11] by simp
next
  case (4 s o' p)
  then show ?case using past_option[of s "drop 2 p" 1] by simp
next
  case (5 s o' p)
  then show ?case using past_option[of s "drop 2 p" 1] by simp
next
  case (6 s o' p a n q)
  then show ?case using past_option[of s q 1] number_shrinks[of "drop 2 p" n q] by simp
next
  case (7 s o' p q)
  then show ?case using past_option[of s "after_word q" 1] word_shrinks(2)[of "drop 2 p"] by simp
next
  case (8 s o' p q)
  then show ?case using past_option[of s "after_word q" 1] word_shrinks(2)[of "drop 2 p"] by simp
next
  case (9 s o' p)
  then show ?case using past_option[of s _ 0] word_shrinks(1)[of "drop 1 p"] by simp
qed simp

declare pol_parse.simps [simp del]

definition pol_shown :: "polopts \<Rightarrow> plog list \<Rightarrow> plog list" where
  "pol_shown o' ls =
     (let start = (if po_last o' > 0 \<and> po_last o' < int (length ls) then length ls - nat (po_last o') else 0)
      in filter (\<lambda>l. (filter_pri o' \<ge> 0 \<longrightarrow> pl_pri l = filter_pri o') \<and>
                     (case filter_unit o' of None \<Rightarrow> True | Some u \<Rightarrow> take (length u) (pl_unit l) = u))
           (drop start ls))"

definition pol_help :: "vga \<Rightarrow> vga" where
  "pol_help =
     seqs [vset C_LCYAN C_BLACK, vpln ''polctl - pigOS system log viewer'', vrst,
       vpln ''Usage: polctl [OPTIONS]'', vpln ''  (no flags)     - show all log entries'',
       vpln ''  -f             - follow log (press q to stop)'', vpln ''  -n <N>         - show last N entries'',
       vpln ''  -p <0-7>       - filter by priority (3=error 4=warn 6=info)'',
       vpln ''  -u <unit>      - filter by unit name'', vpln ''  --since <time> - show entries since time'',
       vpln ''  --list-boots   - list boot sessions'', vpln ''  --help         - show this help'',
       vpln ''Priority: 0=emerg 1=alert 2=crit 3=error 4=warn 5=notice 6=info 7=debug'']"

definition polctl_opts :: "polopts \<Rightarrow> 'a pol_scheme \<Rightarrow> 'a pol_scheme ctl" where
  "polctl_opts o' st =
     (if list_boots o' then
        Returned (pr (seqs [vset C_LCYAN C_BLACK, vpln ''IDX BOOT_ID              FIRST ENTRY          LAST ENTRY'',
          vrst, vpln '' -1 [current boot]       1970-01-01 00:00     1970-01-01 00:00'']) st)
      else
        (let st = pr (seqs [vset C_DGREY C_BLACK, vpln ''-- polOS System Log (polctl) -- pigOS poing init system --'',
                      vrst, fold polctl_print_entry (pol_shown o' (pollog st))]) st
         in if follow o' then
              after_key (\<lambda>c. c = 113 \<or> c = 27) id
                (pr (seqs [vset C_DGREY C_BLACK, vpln ''-- polctl: following (press q to stop) --'', vrst]) st)
            else Returned st))"

definition polopts0 :: polopts where
  "polopts0 = \<lparr>filter_pri = -1, po_last = -1, filter_unit = None, follow = False, list_boots = False\<rparr>"

definition cmd_polctl :: "string \<Rightarrow> 'a pol_scheme \<Rightarrow> 'a pol_scheme ctl option" where
  "cmd_polctl args st =
     (let st = (if pollog st = [] then st\<lparr>pollog := pollog_init (pollog st)\<rparr> else st) in
      do { o' \<leftarrow> pol_parse args polopts0;
           Some (case o' of PHelp \<Rightarrow> Returned (pr pol_help st) | POpts o' \<Rightarrow> polctl_opts o' st) })"

section \<open>Reading a number back\<close>

lemma is_digit_range: "CHR ''0'' \<le> c \<Longrightarrow> c \<le> CHR ''9'' \<Longrightarrow> is_digit c"
  by (simp add: is_digit_def less_eq_char_def)

lemma dec_value_digits: "n < 2 ^ 31 \<Longrightarrow> dec_value (rev (kia_digits n)) 0 = Some (int n)"
proof (induction n rule: kia_digits.induct)
  case (1 n)
  show ?case
  proof (cases "n = 0")
    case False
    have "dec_value (rev (kia_digits (n div 10))) 0 = Some (int (n div 10))" using 1 False by simp
    moreover have "rev (kia_digits n) = rev (kia_digits (n div 10)) @ [digit_char (n mod 10)]"
      using False by (simp add: kia_digits.simps[of n])
    moreover have "int (n div 10) * 10 + int (n mod 10) = int n"
      by (metis mult.commute of_nat_add of_nat_mult of_nat_numeral mult_div_mod_eq)
    ultimately show ?thesis
      using 1(2) by (simp add: dec_value_def ofold_append of_char_digit_int chk32_def i32_def)
  qed (simp add: kia_digits.simps dec_value_def)
qed

lemma kia_str_digits: "0 \<le> n \<Longrightarrow> \<forall>c \<in> set (kia_str n). is_digit c"
  using kia_digits_set is_digit_range by (auto simp: kia_str_def is_digit_def)

text \<open>What \<open>kia\<close> prints of a number that is not negative, \<open>read_dec\<close> reads back, and it stops at the
  first character that is not a digit.\<close>

lemma read_dec_kia:
  assumes "0 \<le> n" "n < 2 ^ 31" "rest = [] \<or> \<not> is_digit (hd rest)"
  shows "read_dec (kia_str n @ rest) = Some (n, rest)"
proof -
  note d = kia_str_digits[OF assms(1)]
  have v: "dec_value (kia_str n) 0 = Some n"
  proof (cases "n = 0")
    case True
    then show ?thesis by (simp add: kia_str_def dec_value_def chk32_def i32_def)
  next
    case False
    then show ?thesis using assms dec_value_digits[of "nat n"] by (simp add: kia_str_def)
  qed
  have "takeWhile is_digit (kia_str n @ rest) = kia_str n" "dropWhile is_digit (kia_str n @ rest) = rest"
    using d assms(3) by (cases rest; simp add: takeWhile_append2 dropWhile_append2)+
  then show ?thesis by (simp add: read_dec_def v)
qed

lemma kia_str_hd:
  assumes "0 \<le> n"
  shows "kia_str n \<noteq> [] \<and> hd (kia_str n) \<noteq> CHR '' ''"
proof -
  have "kia_str n \<noteq> []"
    using assms by (simp add: kia_str_def kia_digits.simps[of "nat n"])
  then show ?thesis
    using bspec[OF kia_str_digits[OF assms] hd_in_set] by (auto simp: is_digit_def)
qed

section \<open>The selection\<close>

lemma pol_parse_n:
  assumes "0 \<le> n" "n < 2 ^ 31"
  shows "pol_parse (''-n '' @ kia_str n) o' = Some (POpts (o'\<lparr>po_last := n\<rparr>))"
proof -
  have "skip_sp (kia_str n) = kia_str n"
    using kia_str_hd[OF assms(1)] by (cases "kia_str n") auto
  then show ?thesis
    using read_dec_kia[OF assms, of "[]"]
    by (simp add: pol_parse.simps[of "CHR ''-'' # _"] pol_parse.simps[of "[]"] Let_def)
qed

lemma pol_shown_last:
  assumes "0 < n"
  shows "pol_shown (polopts0\<lparr>po_last := n\<rparr>) ls = last_n (nat n) ls"
  using assms by (auto simp: pol_shown_def polopts0_def last_n_def Let_def)

lemma pollog_init_length: "length (pollog_init []) = 18"
  by (simp add: pollog_init_def pol_add_def)

text \<open>\<open>polctl -n N\<close> prints the header and then exactly the last \<open>N\<close> entries of the log, oldest
  first, whatever the log holds, and returns without waiting for a key.\<close>

theorem polctl_last_entries:
  fixes st :: "'a pol_scheme"
  assumes "0 < n" "n < 2 ^ 31" "pollog st \<noteq> []"
  shows "cmd_polctl (''-n '' @ kia_str n) st =
    Some (Returned (pr (seqs [vset C_DGREY C_BLACK, vpln ''-- polOS System Log (polctl) -- pigOS poing init system --'',
      vrst, fold polctl_print_entry (last_n (nat n) (pollog st))]) st))"
  using assms pol_parse_n[of n polopts0] pol_shown_last[OF assms(1)]
  by (simp add: cmd_polctl_def polctl_opts_def polopts0_def Let_def)

definition pol0 :: pol where
  "pol0 = rpk.extend rpk0 (pol.fields (pollog_init []))"

theorem polctl_last_entries_witness:
  "cmd_polctl (''-n '' @ kia_str 3) pol0 =
    Some (Returned (pr (seqs [vset C_DGREY C_BLACK, vpln ''-- polOS System Log (polctl) -- pigOS poing init system --'',
      vrst, fold polctl_print_entry (last_n (nat 3) (pollog pol0))]) pol0))"
proof (rule polctl_last_entries)
  show "pollog pol0 \<noteq> []"
    using pollog_init_length by (auto simp: pol0_def pol.defs rpk.defs)
qed simp_all

end
