(* ===== verification/Pig_Env.thy ===== *)
theory Pig_Env
  imports Pig_Polctl
begin

text \<open>
  The shell's own state (\<open>shell/shell.h\<close>, \<open>shell/lash.h\<close>): who is logged in and where, the variables and
  aliases, the two histories, the flag of the network driver, and the expansion of \<open>$NAME\<close>. The rest of the machine is the field \<open>sys\<close>,
  so an operation of a lower layer runs on that field and cannot touch the shell's variables.

  Variables and aliases are two copies of one table, an array of 32 names of 32 bytes and values of
  128 bytes; the locale \<open>assoc_store\<close> is what the shell relies on.
\<close>

section \<open>Definitions\<close>

abbreviation (input) SH_BUF :: nat where "SH_BUF \<equiv> 512"
abbreviation (input) SH_VARS :: nat where "SH_VARS \<equiv> 32"

type_synonym slots = "(string \<times> string) list"

record sh =
  sys :: pol
  sh_user :: string
  sh_uid :: int
  sh_cwd :: string
  sh_rok :: bool
  sh_vars :: slots
  sh_aliases :: slots
  sh_hist :: "string list"
  lash_hist :: "string list"
  todo :: "string list"
  color_ix :: int
  fortune_ix :: int
  net_ok :: bool

text \<open>An operation of the machine, and one that only prints.\<close>

definition on_sys :: "(pol \<Rightarrow> pol option) \<Rightarrow> sh \<Rightarrow> sh option" where
  "on_sys f st = map_option (\<lambda>s. st\<lparr>sys := s\<rparr>) (f (sys st))"

definition say :: "(vga \<Rightarrow> vga) \<Rightarrow> sh \<Rightarrow> sh" where
  "say f st = st\<lparr>sys := pr f (sys st)\<rparr>"

subsection \<open>Variables and aliases\<close>

definition slot_get :: "string \<Rightarrow> slots \<Rightarrow> string option" where
  "slot_get n xs = map_option (\<lambda>i. snd (xs ! i)) (find_idx (\<lambda>p. fst p = n) xs)"

definition slot_set :: "string \<Rightarrow> string \<Rightarrow> slots \<Rightarrow> slots option" where
  "slot_set n v xs =
     (case find_idx (\<lambda>p. fst p = n) xs of
        Some i \<Rightarrow> do { w \<leftarrow> fits 128 v; Some (xs[i := (n, w)]) }
      | None \<Rightarrow>
          if length xs < SH_VARS then do { m \<leftarrow> fits 32 n; w \<leftarrow> fits 128 v; Some (xs @ [(m, w)]) }
          else Some xs)"

definition sh_var_get :: "string \<Rightarrow> sh \<Rightarrow> string option" where
  "sh_var_get n st = slot_get n (sh_vars st)"

definition sh_var_set :: "string \<Rightarrow> string \<Rightarrow> sh \<Rightarrow> sh option" where
  "sh_var_set n v st = map_option (\<lambda>xs. st\<lparr>sh_vars := xs\<rparr>) (slot_set n v (sh_vars st))"

definition sh_alias_get :: "string \<Rightarrow> sh \<Rightarrow> string option" where
  "sh_alias_get n st = slot_get n (sh_aliases st)"

definition sh_alias_set :: "string \<Rightarrow> string \<Rightarrow> sh \<Rightarrow> sh option" where
  "sh_alias_set n v st = map_option (\<lambda>xs. st\<lparr>sh_aliases := xs\<rparr>) (slot_set n v (sh_aliases st))"

text \<open>\<open>unset\<close> empties every slot of that name, \<open>unalias\<close> the first one; the slot itself stays in use.\<close>

definition unset_var :: "string \<Rightarrow> sh \<Rightarrow> sh" where
  "unset_var n st = st\<lparr>sh_vars := map (\<lambda>p. if fst p = n then ([], []) else p) (sh_vars st)\<rparr>"

definition unset_alias :: "string \<Rightarrow> sh \<Rightarrow> sh option" where
  "unset_alias n st = map_option (\<lambda>i. st\<lparr>sh_aliases := (sh_aliases st)[i := ([], [])]\<rparr>)
     (find_idx (\<lambda>p. fst p = n) (sh_aliases st))"

subsection \<open>Expansion\<close>

definition name_char :: "char \<Rightarrow> bool" where
  "name_char c \<longleftrightarrow> (let k = of_char c :: nat in
     65 \<le> k \<and> k \<le> 90 \<or> 97 \<le> k \<and> k \<le> 122 \<or> 48 \<le> k \<and> k \<le> 57 \<or> c = CHR ''_'')"

definition var_name :: "string \<Rightarrow> string" where
  "var_name s = take 31 (takeWhile name_char s)"

definition var_value :: "sh \<Rightarrow> string \<Rightarrow> string" where
  "var_value st vn =
     (case sh_var_get vn st of
        Some v \<Rightarrow> v
      | None \<Rightarrow>
          if vn = ''HOME'' then ''/root''
          else if vn = ''USER'' then sh_user st
          else if vn = ''PWD'' then sh_cwd st
          else if vn = ''SHELL'' then ''/bin/pig''
          else if vn = ''?'' then ''0''
          else vn)"

function expand_loop :: "(string \<Rightarrow> string) \<Rightarrow> nat \<Rightarrow> string \<Rightarrow> string \<Rightarrow> string" where
  "expand_loop f cap acc inp =
     (if inp = [] \<or> length acc \<ge> cap then acc
      else if hd inp = CHR ''$'' then
        (let vn = var_name (tl inp)
         in expand_loop f cap (acc @ take (cap - length acc) (f vn)) (drop (length vn) (tl inp)))
      else expand_loop f cap (acc @ [hd inp]) (tl inp))"
  by pat_completeness auto
termination
  by (relation "measure (\<lambda>(f, cap, acc, inp). length inp)") auto

declare expand_loop.simps [simp del]

definition sh_expand :: "sh \<Rightarrow> string \<Rightarrow> nat \<Rightarrow> string" where
  "sh_expand st inp outsz = expand_loop (var_value st) (outsz - 1) [] inp"

subsection \<open>The histories\<close>

text \<open>64 lines; a full table moves up by one. The cursors \<open>sh_hi\<close> and \<open>lash_hi\<close> are written and never
  read.\<close>

definition hist_put :: "string \<Rightarrow> string list \<Rightarrow> string list" where
  "hist_put s h = (if length h < 64 then h @ [s] else tl h @ [s])"

definition sh_push_hist :: "string \<Rightarrow> sh \<Rightarrow> sh option" where
  "sh_push_hist s st = do { t \<leftarrow> fits SH_BUF s; Some (st\<lparr>sh_hist := hist_put t (sh_hist st)\<rparr>) }"

definition lash_push_hist :: "string \<Rightarrow> sh \<Rightarrow> sh option" where
  "lash_push_hist s st =
     (if s = [] \<or> (lash_hist st \<noteq> [] \<and> last (lash_hist st) = s) then Some st
      else do { t \<leftarrow> fits SH_BUF s; Some (st\<lparr>lash_hist := hist_put t (lash_hist st)\<rparr>) })"

definition sh_prompt :: "sh \<Rightarrow> vga \<Rightarrow> vga" where
  "sh_prompt st =
     seqs [if sh_rok st then seqs [vset C_LRED C_BLACK, vps ''[rok] ''] else id,
       vset C_LGREEN C_BLACK, vps (sh_user st), vset C_WHITE C_BLACK, vpc CHR ''@'',
       vset C_LCYAN C_BLACK, vps ''pigOS'', vset C_WHITE C_BLACK, vpc CHR '':'',
       vset C_YELLOW C_BLACK, vps (sh_cwd st),
       vset (if sh_uid st = 0 then C_LRED else C_WHITE) C_BLACK,
       vps (if sh_uid st = 0 then ''# '' else ''$ ''), vrst]"

definition lash_render_prompt :: "sh \<Rightarrow> vga \<Rightarrow> vga" where
  "lash_render_prompt st =
     seqs [vrst, vpc CHR 0x0A, vps ''['', vset C_LGREEN C_BLACK, vps (sh_user st), vrst, vps ''@'',
       vset C_LCYAN C_BLACK, vps ''pigOS'', vrst, vps '':'', vset C_YELLOW C_BLACK, vps (sh_cwd st),
       vrst, vps '']$ '']"

section \<open>The table of names\<close>

text \<open>What the shell relies on: a value stored under a name is what the next lookup of that name
  returns, other names keep their values, and a full table ignores new names.\<close>

locale assoc_store =
  fixes get :: "string \<Rightarrow> 's \<Rightarrow> string option"
    and put :: "string \<Rightarrow> string \<Rightarrow> 's \<Rightarrow> 's option"
    and room :: "'s \<Rightarrow> nat"
  assumes put_defined: "length n < 32 \<Longrightarrow> length v < 128 \<Longrightarrow> \<exists>s'. put n v s = Some s'"
    and put_get: "put n v s = Some s' \<Longrightarrow> get n s \<noteq> None \<or> 0 < room s \<Longrightarrow> get n s' = Some v"
    and put_other: "put n v s = Some s' \<Longrightarrow> m \<noteq> n \<Longrightarrow> get m s' = get m s"
    and put_known: "put n v s = Some s' \<Longrightarrow> get n s \<noteq> None \<Longrightarrow> room s' = room s"
    and put_new: "put n v s = Some s' \<Longrightarrow> get n s = None \<Longrightarrow> room s' = room s - 1"
    and put_full: "put n v s = Some s' \<Longrightarrow> get n s = None \<Longrightarrow> room s = 0 \<Longrightarrow> s' = s"
begin

lemma put_put:
  assumes "put n v s = Some s1" "put n w s1 = Some s2" "get n s \<noteq> None \<or> 0 < room s"
  shows "get m s2 = (if m = n then Some w else get m s)"
  using put_get[OF assms(2)] put_get[OF assms(1,3)] put_other[OF assms(1)] put_other[OF assms(2)] by auto

text \<open>A list of assignments with room for all of them: every name ends with the last value given to it.\<close>

lemma put_all:
  assumes "\<forall>(n, v) \<in> set kvs. length n < 32 \<and> length v < 128" "length kvs \<le> room s"
  shows "\<exists>s'. ofold (\<lambda>(n, v). put n v) kvs s = Some s' \<and>
    (\<forall>m. get m s' = (case map_of (rev kvs) m of None \<Rightarrow> get m s | Some v \<Rightarrow> Some v))"
  using assms
proof (induction kvs arbitrary: s)
  case (Cons kv kvs)
  obtain n v where kv: "kv = (n, v)" by fastforce
  obtain s1 where s1: "put n v s = Some s1" using put_defined Cons.prems(1) kv by fastforce
  have "length kvs \<le> room s1"
    using put_known[OF s1] put_new[OF s1] Cons.prems(2) by (cases "get n s") auto
  then obtain s2 where s2: "ofold (\<lambda>(n, v). put n v) kvs s1 = Some s2"
      "\<And>m. get m s2 = (case map_of (rev kvs) m of None \<Rightarrow> get m s1 | Some v \<Rightarrow> Some v)"
    using Cons.IH[of s1] Cons.prems(1) by auto
  have "0 < room s" using Cons.prems(2) by simp
  then have "get m s1 = (if m = n then Some v else get m s)" for m
    using put_get[OF s1] put_other[OF s1] by auto
  then show ?case
    using s1 s2 by (auto simp: kv map_add_def split: option.splits)
qed simp

end

lemma find_slot_None: "find_idx (\<lambda>p. fst p = n) xs = None \<longleftrightarrow> map_of xs n = None"
  by (auto simp: find_idx_None map_of_eq_None_iff)

lemma slot_get_map_of: "slot_get n xs = map_of xs n"
proof (induction xs)
  case (Cons x xs)
  then show ?case by (cases x) (auto simp: slot_get_def option.map_comp comp_def)
qed (simp add: slot_get_def)

lemma map_of_update_first:
  "find_idx (\<lambda>p. fst p = n) xs = Some i \<Longrightarrow> map_of (xs[i := (n, w)]) = (map_of xs)(n \<mapsto> w)"
proof (induction xs arbitrary: i)
  case (Cons x xs)
  then show ?case by (cases x) (auto split: if_splits)
qed simp

lemma slot_set_cases:
  assumes "slot_set n v xs = Some xs'"
  shows "map_of xs' = (if map_of xs n \<noteq> None \<or> length xs < 32 then (map_of xs)(n \<mapsto> v) else map_of xs) \<and>
    length xs' = (if map_of xs n = None \<and> length xs < 32 then length xs + 1 else length xs) \<and>
    (map_of xs n = None \<and> \<not> length xs < 32 \<longrightarrow> xs' = xs)"
proof -
  consider i where "find_idx (\<lambda>p. fst p = n) xs = Some i" "map_of xs n \<noteq> None" "xs' = xs[i := (n, v)]"
    | "map_of xs n = None" "length xs < 32" "xs' = xs @ [(n, v)]"
    | "map_of xs n = None" "\<not> length xs < 32" "xs' = xs"
    using assms find_slot_None[of n xs]
    by (auto simp: slot_set_def fits_eq_Some split: option.splits bind_splits if_splits)
  then show ?thesis
  proof cases
    case (1 i)
    then show ?thesis using map_of_update_first[OF 1(1), of v] by auto
  next
    case 2
    have "map_of (xs @ [(n, v)]) = (map_of xs)(n \<mapsto> v)"
      using 2(1) by (auto simp: map_add_def fun_eq_iff split: option.splits)
    then show ?thesis using 2 by simp
  qed simp
qed

lemma slot_set_defined: "length n < 32 \<Longrightarrow> length v < 128 \<Longrightarrow> \<exists>xs'. slot_set n v xs = Some xs'"
  by (auto simp: slot_set_def split: option.splits)

lemma slots_store:
  fixes ext :: "slots \<Rightarrow> sh \<Rightarrow> sh" and sel :: "sh \<Rightarrow> slots"
  assumes "\<And>xs st. sel (ext xs st) = xs" "\<And>st. ext (sel st) st = st"
  shows "assoc_store (\<lambda>n st. slot_get n (sel st))
    (\<lambda>n v st. map_option (\<lambda>xs. ext xs st) (slot_set n v (sel st))) (\<lambda>st. 32 - length (sel st))"
proof (unfold_locales, goal_cases)
  case (1 n v s)
  then show ?case using slot_set_defined[of n v "sel s"] by auto
next
  case (2 n v s s')
  then obtain xs where xs: "slot_set n v (sel s) = Some xs" "s' = ext xs s" by auto
  then have "map_of xs = (map_of (sel s))(n \<mapsto> v)"
    using slot_set_cases[OF xs(1)] 2 by (simp add: slot_get_map_of)
  then show ?case by (simp add: slot_get_map_of assms(1) xs(2))
next
  case (3 n v s s' m)
  then show ?case by (auto simp: slot_get_map_of assms(1) split: if_splits dest!: slot_set_cases[of n v "sel s"])
next
  case (4 n v s s')
  then show ?case by (auto simp: slot_get_map_of assms(1) dest!: slot_set_cases[of n v "sel s"])
next
  case (5 n v s s')
  then show ?case by (auto simp: slot_get_map_of assms(1) split: if_splits dest!: slot_set_cases[of n v "sel s"])
next
  case (6 n v s s')
  then show ?case by (auto simp: slot_get_map_of assms dest!: slot_set_cases[of n v "sel s"])
qed

interpretation vars: assoc_store sh_var_get sh_var_set "\<lambda>st. 32 - length (sh_vars st)"
  unfolding sh_var_get_def [abs_def] sh_var_set_def [abs_def]
  by (rule slots_store) simp_all

interpretation aliases: assoc_store sh_alias_get sh_alias_set "\<lambda>st. 32 - length (sh_aliases st)"
  unfolding sh_alias_get_def [abs_def] sh_alias_set_def [abs_def]
  by (rule slots_store) simp_all

interpretation hists: ring_log 64 hist_put "\<lambda>h. h" "\<lambda>h. length h \<le> 64" "\<lambda>_. True"
  by unfold_locales (auto simp: hist_put_def last_n_def drop_Suc)

section \<open>Expansion against its specification\<close>

text \<open>Expansion without a bound: each \<open>$\<close> with the name after it is replaced by the value.\<close>

function expand_spec :: "(string \<Rightarrow> string) \<Rightarrow> string \<Rightarrow> string" where
  "expand_spec f inp =
     (if inp = [] then []
      else if hd inp = CHR ''$'' then f (var_name (tl inp)) @ expand_spec f (drop (length (var_name (tl inp))) (tl inp))
      else hd inp # expand_spec f (tl inp))"
  by pat_completeness auto
termination
  by (relation "measure (\<lambda>(f, inp). length inp)") auto

declare expand_spec.simps [simp del]

lemma expand_loop_spec:
  "length acc \<le> cap \<Longrightarrow> expand_loop f cap acc inp = take cap (acc @ expand_spec f inp)"
proof (induction f cap acc inp rule: expand_loop.induct)
  case (1 f cap acc inp)
  show ?case
  proof (cases "inp = [] \<or> length acc \<ge> cap")
    case True
    then show ?thesis
      using "1.prems" by (auto simp: expand_loop.simps[of f cap acc] expand_spec.simps[of f "[]"])
  next
    case False
    show ?thesis
    proof (cases "hd inp = CHR ''$''")
      case True
      let ?v = "f (var_name (tl inp))" and ?r = "drop (length (var_name (tl inp))) (tl inp)"
      have "expand_loop f cap acc inp = expand_loop f cap (acc @ take (cap - length acc) ?v) ?r"
        using False True by (subst expand_loop.simps) (simp add: Let_def)
      also have "\<dots> = take cap ((acc @ take (cap - length acc) ?v) @ expand_spec f ?r)"
        by (rule "1.IH"(1)[OF _ True refl]) (use False "1.prems" in simp_all)
      also have "\<dots> = take cap (acc @ ?v @ expand_spec f ?r)"
        by (simp add: min_def)
      also have "?v @ expand_spec f ?r = expand_spec f inp"
        using False True by (subst (2) expand_spec.simps) simp
      finally show ?thesis .
    next
      case ne: False
      have "expand_loop f cap acc inp = expand_loop f cap (acc @ [hd inp]) (tl inp)"
        using False ne by (subst expand_loop.simps) simp
      also have "\<dots> = take cap ((acc @ [hd inp]) @ expand_spec f (tl inp))"
        by (rule "1.IH"(2)[OF _ ne]) (use False "1.prems" in simp_all)
      also have "(acc @ [hd inp]) @ expand_spec f (tl inp) = acc @ expand_spec f inp"
        using False ne by (subst (2) expand_spec.simps) simp
      finally show ?thesis .
    qed
  qed
qed

lemma expand_spec_plain: "CHR ''$'' \<notin> set s \<Longrightarrow> expand_spec f s = s"
proof (induction s)
  case (Cons c s)
  then show ?case by (subst expand_spec.simps) auto
qed (simp add: expand_spec.simps)

lemma name_chars: "c \<in> set (var_name s) \<Longrightarrow> name_char c"
  by (auto simp: var_name_def dest!: in_set_takeD set_takeWhileD)

lemma var_name_plain: "CHR ''$'' \<notin> set (var_name s)"
  using name_chars[of "CHR ''$''" s] by (auto simp: name_char_def)

lemma expand_spec_values:
  assumes "\<And>n. CHR ''$'' \<notin> set n \<Longrightarrow> CHR ''$'' \<notin> set (f n)"
  shows "CHR ''$'' \<notin> set (expand_spec f s)"
proof (induction s rule: measure_induct_rule[of length])
  case (less s)
  show ?case
  proof (cases "s = []")
    case False
    let ?r = "drop (length (var_name (tl s))) (tl s)"
    have "length ?r < length s" "length (tl s) < length s" using False by (auto simp: less_Suc_eq_le)
    then show ?thesis
      using less assms[OF var_name_plain[of "tl s"]]
      by (subst expand_spec.simps) auto
  qed (simp add: expand_spec.simps)
qed

text \<open>\<open>plain_env\<close>: no value that expansion can insert holds a \<open>$\<close>.\<close>

definition plain_env :: "sh \<Rightarrow> bool" where
  "plain_env st \<longleftrightarrow> CHR ''$'' \<notin> set (sh_user st) \<and> CHR ''$'' \<notin> set (sh_cwd st) \<and>
     (\<forall>(n, v) \<in> set (sh_vars st). CHR ''$'' \<notin> set v)"

lemma plain_values:
  assumes "plain_env st" "CHR ''$'' \<notin> set vn"
  shows "CHR ''$'' \<notin> set (var_value st vn)"
proof (cases "map_of (sh_vars st) vn")
  case (Some v)
  then show ?thesis
    using assms(1) map_of_SomeD[OF Some] by (auto simp: plain_env_def var_value_def sh_var_get_def slot_get_map_of)
qed (use assms in \<open>auto simp: plain_env_def var_value_def sh_var_get_def slot_get_map_of\<close>)

lemma sh_expand_spec: "0 < n \<Longrightarrow> sh_expand st s n = take (n - 1) (expand_spec (var_value st) s)"
  by (simp add: sh_expand_def expand_loop_spec)

lemma sh_expand_length: "0 < n \<Longrightarrow> length (sh_expand st s n) < n"
  by (simp add: sh_expand_spec)

lemma sh_expand_plain_env: "plain_env st \<Longrightarrow> 0 < n \<Longrightarrow> CHR ''$'' \<notin> set (sh_expand st s n)"
  using expand_spec_values[of "var_value st" s] plain_values
  by (auto simp: sh_expand_spec dest!: in_set_takeD)

lemma sh_expand_id: "CHR ''$'' \<notin> set s \<Longrightarrow> length s < n \<Longrightarrow> sh_expand st s n = s"
  by (simp add: sh_expand_spec expand_spec_plain)

section \<open>Properties\<close>


definition sh0 :: sh where
  "sh0 = \<lparr>sys = pol0, sh_user = ''root'', sh_uid = 0, sh_cwd = ''/'', sh_rok = False, sh_vars = [],
     sh_aliases = [], sh_hist = [], lash_hist = [], todo = [], color_ix = 0, fortune_ix = 0, net_ok = False\<rparr>"


text \<open>after any list of \<open>export\<close> assignments that fit, with free slots for all of them, every
  variable has the last value given to it and the others are unchanged.\<close>
theorem exports_last_wins:
  assumes "\<forall>(n, v) \<in> set kvs. length n < 32 \<and> length v < 128"
    and "length kvs + length (sh_vars st) \<le> 32"
  shows "\<exists>st'. ofold (\<lambda>(n, v). sh_var_set n v) kvs st = Some st' \<and>
    (\<forall>m. sh_var_get m st' = (case map_of (rev kvs) m of None \<Rightarrow> sh_var_get m st | Some v \<Rightarrow> Some v))"
  using vars.put_all[of kvs st] assms by simp

theorem exports_last_wins_witness:
  "\<exists>st'. ofold (\<lambda>(n, v). sh_var_set n v) [(''A'', ''1''), (''B'', ''2''), (''A'', ''3'')] sh0 = Some st' \<and>
    sh_var_get ''A'' st' = Some ''3''"
proof -
  have "\<exists>st'. ofold (\<lambda>(n, v). sh_var_set n v) [(''A'', ''1''), (''B'', ''2''), (''A'', ''3'')] sh0 = Some st' \<and>
      (\<forall>m. sh_var_get m st' = (case map_of (rev [(''A'', ''1''), (''B'', ''2''), (''A'', ''3'')]) m of
         None \<Rightarrow> sh_var_get m sh0 | Some v \<Rightarrow> Some v))"
    by (rule exports_last_wins) (simp_all add: sh0_def)
  then show ?thesis by auto
qed

text \<open>\<open>unset\<close> does not give the slot back: once the table is full a new name is dropped without a word,
  whatever has been unset before.\<close>

lemma unset_keeps_slot: "length (sh_vars (unset_var n st)) = length (sh_vars st)"
  by (simp add: unset_var_def)

lemma unset_then_full:
  assumes "length (sh_vars st) = 32" "sh_var_get m (unset_var n st) = None" "sh_var_set m v (unset_var n st) = Some st'"
  shows "st' = unset_var n st"
  using vars.put_full[OF assms(3,2)] assms(1) by (simp add: unset_keeps_slot)

text \<open>After 64 lines the history holds exactly the newest 64.\<close>

lemma lash_hist_last:
  assumes "length (lash_hist st) \<le> 64" "s \<noteq> []" "length s < 512" "lash_push_hist s st = Some st'"
  shows "lash_hist st' \<noteq> [] \<and> last (lash_hist st') = s \<and> length (lash_hist st') \<le> 64"
  using assms hists.put_last[of "lash_hist st" s] hists.put_inv[of "lash_hist st" s]
  by (auto simp: lash_push_hist_def hist_put_def split: if_splits)

end
