(* ===== verification/Pig_Nano.thy ===== *)
theory Pig_Nano
  imports Pig_Env
begin

text \<open>
  The editor \<open>pnano\<close> (\<open>cmd_nano\<close> and the \<open>nano_\<close> functions of \<open>shell/shell.h\<close>). The buffer \<open>ebuf\<close>
  with its length \<open>elen\<close> is a list of characters; no access reaches behind \<open>elen\<close>. The text that moves
  when a character is inserted or deleted is written with \<open>take\<close> and \<open>drop\<close>.

  The editor consumes the keys the state holds; it returns, or is still waiting when they end.
\<close>

section \<open>Definitions\<close>

record nano =
  ebuf :: string
  cur :: nat
  modified :: bool

fun nano_find_line_start :: "string \<Rightarrow> nat \<Rightarrow> nat" where
  "nano_find_line_start b 0 = 0"
| "nano_find_line_start b (Suc i) = (if b ! i = CHR 0x0A then Suc i else nano_find_line_start b i)"

function nano_find_line_end :: "string \<Rightarrow> nat \<Rightarrow> nat" where
  "nano_find_line_end b i =
     (if i < length b then (if b ! i = CHR 0x0A then i else nano_find_line_end b (i + 1)) else length b)"
  by pat_completeness auto
termination
  by (relation "measure (\<lambda>(b, i). length b - i)") auto

declare nano_find_line_end.simps [simp del]

text \<open>\<open>for(int i=pos-2;i>=0;i--)\<close>, with \<open>i+1\<close> as the argument.\<close>

fun prev_loop :: "string \<Rightarrow> nat \<Rightarrow> nat" where
  "prev_loop b 0 = 0"
| "prev_loop b (Suc i) = (if b ! i = CHR 0x0A then i + 1 else prev_loop b i)"

definition nano_find_prev_line_start :: "string \<Rightarrow> nat \<Rightarrow> nat" where
  "nano_find_prev_line_start b pos = (if pos \<le> 0 then 0 else prev_loop b (pos - 1))"

fun nano_walk :: "string \<Rightarrow> int \<times> int \<Rightarrow> int \<times> int" where
  "nano_walk [] p = p"
| "nano_walk (c # cs) (x, y) =
     (if c = CHR 0x0A \<or> x + 1 \<ge> VGA_W then
        (if y + 1 \<ge> VGA_H - 2 then (0, y + 1) else nano_walk cs (0, y + 1))
      else nano_walk cs (x + 1, y))"

definition nano_redraw_cursor :: "nano \<Rightarrow> vga \<Rightarrow> vga" where
  "nano_redraw_cursor e v =
     (let (x, y) = nano_walk (take (cur e) (ebuf e)) (0, 1)
      in vga_update_hw_cursor (v\<lparr>vx := x, vy := y\<rparr>))"

subsection \<open>The keys that move and edit\<close>

definition nano_up :: "nano \<Rightarrow> nano" where
  "nano_up e =
     (let ls = nano_find_line_start (ebuf e) (cur e) in
      if ls > 0 then
        (let ps = nano_find_prev_line_start (ebuf e) ls; plen = ls - ps - 1
         in e\<lparr>cur := ps + min (cur e - ls) plen\<rparr>)
      else e)"

definition nano_down :: "nano \<Rightarrow> nano" where
  "nano_down e =
     (let le = nano_find_line_end (ebuf e) (cur e) in
      if le < length (ebuf e) then
        (let ns = le + 1; ts = nano_find_line_start (ebuf e) (cur e);
             nlen = nano_find_line_end (ebuf e) ns - ns
         in e\<lparr>cur := min (ns + min (cur e - ts) nlen) (length (ebuf e))\<rparr>)
      else e)"

definition nano_insert :: "char \<Rightarrow> nano \<Rightarrow> nano" where
  "nano_insert c e =
     e\<lparr>ebuf := take (cur e) (ebuf e) @ c # drop (cur e) (ebuf e), cur := cur e + 1, modified := True\<rparr>"

definition nano_backspace :: "nano \<Rightarrow> nano" where
  "nano_backspace e =
     e\<lparr>ebuf := take (cur e - 1) (ebuf e) @ drop (cur e) (ebuf e), cur := cur e - 1, modified := True\<rparr>"

definition nano_delete :: "nano \<Rightarrow> nano" where
  "nano_delete e = e\<lparr>ebuf := take (cur e) (ebuf e) @ drop (cur e + 1) (ebuf e), modified := True\<rparr>"

text \<open>The branches from \<open>KEY_LEFT\<close> on: the editor's new state and what reaches the console.\<close>

definition nano_edit :: "int \<Rightarrow> nano \<Rightarrow> nano \<times> (vga \<Rightarrow> vga)" where
  "nano_edit c e =
     (let drawn = (\<lambda>e. (e, seqs [nano_redraw_cursor e, vga_update_hw_cursor]));
          still = (e, vga_update_hw_cursor) in
      if c = KEY_LEFT then (if cur e > 0 then drawn (e\<lparr>cur := cur e - 1\<rparr>) else still)
      else if c = KEY_RIGHT then (if cur e < length (ebuf e) then drawn (e\<lparr>cur := cur e + 1\<rparr>) else still)
      else if c = KEY_UP then
        (if nano_find_line_start (ebuf e) (cur e) > 0 then drawn (nano_up e) else still)
      else if c = KEY_DOWN then
        (if nano_find_line_end (ebuf e) (cur e) < length (ebuf e) then drawn (nano_down e) else still)
      else if c \<ge> 32 \<and> c < 127 \<and> length (ebuf e) < 2046 then drawn (nano_insert (char_of (nat c)) e)
      else if c = 10 \<and> length (ebuf e) < 2046 then drawn (nano_insert CHR 0x0A e)
      else if c = 8 \<and> cur e > 0 then drawn (nano_backspace e)
      else if c = 127 then (if cur e < length (ebuf e) then drawn (nano_delete e) else still)
      else (e, id))"

subsection \<open>Loading, saving and the loop\<close>

text \<open>\<open>MemFile*m2=memfs_find(path); if(!m2)m2=memfs_create(path); if(m2)kcp(m2->content,t);\<close>\<close>

definition store_file :: "string \<Rightarrow> string \<Rightarrow> 'a fs_scheme \<Rightarrow> 'a fs_scheme option" where
  "store_file path t st = do {
     (m, st) \<leftarrow> (case memfs_find path st of Some i \<Rightarrow> Some (Some i, st) | None \<Rightarrow> memfs_create path st);
     case m of None \<Rightarrow> Some st | Some i \<Rightarrow> mf_write i t st }"

definition nano_bar :: "u8 \<Rightarrow> string \<Rightarrow> vga \<Rightarrow> vga" where
  "nano_bar col s = seqs [vfill 0 (VGA_H - 3) VGA_W 1 CHR '' '' col, vstr 1 (VGA_H - 3) col s]"

definition nano_home :: "nano \<Rightarrow> vga \<Rightarrow> vga" where
  "nano_home e = seqs [(\<lambda>v. v\<lparr>vx := 0, vy := 1\<rparr>), nano_redraw_cursor e, vga_update_hw_cursor]"

definition nano_save :: "string \<Rightarrow> nano \<Rightarrow> 'a fs_scheme \<Rightarrow> (nano \<times> 'a fs_scheme) option" where
  "nano_save path e st = do {
     st \<leftarrow> store_file path (ebuf e) st;
     let e = e\<lparr>modified := False\<rparr>;
     Some (e, pr (seqs [nano_bar (COL C_BLACK C_LGREY) ''Saved.'', nano_home e]) st) }"

text \<open>The loop. After \<open>^X\<close> in a modified buffer the answer \<open>y\<close> jumps into the branch of \<open>^O\<close>, which goes
  on with the loop.\<close>

fun nano_loop :: "int list \<Rightarrow> string \<Rightarrow> nano \<Rightarrow> 'a tty_scheme \<Rightarrow> 'a tty_scheme ctl option" where
  "nano_loop [] path e st = Some Waiting"
| "nano_loop (c # cs) path e st =
     (if c = 24 then
        (if modified e then
           (let st = pr (nano_bar (COL C_BLACK C_YELLOW) ''Save modified buffer? (Y=yes N=no C=cancel) '') st in
            case cs of
              [] \<Rightarrow> Some Waiting
            | ans # cs \<Rightarrow>
                if ans = 121 \<or> ans = 89 then do {
                  (e, st) \<leftarrow> nano_save path e st;
                  nano_loop cs path e st }
                else if ans = 99 \<or> ans = 67 then nano_loop cs path e (pr (nano_home e) st)
                else Some (Returned (pr (seqs [vclear, vrst]) (st\<lparr>keys := cs\<rparr>))))
         else Some (Returned (pr (seqs [vclear, vrst]) (st\<lparr>keys := cs\<rparr>))))
      else if c = 15 then do {
        (e, st) \<leftarrow> nano_save path e st;
        nano_loop cs path e st }
      else if c = 7 then
        nano_loop cs path e
          (pr (seqs [nano_bar (COL C_WHITE C_BLUE) ''^X=exit ^O=save ^G=help ^K=cut line'', nano_home e]) st)
      else (case nano_edit c e of (e, f) \<Rightarrow> nano_loop cs path e (pr f st)))"

definition edit_path :: "string \<Rightarrow> string \<Rightarrow> string option" where
  "edit_path cwd f = (if f \<noteq> [] then fs_resolve cwd f 256 else Some ''/tmp/unnamed.txt'')"

definition edit_load :: "nat \<Rightarrow> string \<Rightarrow> 'a fs_scheme \<Rightarrow> string option" where
  "edit_load cap path st =
     (case memfs_find path st of
        Some i \<Rightarrow> fits cap (mf_get i st)
      | None \<Rightarrow>
          (case fs_find_vnode path st of
             Some v \<Rightarrow> (case vn_content v of
                 Some t \<Rightarrow> if length t < cap - 1 then Some t else Some []
               | None \<Rightarrow> Some [])
           | None \<Rightarrow> Some []))"

definition cmd_nano :: "string \<Rightarrow> string \<Rightarrow> 'a tty_scheme \<Rightarrow> 'a tty_scheme ctl option" where
  "cmd_nano cwd f st = do {
     path \<leftarrow> edit_path cwd f;
     t \<leftarrow> edit_load 2048 path st;
     let e = \<lparr>ebuf = t, cur = length t, modified = False\<rparr>;
     let tb = COL C_WHITE C_BLUE;
     let st = pr (seqs [vclear, vfill 0 0 VGA_W 1 CHR '' '' tb, vstr 1 0 tb ''pigPNano 1.0 - '', vstr 16 0 tb path,
       vfill 0 (VGA_H - 2) VGA_W 1 CHR '' '' (COL C_BLACK C_LGREY),
       vstr 1 (VGA_H - 2) (COL C_BLACK C_LGREY) ''^X=exit  ^O=save  ^G=help  ARROWS=move'',
       vset C_WHITE C_BLACK, (\<lambda>v. v\<lparr>vx := 0, vy := 1\<rparr>), vps t,
       nano_home e]) st;
     nano_loop (keys st) path e st }"

lemma keys_pr [simp]: "keys (pr f st) = keys st"
  by (simp add: pr_def)

lemma keys_frame [simp]:
  "fs_ok (st\<lparr>keys := ks\<rparr>) = fs_ok st" "reads (st\<lparr>keys := ks\<rparr>) p t = reads st p t"
  by (simp_all add: fs_ok_def store_ok_def reads_def memfs_find_def mf_get_def mf_live_def[abs_def]
      fs_is_deleted_def del_store_init_def store_cnt_def Let_def)

section \<open>Lines\<close>

text \<open>\<open>A\<close> ends where a line begins.\<close>

abbreviation line_begin :: "string \<Rightarrow> bool" where
  "line_begin A \<equiv> A = [] \<or> last A = CHR 0x0A"

lemma line_start_at:
  assumes "line_begin A" "CHR 0x0A \<notin> set L"
  shows "nano_find_line_start (A @ L @ R) (length A + length L) = length A"
  using assms(2)
proof (induction L arbitrary: R rule: rev_induct)
  case Nil
  show ?case
    using assms(1) by (cases A rule: rev_cases) (auto simp: nth_append)
next
  case (snoc c L)
  then show ?case using snoc.IH[of "[c] @ R"] by (auto simp: nth_append)
qed

lemma prev_loop_line_start: "prev_loop b n = nano_find_line_start b n"
  by (induction n) simp_all

lemma line_end_at:
  assumes "CHR 0x0A \<notin> set L" "R = [] \<or> hd R = CHR 0x0A"
  shows "nano_find_line_end (A @ L @ R) (length A) = length A + length L"
  using assms(1)
proof (induction L arbitrary: A)
  case Nil
  show ?case using assms(2) by (cases R) (auto simp: nano_find_line_end.simps nth_append)
next
  case (Cons c L)
  then show ?case
    using Cons.IH[of "A @ [c]"] by (subst nano_find_line_end.simps) (auto simp: nth_append)
qed

lemma line_end_bounds: "i \<le> length b \<Longrightarrow> i \<le> nano_find_line_end b i \<and> nano_find_line_end b i \<le> length b"
proof (induction b i rule: nano_find_line_end.induct)
  case (1 b i)
  then show ?case by (subst (1 2) nano_find_line_end.simps) auto
qed

lemma line_start_le: "nano_find_line_start b i \<le> i"
  by (induction i) auto

section \<open>The editor's invariant\<close>

definition nano_ok :: "nano \<Rightarrow> bool" where
  "nano_ok e \<longleftrightarrow> cur e \<le> length (ebuf e) \<and> length (ebuf e) < 2048 \<and> cstr (ebuf e)"

lemma char_of_key:
  assumes "0 < c" "c < 256"
  shows "char_of (nat c) \<noteq> CHR 0x00"
proof
  assume "char_of (nat c) = CHR 0x00"
  then have "of_char (char_of (nat c)) = (0 :: nat)" by simp
  then show False using assms by (simp add: nat_less_iff)
qed

lemma nano_insert_ok:
  assumes "nano_ok e" "length (ebuf e) < 2046" "c \<noteq> CHR 0x00"
  shows "nano_ok (nano_insert c e)"
  using assms by (auto simp: nano_ok_def nano_insert_def cstr_def dest: in_set_takeD in_set_dropD)

lemma nano_remove_ok:
  assumes "nano_ok e"
  shows "0 < cur e \<Longrightarrow> nano_ok (nano_backspace e)" "cur e < length (ebuf e) \<Longrightarrow> nano_ok (nano_delete e)"
  using assms by (auto simp: nano_ok_def nano_backspace_def nano_delete_def cstr_def dest: in_set_takeD in_set_dropD)

lemma nano_up_ok: "nano_ok e \<Longrightarrow> nano_ok (nano_up e)"
  using line_start_le[of "ebuf e" "cur e"]
    line_start_le[of "ebuf e" "nano_find_line_start (ebuf e) (cur e) - 1"]
  by (auto simp: nano_ok_def nano_up_def Let_def nano_find_prev_line_start_def prev_loop_line_start)

lemma nano_down_ok: "nano_ok e \<Longrightarrow> nano_ok (nano_down e)"
  by (auto simp: nano_ok_def nano_down_def Let_def)

lemma nano_edit_ok: "nano_ok e \<Longrightarrow> nano_ok (fst (nano_edit c e))"
  using nano_up_ok[of e] nano_down_ok[of e] nano_remove_ok[of e] nano_insert_ok[of e "char_of (nat c)"]
    nano_insert_ok[of e "CHR 0x0A"] char_of_key[of c]
  by (auto simp: nano_edit_def Let_def nano_ok_def)

lemma store_file_put: "store_file p t st = put_file p t st"
  by (auto simp: store_file_def put_file_def memfs_create_def split: option.splits)

lemma store_file_defined: "length p < 128 \<Longrightarrow> length t < 2048 \<Longrightarrow> \<exists>st'. store_file p t st = Some st'"
proof -
  assume a: "length p < 128" "length t < 2048"
  have "\<exists>r. memfs_create p st = Some r"
    using a(1) by (auto simp: memfs_create_def split: option.splits)
  then obtain m s1 where "memfs_create p st = Some (m, s1)" by auto
  then show "\<exists>st'. store_file p t st = Some st'"
    using a(2) by (cases m) (auto simp: store_file_put put_file_def mf_write_def)
qed

lemma nano_save_defined:
  assumes "nano_ok e" "length path < 128"
  shows "\<exists>e' st'. nano_save path e st = Some (e', st') \<and> nano_ok e'"
  using store_file_defined[of path "ebuf e" st] assms by (auto simp: nano_save_def nano_ok_def Let_def)

text \<open>A computation is defined when its branches are.\<close>

lemma ex_if:
  "(b \<Longrightarrow> \<exists>r. x = Some r) \<Longrightarrow> (\<not> b \<Longrightarrow> \<exists>r. y = Some r) \<Longrightarrow> \<exists>r. (if b then x else y) = Some r"
  by simp

lemma ex_list:
  "(xs = [] \<Longrightarrow> \<exists>r. x = Some r) \<Longrightarrow> (\<And>a bs. xs = a # bs \<Longrightarrow> \<exists>r. f a bs = Some r) \<Longrightarrow>
   \<exists>r. (case xs of [] \<Rightarrow> x | a # bs \<Rightarrow> f a bs) = Some r"
  by (cases xs) auto

lemma ex_Some: "\<exists>r. Some x = Some r"
  by simp

lemma nano_loop_defined:
  fixes st :: "'a tty_scheme"
  shows "nano_ok e \<Longrightarrow> length path < 128 \<Longrightarrow> \<exists>r. nano_loop ks path e st = Some r"
proof (induction ks arbitrary: e st rule: measure_induct_rule[of length])
  case (less ks)
  show ?case
  proof (cases ks)
    case (Cons c cs)
    have l: "length cs < length ks" "\<And>a bs. cs = a # bs \<Longrightarrow> length bs < length ks" by (auto simp: Cons)
    note IH = less.IH[OF _ _ less.prems(2)]
    have sv: "\<exists>r. Option.bind (nano_save path e s) (\<lambda>(e, s). nano_loop bs path e s) = Some r"
      if "length bs < length ks" for bs and s :: "'a tty_scheme"
      using nano_save_defined[OF less.prems, of s] IH[OF that] by auto
    have ed: "\<exists>r. (case nano_edit c e of (e, f) \<Rightarrow> nano_loop cs path e (pr f s)) = Some r" for s :: "'a tty_scheme"
      using nano_edit_ok[OF less.prems(1), of c] IH[OF l(1)] by (cases "nano_edit c e") auto
    show ?thesis
      unfolding Cons nano_loop.simps(2) Let_def
      by (intro ex_if ex_list sv ed IH[OF _ less.prems(1)] ex_Some) (simp_all add: Cons)
  qed simp
qed

section \<open>Typing and saving\<close>

definition typable :: "char \<Rightarrow> bool" where
  "typable c \<longleftrightarrow> 32 \<le> (of_char c :: int) \<and> (of_char c :: int) < 127 \<or> c = CHR 0x0A"

lemma typed_key:
  assumes "typable c" "length (ebuf e) < 2046"
  shows "\<exists>f. nano_edit (of_char c) e = (nano_insert c e, f)"
proof -
  have "char_of (nat (of_char c)) = c" by (simp add: nat_of_char)
  then show ?thesis
    using assms by (auto simp: typable_def nano_edit_def Let_def)
qed

definition typed :: "string \<Rightarrow> nano \<Rightarrow> nano" where
  "typed w e = e\<lparr>ebuf := take (cur e) (ebuf e) @ w @ drop (cur e) (ebuf e), cur := cur e + length w,
     modified := (modified e \<or> w \<noteq> [])\<rparr>"

lemma typed_Cons: "cur e \<le> length (ebuf e) \<Longrightarrow> typed (c # w) e = typed w (nano_insert c e)"
  by (simp add: typed_def nano_insert_def)

lemma typed_Nil: "typed [] e = e"
  by (simp add: typed_def)

lemma control_keys: "typable c \<Longrightarrow> (of_char c :: int) \<notin> {24, 15, 7}"
  by (auto simp: typable_def)

lemma typable_nonzero: "typable c \<Longrightarrow> c \<noteq> CHR 0x00"
  by (cases "c = CHR 0x00") (simp_all add: typable_def)

text \<open>Typing a text inserts it at the cursor.\<close>

lemma nano_loop_typed:
  fixes st :: "'a tty_scheme"
  assumes "list_all typable w" "nano_ok e" "length (ebuf e) + length w \<le> 2046"
  shows "\<exists>f. nano_loop (map of_char w @ ks) path e st = nano_loop ks path (typed w e) (pr f st)"
  using assms
proof (induction w arbitrary: e st)
  case Nil
  show ?case by (auto simp: typed_Nil pr_def intro!: exI[of _ id])
next
  case (Cons c w)
  have l: "length (ebuf e) < 2046" "typable c" "cur e \<le> length (ebuf e)"
    using Cons.prems by (auto simp: nano_ok_def)
  obtain f where f: "nano_edit (of_char c) e = (nano_insert c e, f)"
    using typed_key[OF l(2,1)] by blast
  have "nano_loop (map of_char (c # w) @ ks) path e st =
      nano_loop (map of_char w @ ks) path (nano_insert c e) (pr f st)"
    using control_keys[OF l(2)] f by simp
  moreover have "nano_ok (nano_insert c e)"
    by (rule nano_insert_ok[OF Cons.prems(2) l(1) typable_nonzero[OF l(2)]])
  moreover have "length (ebuf (nano_insert c e)) + length w \<le> 2046"
    using Cons.prems(3) l(3) by (simp add: nano_insert_def)
  ultimately obtain g where
    "nano_loop (map of_char (c # w) @ ks) path e st = nano_loop ks path (typed w (nano_insert c e)) (pr g (pr f st))"
    using Cons.IH[of "nano_insert c e" "pr f st"] Cons.prems(1) by auto
  then show ?case using typed_Cons[OF l(3)] by auto
qed

section \<open>Properties\<close>


definition tty_doc :: tty where
  "tty_doc = tty0\<lparr>keys := map of_char ''hi'' @ [15, 24],
     memfs := [\<lparr>mf_path = ''/tmp/a'', mf_content = ''old '', mf_used = True, mf_is_dir = False\<rparr>]\<rparr>"


lemma nano_up_at:
  assumes "line_begin A" "CHR 0x0A \<notin> set L0" "CHR 0x0A \<notin> set L1"
    and "ebuf e = A @ L0 @ [CHR 0x0A] @ L1 @ R" "cur e = length (A @ L0 @ [CHR 0x0A] @ L1)"
  shows "nano_up e = e\<lparr>cur := length A + min (length L1) (length L0)\<rparr>"
proof -
  let ?B = "A @ L0 @ [CHR 0x0A]"
  have "nano_find_line_start (?B @ L1 @ R) (length ?B + length L1) = length ?B"
    by (rule line_start_at) (use assms(3) in simp_all)
  moreover have "ebuf e = ?B @ L1 @ R" "cur e = length ?B + length L1" using assms(4,5) by simp_all
  ultimately have ls: "nano_find_line_start (ebuf e) (cur e) = length ?B" by (simp only:)
  have "nano_find_line_start (A @ L0 @ ([CHR 0x0A] @ L1 @ R)) (length A + length L0) = length A"
    by (rule line_start_at[OF assms(1,2)])
  then have ps: "nano_find_prev_line_start (ebuf e) (length ?B) = length A"
    using assms(4) by (simp add: nano_find_prev_line_start_def prev_loop_line_start)
  show ?thesis
    unfolding nano_up_def Let_def ls ps using assms(5) by simp
qed

lemma nano_down_at:
  assumes "line_begin A" "CHR 0x0A \<notin> set L0" "CHR 0x0A \<notin> set L1" "CHR 0x0A \<notin> set L2"
    and "R = [] \<or> hd R = CHR 0x0A"
    and "ebuf e = A @ L0 @ L1 @ [CHR 0x0A] @ L2 @ R" "cur e = length (A @ L0)"
  shows "nano_down e = e\<lparr>cur := length (A @ L0 @ L1 @ [CHR 0x0A]) + min (length L0) (length L2)\<rparr>"
proof -
  let ?N = "A @ L0 @ L1 @ [CHR 0x0A]"
  have "nano_find_line_end ((A @ L0) @ L1 @ ([CHR 0x0A] @ L2 @ R)) (length (A @ L0)) = length (A @ L0) + length L1"
    by (rule line_end_at) (use assms(3) in simp_all)
  moreover have eb: "ebuf e = (A @ L0) @ L1 @ ([CHR 0x0A] @ L2 @ R)" "ebuf e = ?N @ L2 @ R"
      "ebuf e = A @ L0 @ (L1 @ [CHR 0x0A] @ L2 @ R)" "cur e = length A + length L0"
    using assms(6,7) by simp_all
  ultimately have le: "nano_find_line_end (ebuf e) (cur e) = length (A @ L0) + length L1"
    using assms(7) by (simp only:)
  have "nano_find_line_end (?N @ L2 @ R) (length ?N) = length ?N + length L2"
    by (rule line_end_at[OF assms(4,5)])
  then have ne: "nano_find_line_end (ebuf e) (length ?N) = length ?N + length L2" by (simp only: eb(2))
  have "nano_find_line_start (A @ L0 @ (L1 @ [CHR 0x0A] @ L2 @ R)) (length A + length L0) = length A"
    by (rule line_start_at[OF assms(1,2)])
  then have ls: "nano_find_line_start (ebuf e) (cur e) = length A" by (simp only: eb(3,4))
  have n: "length (A @ L0) + length L1 + 1 = length ?N" by simp
  show ?thesis
    unfolding nano_down_def Let_def le ls n ne using assms(6,7) by simp
qed

text \<open>the arrow keys move between lines the way an editor should: up goes to the line before, down to
  the line after, to the same column or to the end of a shorter line.\<close>
theorem nano_arrows_correct:
  assumes "line_begin A" "CHR 0x0A \<notin> set L0" "CHR 0x0A \<notin> set L1" "CHR 0x0A \<notin> set L2"
  shows "(ebuf e = A @ L0 @ [CHR 0x0A] @ L1 @ R \<and> cur e = length (A @ L0 @ [CHR 0x0A] @ L1) \<longrightarrow>
      nano_up e = e\<lparr>cur := length A + min (length L1) (length L0)\<rparr>) \<and>
    (ebuf e = A @ L0 @ L1 @ [CHR 0x0A] @ L2 @ R \<and> cur e = length (A @ L0) \<and>
        (R = [] \<or> hd R = CHR 0x0A) \<longrightarrow>
      nano_down e = e\<lparr>cur := length (A @ L0 @ L1 @ [CHR 0x0A]) + min (length L0) (length L2)\<rparr>)"
  using nano_up_at[OF assms(1-3)] nano_down_at[OF assms] by blast

theorem nano_arrows_correct_witness:
  "nano_up \<lparr>ebuf = ''pig'' @ [CHR 0x0A] @ ''piglet'', cur = 10, modified = False\<rparr> =
     \<lparr>ebuf = ''pig'' @ [CHR 0x0A] @ ''piglet'', cur = 3, modified = False\<rparr>"
  using nano_arrows_correct[of "[]" "''pig''" "''piglet''" "[]"
      "\<lparr>ebuf = ''pig'' @ [CHR 0x0A] @ ''piglet'', cur = 10, modified = False\<rparr>" "[]"]
  by simp

text \<open>Backspace undoes the last character typed.\<close>

lemma nano_backspace_insert:
  "cur e \<le> length (ebuf e) \<Longrightarrow> nano_backspace (nano_insert c e) = e\<lparr>modified := True\<rparr>"
  by (simp add: nano_backspace_def nano_insert_def)

text \<open>Nothing that is typed is drawn: the editing keys move the cursor and leave the screen as it was.\<close>

lemma nano_typing_invisible: "VGA_MEM (snd (nano_edit c e) v) = VGA_MEM v"
  by (simp add: nano_edit_def Let_def nano_redraw_cursor_def split_beta)

text \<open>Leaving a modified buffer with \<open>^X\<close> and the answer \<open>y\<close> saves it and stays in the editor.\<close>

lemma nano_exit_yes_stays:
  assumes "modified e" "nano_ok e" "length path < 128"
  shows "nano_loop [24, 121] path e st = Some Waiting"
proof -
  obtain e' st' where "nano_save path e (pr (nano_bar (COL C_BLACK C_YELLOW)
      ''Save modified buffer? (Y=yes N=no C=cancel) '') st) = Some (e', st')"
    using nano_save_defined[OF assms(2,3)] by blast
  then show ?thesis using assms(1) by (simp add: Let_def)
qed

end
