(* ===== verification/Pig_Vi.thy ===== *)
theory Pig_Vi
  imports Pig_Nano
begin

text \<open>
  The editor \<open>pi\<close> (\<open>shell/vi.h\<close>). Its text is an array of 24 rows of 78 bytes, modelled byte for byte:
  the program reads and writes behind the terminating NUL of a row, so what is stored there matters.
  The rows are uninitialised at first; their content is the argument \<open>junk\<close>. An access outside a row has
  no defined result.
\<close>

unbundle bit_operations_syntax

section \<open>Definitions\<close>

abbreviation (input) VI_ROWS :: nat where "VI_ROWS \<equiv> 20"
abbreviation (input) VI_COLS :: nat where "VI_COLS \<equiv> 78"

datatype vimode = VI_NORMAL | VI_INSERT | VI_CMD

record vi =
  vlines :: "string list"
  nlines :: nat
  cy :: nat
  cx :: nat
  vmode :: vimode
  cmd_buf :: string
  vmodified :: bool

subsection \<open>Rows\<close>

definition rstr :: "string \<Rightarrow> string" where
  "rstr b = takeWhile (\<lambda>c. c \<noteq> CHR 0x00) b"

abbreviation rlen :: "string \<Rightarrow> nat" where
  "rlen b \<equiv> length (rstr b)"

text \<open>\<open>kcp(row,s)\<close> and \<open>kcat(row,s)\<close>.\<close>

definition row_cp :: "string \<Rightarrow> string \<Rightarrow> string option" where
  "row_cp s b = (if length s < VI_COLS then Some (s @ CHR 0x00 # drop (length s + 1) b) else None)"

definition row_cat :: "string \<Rightarrow> string \<Rightarrow> string option" where
  "row_cat s b = row_cp (rstr b @ s) b"

text \<open>The string that starts at column \<open>i\<close> of a row.\<close>

definition row_from :: "nat \<Rightarrow> string \<Rightarrow> string option" where
  "row_from i b = (if CHR 0x00 \<in> set (drop i b) then Some (rstr (drop i b)) else None)"

definition row_clear :: "string \<Rightarrow> string" where
  "row_clear b = b[0 := CHR 0x00]"

text \<open>The two loops of an insertion and of a backspace in a row; the rows in use hold a NUL.\<close>

definition row_insert :: "nat \<Rightarrow> char \<Rightarrow> string \<Rightarrow> string option" where
  "row_insert x c b =
     (let l = rlen b;
          b = (if x \<le> l then take x b @ [b ! x] @ take (l - x) (drop x b) @ drop (l + 1) b else b)
      in if x < VI_COLS then Some (b[x := c, l + 1 := CHR 0x00]) else None)"

definition row_backspace :: "nat \<Rightarrow> string \<Rightarrow> string" where
  "row_backspace x b =
     (let l = rlen b in
      if x \<le> l then take (x - 1) b @ take (l + 1 - x) (drop x b) @ drop l b else b)"

subsection \<open>Loading and the text\<close>

text \<open>The loop that splits the file into rows: a row takes 77 characters, the rest of its line is
  dropped, and the loop ends when the 22nd row begins.\<close>

fun vi_split :: "string \<Rightarrow> nat \<Rightarrow> nat \<Rightarrow> string list \<Rightarrow> nat \<times> string list" where
  "vi_split [] n col rs = (n, rs)"
| "vi_split (c # cs) n col rs =
     (if n < VI_ROWS + 2 then
        (if c = CHR 0x0A then vi_split cs (n + 1) 0 (rs[n - 1 := (rs ! (n - 1))[col := CHR 0x00]])
         else if col < VI_COLS - 1 then
           vi_split cs n (col + 1) (rs[n - 1 := (rs ! (n - 1))[col := c, col + 1 := CHR 0x00]])
         else vi_split cs n col rs)
      else (n, rs))"

definition vi_init :: "string list \<Rightarrow> string \<Rightarrow> vi" where
  "vi_init junk t =
     (let rs = map row_clear (take (VI_ROWS + 3) junk) @ drop (VI_ROWS + 3) junk;
          (n, rs) = vi_split t 1 0 rs
      in \<lparr>vlines = rs, nlines = n, cy = 0, cx = 0, vmode = VI_NORMAL, cmd_buf = [], vmodified = False\<rparr>)"

definition join_nl :: "string list \<Rightarrow> string" where
  "join_nl ls = (case ls of [] \<Rightarrow> [] | l # ls \<Rightarrow> l @ concat (map (\<lambda>l. CHR 0x0A # l) ls))"

definition vi_text :: "vi \<Rightarrow> string" where
  "vi_text e = join_nl (map rstr (take (nlines e) (vlines e)))"

subsection \<open>Moving rows\<close>

text \<open>\<open>for(r=i;r<j;r++) kcp(lines[r],lines[r+1]);\<close> and \<open>for(r=j;r>i;r--) kcp(lines[r],lines[r-1]);\<close>\<close>

definition rows_up :: "nat \<Rightarrow> nat \<Rightarrow> string list \<Rightarrow> string list option" where
  "rows_up i j = ofold (\<lambda>r rs. do { b \<leftarrow> row_cp (rstr (rs ! (r + 1))) (rs ! r); Some (rs[r := b]) }) [i ..< j]"

definition rows_down :: "nat \<Rightarrow> nat \<Rightarrow> string list \<Rightarrow> string list option" where
  "rows_down i j =
     ofold (\<lambda>r rs. do { b \<leftarrow> row_cp (rstr (rs ! (r - 1))) (rs ! r); Some (rs[r := b]) }) (rev [i + 1 ..< j + 1])"

text \<open>Deleting row \<open>i\<close>: the rows below move up and the last one is emptied.\<close>

definition rows_delete :: "nat \<Rightarrow> vi \<Rightarrow> vi option" where
  "rows_delete i e = do {
     rs \<leftarrow> rows_up i (nlines e - 1) (vlines e);
     Some (e\<lparr>vlines := rs[nlines e - 1 := row_clear (rs ! (nlines e - 1))], nlines := nlines e - 1\<rparr>) }"

subsection \<open>The three modes\<close>

abbreviation cur_len :: "vi \<Rightarrow> nat" where
  "cur_len e \<equiv> rlen (vlines e ! cy e)"

definition vi_open :: "nat \<Rightarrow> vi \<Rightarrow> vi option" where
  "vi_open i e =
     (if nlines e < VI_ROWS + 2 then do {
        rs \<leftarrow> rows_down i (nlines e) (vlines e);
        Some (e\<lparr>vlines := rs[i := row_clear (rs ! i)], nlines := nlines e + 1, cy := i, cx := 0,
                vmode := VI_INSERT, vmodified := True\<rparr>) }
      else Some e)"

definition vi_normal :: "int \<Rightarrow> vi \<Rightarrow> vi option" where
  "vi_normal c e =
     (if c = 105 then Some (e\<lparr>vmode := VI_INSERT\<rparr>)
      else if c = 58 then Some (e\<lparr>vmode := VI_CMD, cmd_buf := []\<rparr>)
      else if c = 104 \<or> c = KEY_LEFT then Some (e\<lparr>cx := cx e - 1\<rparr>)
      else if c = 108 \<or> c = KEY_RIGHT then
        Some (if int (cx e) < int (cur_len e) - 1 then e\<lparr>cx := cx e + 1\<rparr> else e)
      else if c = 107 \<or> c = KEY_UP then
        Some (if cy e > 0 then e\<lparr>cy := cy e - 1, cx := min (cx e) (rlen (vlines e ! (cy e - 1)))\<rparr> else e)
      else if c = 106 \<or> c = KEY_DOWN then
        Some (if cy e < nlines e - 1 then e\<lparr>cy := cy e + 1, cx := min (cx e) (rlen (vlines e ! (cy e + 1)))\<rparr>
              else e)
      else if c = 48 then Some (e\<lparr>cx := 0\<rparr>)
      else if c = 36 then Some (e\<lparr>cx := cur_len e\<rparr>)
      else if c = 71 then Some (e\<lparr>cy := nlines e - 1\<rparr>)
      else if c = 103 then Some (e\<lparr>cy := 0, cx := 0\<rparr>)
      else if c = 111 then vi_open (cy e + 1) e
      else if c = 79 then vi_open (cy e) e
      else Some e)"

definition vi_dd :: "int \<Rightarrow> vi \<Rightarrow> vi option" where
  "vi_dd c2 e =
     (if c2 = 100 \<and> nlines e > 1 then do {
        e \<leftarrow> rows_delete (cy e) e;
        Some (e\<lparr>vmodified := True, cy := (if cy e \<ge> nlines e then nlines e - 1 else cy e)\<rparr>) }
      else Some e)"

definition vi_merge :: "vi \<Rightarrow> vi option" where
  "vi_merge e = do {
     let plen = rlen (vlines e ! (cy e - 1));
     b \<leftarrow> row_cat (rstr (vlines e ! cy e)) (vlines e ! (cy e - 1));
     e' \<leftarrow> rows_delete (cy e) (e\<lparr>vlines := (vlines e)[cy e - 1 := b]\<rparr>);
     Some (e'\<lparr>cy := cy e - 1, cx := plen, vmodified := True\<rparr>) }"

definition vi_newline :: "vi \<Rightarrow> vi option" where
  "vi_newline e =
     (if nlines e < VI_ROWS + 2 then do {
        rs \<leftarrow> rows_down (cy e + 1) (nlines e) (vlines e);
        s \<leftarrow> row_from (cx e) (rs ! cy e);
        b \<leftarrow> row_cp s (rs ! (cy e + 1));
        Some (e\<lparr>vlines := rs[cy e + 1 := b, cy e := (rs ! cy e)[cx e := CHR 0x00]], nlines := nlines e + 1,
                cy := cy e + 1, cx := 0, vmodified := True\<rparr>) }
      else Some e)"

definition vi_insert :: "int \<Rightarrow> vi \<Rightarrow> vi option" where
  "vi_insert c e =
     (if c = 27 then Some (e\<lparr>vmode := VI_NORMAL, cx := cx e - 1\<rparr>)
      else if c = KEY_LEFT then Some (e\<lparr>cx := cx e - 1\<rparr>)
      else if c = KEY_RIGHT then Some (if cx e < cur_len e then e\<lparr>cx := cx e + 1\<rparr> else e)
      else if c = KEY_UP then Some (e\<lparr>cy := cy e - 1\<rparr>)
      else if c = KEY_DOWN then Some (if cy e < nlines e - 1 then e\<lparr>cy := cy e + 1\<rparr> else e)
      else if c = KEY_HOME then Some (e\<lparr>cx := 0\<rparr>)
      else if c = KEY_END then Some (e\<lparr>cx := cur_len e\<rparr>)
      else if c = 8 then
        (if cx e > 0 then
           Some (e\<lparr>vlines := (vlines e)[cy e := row_backspace (cx e) (vlines e ! cy e)], cx := cx e - 1,
                   vmodified := True\<rparr>)
         else if cy e > 0 then vi_merge e
         else Some e)
      else if c = 10 then vi_newline e
      else if c \<ge> 32 \<and> c < 127 then
        (if cur_len e < VI_COLS - 2 then do {
           b \<leftarrow> row_insert (cx e) (char_of (nat c)) (vlines e ! cy e);
           Some (e\<lparr>vlines := (vlines e)[cy e := b], cx := cx e + 1, vmodified := True\<rparr>) }
         else Some e)
      else Some e)"

definition vi_cmd :: "int \<Rightarrow> vi \<Rightarrow> vi" where
  "vi_cmd c e =
     (if c = 27 then e\<lparr>vmode := VI_NORMAL, cmd_buf := []\<rparr>
      else if c = 8 then e\<lparr>cmd_buf := butlast (cmd_buf e)\<rparr>
      else if c \<ge> 32 \<and> c < 127 \<and> length (cmd_buf e) < 63 then e\<lparr>cmd_buf := cmd_buf e @ [char_of (nat c)]\<rparr>
      else e)"

subsection \<open>The screen\<close>

definition invert_cell :: "u16 \<Rightarrow> u16" where
  "invert_cell w =
     (let col2 = drop_bit 8 w; fg2 = col2 AND 0xF; bg2 = drop_bit 4 col2 AND 0xF
      in (w AND 0xFF) OR push_bit 8 (push_bit 4 fg2 OR bg2))"

definition vi_row_draw :: "nat \<Rightarrow> string \<Rightarrow> vga \<Rightarrow> vga" where
  "vi_row_draw r b =
     (let lb = kia_str (int r + 1) in
      seqs [vset C_DGREY C_BLACK, fold vpc (replicate (3 - length lb) CHR '' ''), vps lb, vpc CHR '' '',
            vset C_WHITE C_BLACK, vps (rstr b), vpc CHR 0x0A])"

definition vi_status :: "vi \<Rightarrow> vga \<Rightarrow> vga" where
  "vi_status e =
     (let bar = COL C_BLACK C_CYAN in
      seqs [vfill 0 (VGA_H - 2) VGA_W 1 CHR '' '' bar,
        (case vmode e of
           VI_NORMAL \<Rightarrow> vstr 1 (VGA_H - 2) bar ''NORMAL  i=insert  :w=save  :q=quit  :wq=save+quit  dd=del  /=search''
         | VI_INSERT \<Rightarrow> vstr 1 (VGA_H - 2) (COL C_WHITE C_BLUE) ''-- INSERT -- ESC=normal  arrows=move''
         | VI_CMD \<Rightarrow> seqs [vstr 1 (VGA_H - 2) bar '':'', vstr 2 (VGA_H - 2) bar (cmd_buf e)])])"

definition vi_cursor :: "vi \<Rightarrow> vga \<Rightarrow> vga" where
  "vi_cursor e v =
     (let x = 4 + int (cx e); y = 1 + int (cy e) in
      if x < VGA_W \<and> y < VGA_H - 2
      then v\<lparr>VGA_MEM := (VGA_MEM v)(cell x y := invert_cell (VGA_MEM v (cell x y)))\<rparr> else v)"

definition vi_draw :: "string \<Rightarrow> vi \<Rightarrow> vga \<Rightarrow> vga" where
  "vi_draw path e =
     (let tb = COL C_BLACK C_LGREY in
      seqs [vclear, vfill 0 0 VGA_W 1 CHR '' '' tb, vstr 1 0 tb ''  pi - '', vstr 7 0 tb path,
        if vmodified e then vstr (VGA_W - 12) 0 (COL C_RED C_LGREY) '' [Modified]'' else id,
        (\<lambda>v. v\<lparr>vx := 0, vy := 1\<rparr>),
        fold (\<lambda>r. vi_row_draw r (vlines e ! r)) [0 ..< min VI_ROWS (nlines e)],
        vi_status e, vi_cursor e, vga_update_hw_cursor])"

subsection \<open>The loop\<close>

definition vi_done :: "int list \<Rightarrow> 'a tty_scheme \<Rightarrow> 'a tty_scheme ctl option" where
  "vi_done cs st = Some (Returned (pr (seqs [vclear, vrst]) (st\<lparr>keys := cs\<rparr>)))"

definition vi_cmd_end :: "vi \<Rightarrow> vi" where
  "vi_cmd_end e = e\<lparr>vmode := VI_NORMAL, cmd_buf := []\<rparr>"

function vi_loop :: "int list \<Rightarrow> string \<Rightarrow> vi \<Rightarrow> 'a tty_scheme \<Rightarrow> 'a tty_scheme ctl option" where
  "vi_loop ks path e st =
     (case ks of
        [] \<Rightarrow> Some Waiting
      | c # cs \<Rightarrow>
          (case vmode e of
             VI_NORMAL \<Rightarrow>
               if c = 100 then
                 (case cs of
                    [] \<Rightarrow> Some Waiting
                  | c2 # cs2 \<Rightarrow> do { e \<leftarrow> vi_dd c2 e; vi_loop cs2 path e (pr (vi_draw path e) st) })
               else do { e \<leftarrow> vi_normal c e; vi_loop cs path e (pr (vi_draw path e) st) }
           | VI_INSERT \<Rightarrow> do { e \<leftarrow> vi_insert c e; vi_loop cs path e (pr (vi_draw path e) st) }
           | VI_CMD \<Rightarrow>
               if c = 10 then
                 (if cmd_buf e = ''q!'' \<or> cmd_buf e = ''q'' then vi_done cs st
                  else if cmd_buf e = ''w'' \<or> cmd_buf e = ''wq'' \<or> cmd_buf e = ''x'' then do {
                    out_buf \<leftarrow> fits 4096 (vi_text e);
                    st \<leftarrow> store_file path out_buf st;
                    let e' = e\<lparr>vmodified := False\<rparr>;
                    if cmd_buf e = ''wq'' \<or> cmd_buf e = ''x'' then vi_done cs st
                    else vi_loop cs path (vi_cmd_end e') (pr (vi_draw path (vi_cmd_end e')) st) }
                  else vi_loop cs path (vi_cmd_end e) (pr (vi_draw path (vi_cmd_end e)) st))
               else vi_loop cs path (vi_cmd c e) (pr (vi_draw path (vi_cmd c e)) st)))"
  by pat_completeness auto
termination
  by (relation "measure (\<lambda>(ks, path, e, st). length ks)") auto

declare vi_loop.simps [simp del]

definition cmd_vi :: "string list \<Rightarrow> string \<Rightarrow> string \<Rightarrow> 'a tty_scheme \<Rightarrow> 'a tty_scheme ctl option" where
  "cmd_vi junk cwd f st = do {
     path \<leftarrow> edit_path cwd f;
     t \<leftarrow> edit_load 4096 path st;
     let e = vi_init junk t;
     vi_loop (keys st) path e (pr (vi_draw path e) st) }"

section \<open>Rows as strings\<close>

definition row_ok :: "string \<Rightarrow> bool" where
  "row_ok b \<longleftrightarrow> length b = 78 \<and> CHR 0x00 \<in> set b"

lemma rstr_append: "cstr s \<Longrightarrow> rstr (s @ CHR 0x00 # t) = s"
  unfolding rstr_def cstr_def by (induction s) auto

lemma cstr_rstr [simp]: "cstr (rstr b)"
  by (auto simp: rstr_def cstr_def dest: set_takeWhileD)

lemma takeWhile_stops: "x \<in> set xs \<Longrightarrow> \<not> P x \<Longrightarrow> length (takeWhile P xs) < length xs"
  by (induction xs) auto

lemma rlen_less: "row_ok b \<Longrightarrow> rlen b < 78"
  using takeWhile_stops[of "CHR 0x00" b "\<lambda>c. c \<noteq> CHR 0x00"] by (simp add: row_ok_def rstr_def)

lemma row_split:
  assumes "row_ok b"
  shows "b = rstr b @ CHR 0x00 # drop (rlen b + 1) b"
proof -
  have "b ! rlen b = CHR 0x00"
    using nth_length_takeWhile[of "\<lambda>c. c \<noteq> CHR 0x00" b] rlen_less[OF assms] assms
    by (simp add: rstr_def row_ok_def)
  moreover have "take (rlen b) b = rstr b"
    by (simp add: rstr_def takeWhile_eq_take[symmetric])
  ultimately show ?thesis
    using rlen_less[OF assms] assms id_take_nth_drop[of "rlen b" b] by (simp add: row_ok_def)
qed

lemma row_view:
  assumes "row_ok b"
  obtains s t where "b = s @ CHR 0x00 # t" "length s + length t = 77" "cstr s" "rstr b = s"
proof (rule that[of "rstr b" "drop (rlen b + 1) b"])
  show "b = rstr b @ CHR 0x00 # drop (rlen b + 1) b" by (rule row_split[OF assms])
  show "length (rstr b) + length (drop (rlen b + 1) b) = 77"
    using assms rlen_less[OF assms] by (simp add: row_ok_def)
qed simp_all

lemma row_okI: "length s + length t = 77 \<Longrightarrow> row_ok (s @ CHR 0x00 # t)"
  by (simp add: row_ok_def)

lemma row_cp_ok:
  assumes "row_ok b" "length s < 78" "cstr s"
  shows "\<exists>b'. row_cp s b = Some b' \<and> row_ok b' \<and> rstr b' = s"
  using assms by (auto simp: row_cp_def rstr_append row_ok_def)

lemma row_clear_ok:
  assumes "length b = 78"
  shows "row_ok (row_clear b)" "rstr (row_clear b) = []"
proof -
  obtain c t where "b = c # t" using assms by (cases b) auto
  then show "row_ok (row_clear b)" "rstr (row_clear b) = []"
    using assms by (simp_all add: row_clear_def row_ok_def rstr_def)
qed

lemma row_insert_ok:
  assumes "row_ok b" "x \<le> rlen b" "rlen b < 76" "c \<noteq> CHR 0x00"
  shows "\<exists>b'. row_insert x c b = Some b' \<and> row_ok b' \<and> rstr b' = take x (rstr b) @ c # drop x (rstr b)"
proof -
  obtain s t where b: "b = s @ CHR 0x00 # t" "length s + length t = 77" "cstr s" and s: "rstr b = s"
    by (rule row_view[OF assms(1)])
  have x: "x \<le> length s" "length s < 76" using assms(2,3) by (simp_all add: s)
  let ?n = "take x s @ c # drop x s"
  have "take x b @ [b ! x] @ take (length s - x) (drop x b) @ drop (length s + 1) b = take x s @ [b ! x] @ drop x s @ t"
    using x(1) by (simp add: b(1))
  then have "row_insert x c b = Some ((take x s @ [b ! x] @ drop x s @ t)[x := c, length s + 1 := CHR 0x00])"
    using x by (simp add: row_insert_def Let_def s)
  also have "(take x s @ [b ! x] @ drop x s @ t)[x := c, length s + 1 := CHR 0x00] = ?n @ CHR 0x00 # tl t"
  proof -
    have "(take x s @ [b ! x] @ drop x s @ t)[x := c] = ?n @ t"
      using x(1) by (simp add: list_update_append)
    moreover obtain u us where "t = u # us" using b(2) x(2) by (cases t) auto
    ultimately show ?thesis using x(1) by (simp add: list_update_append Suc_diff_le)
  qed
  finally have "row_insert x c b = Some (?n @ CHR 0x00 # tl t)" .
  moreover have "row_ok (?n @ CHR 0x00 # tl t)" using b(2) x by (simp add: row_ok_def)
  moreover have "cstr ?n" using b(3) assms(4) by (auto simp: cstr_def dest: in_set_takeD in_set_dropD)
  then have "rstr (?n @ CHR 0x00 # tl t) = ?n" by (rule rstr_append)
  ultimately show ?thesis by (auto simp: s)
qed

lemma row_backspace_ok:
  assumes "row_ok b" "0 < x" "x \<le> rlen b"
  shows "row_ok (row_backspace x b) \<and> rstr (row_backspace x b) = take (x - 1) (rstr b) @ drop x (rstr b)"
proof -
  obtain s t where b: "b = s @ CHR 0x00 # t" "length s + length t = 77" "cstr s" and s: "rstr b = s"
    by (rule row_view[OF assms(1)])
  let ?n = "take (x - 1) s @ drop x s"
  have "row_backspace x b = ?n @ CHR 0x00 # CHR 0x00 # t"
    using assms(2,3) by (simp add: row_backspace_def Let_def s) (simp add: b(1) Suc_diff_le)
  moreover have "cstr ?n" using b(3) by (auto simp: cstr_def dest: in_set_takeD in_set_dropD)
  ultimately show ?thesis
    using rstr_append[of ?n "CHR 0x00 # t"] b(2) assms(2,3) by (simp add: s row_ok_def)
qed

section \<open>Moving rows\<close>

definition rows_ok :: "string list \<Rightarrow> bool" where
  "rows_ok rs \<longleftrightarrow> length rs = 24 \<and> (\<forall>k < 23. row_ok (rs ! k))"

lemma rows_ok_update: "rows_ok rs \<Longrightarrow> row_ok b \<Longrightarrow> rows_ok (rs[k := b])"
  by (cases "k < length rs") (auto simp: rows_ok_def nth_list_update list_update_beyond)

lemma row_copy_ok:
  assumes "rows_ok rs" "k < 23" "r < 23"
  shows "\<exists>b. row_cp (rstr (rs ! k)) (rs ! r) = Some b \<and> row_ok b \<and> rstr b = rstr (rs ! k)"
  using row_cp_ok[of "rs ! r" "rstr (rs ! k)"] assms rlen_less by (simp add: rows_ok_def)

lemma rows_up_ok:
  assumes "rows_ok rs" "i \<le> j" "j < 23"
  shows "\<exists>rs'. rows_up i j rs = Some rs' \<and> rows_ok rs' \<and>
    (\<forall>k < 23. rstr (rs' ! k) = rstr (rs ! (if i \<le> k \<and> k < j then k + 1 else k)))"
  using assms(2,3)
proof (induction j rule: dec_induct)
  case base
  then show ?case using assms(1) by (auto simp: rows_up_def)
next
  case (step n)
  then obtain rs1 where r1: "rows_up i n rs = Some rs1" "rows_ok rs1"
      "\<forall>k < 23. rstr (rs1 ! k) = rstr (rs ! (if i \<le> k \<and> k < n then k + 1 else k))" by auto
  obtain b where b: "row_cp (rstr (rs1 ! (n + 1))) (rs1 ! n) = Some b" "row_ok b" "rstr b = rstr (rs1 ! (n + 1))"
    using row_copy_ok[OF r1(2), of "n + 1" n] step.prems by auto
  have "rows_up i (Suc n) rs = Some (rs1[n := b])"
    using r1(1) b(1) step.hyps by (simp add: rows_up_def ofold_append)
  moreover have "length rs1 = 24" using r1(2) by (simp add: rows_ok_def)
  ultimately show ?case
    using rows_ok_update[OF r1(2) b(2)] r1(3) b(3) step.prems step.hyps
    by (auto simp: nth_list_update less_Suc_eq)
qed

lemma rows_down_ok:
  assumes "rows_ok rs" "i \<le> j" "j < 23"
  shows "\<exists>rs'. rows_down i j rs = Some rs' \<and> rows_ok rs' \<and>
    (\<forall>k < 23. rstr (rs' ! k) = rstr (rs ! (if i < k \<and> k \<le> j then k - 1 else k)))"
  using assms(2,3,1)
proof (induction j arbitrary: rs rule: dec_induct)
  case base
  then show ?case by (auto simp: rows_down_def)
next
  case (step n)
  obtain b where b: "row_cp (rstr (rs ! n)) (rs ! Suc n) = Some b" "row_ok b" "rstr b = rstr (rs ! n)"
    using row_copy_ok[OF step.prems(2), of n "Suc n"] step.prems by auto
  have l: "length rs = 24" using step.prems(2) by (simp add: rows_ok_def)
  obtain rs' where r: "rows_down i n (rs[Suc n := b]) = Some rs'" "rows_ok rs'"
      "\<forall>k < 23. rstr (rs' ! k) = rstr (rs[Suc n := b] ! (if i < k \<and> k \<le> n then k - 1 else k))"
    using step.IH[OF _ rows_ok_update[OF step.prems(2) b(2), of "Suc n"]] step.prems by auto
  have "rows_down i (Suc n) rs = Some rs'"
    using r(1) b(1) step.hyps by (simp add: rows_down_def)
  then show ?case
    using r(2,3) b(3) step.prems step.hyps l by (auto simp: nth_list_update le_Suc_eq)
qed

section \<open>The editor as a list of lines\<close>

definition vi_ok :: "vi \<Rightarrow> bool" where
  "vi_ok e \<longleftrightarrow> rows_ok (vlines e) \<and> 1 \<le> nlines e \<and> nlines e \<le> 22 \<and> cy e < nlines e \<and>
     length (cmd_buf e) \<le> 63"

definition vi_inside :: "vi \<Rightarrow> bool" where
  "vi_inside e \<longleftrightarrow> cx e \<le> cur_len e"

definition alines :: "vi \<Rightarrow> string list" where
  "alines e = map rstr (take (nlines e) (vlines e))"

lemma vi_okD:
  assumes "vi_ok e"
  shows "length (vlines e) = 24" "nlines e \<le> 22" "cy e < nlines e" "rows_ok (vlines e)"
    "k < 23 \<Longrightarrow> row_ok (vlines e ! k)"
  using assms by (simp_all add: vi_ok_def rows_ok_def)

lemma alines_length: "vi_ok e \<Longrightarrow> length (alines e) = nlines e"
  using vi_okD(1,2)[of e] by (simp add: alines_def)

lemma alines_nth: "vi_ok e \<Longrightarrow> k < nlines e \<Longrightarrow> alines e ! k = rstr (vlines e ! k)"
  using vi_okD(1,2)[of e] by (simp add: alines_def)

text \<open>Rows that agree as strings with a rearrangement of the old rows.\<close>

lemma alines_eqI:
  assumes "length (vlines e') = 24" "nlines e' \<le> 22" "length ls = nlines e'"
    and "\<And>k. k < nlines e' \<Longrightarrow> rstr (vlines e' ! k) = ls ! k"
  shows "alines e' = ls"
  using assms by (intro nth_equalityI) (simp_all add: alines_def)

lemma nth_delete: "i < length ls \<Longrightarrow> k < length ls - 1 \<Longrightarrow>
    (take i ls @ drop (i + 1) ls) ! k = ls ! (if i \<le> k then k + 1 else k)"
  by (auto simp: nth_append min_def)

lemma nth_insert: "i \<le> length ls \<Longrightarrow> k \<le> length ls \<Longrightarrow>
    (take i ls @ x # drop i ls) ! k = (if k = i then x else ls ! (if i < k then k - 1 else k))"
  by (auto simp: nth_append min_def nth_Cons')

lemma nth_split_line: "y < length ls \<Longrightarrow> k \<le> length ls \<Longrightarrow>
    (take y ls @ [a, b] @ drop (y + 1) ls) ! k =
      (if k = y then a else if k = y + 1 then b else ls ! (if y + 1 < k then k - 1 else k))"
  using less_imp_Suc_add[of "y + 1" k] by (auto simp: nth_append nth_Cons' min_def)

lemma rows_delete_ok:
  assumes ok: "vi_ok e" and i: "i < nlines e" "1 < nlines e"
  shows "\<exists>e'. rows_delete i e = Some e' \<and> rows_ok (vlines e') \<and> nlines e' = nlines e - 1 \<and>
    alines e' = take i (alines e) @ drop (i + 1) (alines e) \<and>
    vmode e' = vmode e \<and> cmd_buf e' = cmd_buf e \<and> cy e' = cy e \<and> cx e' = cx e"
proof -
  note d = vi_okD[OF ok]
  obtain rs where rs: "rows_up i (nlines e - 1) (vlines e) = Some rs" "rows_ok rs"
      "\<forall>k < 23. rstr (rs ! k) = rstr (vlines e ! (if i \<le> k \<and> k < nlines e - 1 then k + 1 else k))"
    using rows_up_ok[OF d(4), of i "nlines e - 1"] i d(2) by fastforce
  define e' where "e' = e\<lparr>vlines := rs[nlines e - 1 := row_clear (rs ! (nlines e - 1))], nlines := nlines e - 1\<rparr>"
  have r: "row_ok (row_clear (rs ! (nlines e - 1)))"
    using rs(2) d(2) row_clear_ok(1)[of "rs ! (nlines e - 1)"] by (auto simp: rows_ok_def row_ok_def)
  have ro: "rows_ok (vlines e')" using rows_ok_update[OF rs(2) r] by (simp add: e'_def)
  have "alines e' = take i (alines e) @ drop (i + 1) (alines e)"
  proof (rule alines_eqI)
    fix k assume k: "k < nlines e'"
    then have "rstr (vlines e' ! k) = alines e ! (if i \<le> k then k + 1 else k)"
      using rs(3) d(2) i alines_nth[OF ok] by (simp add: e'_def)
    then show "rstr (vlines e' ! k) = (take i (alines e) @ drop (i + 1) (alines e)) ! k"
      using nth_delete[of i "alines e" k] alines_length[OF ok] i k by (simp add: e'_def)
  qed (use ro d(2) i alines_length[OF ok] in \<open>auto simp: e'_def rows_ok_def\<close>)
  then show ?thesis using rs(1) ro by (auto simp: rows_delete_def e'_def)
qed

lemma rows_down_lines:
  assumes ok: "vi_ok e" and i: "i \<le> nlines e" "nlines e < 22"
  shows "\<exists>rs. rows_down i (nlines e) (vlines e) = Some rs \<and> rows_ok rs \<and>
    (\<forall>k \<le> nlines e. rstr (rs ! k) = alines e ! (if i < k then k - 1 else k) \<or> k = i \<and> i = nlines e)"
proof -
  note d = vi_okD[OF ok]
  obtain rs where rs: "rows_down i (nlines e) (vlines e) = Some rs" "rows_ok rs"
      "\<forall>k < 23. rstr (rs ! k) = rstr (vlines e ! (if i < k \<and> k \<le> nlines e then k - 1 else k))"
    using rows_down_ok[OF d(4) i(1)] i(2) by fastforce
  have "rstr (rs ! k) = alines e ! (if i < k then k - 1 else k) \<or> k = i \<and> i = nlines e" if "k \<le> nlines e" for k
    using rs(3) that i alines_nth[OF ok, of "if i < k then k - 1 else k"] by (cases "k = nlines e") auto
  then show ?thesis using rs by blast
qed

lemma vi_open_ok:
  assumes ok: "vi_ok e" and i: "i \<le> nlines e" "nlines e < 22"
  shows "\<exists>e'. vi_open i e = Some e' \<and> vi_ok e' \<and> alines e' = take i (alines e) @ [] # drop i (alines e) \<and>
    cy e' = i \<and> cx e' = 0"
proof -
  obtain rs where rs: "rows_down i (nlines e) (vlines e) = Some rs" "rows_ok rs"
      "\<And>k. k \<le> nlines e \<Longrightarrow> rstr (rs ! k) = alines e ! (if i < k then k - 1 else k) \<or> k = i \<and> i = nlines e"
    using rows_down_lines[OF assms] by blast
  define e' where "e' = e\<lparr>vlines := rs[i := row_clear (rs ! i)], nlines := nlines e + 1, cy := i, cx := 0,
    vmode := VI_INSERT, vmodified := True\<rparr>"
  have l: "length rs = 24" "length (rs ! i) = 78" using rs(2) i by (auto simp: rows_ok_def row_ok_def)
  have ro: "rows_ok (vlines e')"
    using rows_ok_update[OF rs(2) row_clear_ok(1)[OF l(2)]] by (simp add: e'_def)
  have "alines e' = take i (alines e) @ [] # drop i (alines e)"
  proof (rule alines_eqI)
    fix k assume k: "k < nlines e'"
    then have "rstr (vlines e' ! k) = (if k = i then [] else alines e ! (if i < k then k - 1 else k))"
      using rs(3)[of k] l row_clear_ok(2)[OF l(2)] i by (auto simp: e'_def nth_list_update)
    then show "rstr (vlines e' ! k) = (take i (alines e) @ [] # drop i (alines e)) ! k"
      using nth_insert[of i "alines e" k "[]"] alines_length[OF ok] i(1) k by (simp add: e'_def)
  qed (use ro i alines_length[OF ok] in \<open>auto simp: e'_def rows_ok_def\<close>)
  moreover have "vi_ok e'" using ok ro i by (simp add: vi_ok_def e'_def)
  ultimately show ?thesis using rs(1) i(2) by (auto simp: vi_open_def e'_def)
qed

lemma row_from_ok:
  assumes "row_ok b" "x \<le> rlen b"
  shows "row_from x b = Some (drop x (rstr b))"
proof -
  obtain s t where b: "b = s @ CHR 0x00 # t" "cstr s" "rstr b = s" by (rule row_view[OF assms(1)])
  have x: "x \<le> length s" using assms(2) b(3) by simp
  then have "drop x b = drop x s @ CHR 0x00 # t" by (simp add: b(1))
  then show ?thesis
    using rstr_append[OF cstr_drop[OF b(2)], of x t] by (simp add: row_from_def b(3))
qed

lemma row_cut_ok:
  assumes "row_ok b" "x \<le> rlen b"
  shows "row_ok (b[x := CHR 0x00])" "rstr (b[x := CHR 0x00]) = take x (rstr b)"
proof -
  obtain s t where b: "b = s @ CHR 0x00 # t" "length s + length t = 77" "cstr s" "rstr b = s"
    by (rule row_view[OF assms(1)])
  have x: "x \<le> length s" using assms(2) b(4) by simp
  have u: "b[x := CHR 0x00] = take x b @ CHR 0x00 # drop (Suc x) b"
    by (rule upd_conv_take_nth_drop) (use b(1) x in simp)
  then show "row_ok (b[x := CHR 0x00])" using b(2) x by (auto simp: row_ok_def b(1))
  have "take x b = take x s" using x by (simp add: b(1))
  then show "rstr (b[x := CHR 0x00]) = take x (rstr b)"
    using rstr_append[OF cstr_take[OF b(3)], of x] by (simp add: u b(4))
qed

lemma alines_update:
  "k < nlines e \<Longrightarrow> alines (e\<lparr>vlines := (vlines e)[k := b]\<rparr>) = (alines e)[k := rstr b]"
  by (simp add: alines_def take_update_swap map_update)

lemma alines_cong: "vlines e' = vlines e \<Longrightarrow> nlines e' = nlines e \<Longrightarrow> alines e' = alines e"
  by (simp add: alines_def)

text \<open>What the keys of the insert mode do to a list of lines with a cursor in it. Joining two lines is
  defined only when the result fits a row.\<close>

type_synonym aview = "string list \<times> nat \<times> nat"

definition aview :: "vi \<Rightarrow> aview" where
  "aview e = (alines e, cy e, cx e)"

fun ed_step :: "int \<Rightarrow> aview \<Rightarrow> aview option" where
  "ed_step c (ls, y, x) =
     (let l = ls ! y in
      if c = 27 \<or> c = KEY_LEFT then Some (ls, y, x - 1)
      else if c = KEY_RIGHT then Some (ls, y, min (x + 1) (length l))
      else if c = KEY_HOME then Some (ls, y, 0)
      else if c = KEY_END then Some (ls, y, length l)
      else if c = 8 then
        (if x > 0 then Some (ls[y := take (x - 1) l @ drop x l], y, x - 1)
         else if y > 0 then
           (if length (ls ! (y - 1)) + length l < 78
            then Some (take (y - 1) ls @ [ls ! (y - 1) @ l] @ drop (y + 1) ls, y - 1, length (ls ! (y - 1)))
            else None)
         else Some (ls, y, x))
      else if c = 10 then
        (if length ls < 22 then Some (take y ls @ [take x l, drop x l] @ drop (y + 1) ls, y + 1, 0)
         else Some (ls, y, x))
      else if c \<ge> 32 \<and> c < 127 \<and> length l < 76 then
        Some (ls[y := take x l @ char_of (nat c) # drop x l], y, x + 1)
      else Some (ls, y, x))"

definition ed_refines :: "vi option \<Rightarrow> aview option \<Rightarrow> bool" where
  "ed_refines r a \<longleftrightarrow> (case (r, a) of
     (None, None) \<Rightarrow> True
   | (Some e', Some v) \<Rightarrow> vi_ok e' \<and> vi_inside e' \<and> aview e' = v
   | _ \<Rightarrow> False)"

lemma vi_char_refines:
  assumes ok: "vi_ok e" "vi_inside e" and c: "c \<ge> 32" "c < 127"
  shows "ed_refines (vi_insert c e) (ed_step c (aview e))"
proof -
  note d = vi_okD[OF ok(1)]
  have r: "row_ok (vlines e ! cy e)" "alines e ! cy e = rstr (vlines e ! cy e)"
    using d alines_nth[OF ok(1)] by simp_all
  show ?thesis
  proof (cases "cur_len e < 76")
    case True
    obtain b where b: "row_insert (cx e) (char_of (nat c)) (vlines e ! cy e) = Some b" "row_ok b"
        "rstr b = take (cx e) (rstr (vlines e ! cy e)) @ char_of (nat c) # drop (cx e) (rstr (vlines e ! cy e))"
      using row_insert_ok[OF r(1) _ True char_of_key[of c], of "cx e"] ok(2) c by (auto simp: vi_inside_def)
    show ?thesis
      using b c True ok rows_ok_update[OF d(4) b(2)] d(1-3) r(2) alines_update[OF d(3), of b]
      by (simp add: ed_refines_def vi_insert_def aview_def vi_ok_def vi_inside_def alines_def Let_def)
  qed (use c r ok in \<open>simp add: ed_refines_def vi_insert_def aview_def\<close>)
qed

lemma vi_backspace_refines:
  assumes ok: "vi_ok e" "vi_inside e" and x: "0 < cx e"
  shows "ed_refines (vi_insert 8 e) (ed_step 8 (aview e))"
proof -
  note d = vi_okD[OF ok(1)]
  have r: "row_ok (vlines e ! cy e)" "alines e ! cy e = rstr (vlines e ! cy e)"
    using d alines_nth[OF ok(1)] by simp_all
  let ?b = "row_backspace (cx e) (vlines e ! cy e)"
  have b: "row_ok ?b" "rstr ?b = take (cx e - 1) (rstr (vlines e ! cy e)) @ drop (cx e) (rstr (vlines e ! cy e))"
    using row_backspace_ok[OF r(1) x] ok(2) by (simp_all add: vi_inside_def)
  show ?thesis
    using b x ok rows_ok_update[OF d(4) b(1)] d(1-3) r(2) alines_update[OF d(3), of ?b]
    by (simp add: ed_refines_def vi_insert_def aview_def vi_ok_def vi_inside_def alines_def Let_def)
qed

lemma vi_newline_refines:
  assumes ok: "vi_ok e" "vi_inside e"
  shows "ed_refines (vi_insert 10 e) (ed_step 10 (aview e))"
proof (cases "nlines e < 22")
  case True
  note d = vi_okD[OF ok(1)]
  define y l where "y = cy e" and "l = alines e ! cy e"
  have l: "l = rstr (vlines e ! y)" "y < nlines e" "length (alines e) = nlines e"
    using alines_nth[OF ok(1)] alines_length[OF ok(1)] d(3) by (simp_all add: l_def y_def)
  have x: "cx e \<le> length l" using ok(2) l by (simp add: vi_inside_def y_def)
  obtain rs where rs: "rows_down (y + 1) (nlines e) (vlines e) = Some rs" "rows_ok rs"
      "\<And>k. k \<le> nlines e \<Longrightarrow> rstr (rs ! k) = alines e ! (if y + 1 < k then k - 1 else k) \<or> k = y + 1 \<and> y + 1 = nlines e"
    using rows_down_lines[OF ok(1), of "y + 1"] l(2) True by auto
  have ry: "row_ok (rs ! y)" "row_ok (rs ! (y + 1))" "length rs = 24" "rstr (rs ! y) = l"
    using rs(2) rs(3)[of y] l True by (auto simp: rows_ok_def l_def y_def)
  have xl: "cx e \<le> rlen (rs ! y)" using x ry(4) by simp
  obtain b where b: "row_cp (drop (cx e) l) (rs ! (y + 1)) = Some b" "row_ok b" "rstr b = drop (cx e) l"
    using row_cp_ok[OF ry(2), of "drop (cx e) l"] rlen_less[OF ry(1)] ry(4) cstr_drop[OF cstr_rstr, of "cx e" "rs ! y"]
    by (auto simp: less_imp_diff_less)
  define rs' where "rs' = rs[y + 1 := b, y := (rs ! y)[cx e := CHR 0x00]]"
  define e' where "e' = e\<lparr>vlines := rs', nlines := nlines e + 1, cy := y + 1, cx := 0, vmodified := True\<rparr>"
  note cut = row_cut_ok[OF ry(1) xl]
  have ro: "rows_ok rs'" unfolding rs'_def by (intro rows_ok_update rs(2) b(2) cut(1))
  have e: "vi_insert 10 e = Some e'"
    using True rs(1) row_from_ok[OF ry(1) xl] ry(4) b(1)
    by (simp add: vi_insert_def vi_newline_def e'_def rs'_def y_def)
  have "alines e' = take y (alines e) @ [take (cx e) l, drop (cx e) l] @ drop (y + 1) (alines e)"
  proof (rule alines_eqI)
    fix k assume "k < nlines e'"
    then have k: "k \<le> nlines e" by (simp add: e'_def)
    have "rstr (vlines e' ! k) = (if k = y then take (cx e) l else if k = y + 1 then drop (cx e) l
        else alines e ! (if y + 1 < k then k - 1 else k))"
      using rs(3)[OF k] k True ry b(3) cut(2) by (auto simp: e'_def rs'_def nth_list_update)
    then show "rstr (vlines e' ! k) = (take y (alines e) @ [take (cx e) l, drop (cx e) l] @ drop (y + 1) (alines e)) ! k"
      using nth_split_line[of y "alines e" k] l k by simp
  qed (use ro True l in \<open>auto simp: e'_def rows_ok_def\<close>)
  moreover have "vi_ok e'" "vi_inside e'" using ok(1) ro True l(2) by (simp_all add: vi_ok_def e'_def vi_inside_def)
  moreover have "ed_step 10 (aview e) =
      Some (take y (alines e) @ [take (cx e) l, drop (cx e) l] @ drop (y + 1) (alines e), y + 1, 0)"
    using True l(3) by (simp add: aview_def Let_def y_def l_def)
  ultimately show ?thesis unfolding e by (simp add: ed_refines_def aview_def e'_def)
qed (use ok alines_length[OF ok(1)] in \<open>simp add: ed_refines_def vi_insert_def vi_newline_def aview_def Let_def\<close>)

lemma vi_merge_refines:
  assumes ok: "vi_ok e" and x: "cx e = 0" "0 < cy e"
  shows "ed_refines (vi_insert 8 e) (ed_step 8 (aview e))"
proof -
  note d = vi_okD[OF ok]
  define y p l where "y = cy e" and "p = rstr (vlines e ! (cy e - 1))" and "l = rstr (vlines e ! cy e)"
  have y: "0 < y" "y < nlines e" using d(3) x(2) by (simp_all add: y_def)
  have al: "alines e ! y = l" "alines e ! (y - 1) = p" "length (alines e) = nlines e"
    using alines_nth[OF ok] alines_length[OF ok] y by (simp_all add: l_def p_def y_def)
  have rp: "row_ok (vlines e ! (y - 1))" using d(2,5) y by simp
  show ?thesis
  proof (cases "length p + length l < 78")
    case True
    obtain b where b: "row_cat l (vlines e ! (y - 1)) = Some b" "row_ok b" "rstr b = p @ l"
      using row_cp_ok[OF rp, of "p @ l"] True by (auto simp: row_cat_def p_def l_def y_def)
    define e1 where "e1 = e\<lparr>vlines := (vlines e)[y - 1 := b]\<rparr>"
    have ok1: "vi_ok e1" using ok rows_ok_update[OF d(4) b(2)] by (simp add: vi_ok_def e1_def)
    have al1: "alines e1 = (alines e)[y - 1 := p @ l]"
      using alines_update[of "y - 1" e b] y b(3) by (simp add: e1_def)
    obtain e2 where e2: "rows_delete y e1 = Some e2" "rows_ok (vlines e2)" "nlines e2 = nlines e - 1"
        "alines e2 = take y (alines e1) @ drop (y + 1) (alines e1)" "cmd_buf e2 = cmd_buf e"
      using rows_delete_ok[OF ok1, of y] y by (auto simp: e1_def)
    define e' where "e' = e2\<lparr>cy := y - 1, cx := length p, vmodified := True\<rparr>"
    have e: "vi_insert 8 e = Some e'"
      using x b(1) e2(1) by (simp add: vi_insert_def vi_merge_def e'_def e1_def y_def l_def p_def Let_def)
    have a2: "alines e' = take (y - 1) (alines e) @ [p @ l] @ drop (y + 1) (alines e)"
    proof -
      have "take y ((alines e)[y - 1 := p @ l]) = take (y - 1) (alines e) @ [p @ l]"
        using y al(3) by (cases y) (simp_all add: take_Suc_conv_app_nth)
      moreover have "alines e' = alines e2" by (rule alines_cong) (simp_all add: e'_def)
      ultimately show ?thesis using e2(4) al1 y by simp
    qed
    have ok': "vi_ok e'" using ok e2 y by (auto simp: vi_ok_def e'_def)
    have "rstr (vlines e' ! (y - 1)) = p @ l"
      using alines_nth[OF ok', of "y - 1"] a2 y e2(3) al(3) by (simp add: e'_def nth_append)
    then have "vi_inside e'" by (simp add: vi_inside_def e'_def)
    then show ?thesis
      unfolding e using ok' a2 True al x by (simp add: ed_refines_def aview_def Let_def y_def [symmetric] e'_def)
  next
    case False
    then have "vi_insert 8 e = None"
      using x by (simp add: vi_insert_def vi_merge_def row_cat_def row_cp_def Let_def p_def l_def)
    then show ?thesis using False x al by (simp add: ed_refines_def aview_def Let_def y_def [symmetric])
  qed
qed

lemma vi_move_refines:
  assumes "vi_ok e" "vi_inside e" "c \<in> {27, KEY_LEFT, KEY_RIGHT, KEY_HOME, KEY_END}"
  shows "ed_refines (vi_insert c e) (ed_step c (aview e))"
proof -
  have l: "alines e ! cy e = rstr (vlines e ! cy e)" using alines_nth vi_okD(3) assms(1) by blast
  have v: "vi_ok (e\<lparr>cx := k\<rparr>) = vi_ok e" "vi_ok (e\<lparr>vmode := m, cx := k\<rparr>) = vi_ok e"
    "aview (e\<lparr>cx := k\<rparr>) = (alines e, cy e, k)" "aview (e\<lparr>vmode := m, cx := k\<rparr>) = (alines e, cy e, k)"
    "vi_inside (e\<lparr>cx := k\<rparr>) \<longleftrightarrow> k \<le> cur_len e" "vi_inside (e\<lparr>vmode := m, cx := k\<rparr>) \<longleftrightarrow> k \<le> cur_len e" for k m
    by (simp_all add: vi_ok_def aview_def vi_inside_def alines_def)
  have i: "cx e \<le> cur_len e" using assms(2) by (simp add: vi_inside_def)
  note d = ed_refines_def vi_insert_def Let_def v l assms(1,2)
  have a: "aview e = (alines e, cy e, cx e)" by (simp add: aview_def)
  have 1: "ed_refines (vi_insert 27 e) (ed_step 27 (aview e))" "ed_refines (vi_insert KEY_LEFT e) (ed_step KEY_LEFT (aview e))"
    "ed_refines (vi_insert KEY_HOME e) (ed_step KEY_HOME (aview e))" "ed_refines (vi_insert KEY_END e) (ed_step KEY_END (aview e))"
    unfolding a using i by (simp_all add: d)
  have 2: "ed_refines (vi_insert KEY_RIGHT e) (ed_step KEY_RIGHT (aview e))"
    unfolding a using i by (cases "cx e < cur_len e") (simp_all add: d a min_def)
  show ?thesis using assms(3) 1 2 by blast
qed

lemma vi_other_refines:
  assumes "vi_ok e" "vi_inside e" "c \<notin> {27, KEY_LEFT, KEY_RIGHT, KEY_UP, KEY_DOWN, KEY_HOME, KEY_END, 8, 10}"
    "\<not> (c \<ge> 32 \<and> c < 127)"
  shows "ed_refines (vi_insert c e) (ed_step c (aview e))"
  using assms by (auto simp: ed_refines_def vi_insert_def aview_def Let_def)

section \<open>Loading a text\<close>

text \<open>The lines of a text, at least one.\<close>

fun lines_of :: "string \<Rightarrow> string list" where
  "lines_of [] = [[]]"
| "lines_of (c # cs) = (if c = CHR 0x0A then [] # lines_of cs else (c # hd (lines_of cs)) # tl (lines_of cs))"

lemma lines_of_nonempty [simp]: "lines_of t \<noteq> []"
  by (cases t) auto

lemma join_lines_of: "join_nl (lines_of t) = t"
proof (induction t)
  case (Cons c t)
  then show ?case by (cases "lines_of t") (auto simp: join_nl_def)
qed (simp add: join_nl_def)

lemma row_append_ok:
  assumes "row_ok b" "rlen b < 77" "c \<noteq> CHR 0x00"
  shows "row_ok (b[rlen b := c, rlen b + 1 := CHR 0x00])" "rstr (b[rlen b := c, rlen b + 1 := CHR 0x00]) = rstr b @ [c]"
proof -
  obtain s t where b: "b = s @ CHR 0x00 # t" "length s + length t = 77" "cstr s" "rstr b = s"
    by (rule row_view[OF assms(1)])
  obtain u us where t: "t = u # us" using b(2,4) assms(2) by (cases t) auto
  have n: "b[rlen b := c, rlen b + 1 := CHR 0x00] = (s @ [c]) @ CHR 0x00 # us"
    by (simp add: b(4)) (simp add: b(1) t list_update_append)
  show "row_ok (b[rlen b := c, rlen b + 1 := CHR 0x00])" unfolding n using b(2) t by (simp add: row_ok_def)
  show "rstr (b[rlen b := c, rlen b + 1 := CHR 0x00]) = rstr b @ [c]"
    unfolding n using rstr_append[of "s @ [c]" us] b(3,4) assms(3) by simp
qed

lemma vi_split_ok:
  assumes "rows_ok rs" "1 \<le> n" "n + length (lines_of t) \<le> 22" "col = rlen (rs ! (n - 1))"
    and "col + length (hd (lines_of t)) \<le> 77" "\<forall>l \<in> set (tl (lines_of t)). length l \<le> 77" "cstr t"
    and "\<forall>k. n \<le> k \<and> k < 23 \<longrightarrow> rstr (rs ! k) = []"
  shows "\<exists>rs'. vi_split t n col rs = (n + length (lines_of t) - 1, rs') \<and> rows_ok rs' \<and>
    map rstr (take (n + length (lines_of t) - 1) rs') =
      map rstr (take (n - 1) rs) @ (rstr (rs ! (n - 1)) @ hd (lines_of t)) # tl (lines_of t)"
  using assms
proof (induction t arbitrary: n col rs)
  case Nil
  then have "n - 1 < length rs" by (simp add: rows_ok_def)
  then have "take n rs = take (n - 1) rs @ [rs ! (n - 1)]"
    using Nil.prems(2) by (metis Suc_pred' less_eq_Suc_le One_nat_def take_Suc_conv_app_nth)
  then show ?case using Nil.prems by simp
next
  case (Cons c t)
  let ?b = "rs ! (n - 1)"
  have rb: "row_ok ?b" "n - 1 < 23" "length rs = 24" "n < 22" "c \<noteq> CHR 0x00" "cstr t"
    using Cons.prems(1-3,7) lines_of_nonempty[of t]
    by (auto simp: rows_ok_def Suc_le_eq split: if_splits simp flip: length_greater_0_conv simp del: lines_of_nonempty)
  show ?case
  proof (cases "c = CHR 0x0A")
    case True
    let ?b' = "?b[col := CHR 0x00]" and ?rs = "rs[n - 1 := ?b[col := CHR 0x00]]"
    have b': "row_ok ?b'" "rstr ?b' = rstr ?b"
      using row_cut_ok[OF rb(1), of col] Cons.prems(4) by simp_all
    have ls: "lines_of (c # t) = [] # lines_of t" using True by simp
    have st: "vi_split (c # t) n col rs = vi_split t (n + 1) 0 ?rs" using True rb(4) by simp
    have hd: "length (hd (lines_of t)) \<le> 77" using Cons.prems(6) ls by (cases "lines_of t") auto
    have emp: "rstr (?rs ! k) = []" if "n \<le> k" "k < 23" for k
      using Cons.prems(2,8) that by simp
    obtain rs' where r: "vi_split t (n + 1) 0 ?rs = (n + 1 + length (lines_of t) - 1, rs')" "rows_ok rs'"
        "map rstr (take (n + 1 + length (lines_of t) - 1) rs') =
          map rstr (take n ?rs) @ (rstr (?rs ! n) @ hd (lines_of t)) # tl (lines_of t)"
      using Cons.IH[of ?rs "n + 1" 0] rows_ok_update[OF Cons.prems(1) b'(1)] Cons.prems(3,6) emp[of n] emp rb(4,6) hd ls
      by (auto simp: list.set_sel(2))
    have tk: "take n ?rs = take (n - 1) rs @ [?b']"
      using Cons.prems(2) rb(2,3) by (cases n) (simp_all add: take_Suc_conv_app_nth)
    show ?thesis
      unfolding st ls using r tk b'(2) emp[of n] rb(4) by simp
  next
    case False
    let ?b' = "?b[col := c, col + 1 := CHR 0x00]" and ?rs = "rs[n - 1 := ?b[col := c, col + 1 := CHR 0x00]]"
    have ls: "lines_of (c # t) = (c # hd (lines_of t)) # tl (lines_of t)" using False by simp
    then have col: "col < 77" using Cons.prems(5) by simp
    have b': "row_ok ?b'" "rstr ?b' = rstr ?b @ [c]"
      using row_append_ok[OF rb(1) _ rb(5)] Cons.prems(4) col by simp_all
    have st: "vi_split (c # t) n col rs = vi_split t n (col + 1) ?rs" using False rb(4) col by simp
    have len: "length (lines_of (c # t)) = length (lines_of t)" using False by simp
    have n: "?rs ! (n - 1) = ?b'" "take (n - 1) ?rs = take (n - 1) rs" using rb(2,3) by simp_all
    have emp: "\<forall>k. n \<le> k \<and> k < 23 \<longrightarrow> rstr (?rs ! k) = []" using Cons.prems(2,8) by auto
    have cl: "col + 1 = rlen (?rs ! (n - 1))" using Cons.prems(4) b'(2) n(1) by simp
    have "\<exists>rs'. vi_split t n (col + 1) ?rs = (n + length (lines_of t) - 1, rs') \<and> rows_ok rs' \<and>
        map rstr (take (n + length (lines_of t) - 1) rs') =
          map rstr (take (n - 1) ?rs) @ (rstr (?rs ! (n - 1)) @ hd (lines_of t)) # tl (lines_of t)"
      by (rule Cons.IH[OF rows_ok_update[OF Cons.prems(1) b'(1)] Cons.prems(2) _ cl _ _ rb(6) emp])
        (use Cons.prems(3,5,6) False in simp_all)
    then show ?thesis
      unfolding st len ls n b'(2) by simp
  qed
qed

text \<open>A text that the editor can hold: at most 21 lines, none longer than 77 characters.\<close>

definition vi_holds :: "string \<Rightarrow> bool" where
  "vi_holds t \<longleftrightarrow> cstr t \<and> length (lines_of t) \<le> 21 \<and> (\<forall>l \<in> set (lines_of t). length l \<le> 77)"

definition junk_rows :: "string list \<Rightarrow> bool" where
  "junk_rows junk \<longleftrightarrow> length junk = 24 \<and> (\<forall>b \<in> set junk. length b = 78)"

lemma vi_init_ok:
  assumes "junk_rows junk" "vi_holds t"
  shows "vi_ok (vi_init junk t)" "vi_inside (vi_init junk t)" "alines (vi_init junk t) = lines_of t"
    "vmode (vi_init junk t) = VI_NORMAL" "cy (vi_init junk t) = 0" "cx (vi_init junk t) = 0"
proof -
  define rs where "rs = map row_clear (take 23 junk) @ drop 23 junk"
  have k: "row_ok (rs ! k)" "rstr (rs ! k) = []" if "k < 23" for k
    using row_clear_ok[of "junk ! k"] assms(1) that by (auto simp: rs_def junk_rows_def nth_append)
  have ro: "rows_ok rs" using k(1) assms(1) by (auto simp: rows_ok_def rs_def junk_rows_def)
  obtain l ls where l: "lines_of t = l # ls" by (cases "lines_of t") auto
  obtain rs' where r: "vi_split t 1 0 rs = (length (lines_of t), rs')" "rows_ok rs'"
      "map rstr (take (length (lines_of t)) rs') = lines_of t"
    using vi_split_ok[OF ro, of 1 t 0] assms(2) k l by (auto simp: vi_holds_def)
  have e: "vi_init junk t = \<lparr>vlines = rs', nlines = length (lines_of t), cy = 0, cx = 0, vmode = VI_NORMAL,
      cmd_buf = [], vmodified = False\<rparr>"
    using r(1) by (simp add: vi_init_def rs_def Let_def)
  show "vi_ok (vi_init junk t)" "vi_inside (vi_init junk t)" "alines (vi_init junk t) = lines_of t"
    "vmode (vi_init junk t) = VI_NORMAL" "cy (vi_init junk t) = 0" "cx (vi_init junk t) = 0"
    using r(2,3) assms(2) l by (simp_all add: e vi_ok_def vi_inside_def alines_def vi_holds_def)
qed

text \<open>The command mode: the keys of a command followed by return.\<close>

lemma vi_loop_Cons:
  "vi_loop (c # cs) path e st =
     (case vmode e of
        VI_NORMAL \<Rightarrow>
          if c = 100 then (case cs of [] \<Rightarrow> Some Waiting
            | c2 # cs2 \<Rightarrow> do { e \<leftarrow> vi_dd c2 e; vi_loop cs2 path e (pr (vi_draw path e) st) })
          else do { e \<leftarrow> vi_normal c e; vi_loop cs path e (pr (vi_draw path e) st) }
      | VI_INSERT \<Rightarrow> do { e \<leftarrow> vi_insert c e; vi_loop cs path e (pr (vi_draw path e) st) }
      | VI_CMD \<Rightarrow>
          if c = 10 then
            (if cmd_buf e = ''q!'' \<or> cmd_buf e = ''q'' then vi_done cs st
             else if cmd_buf e = ''w'' \<or> cmd_buf e = ''wq'' \<or> cmd_buf e = ''x'' then do {
               out_buf \<leftarrow> fits 4096 (vi_text e);
               st \<leftarrow> store_file path out_buf st;
               let e' = e\<lparr>vmodified := False\<rparr>;
               if cmd_buf e = ''wq'' \<or> cmd_buf e = ''x'' then vi_done cs st
               else vi_loop cs path (vi_cmd_end e') (pr (vi_draw path (vi_cmd_end e')) st) }
             else vi_loop cs path (vi_cmd_end e) (pr (vi_draw path (vi_cmd_end e)) st))
          else vi_loop cs path (vi_cmd c e) (pr (vi_draw path (vi_cmd c e)) st))"
  by (subst vi_loop.simps) simp

lemma vi_loop_wq:
  fixes st :: "'a tty_scheme"
  assumes "vmode e = VI_NORMAL"
  shows "\<exists>f. vi_loop (58 # 119 # 113 # 10 # cs) path e st = do {
      out_buf \<leftarrow> fits 4096 (vi_text e);
      st \<leftarrow> store_file path out_buf (pr f st);
      vi_done cs st }"
proof -
  define e1 where "e1 = e\<lparr>vmode := VI_CMD, cmd_buf := []\<rparr>"
  define e2 where "e2 = e\<lparr>vmode := VI_CMD, cmd_buf := ''w''\<rparr>"
  define e3 where "e3 = e\<lparr>vmode := VI_CMD, cmd_buf := ''wq''\<rparr>"
  have s: "vi_normal 58 e = Some e1" "vi_cmd 119 e1 = e2" "vi_cmd 113 e2 = e3"
    by (simp_all add: vi_normal_def vi_cmd_def e1_def e2_def e3_def char_of_def bit_0)
  have m: "vmode e1 = VI_CMD" "vmode e2 = VI_CMD" "vmode e3 = VI_CMD" "cmd_buf e3 = ''wq''" "vi_text e3 = vi_text e"
    by (simp_all add: e1_def e2_def e3_def vi_text_def)
  have "vi_loop (58 # 119 # 113 # 10 # cs) path e st =
      vi_loop (10 # cs) path e3 (pr (vi_draw path e3) (pr (vi_draw path e2) (pr (vi_draw path e1) st)))"
    by (simp add: vi_loop_Cons s m assms)
  then show ?thesis by (auto simp: vi_loop_Cons m Let_def)
qed

section \<open>Properties\<close>

text \<open>C11: in insert mode every key but the two that change the row does to the array of rows what it should
  do to a list of lines with a cursor: it inserts and removes characters, splits a line and joins two. A
  join whose result does not fit a row writes outside it, and only that.\<close>
theorem vi_insert_refines:
  assumes "vi_ok e" "vi_inside e" "c \<noteq> KEY_UP" "c \<noteq> KEY_DOWN"
  shows "ed_refines (vi_insert c e) (ed_step c (aview e))"
proof -
  consider "c = 8" "0 < cx e" | "c = 8" "cx e = 0" "0 < cy e" | "c = 8" "cx e = 0" "cy e = 0" | "c = 10"
    | "c \<ge> 32 \<and> c < 127" | "c \<in> {27, KEY_LEFT, KEY_RIGHT, KEY_HOME, KEY_END}"
    | "c \<notin> {27, KEY_LEFT, KEY_RIGHT, KEY_UP, KEY_DOWN, KEY_HOME, KEY_END, 8, 10}" "\<not> (c \<ge> 32 \<and> c < 127)"
    using assms(3,4) by auto
  then show ?thesis
  proof cases
    case 3
    then show ?thesis
      using assms(1,2) by (simp add: ed_refines_def vi_insert_def aview_def Let_def)
  next
    case 1
    then show ?thesis using vi_backspace_refines[OF assms(1,2)] by blast
  next
    case 2
    then show ?thesis using vi_merge_refines[OF assms(1)] by blast
  next
    case 4
    then show ?thesis using vi_newline_refines[OF assms(1,2)] by blast
  next
    case 5
    then show ?thesis using vi_char_refines[OF assms(1,2)] by blast
  next
    case 6
    then show ?thesis by (rule vi_move_refines[OF assms(1,2)])
  next
    case 7
    then show ?thesis by (rule vi_other_refines[OF assms(1,2)])
  qed
qed

definition junk0 :: "string list" where
  "junk0 = replicate 24 (replicate 78 CHR ''#'')"

lemma junk0_rows: "junk_rows junk0"
  by (simp add: junk_rows_def junk0_def)

theorem vi_insert_refines_witness:
  "ed_refines (vi_insert 10 (vi_init junk0 ''oink'')) (Some ([[], ''oink''], 1, 0))"
proof -
  have h: "vi_holds ''oink''" by (simp add: vi_holds_def)
  note i = vi_init_ok[OF junk0_rows h]
  have "aview (vi_init junk0 ''oink'') = ([''oink''], 0, 0)" using i by (simp add: aview_def)
  then show ?thesis
    using vi_insert_refines[OF i(1,2), of 10] by simp
qed

text \<open>C27: a text the editor can hold, at most 21 lines of at most 77 characters, is unchanged by opening it
  and leaving with \<open>:wq\<close>, whatever the uninitialised rows held.\<close>
theorem vi_open_save:
  assumes "junk_rows junk" "fs_ok st" "edit_path cwd f = Some path" "reads st path t" "vi_holds t"
    and "cstr path" "path \<notin> set (deleted_paths st)" "length (memfs st) < 64" "length path < 128" "length t < 2048"
    and "keys st = [58, 119, 113, 10] @ ks"
  shows "\<exists>st'. cmd_vi junk cwd f st = Some (Returned st') \<and> reads st' path t \<and> keys st' = ks \<and> fs_ok st' \<and>
    (\<forall>q c. cstr q \<longrightarrow> q \<noteq> path \<longrightarrow> reads st q c \<longrightarrow> reads st' q c)"
proof -
  note i = vi_init_ok[OF assms(1,5)]
  have "edit_load 4096 path st = Some t"
    using assms(4,10) by (auto simp: edit_load_def reads_def)
  then have "\<exists>f1. cmd_vi junk cwd f st = vi_loop (58 # 119 # 113 # 10 # ks) path (vi_init junk t) (pr f1 st)"
    using assms(3,11) by (auto simp: cmd_vi_def Let_def)
  then obtain f1 where "cmd_vi junk cwd f st = vi_loop (58 # 119 # 113 # 10 # ks) path (vi_init junk t) (pr f1 st)" by blast
  then obtain g where g: "cmd_vi junk cwd f st = do {
      out_buf \<leftarrow> fits 4096 (vi_text (vi_init junk t));
      st \<leftarrow> store_file path out_buf (pr g st);
      vi_done ks st }"
    using vi_loop_wq[OF i(4), of ks path "pr f1 st"] by auto
  have t: "vi_text (vi_init junk t) = t"
    using i(3) join_lines_of[of t] by (simp add: vi_text_def alines_def)
  obtain s1 where s1: "put_file path t (pr g st) = Some s1" "fs_ok s1" "only_memfs (pr g st) s1" "reads s1 path t"
      "\<And>q c. cstr q \<Longrightarrow> q \<noteq> path \<Longrightarrow> reads (pr g st) q c \<Longrightarrow> reads s1 q c"
    using put_file_reads[of "pr g st" path t] assms(2,6-10) assms(5) by (auto simp: vi_holds_def)
  show ?thesis
    unfolding g t using s1 assms(10) by (auto simp: store_file_put vi_done_def)
qed

definition tty_vi :: tty where
  "tty_vi = tty_doc\<lparr>keys := [58, 119, 113, 10]\<rparr>"

theorem vi_open_save_witness:
  "\<exists>st'. cmd_vi junk0 ''/tmp'' ''a'' tty_vi = Some (Returned st') \<and> reads st' ''/tmp/a'' ''old ''"
proof -
  have p: "edit_path ''/tmp'' ''a'' = Some ''/tmp/a''" unfolding edit_path_def by code_simp
  have ok: "fs_ok tty_vi" "length (memfs tty_vi) = 1" "deleted_paths tty_vi = []" "keys tty_vi = [58, 119, 113, 10]"
    by (simp_all add: tty_vi_def tty_doc_def tty0_def usys0_def fs_ok_def store_ok_def fs0_def usys.defs fs.defs tty.defs)
  have r: "reads tty_vi ''/tmp/a'' ''old ''"
    by (simp add: reads_def memfs_find_def mf_live_def fs_is_deleted_def mf_get_def tty_vi_def tty_doc_def tty0_def
        usys0_def fs0_def usys.defs fs.defs tty.defs del_store_init_def store_cnt_def Let_def)
  have h: "vi_holds ''old ''" by (simp add: vi_holds_def)
  show ?thesis
    using vi_open_save[OF junk0_rows ok(1) p r h, of "[]"] ok(2-4) by auto
qed

text \<open>The 22nd line of a longer text is not read, so saving cuts it off.\<close>

lemma vi_drops_lines: "vi_split (c # cs) 22 col rs = (22, rs)"
  by simp

text \<open>The rest of a line after its 77th character is dropped too.\<close>

lemma vi_drops_columns: "c \<noteq> CHR 0x0A \<Longrightarrow> n < 22 \<Longrightarrow> vi_split (c # cs) n 77 rs = vi_split cs n 77 rs"
  by simp

text \<open>The keys up and down of the insert mode keep the column: in a shorter row the cursor stands behind
  the end, and a character typed there is stored behind the terminating NUL, where it is not part of the
  line.\<close>

lemma vi_insert_behind_end:
  assumes "row_ok b" "rlen b < x" "x < 78" "rlen b < 76" "c \<noteq> CHR 0x00"
  shows "\<exists>b'. row_insert x c b = Some b' \<and> rstr b' = rstr b"
proof -
  obtain s t where b: "b = s @ CHR 0x00 # t" "length s + length t = 77" "cstr s" "rstr b = s"
    by (rule row_view[OF assms(1)])
  obtain k where k: "x = length s + Suc k" using assms(2) b(4) less_imp_Suc_add by fastforce
  have "(s @ CHR 0x00 # t)[x := c, length s + 1 := CHR 0x00] = s @ CHR 0x00 # t[k := c, 0 := CHR 0x00]"
    by (simp add: k list_update_append)
  then show ?thesis
    using assms(2,3) rstr_append[OF b(3)] by (simp add: row_insert_def Let_def b(4)) (simp add: b(1))
qed

end
