(* ===== verification/Pig_Screens.thy ===== *)
theory Pig_Screens
  imports Pig_Vga
begin

text \<open>
  The fixed screens of the shell: the panic screen of \<open>panic\<close>, the help pages, \<open>pigfetch\<close>, the \<open>go\<close> pages,
  the splash and the logo (\<open>shell/shell.h\<close>, \<open>shell/pigfetch.h\<close>, \<open>shell/lash.h\<close>), and the little language model
  of \<open>llm\<close>. Characters outside ASCII are the bytes of their UTF-8 encoding, which is what the compiler
  stores. The header of the help page moves the cursor down by hand: it does not scroll, so on the last
  rows it leaves the screen.
\<close>

section \<open>Definitions\<close>

text \<open>A line drawn at the cursor's row, \<open>vx=0;vy++\<close> after it.\<close>

definition at_row :: "(int \<Rightarrow> vga \<Rightarrow> vga) \<Rightarrow> vga \<Rightarrow> vga" where
  "at_row f v = (let w = f (vy v) v in w\<lparr>vx := 0, vy := vy w + 1\<rparr>)"

definition help_rule :: "vga \<Rightarrow> vga" where
  "help_rule =
     (let bc = COL C_LMAG C_BLACK in
      at_row (\<lambda>y. seqs [vat CHR ''+'' bc 0 y, fold (\<lambda>i. vat CHR ''-'' bc i y) [1 .. VGA_W - 2],
        vat CHR ''+'' bc (VGA_W - 1) y]))"

definition cmd_pigfetch :: "vga \<Rightarrow> vga" where
  "cmd_pigfetch =
     seqs [vclear, (\<lambda>v. v\<lparr>vx := 0, vy := 0\<rparr>), vstr 0 0 (COL C_LRED C_BLACK) ''ld'',
           vstr 2 0 (COL C_LRED C_BLACK) ''do:'', vstr 14 0 (COL C_LRED C_BLACK) ''xOnWWx'',
           vstr 2 1 (COL C_DGREY C_BLACK) '':'', vstr 3 1 (COL C_LRED C_BLACK) ''kxxx'',
           vstr 7 1 (COL C_LRED C_BLACK) ''dl'', vstr 19 1 (COL C_LRED C_BLACK) '';xOkkOkkOo'',
           vstr 32 1 (COL C_LCYAN C_BLACK) ''OS:      pigOS v1.0 x86_64'',
           vstr 2 2 (COL C_LRED C_BLACK) ''cxxxxdxdxO00Oxdd'', vstr 16 2 (COL C_YELLOW C_BLACK) ''OOO'',
           vstr 19 2 (COL C_LRED C_BLACK) ''kko'',
           vstr 32 2 (COL C_LCYAN C_BLACK) ''Kernel:  pigKernel 1.0 (x86_64)'',
           vstr 1 3 (COL C_DGREY C_BLACK) [CHR 0x27],
           vstr 2 3 (COL C_LRED C_BLACK) ''xxxxxkkOOOOOkkxxkOOkOkx0'',
           vstr 18 3 (COL C_YELLOW C_BLACK) ''OO'', vstr 20 3 (COL C_LRED C_BLACK) ''0'',
           vstr 32 3 (COL C_LCYAN C_BLACK) ''Init:    poing v1.0'',
           vstr 1 4 (COL C_LRED C_BLACK) ''lxxxxdxkkOO'', vstr 11 4 (COL C_LRED C_BLACK) ''kdddxxx'',
           vstr 18 4 (COL C_YELLOW C_BLACK) ''OOO'', vstr 21 4 (COL C_LRED C_BLACK) ''kOx'',
           vstr 24 4 (COL C_LRED C_BLACK) '' k'', vstr 25 4 (COL C_DGREY C_BLACK) '','',
           vstr 32 4 (COL C_LCYAN C_BLACK) ''Shell:   larpshell v5.9.3'',
           vstr 1 5 (COL C_DGREY C_BLACK) [CHR 0x27], vstr 2 5 (COL C_LRED C_BLACK) ''xk'',
           vstr 4 5 (COL C_BROWN C_BLACK) ''o'', vstr 5 5 (COL C_DGREY C_BLACK) '';'',
           vstr 6 5 (COL C_LRED C_BLACK) ''dkkkkkd'', vstr 12 5 (COL C_DGREY C_BLACK) '';'',
           vstr 13 5 (COL C_BROWN C_BLACK) ''oxxddx'', vstr 19 5 (COL C_YELLOW C_BLACK) ''OOOk'',
           vstr 23 5 (COL C_LRED C_BLACK) ''K'', vstr 32 5 (COL C_LCYAN C_BLACK) ''WM:      PigWM'',
           vstr 1 6 (COL C_LRED C_BLACK) ''dxxxkkkkkkkkkxxddd'', vstr 18 6 (COL C_LRED C_BLACK) ''x'',
           vstr 19 6 (COL C_DGREY C_BLACK) ''x'', vstr 20 6 (COL C_DGREY C_BLACK) [CHR 0x27],
           vstr 32 6 (COL C_LCYAN C_BLACK) ''Boot:    POUG'', vstr 1 7 (COL C_DGREY C_BLACK) [CHR 0x27],
           vstr 2 7 (COL C_LRED C_BLACK) ''xxxxxxlxxlddxxxxxxxx'', vstr 21 7 (COL C_DGREY C_BLACK) '','',
           vstr 32 7 (COL C_LCYAN C_BLACK) ''CPU:     x86_64 Long Mode'',
           vstr 1 8 (COL C_LRED C_BLACK) ''xxxx'', vstr 5 8 (COL C_LRED C_BLACK) ''dl'',
           vstr 7 8 (COL C_DGREY C_BLACK) '';'', vstr 8 8 (COL C_LRED C_BLACK) ''dd'',
           vstr 10 8 (COL C_DGREY C_BLACK) ''::'', vstr 12 8 (COL C_LRED C_BLACK) ''oodxxxxx'',
           vstr 19 8 (COL C_DGREY C_BLACK) '':'',
           vstr 32 8 (COL C_LCYAN C_BLACK) ''Memory:  4MB heap @ 0x400000'',
           vstr 3 9 (COL C_LRED C_BLACK) ''xxx'', vstr 6 9 (COL C_LRED C_BLACK) ''dl   l'',
           vstr 11 9 (COL C_LRED C_BLACK) ''odxxxd'',
           vstr 32 9 (COL C_LCYAN C_BLACK) ''Display: VGA 80x25 CP437'', vset C_LGREEN C_BLACK,
           (\<lambda>v. v\<lparr>vy := 11\<rparr>)]"

definition panic_screen :: "vga \<Rightarrow> vga" where
  "panic_screen =
     (let pc = COL C_WHITE C_BLUE; yc = COL C_YELLOW C_BLUE; rc = COL C_LRED C_BLUE in
      seqs [vclear, vfill 0 0 VGA_W VGA_H CHR '' '' pc,
            vstr 0 0 pc ''[  0.000000] BUG: kernel NULL pointer dereference, address: 0000000000000000'',
            vstr 0 1 pc ''[  0.000001] #PF: supervisor read access in kernel mode'',
            vstr 0 2 pc ''[  0.000001] #PF: error_code(0x0000) - not-present page'',
            vstr 0 3 pc ''[  0.000002] PGD 0 P4D 0'',
            vstr 0 5 pc ''[  0.000003] Oops: Oops: 0000 [#1] SMP NOPTI'',
            vstr 0 6 pc ''[  0.000003] CPU: 0 PID: 1 Comm: poing Not tainted 1.0.0-pig #1'',
            vstr 0 7 pc ''[  0.000004] Hardware name: pigOS VM x86_64'',
            vstr 0 8 pc ''[  0.000004] RIP: 0010:pig_null_deref+0x00/0x42 [pigKernel]'',
            vstr 0 9 pc ''[  0.000005] Code: 48 89 df e8 xx xx xx xx 48 85 c0 75 xx eb xx'',
            vstr 0 10 pc ''[  0.000005] RSP: 0018:ffffc90000013e98 EFLAGS: 00010282'',
            vstr 0 11 pc ''[  0.000006] RAX: 0000000000000000 RBX: dead00pigcafe0000 RCX: ffffffff81234567'',
            vstr 0 12 pc ''[  0.000006] RDX: 0000000000000001 RSI: ffffc90000013ef8 RDI: ffffffff81345678'',
            vstr 0 13 pc ''[  0.000007] RBP: ffffc90000013eb8  R8: 0000000000000000  R9: 0000000000000000'',
            vstr 0 15 pc ''[  0.000008] Call Trace:'', vstr 0 16 pc ''[  0.000008]  <TASK>'',
            vstr 0 17 pc ''[  0.000009]  pig_oops_enter+0x42/0x137 [pigKernel]'',
            vstr 0 18 pc ''[  0.000009]  poing_start+0x13/0x42 [poing]'',
            vstr 0 19 pc ''[  0.000010]  kernel_init+0x07/0x137 [pigKernel]'',
            vstr 0 20 pc ''[  0.000010]  ret_from_fork+0x22/0x30'', vstr 0 21 pc ''[  0.000011]  </TASK>'',
            vstr 0 23 yc ''[  0.000012] Kernel panic - not syncing: pigOS existential crisis'',
            vstr 0 24 yc ''[  0.000012] CPU: 0 PID: 1 pigKernel'',
            vstr 0 25 yc ''[  0.000013] Kernel Offset: 0x000000 from 0x1000000'',
            vstr 0 27 rc ''[  0.000014] ---[ end Kernel panic - not syncing ]---'', vga_update_hw_cursor,
            outb 0x64 0xFE])"

definition help_text :: "vga \<Rightarrow> vga" where
  "help_text =
     seqs [vrst, vset C_YELLOW C_BLACK, vpln '' SYSTEM'', vrst,
           vpln ''  help pigfetch about uname date uptime dmesg clear color'',
           vpln ''  reboot halt shutdown poweroff panic version'', vpln ''  LOGIN: user=root, pass=toor'',
           vset C_YELLOW C_BLACK, vpln '' POING INIT'', vrst,
           vpln ''  poingctl [status|start|stop|enable|disable|restart|reload]'',
           vpln ''  poingctl [reboot|halt|shutdown|sleep]'',
           vpln ''  polctl [-f][-n N][-p PRI][-u UNIT] -- log viewer'', vset C_YELLOW C_BLACK,
           vpln '' USERS'', vrst, vpln ''  adduser deluser usermod groupadd passwd groups whoami id'',
           vpln ''  rok <cmd>  r-  su [user]'', vset C_YELLOW C_BLACK, vpln '' FILES'', vrst,
           vpln ''  ls [-la] [dir]  ll  cat  head  tail  rm [-f]  touch  mkdir'',
           vpln ''  grep [-r][-i][-l][-n] <pat> <file>'', vpln ''  find [path] [-name pat] [-type f/d]'',
           vpln ''  pwd  cd  pnano  pi/pivi (separate editors)'', vset C_YELLOW C_BLACK, vpln '' PROCESSES'',
           vrst, vpln ''  ps  top  htop  kill  killall  pgrep'', vset C_YELLOW C_BLACK, vpln '' NETWORK'',
           vrst, vpln ''  ifconfig  ping  netstat  pigget  wget  nslookup'',
           vpln ''  netpg [status|up|down|ip|dhcp|scan|help]'',
           vpln ''  NOTE: Start QEMU with -net nic,model=rtl8139 -net user'', vset C_YELLOW C_BLACK,
           vpln '' HARDWARE'', vrst, vpln ''  lspci  lsusb  lsmod  lscpu  lsmem  lshw  lsblk  df  free'',
           vset C_YELLOW C_BLACK, vpln '' PACKAGES (rpk)'', vrst,
           vpln ''  rpk on <pkg>      -- install (then just type pkg name)'',
           vpln ''  rpk roam pk [q]   -- search packages'',
           vpln ''  rpk list          -- installed packages'', vpln ''  rpk remove <pkg>  -- uninstall'',
           vpln ''  rpk info <pkg>    -- package info'', vset C_YELLOW C_BLACK, vpln '' CRYPTO'', vrst,
           vpln ''  pigssl  pigcrypt  pigdecrypt  pighash  pigkey  pigcert'', vset C_YELLOW C_BLACK,
           vpln '' SHELL'', vrst,
           vpln ''  export VAR=val  set  echo $VAR  env  alias  unalias  history  calc'',
           vpln ''  source <file>  sleep  countdown  timer  seq  base64  xxd  man'', vset C_YELLOW C_BLACK,
           vpln '' WM/APPS'', vrst, vpln ''  wm  robin  pigbrowse  llm <q>  python3  pip3  make'',
           vpln ''  snake  tetris  matrix  fortune  cowpig  cal  todo'']"

definition go_usage :: "vga \<Rightarrow> vga" where
  "go_usage =
     seqs [vset C_LCYAN C_BLACK, vpln [], vpln ''  ==================================='',
           vpln ''       Go Programming Language'', vpln ''            version 1.23'',
           vpln ''  ==================================='', vpln [], vpln ''  Built-in pigOS integration'',
           vrst, vpln [], vpln ''  Usage:'', vpln ''    go version              - Show Go version'',
           vpln ''    go info                 - Show Go information'',
           vpln ''    go examples             - Show Go code examples'',
           vpln ''    go tutorial            - Quick Go tutorial'',
           vpln ''    go hello               - Run Hello World'', vpln []]"

definition go_info :: "vga \<Rightarrow> vga" where
  "go_info =
     seqs [vset C_LGREEN C_BLACK, vpln ''  Go Language Information:'', vrst,
           vpln (''  '' @ [CHR 0xE2, CHR 0x94, CHR 0x80, CHR 0xE2, CHR 0x94, CHR 0x80, CHR 0xE2, CHR 0x94, CHR 0x80, CHR 0xE2, CHR 0x94, CHR 0x80, CHR 0xE2, CHR 0x94, CHR 0x80, CHR 0xE2, CHR 0x94, CHR 0x80, CHR 0xE2, CHR 0x94, CHR 0x80, CHR 0xE2, CHR 0x94, CHR 0x80, CHR 0xE2, CHR 0x94, CHR 0x80, CHR 0xE2, CHR 0x94, CHR 0x80, CHR 0xE2, CHR 0x94, CHR 0x80, CHR 0xE2, CHR 0x94, CHR 0x80, CHR 0xE2, CHR 0x94, CHR 0x80, CHR 0xE2, CHR 0x94, CHR 0x80, CHR 0xE2, CHR 0x94, CHR 0x80, CHR 0xE2, CHR 0x94, CHR 0x80, CHR 0xE2, CHR 0x94, CHR 0x80, CHR 0xE2, CHR 0x94, CHR 0x80, CHR 0xE2, CHR 0x94, CHR 0x80, CHR 0xE2, CHR 0x94, CHR 0x80, CHR 0xE2, CHR 0x94, CHR 0x80, CHR 0xE2, CHR 0x94, CHR 0x80, CHR 0xE2, CHR 0x94, CHR 0x80, CHR 0xE2, CHR 0x94, CHR 0x80, CHR 0xE2, CHR 0x94, CHR 0x80, CHR 0xE2, CHR 0x94, CHR 0x80, CHR 0xE2, CHR 0x94, CHR 0x80, CHR 0xE2, CHR 0x94, CHR 0x80, CHR 0xE2, CHR 0x94, CHR 0x80, CHR 0xE2, CHR 0x94, CHR 0x80, CHR 0xE2, CHR 0x94, CHR 0x80, CHR 0xE2, CHR 0x94, CHR 0x80, CHR 0xE2, CHR 0x94, CHR 0x80, CHR 0xE2, CHR 0x94, CHR 0x80, CHR 0xE2, CHR 0x94, CHR 0x80, CHR 0xE2, CHR 0x94, CHR 0x80, CHR 0xE2, CHR 0x94, CHR 0x80]),
           vpln ''  Language:  Go (golang)'', vpln ''  Version:   1.23.2'',
           vpln ''  Creator:   Google (Robert Griesemer,'', vpln ''             Rob Pike, Ken Thompson)'',
           vpln ''  Released:  2009 (public)'', vpln ''  Type:      Compiled, statically typed'',
           vpln ''  Paradigm:  Concurrent, imperative'',
           vpln (''  '' @ [CHR 0xE2, CHR 0x94, CHR 0x80, CHR 0xE2, CHR 0x94, CHR 0x80, CHR 0xE2, CHR 0x94, CHR 0x80, CHR 0xE2, CHR 0x94, CHR 0x80, CHR 0xE2, CHR 0x94, CHR 0x80, CHR 0xE2, CHR 0x94, CHR 0x80, CHR 0xE2, CHR 0x94, CHR 0x80, CHR 0xE2, CHR 0x94, CHR 0x80, CHR 0xE2, CHR 0x94, CHR 0x80, CHR 0xE2, CHR 0x94, CHR 0x80, CHR 0xE2, CHR 0x94, CHR 0x80, CHR 0xE2, CHR 0x94, CHR 0x80, CHR 0xE2, CHR 0x94, CHR 0x80, CHR 0xE2, CHR 0x94, CHR 0x80, CHR 0xE2, CHR 0x94, CHR 0x80, CHR 0xE2, CHR 0x94, CHR 0x80, CHR 0xE2, CHR 0x94, CHR 0x80, CHR 0xE2, CHR 0x94, CHR 0x80, CHR 0xE2, CHR 0x94, CHR 0x80, CHR 0xE2, CHR 0x94, CHR 0x80, CHR 0xE2, CHR 0x94, CHR 0x80, CHR 0xE2, CHR 0x94, CHR 0x80, CHR 0xE2, CHR 0x94, CHR 0x80, CHR 0xE2, CHR 0x94, CHR 0x80, CHR 0xE2, CHR 0x94, CHR 0x80, CHR 0xE2, CHR 0x94, CHR 0x80, CHR 0xE2, CHR 0x94, CHR 0x80, CHR 0xE2, CHR 0x94, CHR 0x80, CHR 0xE2, CHR 0x94, CHR 0x80, CHR 0xE2, CHR 0x94, CHR 0x80, CHR 0xE2, CHR 0x94, CHR 0x80, CHR 0xE2, CHR 0x94, CHR 0x80, CHR 0xE2, CHR 0x94, CHR 0x80, CHR 0xE2, CHR 0x94, CHR 0x80, CHR 0xE2, CHR 0x94, CHR 0x80, CHR 0xE2, CHR 0x94, CHR 0x80, CHR 0xE2, CHR 0x94, CHR 0x80]),
           vpln [], vpln ''  Key Features:'', vpln ''    + Goroutines (lightweight threads)'',
           vpln ''    + Channels for communication'', vpln ''    + Garbage collection'',
           vpln ''    + Static typing with dynamic feel'', vpln ''    + Fast compilation'',
           vpln ''    + No classes (use structs + methods)'', vpln ''    + Interfaces for polymorphism'',
           vpln ''    + Built-in concurrency primitives'', vpln []]"

definition go_examples :: "vga \<Rightarrow> vga" where
  "go_examples =
     seqs [vset C_LMAG C_BLACK, vpln ''  Go Code Examples:'', vrst, vpln [],
           vpln (''  '' @ [CHR 0xE2, CHR 0x94, CHR 0x8C, CHR 0xE2, CHR 0x94, CHR 0x80, CHR 0xE2, CHR 0x94, CHR 0x80, CHR 0xE2, CHR 0x94, CHR 0x80, CHR 0xE2, CHR 0x94, CHR 0x80, CHR 0xE2, CHR 0x94, CHR 0x80, CHR 0xE2, CHR 0x94, CHR 0x80, CHR 0xE2, CHR 0x94, CHR 0x80, CHR 0xE2, CHR 0x94, CHR 0x80, CHR 0xE2, CHR 0x94, CHR 0x80, CHR 0xE2, CHR 0x94, CHR 0x80, CHR 0xE2, CHR 0x94, CHR 0x80, CHR 0xE2, CHR 0x94, CHR 0x80, CHR 0xE2, CHR 0x94, CHR 0x80, CHR 0xE2, CHR 0x94, CHR 0x80, CHR 0xE2, CHR 0x94, CHR 0x80, CHR 0xE2, CHR 0x94, CHR 0x80, CHR 0xE2, CHR 0x94, CHR 0x80, CHR 0xE2, CHR 0x94, CHR 0x80, CHR 0xE2, CHR 0x94, CHR 0x80, CHR 0xE2, CHR 0x94, CHR 0x80, CHR 0xE2, CHR 0x94, CHR 0x80, CHR 0xE2, CHR 0x94, CHR 0x80, CHR 0xE2, CHR 0x94, CHR 0x80, CHR 0xE2, CHR 0x94, CHR 0x80, CHR 0xE2, CHR 0x94, CHR 0x80, CHR 0xE2, CHR 0x94, CHR 0x80, CHR 0xE2, CHR 0x94, CHR 0x80, CHR 0xE2, CHR 0x94, CHR 0x80, CHR 0xE2, CHR 0x94, CHR 0x80, CHR 0xE2, CHR 0x94, CHR 0x80, CHR 0xE2, CHR 0x94, CHR 0x80, CHR 0xE2, CHR 0x94, CHR 0x80, CHR 0xE2, CHR 0x94, CHR 0x80, CHR 0xE2, CHR 0x94, CHR 0x80, CHR 0xE2, CHR 0x94, CHR 0x80, CHR 0xE2, CHR 0x94, CHR 0x80, CHR 0xE2, CHR 0x94, CHR 0x80, CHR 0xE2, CHR 0x94, CHR 0x80, CHR 0xE2, CHR 0x94, CHR 0x80, CHR 0xE2, CHR 0x94, CHR 0x80, CHR 0xE2, CHR 0x94, CHR 0x80, CHR 0xE2, CHR 0x94, CHR 0x90]),
           vpln (''  '' @ [CHR 0xE2, CHR 0x94, CHR 0x82] @ '' Hello World (package main)              '' @ [CHR 0xE2, CHR 0x94, CHR 0x82]),
           vpln (''  '' @ [CHR 0xE2, CHR 0x94, CHR 0x9C, CHR 0xE2, CHR 0x94, CHR 0x80, CHR 0xE2, CHR 0x94, CHR 0x80, CHR 0xE2, CHR 0x94, CHR 0x80, CHR 0xE2, CHR 0x94, CHR 0x80, CHR 0xE2, CHR 0x94, CHR 0x80, CHR 0xE2, CHR 0x94, CHR 0x80, CHR 0xE2, CHR 0x94, CHR 0x80, CHR 0xE2, CHR 0x94, CHR 0x80, CHR 0xE2, CHR 0x94, CHR 0x80, CHR 0xE2, CHR 0x94, CHR 0x80, CHR 0xE2, CHR 0x94, CHR 0x80, CHR 0xE2, CHR 0x94, CHR 0x80, CHR 0xE2, CHR 0x94, CHR 0x80, CHR 0xE2, CHR 0x94, CHR 0x80, CHR 0xE2, CHR 0x94, CHR 0x80, CHR 0xE2, CHR 0x94, CHR 0x80, CHR 0xE2, CHR 0x94, CHR 0x80, CHR 0xE2, CHR 0x94, CHR 0x80, CHR 0xE2, CHR 0x94, CHR 0x80, CHR 0xE2, CHR 0x94, CHR 0x80, CHR 0xE2, CHR 0x94, CHR 0x80, CHR 0xE2, CHR 0x94, CHR 0x80, CHR 0xE2, CHR 0x94, CHR 0x80, CHR 0xE2, CHR 0x94, CHR 0x80, CHR 0xE2, CHR 0x94, CHR 0x80, CHR 0xE2, CHR 0x94, CHR 0x80, CHR 0xE2, CHR 0x94, CHR 0x80, CHR 0xE2, CHR 0x94, CHR 0x80, CHR 0xE2, CHR 0x94, CHR 0x80, CHR 0xE2, CHR 0x94, CHR 0x80, CHR 0xE2, CHR 0x94, CHR 0x80, CHR 0xE2, CHR 0x94, CHR 0x80, CHR 0xE2, CHR 0x94, CHR 0x80, CHR 0xE2, CHR 0x94, CHR 0x80, CHR 0xE2, CHR 0x94, CHR 0x80, CHR 0xE2, CHR 0x94, CHR 0x80, CHR 0xE2, CHR 0x94, CHR 0x80, CHR 0xE2, CHR 0x94, CHR 0x80, CHR 0xE2, CHR 0x94, CHR 0x80, CHR 0xE2, CHR 0x94, CHR 0x80, CHR 0xE2, CHR 0x94, CHR 0x80, CHR 0xE2, CHR 0x94, CHR 0xA4]),
           vpln (''  '' @ [CHR 0xE2, CHR 0x94, CHR 0x82] @ '' package main                            '' @ [CHR 0xE2, CHR 0x94, CHR 0x82]),
           vpln (''  '' @ [CHR 0xE2, CHR 0x94, CHR 0x82] @ ''                                        '' @ [CHR 0xE2, CHR 0x94, CHR 0x82]),
           vpln (''  '' @ [CHR 0xE2, CHR 0x94, CHR 0x82] @ '' import '' @ [CHR 0x22] @ ''fmt'' @ [CHR 0x22] @ ''                           '' @ [CHR 0xE2, CHR 0x94, CHR 0x82]),
           vpln (''  '' @ [CHR 0xE2, CHR 0x94, CHR 0x82] @ ''                                        '' @ [CHR 0xE2, CHR 0x94, CHR 0x82]),
           vpln (''  '' @ [CHR 0xE2, CHR 0x94, CHR 0x82] @ '' func main() {                          '' @ [CHR 0xE2, CHR 0x94, CHR 0x82]),
           vpln (''  '' @ [CHR 0xE2, CHR 0x94, CHR 0x82] @ ''     fmt.Println('' @ [CHR 0x22] @ ''Hello, World!'' @ [CHR 0x22] @ '')       '' @ [CHR 0xE2, CHR 0x94, CHR 0x82]),
           vpln (''  '' @ [CHR 0xE2, CHR 0x94, CHR 0x82] @ '' }                                      '' @ [CHR 0xE2, CHR 0x94, CHR 0x82]),
           vpln (''  '' @ [CHR 0xE2, CHR 0x94, CHR 0x94, CHR 0xE2, CHR 0x94, CHR 0x80, CHR 0xE2, CHR 0x94, CHR 0x80, CHR 0xE2, CHR 0x94, CHR 0x80, CHR 0xE2, CHR 0x94, CHR 0x80, CHR 0xE2, CHR 0x94, CHR 0x80, CHR 0xE2, CHR 0x94, CHR 0x80, CHR 0xE2, CHR 0x94, CHR 0x80, CHR 0xE2, CHR 0x94, CHR 0x80, CHR 0xE2, CHR 0x94, CHR 0x80, CHR 0xE2, CHR 0x94, CHR 0x80, CHR 0xE2, CHR 0x94, CHR 0x80, CHR 0xE2, CHR 0x94, CHR 0x80, CHR 0xE2, CHR 0x94, CHR 0x80, CHR 0xE2, CHR 0x94, CHR 0x80, CHR 0xE2, CHR 0x94, CHR 0x80, CHR 0xE2, CHR 0x94, CHR 0x80, CHR 0xE2, CHR 0x94, CHR 0x80, CHR 0xE2, CHR 0x94, CHR 0x80, CHR 0xE2, CHR 0x94, CHR 0x80, CHR 0xE2, CHR 0x94, CHR 0x80, CHR 0xE2, CHR 0x94, CHR 0x80, CHR 0xE2, CHR 0x94, CHR 0x80, CHR 0xE2, CHR 0x94, CHR 0x80, CHR 0xE2, CHR 0x94, CHR 0x80, CHR 0xE2, CHR 0x94, CHR 0x80, CHR 0xE2, CHR 0x94, CHR 0x80, CHR 0xE2, CHR 0x94, CHR 0x80, CHR 0xE2, CHR 0x94, CHR 0x80, CHR 0xE2, CHR 0x94, CHR 0x80, CHR 0xE2, CHR 0x94, CHR 0x80, CHR 0xE2, CHR 0x94, CHR 0x80, CHR 0xE2, CHR 0x94, CHR 0x80, CHR 0xE2, CHR 0x94, CHR 0x80, CHR 0xE2, CHR 0x94, CHR 0x80, CHR 0xE2, CHR 0x94, CHR 0x80, CHR 0xE2, CHR 0x94, CHR 0x80, CHR 0xE2, CHR 0x94, CHR 0x80, CHR 0xE2, CHR 0x94, CHR 0x80, CHR 0xE2, CHR 0x94, CHR 0x80, CHR 0xE2, CHR 0x94, CHR 0x80, CHR 0xE2, CHR 0x94, CHR 0x80, CHR 0xE2, CHR 0x94, CHR 0x98]),
           vpln [],
           vpln (''  '' @ [CHR 0xE2, CHR 0x94, CHR 0x8C, CHR 0xE2, CHR 0x94, CHR 0x80, CHR 0xE2, CHR 0x94, CHR 0x80, CHR 0xE2, CHR 0x94, CHR 0x80, CHR 0xE2, CHR 0x94, CHR 0x80, CHR 0xE2, CHR 0x94, CHR 0x80, CHR 0xE2, CHR 0x94, CHR 0x80, CHR 0xE2, CHR 0x94, CHR 0x80, CHR 0xE2, CHR 0x94, CHR 0x80, CHR 0xE2, CHR 0x94, CHR 0x80, CHR 0xE2, CHR 0x94, CHR 0x80, CHR 0xE2, CHR 0x94, CHR 0x80, CHR 0xE2, CHR 0x94, CHR 0x80, CHR 0xE2, CHR 0x94, CHR 0x80, CHR 0xE2, CHR 0x94, CHR 0x80, CHR 0xE2, CHR 0x94, CHR 0x80, CHR 0xE2, CHR 0x94, CHR 0x80, CHR 0xE2, CHR 0x94, CHR 0x80, CHR 0xE2, CHR 0x94, CHR 0x80, CHR 0xE2, CHR 0x94, CHR 0x80, CHR 0xE2, CHR 0x94, CHR 0x80, CHR 0xE2, CHR 0x94, CHR 0x80, CHR 0xE2, CHR 0x94, CHR 0x80, CHR 0xE2, CHR 0x94, CHR 0x80, CHR 0xE2, CHR 0x94, CHR 0x80, CHR 0xE2, CHR 0x94, CHR 0x80, CHR 0xE2, CHR 0x94, CHR 0x80, CHR 0xE2, CHR 0x94, CHR 0x80, CHR 0xE2, CHR 0x94, CHR 0x80, CHR 0xE2, CHR 0x94, CHR 0x80, CHR 0xE2, CHR 0x94, CHR 0x80, CHR 0xE2, CHR 0x94, CHR 0x80, CHR 0xE2, CHR 0x94, CHR 0x80, CHR 0xE2, CHR 0x94, CHR 0x80, CHR 0xE2, CHR 0x94, CHR 0x80, CHR 0xE2, CHR 0x94, CHR 0x80, CHR 0xE2, CHR 0x94, CHR 0x80, CHR 0xE2, CHR 0x94, CHR 0x80, CHR 0xE2, CHR 0x94, CHR 0x80, CHR 0xE2, CHR 0x94, CHR 0x80, CHR 0xE2, CHR 0x94, CHR 0x80, CHR 0xE2, CHR 0x94, CHR 0x80, CHR 0xE2, CHR 0x94, CHR 0x90]),
           vpln (''  '' @ [CHR 0xE2, CHR 0x94, CHR 0x82] @ '' Variables & Types                      '' @ [CHR 0xE2, CHR 0x94, CHR 0x82]),
           vpln (''  '' @ [CHR 0xE2, CHR 0x94, CHR 0x9C, CHR 0xE2, CHR 0x94, CHR 0x80, CHR 0xE2, CHR 0x94, CHR 0x80, CHR 0xE2, CHR 0x94, CHR 0x80, CHR 0xE2, CHR 0x94, CHR 0x80, CHR 0xE2, CHR 0x94, CHR 0x80, CHR 0xE2, CHR 0x94, CHR 0x80, CHR 0xE2, CHR 0x94, CHR 0x80, CHR 0xE2, CHR 0x94, CHR 0x80, CHR 0xE2, CHR 0x94, CHR 0x80, CHR 0xE2, CHR 0x94, CHR 0x80, CHR 0xE2, CHR 0x94, CHR 0x80, CHR 0xE2, CHR 0x94, CHR 0x80, CHR 0xE2, CHR 0x94, CHR 0x80, CHR 0xE2, CHR 0x94, CHR 0x80, CHR 0xE2, CHR 0x94, CHR 0x80, CHR 0xE2, CHR 0x94, CHR 0x80, CHR 0xE2, CHR 0x94, CHR 0x80, CHR 0xE2, CHR 0x94, CHR 0x80, CHR 0xE2, CHR 0x94, CHR 0x80, CHR 0xE2, CHR 0x94, CHR 0x80, CHR 0xE2, CHR 0x94, CHR 0x80, CHR 0xE2, CHR 0x94, CHR 0x80, CHR 0xE2, CHR 0x94, CHR 0x80, CHR 0xE2, CHR 0x94, CHR 0x80, CHR 0xE2, CHR 0x94, CHR 0x80, CHR 0xE2, CHR 0x94, CHR 0x80, CHR 0xE2, CHR 0x94, CHR 0x80, CHR 0xE2, CHR 0x94, CHR 0x80, CHR 0xE2, CHR 0x94, CHR 0x80, CHR 0xE2, CHR 0x94, CHR 0x80, CHR 0xE2, CHR 0x94, CHR 0x80, CHR 0xE2, CHR 0x94, CHR 0x80, CHR 0xE2, CHR 0x94, CHR 0x80, CHR 0xE2, CHR 0x94, CHR 0x80, CHR 0xE2, CHR 0x94, CHR 0x80, CHR 0xE2, CHR 0x94, CHR 0x80, CHR 0xE2, CHR 0x94, CHR 0x80, CHR 0xE2, CHR 0x94, CHR 0x80, CHR 0xE2, CHR 0x94, CHR 0x80, CHR 0xE2, CHR 0x94, CHR 0x80, CHR 0xE2, CHR 0x94, CHR 0x80, CHR 0xE2, CHR 0x94, CHR 0xA4]),
           vpln (''  '' @ [CHR 0xE2, CHR 0x94, CHR 0x82] @ '' var name string = '' @ [CHR 0x22] @ ''pigOS'' @ [CHR 0x22] @ ''               '' @ [CHR 0xE2, CHR 0x94, CHR 0x82]),
           vpln (''  '' @ [CHR 0xE2, CHR 0x94, CHR 0x82] @ '' age := 1            // type inference  '' @ [CHR 0xE2, CHR 0x94, CHR 0x82]),
           vpln (''  '' @ [CHR 0xE2, CHR 0x94, CHR 0x82] @ '' const VERSION = '' @ [CHR 0x22] @ ''1.0'' @ [CHR 0x22] @ ''                  '' @ [CHR 0xE2, CHR 0x94, CHR 0x82]),
           vpln (''  '' @ [CHR 0xE2, CHR 0x94, CHR 0x82] @ ''                                        '' @ [CHR 0xE2, CHR 0x94, CHR 0x82]),
           vpln (''  '' @ [CHR 0xE2, CHR 0x94, CHR 0x82] @ '' // Multiple assignment                  '' @ [CHR 0xE2, CHR 0x94, CHR 0x82]),
           vpln (''  '' @ [CHR 0xE2, CHR 0x94, CHR 0x82] @ '' x, y := 10, 20                        '' @ [CHR 0xE2, CHR 0x94, CHR 0x82]),
           vpln (''  '' @ [CHR 0xE2, CHR 0x94, CHR 0x94, CHR 0xE2, CHR 0x94, CHR 0x80, CHR 0xE2, CHR 0x94, CHR 0x80, CHR 0xE2, CHR 0x94, CHR 0x80, CHR 0xE2, CHR 0x94, CHR 0x80, CHR 0xE2, CHR 0x94, CHR 0x80, CHR 0xE2, CHR 0x94, CHR 0x80, CHR 0xE2, CHR 0x94, CHR 0x80, CHR 0xE2, CHR 0x94, CHR 0x80, CHR 0xE2, CHR 0x94, CHR 0x80, CHR 0xE2, CHR 0x94, CHR 0x80, CHR 0xE2, CHR 0x94, CHR 0x80, CHR 0xE2, CHR 0x94, CHR 0x80, CHR 0xE2, CHR 0x94, CHR 0x80, CHR 0xE2, CHR 0x94, CHR 0x80, CHR 0xE2, CHR 0x94, CHR 0x80, CHR 0xE2, CHR 0x94, CHR 0x80, CHR 0xE2, CHR 0x94, CHR 0x80, CHR 0xE2, CHR 0x94, CHR 0x80, CHR 0xE2, CHR 0x94, CHR 0x80, CHR 0xE2, CHR 0x94, CHR 0x80, CHR 0xE2, CHR 0x94, CHR 0x80, CHR 0xE2, CHR 0x94, CHR 0x80, CHR 0xE2, CHR 0x94, CHR 0x80, CHR 0xE2, CHR 0x94, CHR 0x80, CHR 0xE2, CHR 0x94, CHR 0x80, CHR 0xE2, CHR 0x94, CHR 0x80, CHR 0xE2, CHR 0x94, CHR 0x80, CHR 0xE2, CHR 0x94, CHR 0x80, CHR 0xE2, CHR 0x94, CHR 0x80, CHR 0xE2, CHR 0x94, CHR 0x80, CHR 0xE2, CHR 0x94, CHR 0x80, CHR 0xE2, CHR 0x94, CHR 0x80, CHR 0xE2, CHR 0x94, CHR 0x80, CHR 0xE2, CHR 0x94, CHR 0x80, CHR 0xE2, CHR 0x94, CHR 0x80, CHR 0xE2, CHR 0x94, CHR 0x80, CHR 0xE2, CHR 0x94, CHR 0x80, CHR 0xE2, CHR 0x94, CHR 0x80, CHR 0xE2, CHR 0x94, CHR 0x80, CHR 0xE2, CHR 0x94, CHR 0x80, CHR 0xE2, CHR 0x94, CHR 0x80, CHR 0xE2, CHR 0x94, CHR 0x98]),
           vpln [],
           vpln (''  '' @ [CHR 0xE2, CHR 0x94, CHR 0x8C, CHR 0xE2, CHR 0x94, CHR 0x80, CHR 0xE2, CHR 0x94, CHR 0x80, CHR 0xE2, CHR 0x94, CHR 0x80, CHR 0xE2, CHR 0x94, CHR 0x80, CHR 0xE2, CHR 0x94, CHR 0x80, CHR 0xE2, CHR 0x94, CHR 0x80, CHR 0xE2, CHR 0x94, CHR 0x80, CHR 0xE2, CHR 0x94, CHR 0x80, CHR 0xE2, CHR 0x94, CHR 0x80, CHR 0xE2, CHR 0x94, CHR 0x80, CHR 0xE2, CHR 0x94, CHR 0x80, CHR 0xE2, CHR 0x94, CHR 0x80, CHR 0xE2, CHR 0x94, CHR 0x80, CHR 0xE2, CHR 0x94, CHR 0x80, CHR 0xE2, CHR 0x94, CHR 0x80, CHR 0xE2, CHR 0x94, CHR 0x80, CHR 0xE2, CHR 0x94, CHR 0x80, CHR 0xE2, CHR 0x94, CHR 0x80, CHR 0xE2, CHR 0x94, CHR 0x80, CHR 0xE2, CHR 0x94, CHR 0x80, CHR 0xE2, CHR 0x94, CHR 0x80, CHR 0xE2, CHR 0x94, CHR 0x80, CHR 0xE2, CHR 0x94, CHR 0x80, CHR 0xE2, CHR 0x94, CHR 0x80, CHR 0xE2, CHR 0x94, CHR 0x80, CHR 0xE2, CHR 0x94, CHR 0x80, CHR 0xE2, CHR 0x94, CHR 0x80, CHR 0xE2, CHR 0x94, CHR 0x80, CHR 0xE2, CHR 0x94, CHR 0x80, CHR 0xE2, CHR 0x94, CHR 0x80, CHR 0xE2, CHR 0x94, CHR 0x80, CHR 0xE2, CHR 0x94, CHR 0x80, CHR 0xE2, CHR 0x94, CHR 0x80, CHR 0xE2, CHR 0x94, CHR 0x80, CHR 0xE2, CHR 0x94, CHR 0x80, CHR 0xE2, CHR 0x94, CHR 0x80, CHR 0xE2, CHR 0x94, CHR 0x80, CHR 0xE2, CHR 0x94, CHR 0x80, CHR 0xE2, CHR 0x94, CHR 0x80, CHR 0xE2, CHR 0x94, CHR 0x80, CHR 0xE2, CHR 0x94, CHR 0x80, CHR 0xE2, CHR 0x94, CHR 0x90]),
           vpln (''  '' @ [CHR 0xE2, CHR 0x94, CHR 0x82] @ '' Goroutines (Concurrency)                '' @ [CHR 0xE2, CHR 0x94, CHR 0x82]),
           vpln (''  '' @ [CHR 0xE2, CHR 0x94, CHR 0x9C, CHR 0xE2, CHR 0x94, CHR 0x80, CHR 0xE2, CHR 0x94, CHR 0x80, CHR 0xE2, CHR 0x94, CHR 0x80, CHR 0xE2, CHR 0x94, CHR 0x80, CHR 0xE2, CHR 0x94, CHR 0x80, CHR 0xE2, CHR 0x94, CHR 0x80, CHR 0xE2, CHR 0x94, CHR 0x80, CHR 0xE2, CHR 0x94, CHR 0x80, CHR 0xE2, CHR 0x94, CHR 0x80, CHR 0xE2, CHR 0x94, CHR 0x80, CHR 0xE2, CHR 0x94, CHR 0x80, CHR 0xE2, CHR 0x94, CHR 0x80, CHR 0xE2, CHR 0x94, CHR 0x80, CHR 0xE2, CHR 0x94, CHR 0x80, CHR 0xE2, CHR 0x94, CHR 0x80, CHR 0xE2, CHR 0x94, CHR 0x80, CHR 0xE2, CHR 0x94, CHR 0x80, CHR 0xE2, CHR 0x94, CHR 0x80, CHR 0xE2, CHR 0x94, CHR 0x80, CHR 0xE2, CHR 0x94, CHR 0x80, CHR 0xE2, CHR 0x94, CHR 0x80, CHR 0xE2, CHR 0x94, CHR 0x80, CHR 0xE2, CHR 0x94, CHR 0x80, CHR 0xE2, CHR 0x94, CHR 0x80, CHR 0xE2, CHR 0x94, CHR 0x80, CHR 0xE2, CHR 0x94, CHR 0x80, CHR 0xE2, CHR 0x94, CHR 0x80, CHR 0xE2, CHR 0x94, CHR 0x80, CHR 0xE2, CHR 0x94, CHR 0x80, CHR 0xE2, CHR 0x94, CHR 0x80, CHR 0xE2, CHR 0x94, CHR 0x80, CHR 0xE2, CHR 0x94, CHR 0x80, CHR 0xE2, CHR 0x94, CHR 0x80, CHR 0xE2, CHR 0x94, CHR 0x80, CHR 0xE2, CHR 0x94, CHR 0x80, CHR 0xE2, CHR 0x94, CHR 0x80, CHR 0xE2, CHR 0x94, CHR 0x80, CHR 0xE2, CHR 0x94, CHR 0x80, CHR 0xE2, CHR 0x94, CHR 0x80, CHR 0xE2, CHR 0x94, CHR 0x80, CHR 0xE2, CHR 0x94, CHR 0x80, CHR 0xE2, CHR 0x94, CHR 0xA4]),
           vpln (''  '' @ [CHR 0xE2, CHR 0x94, CHR 0x82] @ '' func count(id int) {                    '' @ [CHR 0xE2, CHR 0x94, CHR 0x82]),
           vpln (''  '' @ [CHR 0xE2, CHR 0x94, CHR 0x82] @ ''     for i := 0; i < 5; i++ {           '' @ [CHR 0xE2, CHR 0x94, CHR 0x82]),
           vpln (''  '' @ [CHR 0xE2, CHR 0x94, CHR 0x82] @ ''         fmt.Println(id, i)             '' @ [CHR 0xE2, CHR 0x94, CHR 0x82]),
           vpln (''  '' @ [CHR 0xE2, CHR 0x94, CHR 0x82] @ ''     }                                  '' @ [CHR 0xE2, CHR 0x94, CHR 0x82]),
           vpln (''  '' @ [CHR 0xE2, CHR 0x94, CHR 0x82] @ '' }                                      '' @ [CHR 0xE2, CHR 0x94, CHR 0x82]),
           vpln (''  '' @ [CHR 0xE2, CHR 0x94, CHR 0x82] @ ''                                        '' @ [CHR 0xE2, CHR 0x94, CHR 0x82]),
           vpln (''  '' @ [CHR 0xE2, CHR 0x94, CHR 0x82] @ '' go count(1)  // Start goroutine       '' @ [CHR 0xE2, CHR 0x94, CHR 0x82]),
           vpln (''  '' @ [CHR 0xE2, CHR 0x94, CHR 0x82] @ '' go count(2)                           '' @ [CHR 0xE2, CHR 0x94, CHR 0x82]),
           vpln (''  '' @ [CHR 0xE2, CHR 0x94, CHR 0x94, CHR 0xE2, CHR 0x94, CHR 0x80, CHR 0xE2, CHR 0x94, CHR 0x80, CHR 0xE2, CHR 0x94, CHR 0x80, CHR 0xE2, CHR 0x94, CHR 0x80, CHR 0xE2, CHR 0x94, CHR 0x80, CHR 0xE2, CHR 0x94, CHR 0x80, CHR 0xE2, CHR 0x94, CHR 0x80, CHR 0xE2, CHR 0x94, CHR 0x80, CHR 0xE2, CHR 0x94, CHR 0x80, CHR 0xE2, CHR 0x94, CHR 0x80, CHR 0xE2, CHR 0x94, CHR 0x80, CHR 0xE2, CHR 0x94, CHR 0x80, CHR 0xE2, CHR 0x94, CHR 0x80, CHR 0xE2, CHR 0x94, CHR 0x80, CHR 0xE2, CHR 0x94, CHR 0x80, CHR 0xE2, CHR 0x94, CHR 0x80, CHR 0xE2, CHR 0x94, CHR 0x80, CHR 0xE2, CHR 0x94, CHR 0x80, CHR 0xE2, CHR 0x94, CHR 0x80, CHR 0xE2, CHR 0x94, CHR 0x80, CHR 0xE2, CHR 0x94, CHR 0x80, CHR 0xE2, CHR 0x94, CHR 0x80, CHR 0xE2, CHR 0x94, CHR 0x80, CHR 0xE2, CHR 0x94, CHR 0x80, CHR 0xE2, CHR 0x94, CHR 0x80, CHR 0xE2, CHR 0x94, CHR 0x80, CHR 0xE2, CHR 0x94, CHR 0x80, CHR 0xE2, CHR 0x94, CHR 0x80, CHR 0xE2, CHR 0x94, CHR 0x80, CHR 0xE2, CHR 0x94, CHR 0x80, CHR 0xE2, CHR 0x94, CHR 0x80, CHR 0xE2, CHR 0x94, CHR 0x80, CHR 0xE2, CHR 0x94, CHR 0x80, CHR 0xE2, CHR 0x94, CHR 0x80, CHR 0xE2, CHR 0x94, CHR 0x80, CHR 0xE2, CHR 0x94, CHR 0x80, CHR 0xE2, CHR 0x94, CHR 0x80, CHR 0xE2, CHR 0x94, CHR 0x80, CHR 0xE2, CHR 0x94, CHR 0x80, CHR 0xE2, CHR 0x94, CHR 0x80, CHR 0xE2, CHR 0x94, CHR 0x80, CHR 0xE2, CHR 0x94, CHR 0x98]),
           vpln []]"

definition go_tutorial :: "vga \<Rightarrow> vga" where
  "go_tutorial =
     seqs [vset C_YELLOW C_BLACK, vpln ''  Go Quick Tutorial:'', vrst, vpln [], vpln ''  1. BASICS:'',
           vpln ''     package main          // Every program starts here'',
           vpln (''     import '' @ [CHR 0x22] @ ''fmt'' @ [CHR 0x22] @ ''         // Import packages with double quotes''),
           vpln ''     func main() { }      // Entry point'', vpln [], vpln ''  2. VARIABLES:'',
           vpln ''     var x int = 10       // Explicit type'',
           vpln ''     y := 20              // Type inference (short)'',
           vpln ''     const PI = 3.14159   // Constants'', vpln [], vpln ''  3. FUNCTIONS:'',
           vpln ''     func add(a, b int) int {'', vpln ''         return a + b'', vpln ''     }'',
           vpln ''     // Multiple return values!'', vpln ''     func swap(a, b int) (int, int) {'',
           vpln ''         return b, a'', vpln ''     }'', vpln [],
           vpln (''  4. LOOPS (only '' @ [CHR 0x27] @ ''for'' @ [CHR 0x27] @ '' in Go):''),
           vpln ''     for i := 0; i < 10; i++ { }'', vpln ''     for { }               // Infinite loop'',
           vpln ''     for i < 10 { }        // While-style'', vpln [],
           vpln ''  5. SLICES (dynamic arrays):'', vpln ''     nums := []int{1, 2, 3}'',
           vpln ''     nums = append(nums, 4)'', vpln [], vpln ''  6. MAPS (key-value):'',
           vpln ''     ages := map[string]int{'',
           vpln (''         '' @ [CHR 0x22] @ ''Alice'' @ [CHR 0x22] @ '': 25,''),
           vpln (''         '' @ [CHR 0x22] @ ''Bob'' @ [CHR 0x22] @ '': 30,''), vpln ''     }'', vpln [],
           vpln ''  7. STRUCTS:'', vpln ''     type Person struct {'', vpln ''         Name string'',
           vpln ''         Age  int'', vpln ''     }'',
           vpln (''     p := Person{Name: '' @ [CHR 0x22] @ ''Ada'' @ [CHR 0x22] @ '', Age: 27}''), vpln [],
           vpln ''  8. GOROUTINES (concurrent):'',
           vpln (''     go func() { fmt.Println('' @ [CHR 0x22] @ ''Hi!'' @ [CHR 0x22] @ '') }()''),
           vpln (''     // Use '' @ [CHR 0x27] @ ''chan'' @ [CHR 0x27] @ '' for communication''), vpln []]"

definition go_hello :: "vga \<Rightarrow> vga" where
  "go_hello =
     seqs [vset C_LGREEN C_BLACK, vpln [],
           vpln (''  '' @ [CHR 0xE2, CHR 0x94, CHR 0x8C, CHR 0xE2, CHR 0x94, CHR 0x80, CHR 0xE2, CHR 0x94, CHR 0x80, CHR 0xE2, CHR 0x94, CHR 0x80, CHR 0xE2, CHR 0x94, CHR 0x80, CHR 0xE2, CHR 0x94, CHR 0x80, CHR 0xE2, CHR 0x94, CHR 0x80, CHR 0xE2, CHR 0x94, CHR 0x80, CHR 0xE2, CHR 0x94, CHR 0x80, CHR 0xE2, CHR 0x94, CHR 0x80, CHR 0xE2, CHR 0x94, CHR 0x80, CHR 0xE2, CHR 0x94, CHR 0x80, CHR 0xE2, CHR 0x94, CHR 0x80, CHR 0xE2, CHR 0x94, CHR 0x80, CHR 0xE2, CHR 0x94, CHR 0x80, CHR 0xE2, CHR 0x94, CHR 0x80, CHR 0xE2, CHR 0x94, CHR 0x80, CHR 0xE2, CHR 0x94, CHR 0x80, CHR 0xE2, CHR 0x94, CHR 0x80, CHR 0xE2, CHR 0x94, CHR 0x80, CHR 0xE2, CHR 0x94, CHR 0x80, CHR 0xE2, CHR 0x94, CHR 0x80, CHR 0xE2, CHR 0x94, CHR 0x80, CHR 0xE2, CHR 0x94, CHR 0x80, CHR 0xE2, CHR 0x94, CHR 0x80, CHR 0xE2, CHR 0x94, CHR 0x80, CHR 0xE2, CHR 0x94, CHR 0x80, CHR 0xE2, CHR 0x94, CHR 0x80, CHR 0xE2, CHR 0x94, CHR 0x80, CHR 0xE2, CHR 0x94, CHR 0x80, CHR 0xE2, CHR 0x94, CHR 0x80, CHR 0xE2, CHR 0x94, CHR 0x80, CHR 0xE2, CHR 0x94, CHR 0x80, CHR 0xE2, CHR 0x94, CHR 0x80, CHR 0xE2, CHR 0x94, CHR 0x80, CHR 0xE2, CHR 0x94, CHR 0x80, CHR 0xE2, CHR 0x94, CHR 0x80, CHR 0xE2, CHR 0x94, CHR 0x80, CHR 0xE2, CHR 0x94, CHR 0x80, CHR 0xE2, CHR 0x94, CHR 0x80, CHR 0xE2, CHR 0x94, CHR 0x90]),
           vpln (''  '' @ [CHR 0xE2, CHR 0x94, CHR 0x82] @ ''  Hello from Go on pigOS!              '' @ [CHR 0xE2, CHR 0x94, CHR 0x82]),
           vpln (''  '' @ [CHR 0xE2, CHR 0x94, CHR 0x82] @ ''                                       '' @ [CHR 0xE2, CHR 0x94, CHR 0x82]),
           vpln (''  '' @ [CHR 0xE2, CHR 0x94, CHR 0x82] @ ''    '' @ [CHR 0xE2, CHR 0x96, CHR 0x88, CHR 0xE2, CHR 0x96, CHR 0x88, CHR 0xE2, CHR 0x96, CHR 0x88, CHR 0xE2, CHR 0x96, CHR 0x88] @ ''  '' @ [CHR 0xE2, CHR 0x96, CHR 0x88, CHR 0xE2, CHR 0x96, CHR 0x88, CHR 0xE2, CHR 0x96, CHR 0x88, CHR 0xE2, CHR 0x96, CHR 0x88] @ ''  '' @ [CHR 0xE2, CHR 0x96, CHR 0x88] @ ''  '' @ [CHR 0xE2, CHR 0x96, CHR 0x88] @ ''  '' @ [CHR 0xE2, CHR 0x96, CHR 0x88] @ ''               '' @ [CHR 0xE2, CHR 0x94, CHR 0x82]),
           vpln (''  '' @ [CHR 0xE2, CHR 0x94, CHR 0x82] @ ''    '' @ [CHR 0xE2, CHR 0x96, CHR 0x88] @ ''   '' @ [CHR 0xE2, CHR 0x96, CHR 0x88] @ '' '' @ [CHR 0xE2, CHR 0x96, CHR 0x88] @ ''   '' @ [CHR 0xE2, CHR 0x96, CHR 0x88] @ '' '' @ [CHR 0xE2, CHR 0x96, CHR 0x88] @ ''  '' @ [CHR 0xE2, CHR 0x96, CHR 0x88] @ ''  '' @ [CHR 0xE2, CHR 0x96, CHR 0x88] @ ''               '' @ [CHR 0xE2, CHR 0x94, CHR 0x82]),
           vpln (''  '' @ [CHR 0xE2, CHR 0x94, CHR 0x82] @ ''    '' @ [CHR 0xE2, CHR 0x96, CHR 0x88, CHR 0xE2, CHR 0x96, CHR 0x88, CHR 0xE2, CHR 0x96, CHR 0x88, CHR 0xE2, CHR 0x96, CHR 0x88] @ ''  '' @ [CHR 0xE2, CHR 0x96, CHR 0x88, CHR 0xE2, CHR 0x96, CHR 0x88, CHR 0xE2, CHR 0x96, CHR 0x88, CHR 0xE2, CHR 0x96, CHR 0x88] @ ''  '' @ [CHR 0xE2, CHR 0x96, CHR 0x88] @ ''  '' @ [CHR 0xE2, CHR 0x96, CHR 0x88] @ ''  '' @ [CHR 0xE2, CHR 0x96, CHR 0x88] @ ''               '' @ [CHR 0xE2, CHR 0x94, CHR 0x82]),
           vpln (''  '' @ [CHR 0xE2, CHR 0x94, CHR 0x82] @ ''    '' @ [CHR 0xE2, CHR 0x96, CHR 0x88] @ ''   '' @ [CHR 0xE2, CHR 0x96, CHR 0x88] @ '' '' @ [CHR 0xE2, CHR 0x96, CHR 0x88] @ ''   '' @ [CHR 0xE2, CHR 0x96, CHR 0x88] @ '' '' @ [CHR 0xE2, CHR 0x96, CHR 0x88] @ ''  '' @ [CHR 0xE2, CHR 0x96, CHR 0x88] @ ''  '' @ [CHR 0xE2, CHR 0x96, CHR 0x88] @ ''               '' @ [CHR 0xE2, CHR 0x94, CHR 0x82]),
           vpln (''  '' @ [CHR 0xE2, CHR 0x94, CHR 0x82] @ ''    '' @ [CHR 0xE2, CHR 0x96, CHR 0x88, CHR 0xE2, CHR 0x96, CHR 0x88, CHR 0xE2, CHR 0x96, CHR 0x88, CHR 0xE2, CHR 0x96, CHR 0x88] @ ''  '' @ [CHR 0xE2, CHR 0x96, CHR 0x88, CHR 0xE2, CHR 0x96, CHR 0x88, CHR 0xE2, CHR 0x96, CHR 0x88, CHR 0xE2, CHR 0x96, CHR 0x88] @ ''  '' @ [CHR 0xE2, CHR 0x96, CHR 0x88, CHR 0xE2, CHR 0x96, CHR 0x88, CHR 0xE2, CHR 0x96, CHR 0x88, CHR 0xE2, CHR 0x96, CHR 0x88] @ ''  '' @ [CHR 0xE2, CHR 0x96, CHR 0x88, CHR 0xE2, CHR 0x96, CHR 0x88, CHR 0xE2, CHR 0x96, CHR 0x88, CHR 0xE2, CHR 0x96, CHR 0x88] @ ''            '' @ [CHR 0xE2, CHR 0x94, CHR 0x82]),
           vpln (''  '' @ [CHR 0xE2, CHR 0x94, CHR 0x82] @ ''                                       '' @ [CHR 0xE2, CHR 0x94, CHR 0x82]),
           vpln (''  '' @ [CHR 0xE2, CHR 0x94, CHR 0x82] @ ''  The Go gopher says:                  '' @ [CHR 0xE2, CHR 0x94, CHR 0x82]),
           vpln (''  '' @ [CHR 0xE2, CHR 0x94, CHR 0x82] @ ''  '' @ [CHR 0x22] @ ''Let'' @ [CHR 0x27] @ ''s build scalable systems!'' @ [CHR 0x22] @ ''     '' @ [CHR 0xE2, CHR 0x94, CHR 0x82]),
           vpln (''  '' @ [CHR 0xE2, CHR 0x94, CHR 0x94, CHR 0xE2, CHR 0x94, CHR 0x80, CHR 0xE2, CHR 0x94, CHR 0x80, CHR 0xE2, CHR 0x94, CHR 0x80, CHR 0xE2, CHR 0x94, CHR 0x80, CHR 0xE2, CHR 0x94, CHR 0x80, CHR 0xE2, CHR 0x94, CHR 0x80, CHR 0xE2, CHR 0x94, CHR 0x80, CHR 0xE2, CHR 0x94, CHR 0x80, CHR 0xE2, CHR 0x94, CHR 0x80, CHR 0xE2, CHR 0x94, CHR 0x80, CHR 0xE2, CHR 0x94, CHR 0x80, CHR 0xE2, CHR 0x94, CHR 0x80, CHR 0xE2, CHR 0x94, CHR 0x80, CHR 0xE2, CHR 0x94, CHR 0x80, CHR 0xE2, CHR 0x94, CHR 0x80, CHR 0xE2, CHR 0x94, CHR 0x80, CHR 0xE2, CHR 0x94, CHR 0x80, CHR 0xE2, CHR 0x94, CHR 0x80, CHR 0xE2, CHR 0x94, CHR 0x80, CHR 0xE2, CHR 0x94, CHR 0x80, CHR 0xE2, CHR 0x94, CHR 0x80, CHR 0xE2, CHR 0x94, CHR 0x80, CHR 0xE2, CHR 0x94, CHR 0x80, CHR 0xE2, CHR 0x94, CHR 0x80, CHR 0xE2, CHR 0x94, CHR 0x80, CHR 0xE2, CHR 0x94, CHR 0x80, CHR 0xE2, CHR 0x94, CHR 0x80, CHR 0xE2, CHR 0x94, CHR 0x80, CHR 0xE2, CHR 0x94, CHR 0x80, CHR 0xE2, CHR 0x94, CHR 0x80, CHR 0xE2, CHR 0x94, CHR 0x80, CHR 0xE2, CHR 0x94, CHR 0x80, CHR 0xE2, CHR 0x94, CHR 0x80, CHR 0xE2, CHR 0x94, CHR 0x80, CHR 0xE2, CHR 0x94, CHR 0x80, CHR 0xE2, CHR 0x94, CHR 0x80, CHR 0xE2, CHR 0x94, CHR 0x80, CHR 0xE2, CHR 0x94, CHR 0x80, CHR 0xE2, CHR 0x94, CHR 0x80, CHR 0xE2, CHR 0x94, CHR 0x98]),
           vrst, vpln [], vpln ''  Source: package main'',
           vpln (''          import '' @ [CHR 0x22] @ ''fmt'' @ [CHR 0x22]), vpln [],
           vpln ''          func main() {'',
           vpln (''              fmt.Println('' @ [CHR 0x22] @ ''Hello from Go on pigOS!'' @ [CHR 0x22] @ '')''),
           vpln ''          }'', vpln []]"

definition cmd_larpshell :: "vga \<Rightarrow> vga" where
  "cmd_larpshell =
     seqs [vset C_LCYAN C_BLACK, vpln [], vpln ''  ============================================='',
           vpln ''       LARP SHELL (larpshell) v5.9.3'',
           vpln ''  ============================================='', vrst, vpln [],
           vpln ''  A modern Linux shell written in Go'', vpln [], vpln ''  CREDITS & AUTHORS:'',
           vset C_LGREEN C_BLACK, vpln ''  -------------------------------------------'', vrst,
           vpln ''  Project:   lash (larp shell)'', vpln ''  Version:   5.9.3'',
           vpln ''  Language:  Go 1.26'', vpln ''  License:   GPLv3'', vpln [],
           vpln ''  Created by AI-generated code'', vpln ''  Contributors: github.com/usr-undeleted/lash'',
           vpln [], vset C_YELLOW C_BLACK, vpln ''  FEATURES:'', vrst,
           vpln ''  + Custom PS1 prompts with escape codes'',
           vpln (''  + Git integration ('' @ [CHR 0x5C] @ ''g branch display)''),
           vpln ''  + Syntax highlighting'', vpln ''  + Job control & background processes'',
           vpln ''  + Line editing with history'', vpln ''  + Tab completion'',
           vpln ''  + Variables & expansion'', vpln ''  + Glob patterns (*, ?, [abc])'',
           vpln ''  + Pipes, redirections, chaining'', vpln ''  + Configurable via ~/.config/lash/'', vrst,
           vpln [], vpln ''  Source code included in /shell/larpshell/'',
           vpln (''  Run '' @ [CHR 0x27] @ ''cat /shell/larpshell/README.md'' @ [CHR 0x27] @ '' for more''),
           vpln [], vset C_DGREY C_BLACK, vpln ''  Note: larpshell requires Linux syscalls'',
           vpln ''  pigOS has custom syscall interface.'', vpln ''  Full integration pending syscall port.'',
           vrst, vpln []]"

definition pigos_splash :: "vga \<Rightarrow> vga" where
  "pigos_splash =
     seqs [vset C_LMAG C_BLACK, vpln [], vpln ''   ____  _       ___  ____   v1.0 x86_64'',
           vpln (''  |  _ '' @ [CHR 0x5C] @ ''(_) ___ / _ '' @ [CHR 0x5C] @ ''/ ___|  larpshell 5.9''),
           vpln (''  | |_) | |/ _ '' @ [CHR 0x5C] @ '' | | '' @ [CHR 0x5C] @ ''___ '' @ [CHR 0x5C] @ ''  poing init''),
           vpln ''  |  __/| | (_) | |_| |___) | PigWM'',
           vpln (''  |_|   |_|'' @ [CHR 0x5C] @ ''___/ '' @ [CHR 0x5C] @ ''___/|____/  RTL8139''), vpln [],
           vrst, vset C_LCYAN C_BLACK,
           vpln (''  pigOS v1.0 - type '' @ [CHR 0x27] @ ''help'' @ [CHR 0x27] @ '' for all commands''),
           vrst, vset C_DGREY C_BLACK, vpln ''  pigfetch=sysinfo  wm=desktop  rpk on <pkg>=install'',
           vpln ''  Network: qemu ... -net nic,model=rtl8139 -net user'', vpln [], vrst]"

definition lash_print_logo :: "vga \<Rightarrow> vga" where
  "lash_print_logo =
     seqs [vrst, vpln [], vset C_LCYAN C_BLACK, vpln ''  +====================================+'',
           vpln ''  |    LARP SHELL v5.9.3 - pigOS    |'', vpln ''  +====================================+'',
           vrst, vpln [], vpln ''  Credits: github.com/usr-undeleted/lash'',
           vpln (''  Type '' @ [CHR 0x27] @ ''help'' @ [CHR 0x27] @ '' for all commands.''), vpln []]"

definition help_header :: "vga \<Rightarrow> vga" where
  "help_header =
     (let bc = COL C_LMAG C_BLACK in
      seqs [help_rule,
        at_row (\<lambda>y. seqs [vat CHR ''|'' bc 0 y, vstr 2 y bc ''larpshell v2.2 - pigOS Command Reference'',
          vat CHR ''|'' bc (VGA_W - 1) y]),
        help_rule])"

definition cmd_help_sh :: "vga \<Rightarrow> vga" where
  "cmd_help_sh =
     seqs [help_header, vrst, help_text, help_rule,
       at_row (\<lambda>y. vstr 1 y (COL C_DGREY C_BLACK) ''UP/DOWN=history  CTRL+C=cancel  left/right=cursor''), vrst]"

definition cmd_go :: "string \<Rightarrow> vga \<Rightarrow> vga" where
  "cmd_go a =
     (if a = [] \<or> a = ''version'' \<or> a = ''-v'' then go_usage
      else if a = ''info'' then go_info
      else if a = ''examples'' \<or> a = ''example'' then go_examples
      else if a = ''tutorial'' \<or> a = ''learn'' then go_tutorial
      else if a = ''hello'' then go_hello
      else seqs [vps (''go: unknown subcommand '' @ [CHR 0x27]), vps a, vpln [CHR 0x27],
        vpln (''Run '' @ [CHR 0x27] @ ''go'' @ [CHR 0x27] @ '' for usage.'')])"

definition dmesg_screen :: "bool \<Rightarrow> vga \<Rightarrow> vga" where
  "dmesg_screen net_ok =
     seqs [vset C_LGREEN C_BLACK, vpln ''[  0.000] POUG: multiboot loaded pigKernel'',
       vpln ''[  0.001] pigKernel 1.0 x86_64 Long Mode'', vpln ''[  0.002] VGA: 80x25 CP437 @ 0xB8000'',
       vpln ''[  0.003] PS/2: keyboard + mouse initialized'', vpln ''[  0.004] PCI: RTL8139 found at 00:03.0'',
       if net_ok then id else seqs [vset C_YELLOW C_BLACK, vpln ''[  0.005] WARN: RTL8139 no carrier''],
       vset C_LGREEN C_BLACK, vpln ''[  0.006] poing: 13 units started'', vpln ''[  0.007] larpshell: tty0 ready'']"

definition cmd_openssl :: "string \<Rightarrow> vga \<Rightarrow> vga" where
  "cmd_openssl a =
     (if a = [] then
        seqs [vset C_LCYAN C_BLACK, vpln ''pigssl 1.0 - pigOS SSL/TLS/Crypto'', vrst,
          vpln ''Commands: version enc dec genrsa x509 hash'']
      else if a = ''version'' then
        seqs [vpln ''pigssl 1.0.0 (pigOS built-in)'', vpln ''AES-256-GCM ChaCha20 RSA-2048 [simulated]'']
      else if take 6 a = ''genrsa'' then
        seqs [vpln ''Generating RSA-2048...'', vpln ''......++++'', vpln ''..........++++'',
          vpln ''[simulated - no hardware math]'']
      else if take 4 a = ''x509'' then
        seqs [vpln ''Certificate:'', vpln ''  Subject: CN=pigOS'', vpln ''  Issuer: CN=pigCA'',
          vpln ''  Valid: 1970-2099 [self-signed]'']
      else vpln ''[pigssl: command queued - TCP stack needed for TLS]'')"

text \<open>The answers of \<open>llm\<close> without a network; with one, a request is sent between the two parts.\<close>

definition llm_answer :: "string \<Rightarrow> vga \<Rightarrow> vga" where
  "llm_answer p =
     (if take 5 p = ''hello'' \<or> take 2 p = ''hi'' then
        seqs [vpln (''  A: Hello! I'' @ [CHR 0x27] @ ''m pigAI v0.4 on pigOS!''),
          vpln (''     I'' @ [CHR 0x27] @ ''m powered by larpshell v5.9.3'')]
      else if take 4 p = ''help'' then
        seqs [vpln ''  A: I can answer questions about:'', vpln ''     - kernel, poing, wm, shell'',
          vpln ''     - network, rpk, mouse'', vpln ''     - commands, files, boot'']
      else if take 7 p = ''network'' then
        seqs [vpln ''  A: Network in pigOS:'', vpln ''     RTL8139 driver loaded'',
          vpln (''     Run '' @ [CHR 0x27] @ ''netpg dhcp'' @ [CHR 0x27] @ '' to get IP''),
          vpln ''     Then use wget, curl, ping'']
      else if take 5 p = ''shell'' \<or> take 4 p = ''lash'' then
        seqs [vpln ''  A: larpshell v5.9.3:'', vpln ''     Commands: help, ls, cd, mkdir'',
          vpln ''     Features: history'', vpln ''     Built on github.com/usr-undeleted/lash'']
      else seqs [vpln ''  A: Interesting question!'', vpln ''     Try: llm help, llm network, llm shell''])"

definition llm_head :: "string \<Rightarrow> vga \<Rightarrow> vga" where
  "llm_head p =
     (if p = [] then
        seqs [vset C_LMAG C_BLACK, vpln ''pigai v0.4 - pigOS AI Assistant'', vrst, vpln ''Usage: llm <question>'',
          vpln ''Try: llm hello, llm help, llm <any question>'']
      else seqs [vset C_LMAG C_BLACK, vpln ''pigai v0.4'', vrst, vps ''  Q: '', vpln p])"

section \<open>The help page on the last rows\<close>

lemma draws_vy: "draws f \<Longrightarrow> vy (f st) = vy st"
  unfolding draws_def by (metis vga.select_convs(2) vga.surjective vga.update_convs(8))

lemma at_row_vy: "(\<And>y. draws (f y)) \<Longrightarrow> vy (at_row f st) = vy st + 1"
  by (simp add: at_row_def Let_def draws_vy)

lemma help_rule_vy: "vy (help_rule st) = vy st + 1"
  unfolding help_rule_def Let_def by (rule at_row_vy) (intro inv_intros)

text \<open>The three rows of the header move the cursor down by three rows without scrolling: typed on one of
  the last three rows, \<open>help\<close> leaves the screen.\<close>

lemma help_header_off_screen: "vy (help_header st) = vy st + 3"
proof -
  have "vy (at_row (\<lambda>y. seqs [vat CHR ''|'' c 0 y, vstr 2 y c s, vat CHR ''|'' c (VGA_W - 1) y]) st) = vy st + 1"
    for c s st by (rule at_row_vy) (intro inv_intros)
  then show ?thesis by (simp add: help_header_def Let_def help_rule_vy)
qed

end
