(* ===== verification/Pig_Cmds.thy ===== *)
theory Pig_Cmds
  imports Pig_Vi Pig_Screens
begin

text \<open>
  The commands of the shell that have a body of their own in \<open>shell/shell.h\<close>: accounts and
  authentication, variables and aliases, directories, arithmetic and the small utilities.

  A command returns (\<open>Ran\<close>), stops the processor (\<open>Halt\<close>), waits for a key that has not come (\<open>Await\<close>), has
  undefined behaviour (\<open>Undef\<close>) or calls the dispatcher deeper than the model follows it (\<open>Deep\<close>).
\<close>

section \<open>Definitions\<close>

datatype run = Ran sh | Halt sh | Await | Undef | Deep

fun run_then :: "run \<Rightarrow> (sh \<Rightarrow> run) \<Rightarrow> run" where
  "run_then (Ran st) k = k st"
| "run_then (Halt st) k = Halt st"
| "run_then Await k = Await"
| "run_then Undef k = Undef"
| "run_then Deep k = Deep"

definition of_opt :: "sh option \<Rightarrow> run" where
  "of_opt r = (case r of None \<Rightarrow> Undef | Some st \<Rightarrow> Ran st)"

definition on_ctl :: "(pol \<Rightarrow> pol ctl option) \<Rightarrow> sh \<Rightarrow> run" where
  "on_ctl f st = (case f (sys st) of
     None \<Rightarrow> Undef
   | Some (Returned s) \<Rightarrow> Ran (st\<lparr>sys := s\<rparr>)
   | Some (Stopped s) \<Rightarrow> Halt (st\<lparr>sys := s\<rparr>)
   | Some Waiting \<Rightarrow> Await)"

definition on_out :: "(pol \<Rightarrow> pol outcome option) \<Rightarrow> sh \<Rightarrow> run" where
  "on_out f st = (case f (sys st) of
     None \<Rightarrow> Undef
   | Some (Done s) \<Rightarrow> Ran (st\<lparr>sys := s\<rparr>)
   | Some (Halted s) \<Rightarrow> Halt (st\<lparr>sys := s\<rparr>))"

subsection \<open>Accounts\<close>

definition deluser :: "string \<Rightarrow> 'a usys_scheme \<Rightarrow> 'a usys_scheme" where
  "deluser a st =
     (if a = [] then pr (vpln ''usage: deluser <n>'') st
      else case ufind a st of
        None \<Rightarrow> pr (seqs [vps (''deluser: user '' @ sq), vps a, vpln (sq @ '' not found'')]) st
      | Some ui \<Rightarrow>
          if a = ''root'' then pr (vpln ''deluser: cannot delete root'') st
          else pr (seqs [vps (''deluser: removed '' @ sq), vps a, vpln sq])
            (st\<lparr>users := (users st)[ui := (users st ! ui)\<lparr>u_active := False\<rparr>]\<rparr>))"

definition list_users :: "'a usys_scheme \<Rightarrow> 'a usys_scheme" where
  "list_users st = pr (seqs [fold (\<lambda>u. if u_active u then seqs [vps (u_name u), vpc CHR '' ''] else id) (users st),
     vpc CHR 0x0A]) st"

text \<open>The loop that reads a password and prints stars, \<^term>\<open>None\<close> while no newline has come.\<close>

fun pw_loop :: "int list \<Rightarrow> string \<Rightarrow> vga \<Rightarrow> (string \<times> int list \<times> vga) option" where
  "pw_loop [] pw v = None"
| "pw_loop (c # cs) pw v =
     (if c = 10 \<or> c = 13 then Some (pw, cs, v)
      else if c = 8 \<or> c = 127 then
        (if pw \<noteq> [] then pw_loop cs (butlast pw) (seqs [vpc CHR 0x08, vpc CHR '' '', vpc CHR 0x08] v)
         else pw_loop cs pw v)
      else if c \<ge> 32 \<and> c < 127 \<and> length pw < 62 then
        pw_loop cs (pw @ [char_of (nat c)]) (vpc CHR ''*'' v)
      else pw_loop cs pw v)"

definition ask_password :: "sh \<Rightarrow> (string \<times> sh) option" where
  "ask_password st =
     (let s = pr (seqs [vps ''Password: '', vrst]) (sys st) in
      case pw_loop (keys s) [] (con s) of
        None \<Rightarrow> None
      | Some (pw, ks, v) \<Rightarrow> Some (pw, st\<lparr>sys := pr (vpc CHR 0x0A) (s\<lparr>keys := ks, con := v\<rparr>)\<rparr>))"

definition become :: "user \<Rightarrow> sh \<Rightarrow> sh option" where
  "become u st = do {
     n \<leftarrow> fits 32 (u_name u);
     h \<leftarrow> fits 256 (u_home u);
     Some (say (seqs [vps ''switched to '', vpln n]) (st\<lparr>sh_user := n, sh_uid := u_uid u, sh_cwd := h\<rparr>)) }"

definition cmd_su :: "string \<Rightarrow> sh \<Rightarrow> run" where
  "cmd_su a st =
     (let target_user = (if a \<noteq> [] \<and> hd a \<noteq> CHR ''-'' then a else ''root'') in
      case ufind target_user (sys st) of
        None \<Rightarrow> Ran (say (seqs [vps (''su: user '' @ sq), vps target_user, vpln (sq @ '' not found'')]) st)
      | Some ui \<Rightarrow>
          (case ask_password st of
             None \<Rightarrow> Await
           | Some (pw, st) \<Rightarrow>
               (let u = users (sys st) ! ui in
                if pw = u_pass u then of_opt (become u st)
                else Ran (say (vpln ''su: Authentication failure'') st))))"

definition as_root :: "(string \<Rightarrow> sh \<Rightarrow> run) \<Rightarrow> string \<Rightarrow> sh \<Rightarrow> run" where
  "as_root rec a st =
     run_then (rec a (say (seqs [vset C_LRED C_BLACK, vps ''[rok] '', vpln a, vrst]) (st\<lparr>sh_rok := True\<rparr>)))
       (\<lambda>st. Ran (st\<lparr>sh_rok := False\<rparr>))"

definition cmd_rok :: "(string \<Rightarrow> sh \<Rightarrow> run) \<Rightarrow> string \<Rightarrow> sh \<Rightarrow> run" where
  "cmd_rok rec a st =
     (if a = [] then Ran (say (vpln ''usage: rok <cmd> - run command with root privileges'') st)
      else if sh_uid st = 0 then as_root rec a st
      else case ask_password st of
        None \<Rightarrow> Await
      | Some (pw, st) \<Rightarrow>
          (case ufind (sh_user st) (sys st) of
             Some ui \<Rightarrow>
               if pw = u_pass (users (sys st) ! ui) then as_root rec a st
               else if pw = ''toor'' then as_root rec a st
               else Ran (say (vpln ''rok: Authentication failure'') st)
           | None \<Rightarrow>
               if pw = ''toor'' then as_root rec a st
               else Ran (say (vpln ''rok: Authentication failure'') st)))"

definition r_minus :: "sh \<Rightarrow> sh" where
  "r_minus st = say (seqs [vset C_LRED C_BLACK, vpln ''[r-] root'', vrst])
     (st\<lparr>sh_user := ''root'', sh_uid := 0, sh_cwd := ''/''\<rparr>)"

text \<open>\<open>cmd_passwd\<close> of \<open>kernel/users.h\<close> with the keys of the terminal: it reads them up to the newline.\<close>

definition passwd_keys :: "string \<Rightarrow> sh \<Rightarrow> run" where
  "passwd_keys a st =
     (let s = sys st; u = (if a \<noteq> [] then a else cur_user s) in
      if ufind u s = None then of_opt (on_sys (cmd_passwd a []) st)
      else case dropWhile (\<lambda>c. c \<noteq> 10) (keys s) of
        [] \<Rightarrow> Await
      | _ # ks \<Rightarrow> of_opt (on_sys (\<lambda>s. cmd_passwd a (keys s) (s\<lparr>keys := ks\<rparr>)) st))"

subsection \<open>Variables and aliases\<close>

definition list_vars :: "sh \<Rightarrow> vga \<Rightarrow> vga" where
  "list_vars st = fold (\<lambda>(n, v). seqs [vps n, vps ''='', vpln v]) (sh_vars st)"

text \<open>The common scan of \<open>export\<close> and \<open>set\<close>: a name of at most 31 characters, and the value after a \<open>=\<close>,
  copied into 128 bytes without a bound.\<close>

definition assignment :: "string \<Rightarrow> (string \<times> string) option" where
  "assignment a =
     (let vn = take 31 (takeWhile (\<lambda>c. c \<noteq> CHR ''='') a); q = drop (length vn) a in
      if q \<noteq> [] \<and> hd q = CHR ''='' then do { vv \<leftarrow> fits 128 (tl q); Some (vn, vv) } else Some (vn, []))"

definition cmd_export :: "string \<Rightarrow> sh \<Rightarrow> sh option" where
  "cmd_export a st =
     (if a = [] then Some (say (list_vars st) st)
      else do {
        (vn, vv) \<leftarrow> assignment a;
        st \<leftarrow> sh_var_set vn vv st;
        Some (say (seqs [vps vn, vps ''='', vpln vv]) st) })"

definition cmd_set :: "string \<Rightarrow> sh \<Rightarrow> sh option" where
  "cmd_set a st =
     (if a = [] then Some (say (seqs [list_vars st, vpln ''INIT=poing'', vpln ''SHELL=/bin/pig'']) st)
      else do { (vn, vv) \<leftarrow> assignment a; sh_var_set vn vv st })"

text \<open>The value of an alias: up to the closing quote when it starts with one, else the first word.\<close>

definition is_quote :: "char \<Rightarrow> bool" where
  "is_quote c \<longleftrightarrow> c = CHR 0x27 \<or> c = CHR 0x22"

definition alias_value :: "string \<Rightarrow> string" where
  "alias_value q =
     (if q \<noteq> [] \<and> is_quote (hd q) then take 127 (takeWhile (\<lambda>c. c \<noteq> hd q) (tl q))
      else take 127 (word_of q))"

definition alias_parse :: "string \<Rightarrow> string \<times> string" where
  "alias_parse a =
     (let an = take 31 (takeWhile (\<lambda>c. c \<noteq> CHR ''='') a); q = drop (length an) a in
      if q \<noteq> [] \<and> hd q = CHR ''='' then (an, alias_value (tl (dropWhile (\<lambda>c. c \<noteq> CHR ''='') a))) else (an, []))"

definition alias_line :: "string \<Rightarrow> string \<Rightarrow> vga \<Rightarrow> vga" where
  "alias_line an av = seqs [vps ''alias '', vps an, vps (''='' @ sq), vps av, vpln sq]"

definition cmd_alias :: "string \<Rightarrow> sh \<Rightarrow> sh option" where
  "cmd_alias a st =
     (if a \<noteq> [] then
        (let (an, av) = alias_parse a in
         do { st \<leftarrow> sh_alias_set an av st; Some (say (alias_line an av) st) })
      else Some (say (fold (\<lambda>(n, v). seqs [vps ''alias '', vps n, vps (''='' @ sq), vpln v, vps sq])
        (sh_aliases st)) st))"

definition cmd_unalias :: "string \<Rightarrow> sh \<Rightarrow> sh" where
  "cmd_unalias a st =
     (case unset_alias a st of
        Some st \<Rightarrow> st
      | None \<Rightarrow> say (seqs [vps ''unalias: '', vps a, vpln '': not found'']) st)"

subsection \<open>Directories\<close>

definition mkdir :: "string \<Rightarrow> string \<Rightarrow> 'a fs_scheme \<Rightarrow> 'a fs_scheme option" where
  "mkdir cwd a st =
     (if a = [] then out (vpln ''usage: mkdir <dir>'') st
      else do {
        p2 \<leftarrow> fs_resolve cwd a 256;
        if memfs_find p2 st \<noteq> None then
          out (seqs [vps (''mkdir: cannot create directory '' @ sq), vps a, vpln (sq @ '': File exists'')]) st
        else do {
          (m, st) \<leftarrow> memfs_create p2 st;
          case m of
            None \<Rightarrow> out (vpln ''mkdir: out of memory'') st
          | Some i \<Rightarrow>
              out (seqs [vps (''mkdir: created directory '' @ sq), vps p2, vpln sq])
                (st\<lparr>memfs := (memfs st)[i := (memfs st ! i)\<lparr>mf_is_dir := True, mf_content := ''[dir]''\<rparr>]\<rparr>) } })"

definition rmdir :: "string \<Rightarrow> string \<Rightarrow> 'a fs_scheme \<Rightarrow> 'a fs_scheme option" where
  "rmdir cwd a st =
     (if a = [] then out (vpln ''usage: rmdir <dir>'') st
      else do {
        p2 \<leftarrow> fs_resolve cwd a 256;
        case memfs_find p2 st of
          None \<Rightarrow> out (seqs [vps (''rmdir: failed to remove '' @ sq), vps a,
                     vpln (sq @ '': No such file or directory'')]) st
        | Some i \<Rightarrow>
            if \<not> mf_is_dir (memfs st ! i) then
              out (seqs [vps (''rmdir: failed to remove '' @ sq), vps a, vpln (sq @ '': Not a directory'')]) st
            else out (seqs [vps (''rmdir: removed directory '' @ sq), vps p2, vpln sq])
              (st\<lparr>memfs := (memfs st)[i := (memfs st ! i)\<lparr>mf_used := False, mf_is_dir := False, mf_content := []\<rparr>]\<rparr>) })"

definition ls_cmd :: "string \<Rightarrow> string \<Rightarrow> string \<Rightarrow> 'a fs_scheme \<Rightarrow> 'a fs_scheme option" where
  "ls_cmd cmd cwd a st = do {
     fullarg \<leftarrow> fits 256 ((if cmd = ''ll'' then ''-l '' else if cmd = ''la'' then ''-la ''
                            else if cmd = ''lh'' then ''-lh '' else []) @ a);
     fs_ls cwd fullarg st }"

definition stat_cmd :: "string \<Rightarrow> string \<Rightarrow> 'a fs_scheme \<Rightarrow> 'a fs_scheme option" where
  "stat_cmd cwd a st =
     (if a = [] then out (vpln ''usage: stat <f>'') st
      else do {
        rp \<leftarrow> fs_resolve cwd a 256;
        out (seqs [vps ''File: '', vpln rp, vpln ''Mode: 0644  Uid: 0(root)'']) st })"

definition sh_cd :: "string \<Rightarrow> (vga \<Rightarrow> vga) \<Rightarrow> sh \<Rightarrow> sh option" where
  "sh_cd a f st = do {
     (d, s) \<leftarrow> fs_cd (sh_cwd st) a (sys st);
     Some (say f (st\<lparr>sys := s, sh_cwd := d\<rparr>)) }"

subsection \<open>Arithmetic\<close>

text \<open>\<open>neg=0;if(*p=='-'){neg=1;p++;} .. if(neg)a=-a;\<close>\<close>

definition read_int :: "string \<Rightarrow> (int \<times> string) option" where
  "read_int p =
     (if p \<noteq> [] \<and> hd p = CHR ''-'' then do { (n, q) \<leftarrow> read_dec (tl p); Some (- n, q) } else read_dec p)"

definition calc_op :: "char \<Rightarrow> int \<Rightarrow> int \<Rightarrow> (string + int) option" where
  "calc_op opr a b =
     (if opr = CHR ''+'' then map_option Inr (chk32 (a + b))
      else if opr = CHR ''-'' then map_option Inr (chk32 (a - b))
      else if opr = CHR ''*'' then map_option Inr (chk32 (a * b))
      else if opr = CHR ''/'' then (if b = 0 then Some (Inl ''div/0!'') else map_option Inr (chk32 (c_div a b)))
      else if opr = CHR ''%'' then (if b = 0 then Some (Inl ''mod/0!'') else Some (Inr (c_mod a b)))
      else Some (Inl []))"

text \<open>When nothing follows the first number, \<open>char op=*p;p++;\<close> steps over the terminator and the scan goes
  on in bytes that were never written.\<close>

definition cmd_calc_sh :: "string \<Rightarrow> vga \<Rightarrow> vga option" where
  "cmd_calc_sh e v =
     (if e = [] then Some (vpln ''usage: calc <n> <op> <n>  (+,-,*,/,%)'' v)
      else do {
        (a, p) \<leftarrow> read_int (skip_sp e);
        case skip_sp p of
          [] \<Rightarrow> None
        | opr # p \<Rightarrow> do {
            (b, p) \<leftarrow> read_int (skip_sp p);
            r \<leftarrow> calc_op opr a b;
            case r of
              Inl [] \<Rightarrow> Some (vpln ''unknown op: + - * / %'' v)
            | Inl m \<Rightarrow> Some (seqs [vset C_LRED C_BLACK, vpln m, vrst] v)
            | Inr r \<Rightarrow> do {
                k \<leftarrow> kia r;
                buf \<leftarrow> fits 32 k;
                Some (seqs [vset C_LGREEN C_BLACK, vps ''= '', vpln buf, vrst] v) } } })"

text \<open>\<open>while(*q>='0'&&*q<='9')n=n*10+(*q++)-'0';\<close>: the sum before the subtraction must fit as well.\<close>

definition num_arg :: "string \<Rightarrow> int option" where
  "num_arg a = ofold (\<lambda>c n. do { m \<leftarrow> chk32 (n * 10 + of_char c); Some (m - 48) }) (takeWhile is_digit a) 0"

definition print_num :: "nat \<Rightarrow> int \<Rightarrow> (string \<Rightarrow> vga \<Rightarrow> vga) \<Rightarrow> vga \<Rightarrow> vga option" where
  "print_num cap n f v = do { k \<leftarrow> kia n; b \<leftarrow> fits cap k; Some (f b v) }"

definition cmd_seq :: "string \<Rightarrow> vga \<Rightarrow> vga option" where
  "cmd_seq a v = do {
     n \<leftarrow> num_arg a;
     ofold (\<lambda>i. print_num 8 i vpln) [1 .. min n 100] v }"

definition cmd_sleep :: "string \<Rightarrow> vga \<Rightarrow> vga option" where
  "cmd_sleep a v = do {
     n \<leftarrow> (if a \<noteq> [] then num_arg a else Some 1);
     print_num 8 n (\<lambda>b. seqs [vps b, vpln ''s'']) (vps ''sleep '' v) }"

definition cmd_countdown :: "string \<Rightarrow> vga \<Rightarrow> vga option" where
  "cmd_countdown a v = do {
     n \<leftarrow> (if a \<noteq> [] then num_arg a else Some 5);
     v \<leftarrow> ofold (\<lambda>i. print_num 8 i (\<lambda>b. seqs [vps ([CHR 0x0D] @ ''  countdown: ''),
            vset (if i > 2 then C_LGREEN else C_LRED) C_BLACK, vps b, vps ''   '', vrst])) (rev [0 .. n]) v;
     Some (seqs [vpc CHR 0x0A, vset C_LRED C_BLACK, vpln ''BOOM!'', vrst] v) }"

subsection \<open>Text\<close>

fun echo_out :: "string \<Rightarrow> vga \<Rightarrow> vga" where
  "echo_out (c # d # s) =
     (if c = CHR 0x5C \<and> d = CHR ''n'' then seqs [vpc CHR 0x0A, echo_out s] else seqs [vpc c, echo_out (d # s)])"
| "echo_out [c] = vpc c"
| "echo_out [] = id"

definition byte :: "int \<Rightarrow> char" where
  "byte n = char_of (nat (n mod 256))"

definition pigcrypt_char :: "char \<Rightarrow> char" where
  "pigcrypt_char c = byte (c_mod (schar c + 13) 126 + 32)"

definition pigdecrypt_char :: "char \<Rightarrow> char" where
  "pigdecrypt_char c = byte (c_mod (schar c - 13 + 94) 94 + 32)"

definition djb2 :: "string \<Rightarrow> u64" where
  "djb2 a = fold (\<lambda>c h. (push_bit 5 h + h) + of_nat (of_char c)) a 5381"

definition cmd_pighash :: "string \<Rightarrow> vga \<Rightarrow> vga option" where
  "cmd_pighash a v = do {
     k \<leftarrow> kuia (djb2 a) 16;
     b \<leftarrow> fits 20 k;
     Some (seqs [vps ''djb2: '', vpln b] v) }"

definition cmd_xxd :: "string \<Rightarrow> vga \<Rightarrow> vga option" where
  "cmd_xxd a v = do {
     v \<leftarrow> ofold (\<lambda>c v. do {
            k \<leftarrow> kuia (of_nat (of_char c)) 16;
            h \<leftarrow> fits 4 k;
            Some (seqs [if length h < 2 then vps ''0'' else id, vps h, vps '' ''] v) })
          (take 16 a) (vps ''00000000: '' v);
     Some (vpc CHR 0x0A v) }"

definition list_hist :: "string list \<Rightarrow> vga \<Rightarrow> vga option" where
  "list_hist h = ofold (\<lambda>i. print_num 8 (int i + 1) (\<lambda>b. seqs [vps b, vps ''  '', vpln (h ! i)])) [0 ..< length h]"

definition arg_or :: "string \<Rightarrow> string \<Rightarrow> string" where
  "arg_or a d = (if a \<noteq> [] then a else d)"

subsection \<open>Static counters and lists\<close>

text \<open>\<open>static int ci2\<close>, \<open>static int fi\<close>: an index that only grows.\<close>

definition cmd_color :: "sh \<Rightarrow> sh option" where
  "cmd_color st = do {
     n \<leftarrow> chk32 (color_ix st + 1);
     let f = [C_LGREEN, C_LCYAN, C_LMAG, C_YELLOW, C_WHITE, C_LBLUE] ! nat (c_mod (color_ix st) 6);
     Some (say (seqs [vset f C_BLACK, vpln ''color changed'']) (st\<lparr>color_ix := n\<rparr>)) }"

definition fortunes :: "string list" where
  "fortunes =
    [[CHR 0x22] @ ''There is no cloud, just someone else'' @ [CHR 0x27] @ ''s pig.'' @ [CHR 0x22],
     [CHR 0x22] @ ''It works on my pigOS.'' @ [CHR 0x22], [CHR 0x22] @ ''rok make me a sandwich.'' @ [CHR 0x22],
     [CHR 0x22] @ ''Have you tried poingctl restart?'' @ [CHR 0x22], [CHR 0x22] @ ''In pigOS we trust.'' @ [CHR 0x22],
     [CHR 0x22] @ ''grep -r pig / --include=*.c'' @ [CHR 0x22]]"

definition cmd_fortune :: "sh \<Rightarrow> sh option" where
  "cmd_fortune st = do {
     n \<leftarrow> chk32 (fortune_ix st + 1);
     Some (say (seqs [vset C_YELLOW C_BLACK, vpln (fortunes ! nat (c_mod (fortune_ix st) 6)), vrst])
       (st\<lparr>fortune_ix := n\<rparr>)) }"

definition cmd_todo :: "string \<Rightarrow> sh \<Rightarrow> sh option" where
  "cmd_todo a st =
     (if a \<noteq> [] then
        (if length (todo st) < 8 then do {
           t \<leftarrow> fits 64 a;
           Some (say (seqs [vps ''todo: '', vpln a]) (st\<lparr>todo := todo st @ [t]\<rparr>)) }
         else Some (say (vpln ''todo: full'') st))
      else on_sys (\<lambda>s. do {
        v \<leftarrow> ofold (\<lambda>i. print_num 4 (int i + 1) (\<lambda>b. seqs [vps b, vps ''. '', vpln (todo st ! i)]))
               [0 ..< length (todo st)] (con s);
        Some (s\<lparr>con := v\<rparr>) }) st)"

section \<open>The calculator\<close>

lemma kia_str_neg: "n < 0 \<Longrightarrow> kia_str n = CHR ''-'' # kia_str (- n)"
  by (simp add: kia_str_def)

lemma read_int_kia:
  assumes "-(2 ^ 31) < n" "n < 2 ^ 31" "rest = [] \<or> \<not> is_digit (hd rest)"
  shows "read_int (kia_str n @ rest) = Some (n, rest)"
proof (cases "n < 0")
  case True
  then show ?thesis using read_dec_kia[of "- n" rest] assms by (simp add: read_int_def kia_str_neg)
next
  case False
  have "\<not> is_digit CHR ''-''" by (simp add: is_digit_def)
  then have "hd (kia_str n) \<noteq> CHR ''-''"
    using False kia_str_hd[of n] kia_str_digits[of n] by (cases "kia_str n") auto
  then show ?thesis
    using False kia_str_hd[of n] read_dec_kia[of n rest] assms by (simp add: read_int_def)
qed

lemma kia_str_start: "kia_str n \<noteq> [] \<and> hd (kia_str n) \<noteq> CHR '' ''"
proof (cases "n < 0")
  case True
  show ?thesis unfolding kia_str_neg[OF True] by simp
qed (simp add: kia_str_hd)

lemma skip_sp_kia [simp]: "skip_sp (kia_str n @ s) = kia_str n @ s"
  using kia_str_start[of n] by (cases "kia_str n") auto

definition calc_spec :: "char \<Rightarrow> int \<Rightarrow> int \<Rightarrow> int" where
  "calc_spec opr a b =
     (if opr = CHR ''+'' then a + b else if opr = CHR ''-'' then a - b else if opr = CHR ''*'' then a * b
      else if opr = CHR ''/'' then c_div a b else c_mod a b)"

text \<open>the calculator reads back the numbers the kernel prints: for two numbers in decimal, negative ones
  included, and one of the five operators between them, \<open>calc\<close> prints the result in decimal, whenever the
  result is a number the kernel can print and a divisor is not zero.\<close>

theorem calc_correct:
  assumes "-(2 ^ 31) < a" "a < 2 ^ 31" "-(2 ^ 31) < b" "b < 2 ^ 31" "opr \<in> set ''+-*/%''"
    and "b \<noteq> 0 \<or> opr \<in> set ''+-*''" "-(2 ^ 31) < calc_spec opr a b" "calc_spec opr a b < 2 ^ 31"
  shows "cmd_calc_sh (kia_str a @ '' '' @ [opr] @ '' '' @ kia_str b) v =
    Some (seqs [vset C_LGREEN C_BLACK, vps ''= '', vpln (kia_str (calc_spec opr a b)), vrst] v)"
proof -
  let ?r = "calc_spec opr a b"
  have i: "i32 ?r" using assms(7,8) by (simp add: i32_def)
  have o: "opr = CHR ''+'' \<or> opr = CHR ''-'' \<or> opr = CHR ''*'' \<or> opr = CHR ''/'' \<or> opr = CHR ''%''"
    using assms(5) by simp
  have "calc_op opr a b = Some (Inr ?r)"
    using o i assms(6) by (elim disjE) (simp_all add: calc_op_def calc_spec_def)
  moreover have "kia ?r = Some (kia_str ?r)" "fits 32 (kia_str ?r) = Some (kia_str ?r)"
    using assms(7) kia_str_length[OF i] by (simp_all add: kia_def)
  moreover have "read_int (kia_str a @ '' '' @ [opr] @ '' '' @ kia_str b) = Some (a, '' '' @ [opr] @ '' '' @ kia_str b)"
    using assms(1,2) by (intro read_int_kia) (simp_all add: is_digit_def)
  moreover have "read_int (kia_str b) = Some (b, [])"
    using assms(3,4) read_int_kia[of b "[]"] by simp
  moreover have "skip_sp (kia_str b) = kia_str b" using skip_sp_kia[of b "[]"] by simp
  moreover have "opr \<noteq> CHR '' ''" using o by (elim disjE) simp_all
  moreover have "kia_str a \<noteq> []" using kia_str_start[of a] by simp
  ultimately show ?thesis by (simp add: cmd_calc_sh_def)
qed

theorem calc_correct_witness:
  "cmd_calc_sh (kia_str (-7) @ '' '' @ [CHR ''/''] @ '' '' @ kia_str 2) vga0 =
    Some (seqs [vset C_LGREEN C_BLACK, vps ''= '', vpln (kia_str (calc_spec CHR ''/'' (-7) 2)), vrst] vga0) \<and>
   calc_spec CHR ''/'' (-7) 2 = -3"
proof -
  have r: "calc_spec CHR ''/'' (-7) 2 = -3" by (simp add: calc_spec_def c_div_def)
  show ?thesis using calc_correct[of "-7" 2 "CHR ''/''" vga0] r by simp
qed

text \<open>A number alone is read past its end.\<close>

lemma calc_lone_number: "0 \<le> n \<Longrightarrow> n < 2 ^ 31 \<Longrightarrow> cmd_calc_sh (kia_str n) v = None"
  using read_int_kia[of n "[]"] skip_sp_kia[of n "[]"] kia_str_hd[of n] by (simp add: cmd_calc_sh_def)

end
