(* ===== verification/Pig_ShInv.thy ===== *)
theory Pig_ShInv
  imports Pig_Shell
begin

text \<open>
  The invariant of the whole shell: the file system is well formed, the accounts, variables, aliases,
  histories and the current directory are terminated strings inside their arrays, and the current directory is
  an absolute path. Every command of the chain keeps it, so every command line does, whatever is typed.
\<close>

section \<open>The machine below the shell\<close>

definition sys_ok :: "'a usys_scheme \<Rightarrow> bool" where
  "sys_ok s \<longleftrightarrow> fs_ok s \<and> (\<forall>u \<in> set (users s). cstr (u_name u) \<and> abs_path 255 (u_home u))"

lemma sys_ok_frame [simp]:
  "sys_ok (pr f s) = sys_ok s" "sys_ok (s\<lparr>con := v\<rparr>) = sys_ok s" "sys_ok (s\<lparr>groups := gs\<rparr>) = sys_ok s"
  by (simp_all add: sys_ok_def pr_def)

lemma fs_ok_frame [simp]:
  "fs_ok (p\<lparr>pu := us\<rparr>) = fs_ok p" "fs_ok (q\<lparr>rpk_db := db\<rparr>) = fs_ok q" "fs_ok (q\<lparr>rpk_installed_cmds := cs\<rparr>) = fs_ok q"
  "fs_ok (r\<lparr>pollog := ls\<rparr>) = fs_ok r"
  by (simp_all add: fs_ok_def store_ok_def)

lemma sys_ok_upper [simp]:
  "sys_ok (t\<lparr>keys := ks\<rparr>) = sys_ok t" "sys_ok (p\<lparr>pu := us\<rparr>) = sys_ok p" "sys_ok (q\<lparr>rpk_db := db\<rparr>) = sys_ok q"
  "sys_ok (q\<lparr>rpk_installed_cmds := cs\<rparr>) = sys_ok q" "sys_ok (r\<lparr>pollog := ls\<rparr>) = sys_ok r"
  by (simp_all add: sys_ok_def)

lemma same_fs_users: "same_fs s s' \<Longrightarrow> users s' = users (s :: 'a usys_scheme)"
  by (cases s; cases s') (simp add: same_fs_def)

lemma sys_ok_same: "same_fs s s' \<Longrightarrow> sys_ok s \<Longrightarrow> sys_ok s'"
  by (simp add: sys_ok_def same_fs_ok same_fs_users)

lemma sys_ok_memfs: "sys_ok s \<Longrightarrow> fs_ok (s\<lparr>memfs := ms\<rparr>) \<Longrightarrow> sys_ok (s\<lparr>memfs := ms\<rparr>)"
  by (simp add: sys_ok_def)

lemma sys_ok_only: "only_memfs s s' \<Longrightarrow> fs_ok s' \<Longrightarrow> sys_ok s \<Longrightarrow> sys_ok s'"
  by (auto simp: only_memfs_def sys_ok_def)

section \<open>Every operation keeps it\<close>

lemma sys_ok_put_file: "sys_ok s \<Longrightarrow> cstr p \<Longrightarrow> cstr t \<Longrightarrow> put_file p t s = Some s' \<Longrightarrow> sys_ok s'"
  using only_memfs_users(1)[of s s'] put_file_only[of p t s s'] put_file_fs_ok[of s p t s'] by (simp add: sys_ok_def)

lemma sys_ok_put_dir: "sys_ok s \<Longrightarrow> cstr p \<Longrightarrow> put_dir p s = Some s' \<Longrightarrow> sys_ok s'"
  using only_memfs_users(1)[of s s'] put_dir_only[of p s s'] put_dir_fs_ok[of s p s'] by (simp add: sys_ok_def)

lemma sys_ok_copy_skel: "sys_ok s \<Longrightarrow> cstr h \<Longrightarrow> cstr f \<Longrightarrow> copy_skel h f s = Some s' \<Longrightarrow> sys_ok s'"
  using only_memfs_users(1)[of s s'] copy_skel_only[of h f s s'] copy_skel_fs_ok[of s h f s'] by (simp add: sys_ok_def)

lemma sys_ok_create: "sys_ok s \<Longrightarrow> cstr p \<Longrightarrow> memfs_create p s = Some (m, s') \<Longrightarrow> sys_ok s'"
  using only_memfs_users(1)[of s s'] memfs_create_only[of p s m s'] memfs_create_same[of s p m s'] by (simp add: sys_ok_def)

lemma sys_ok_entry:
  assumes "sys_ok s" "i < length (memfs s)" "cstr (mf_content m)" "length (mf_content m) < 2048"
    and "mf_path m = mf_path (memfs s ! i)"
  shows "sys_ok (s\<lparr>memfs := (memfs s)[i := m]\<rparr>)"
proof (rule sys_ok_memfs)
  have "memfs s ! i \<in> set (memfs s)" using assms(2) by simp
  then show "fs_ok (s\<lparr>memfs := (memfs s)[i := m]\<rparr>)"
    using assms by (auto simp: sys_ok_def fs_ok_def store_ok_def dest!: set_update_subset_insert[THEN subsetD])
qed (rule assms(1))

lemma find_in_memfs: "memfs_find p s = Some i \<Longrightarrow> i < length (memfs s)"
  by (auto simp: memfs_find_def dest: find_idx_less)

lemma created_in_memfs: "memfs_create p s = Some (Some i, s') \<Longrightarrow> i < length (memfs s')"
  by (auto simp: memfs_create_def dest: find_in_memfs split: option.splits if_splits bind_splits)

lemma touch_ok:
  assumes "sys_ok s" "abs_path 255 cwd" "cstr a" "fs_touch cwd a s = Some s'"
  shows "sys_ok s'"
  using assms sys_ok_create[OF assms(1)] fs_resolve_256(2)[OF assms(2,3)]
  by (auto simp: fs_touch_def split: if_splits bind_splits)

lemma mkdir_ok:
  assumes "sys_ok s" "abs_path 255 cwd" "cstr a" "mkdir cwd a s = Some s'"
  shows "sys_ok s'"
proof (cases "a = []")
  case False
  then obtain p2 where p: "fs_resolve cwd a 256 = Some p2" "cstr p2"
    using assms(4) fs_resolve_256(2)[OF assms(2,3)] by (auto simp: mkdir_def split: bind_splits)
  show ?thesis
    using assms(4) False p assms(1) sys_ok_create[OF assms(1) p(2)] created_in_memfs[of p2 s]
    by (auto simp: mkdir_def intro!: sys_ok_entry split: if_splits bind_splits option.splits)
qed (use assms in \<open>auto simp: mkdir_def\<close>)

lemma rmdir_ok: "sys_ok s \<Longrightarrow> rmdir cwd a s = Some s' \<Longrightarrow> sys_ok s'"
  by (auto simp: rmdir_def intro!: sys_ok_entry dest: find_in_memfs split: if_splits bind_splits option.splits)

lemma del_store_users [simp]: "users (del_store_init s) = users s"
  by (simp add: del_store_init_def)

lemma rm_path_users: "rm_path o' a path s = Some (Done s') \<Longrightarrow> users s' = users s"
  by (simp add: rm_path_def fs_mark_deleted_def del_sync_to_store_def pr_def Let_def split: if_splits bind_splits option.splits)
    auto

lemma rm_users:
  assumes "fs_rm cwd a s = Some (Done s')"
  shows "users s' = users s"
proof -
  consider f where "s' = pr f s" | o' b p where "rm_path o' b p s = Some (Done s')"
    using assms by (auto simp: fs_rm_def Let_def split: if_splits bind_splits option.splits)
  then show ?thesis by cases (auto simp: pr_def dest: rm_path_users)
qed

lemma rm_ok: "sys_ok s \<Longrightarrow> abs_path 255 cwd \<Longrightarrow> cstr a \<Longrightarrow> fs_rm cwd a s = Some (Done s') \<Longrightarrow> sys_ok s'"
  using fs_rm_done[of s cwd a s'] rm_users[of cwd a s s'] by (simp add: sys_ok_def)

lemma readers_ok:
  "sys_ok s \<Longrightarrow> ls_cmd cmd cwd a s = Some s' \<Longrightarrow> sys_ok s'" "sys_ok s \<Longrightarrow> fs_cat cwd a s = Some s' \<Longrightarrow> sys_ok s'"
  "sys_ok s \<Longrightarrow> fs_grep cwd a s = Some s' \<Longrightarrow> sys_ok s'" "sys_ok s \<Longrightarrow> fs_find_cmd cwd a s = Some s' \<Longrightarrow> sys_ok s'"
  "sys_ok s \<Longrightarrow> stat_cmd cwd a s = Some s' \<Longrightarrow> sys_ok s'"
  using fs_ls_same[of cwd _ s s'] fs_cat_same[of cwd a s s'] fs_grep_same[of cwd a s s'] fs_find_cmd_same[of cwd a s s']
  by (auto simp: ls_cmd_def stat_cmd_def split: bind_splits if_splits intro: sys_ok_same)

lemma grep_pipe_input_ok [simp]: "sys_ok (grep_set_pipe_input s) = sys_ok s"
  by (simp add: grep_set_pipe_input_def sys_ok_def fs_ok_def store_ok_def)

subsection \<open>Accounts, units, packages, logs\<close>

lemma add_user_sys_ok:
  assumes "sys_ok s" "cstr n" "add_user n s = Some (u, s')"
  shows "sys_ok s'" "cstr (u_home u)"
  using assms
  by (auto simp: add_user_def new_user_def add_mem_def sys_ok_def abs_path_def fits_eq_Some Let_def
      split: bind_splits option.splits if_splits)

lemma adduser_ok:
  assumes "sys_ok s" "cstr n" "cmd_adduser n s = Some s'"
  shows "sys_ok s'"
proof (cases "n = [] \<or> ufind n s \<noteq> None \<or> length (users s) \<ge> 16")
  case True
  then show ?thesis using assms by (auto simp: cmd_adduser_def split: if_splits)
next
  case False
  then obtain u s1 s2 where c: "add_user n s = Some (u, s1)" "make_home (u_home u) s1 = Some s2"
      "adduser_report n (u_home u) s2 = Some s'"
    using assms(3) by (auto simp: cmd_adduser_def fits_eq_Some split: bind_splits if_splits)
  have "sys_ok s2"
    using c(2) add_user_sys_ok[OF assms(1,2) c(1)]
    by (auto simp: make_home_def split: bind_splits dest!: sys_ok_put_dir[rotated 2] sys_ok_copy_skel[rotated 3])
  then show ?thesis using adduser_report_pr[OF c(3)] by auto
qed

lemma sys_ok_user_fields:
  assumes "sys_ok s" "i < length (users s)" "u_name u = u_name (users s ! i)" "u_home u = u_home (users s ! i)"
  shows "sys_ok (s\<lparr>users := (users s)[i := u]\<rparr>)"
proof -
  have "users s ! i \<in> set (users s)" using assms(2) by simp
  then show ?thesis
    using assms by (auto simp: sys_ok_def dest!: set_update_subset_insert[THEN subsetD])
qed

lemma ufind_frame [simp]: "ufind n (pr f s) = ufind n s" "ufind n (t\<lparr>keys := ks\<rparr>) = ufind n t"
  by (simp_all add: ufind_def pr_def)

lemma usermod_ok: "sys_ok s \<Longrightarrow> cmd_usermod a s = Some s' \<Longrightarrow> sys_ok s'"
  by (simp add: cmd_usermod_def add_mem_def Let_def split: if_splits option.splits prod.splits) auto

lemma accounts_ok:
  "sys_ok s \<Longrightarrow> cmd_groupadd a s = Some s' \<Longrightarrow> sys_ok s'" "sys_ok s \<Longrightarrow> sys_ok (cmd_groups a s)"
  "sys_ok s \<Longrightarrow> cmd_id s = Some s' \<Longrightarrow> sys_ok s'" "sys_ok s \<Longrightarrow> sys_ok (list_users s)"
  by (auto simp: cmd_groupadd_def cmd_groups_def cmd_id_def list_users_def Let_def split: if_splits bind_splits option.splits)

lemma deluser_ok: "sys_ok s \<Longrightarrow> sys_ok (deluser a s)"
  by (simp add: deluser_def sys_ok_user_fields ufind_less split: option.split)

lemma passwd_ok: "sys_ok s \<Longrightarrow> cmd_passwd a ks s = Some s' \<Longrightarrow> sys_ok s'"
  using sys_ok_user_fields[of s] ufind_less[of _ s]
  by (simp add: cmd_passwd_def Let_def split: option.splits bind_splits if_splits) (auto simp: pr_def)

lemma ofold_sys_ok:
  assumes "\<And>x s s'. f x s = Some s' \<Longrightarrow> sys_ok s \<Longrightarrow> sys_ok s'" "ofold f xs s = Some s'" "sys_ok s"
  shows "sys_ok s'"
  using assms by (rule_tac I = sys_ok in ofold_inv) auto

text \<open>Results of an operation all of which are good, for chains of conditions.\<close>

definition ok_opt :: "'a usys_scheme option \<Rightarrow> bool" where
  "ok_opt r \<longleftrightarrow> (\<forall>s. r = Some s \<longrightarrow> sys_ok s)"

definition ok_ctl :: "'a usys_scheme ctl option \<Rightarrow> bool" where
  "ok_ctl r \<longleftrightarrow> (\<forall>s. r = Some (Returned s) \<longrightarrow> sys_ok s)"

lemma ok_intros:
  "ok_opt r \<Longrightarrow> ok_opt r' \<Longrightarrow> ok_opt (if b then r else r')" "sys_ok s \<Longrightarrow> ok_opt (Some s)"
  "ok_ctl q \<Longrightarrow> ok_ctl q' \<Longrightarrow> ok_ctl (if b then q else q')" "sys_ok s \<Longrightarrow> ok_ctl (Some (Returned s))"
  "ok_ctl (Some (Stopped s))" "ok_ctl (Some Waiting)" "ok_opt r \<Longrightarrow> ok_ctl (map_option Returned r)"
  by (auto simp: ok_opt_def ok_ctl_def)

lemma ok_case:
  "ok_ctl q \<Longrightarrow> (\<And>x. ok_ctl (f x)) \<Longrightarrow> ok_ctl (case z of None \<Rightarrow> q | Some x \<Rightarrow> f x)"
  "ok_opt r \<Longrightarrow> (\<And>x. ok_opt (g x)) \<Longrightarrow> ok_opt (case z of None \<Rightarrow> r | Some x \<Rightarrow> g x)"
  by (cases z; simp)+

lemma poingctl_ok:
  assumes "sys_ok s"
  shows "ok_ctl (cmd_poingctl a s)"
proof -
  have "ok_opt (poingctl_status s)"
    using assms by (auto simp: ok_opt_def poingctl_status_def unit_line_def Let_def split: bind_splits ustate.splits
        elim!: ofold_sys_ok[rotated])
  then have "ok_ctl (poingctl_do sub n s)" for sub n
    unfolding poingctl_do_def using assms
    by (intro ok_intros ok_case) (auto simp: ok_ctl_def next_key_def split: list.splits)
  then show ?thesis
    using assms by (auto simp: cmd_poingctl_def ok_intros split: prod.split)
qed

lemma after_key_ok: "sys_ok s \<Longrightarrow> after_key p f s = Returned s' \<Longrightarrow> sys_ok s'"
  by (auto simp: after_key_def wait_key_def split: option.splits list.splits)

lemma rpk_run_ok: "sys_ok s \<Longrightarrow> cmd_rpk_run c s = Some (Returned s') \<Longrightarrow> sys_ok s'"
  by (auto simp: cmd_rpk_run_def py_run_def split: if_splits bind_splits option.splits dest!: after_key_ok[rotated])

lemma rpk_install_sys_ok:
  assumes "sys_ok s" "cstr p"
  shows "ok_opt (rpk_install p s)"
  using assms
  by (auto simp: ok_opt_def rpk_install_def register_cmd_def set_installed_def fits_eq_Some Let_def
      split: if_splits bind_splits option.splits dest!: sys_ok_put_file[rotated 3])

lemma rpk_sys_ok:
  assumes "sys_ok s" "cstr a"
  shows "ok_opt (cmd_rpk a s)"
proof -
  obtain sub p where t: "take_word 31 a = (sub, p)" by fastforce
  have "sub @ p = a" using take_word_append[of 31 a] t by simp
  then have "cstr (skip_sp p)" using assms(2) by (auto simp: cstr_def dest: set_dropWhileD)
  note i = rpk_install_sys_ok[OF assms(1) this]
  have r: "ok_opt (rpk_remove n s)" for n
    unfolding rpk_remove_def Let_def set_installed_def using assms(1) by (intro ok_intros ok_case) simp_all
  have l: "ok_opt (rpk_list s)" "ok_opt (rpk_roam n s)" "ok_opt (rpk_info n s)" for n
    using assms(1) by (auto simp: ok_opt_def rpk_list_def rpk_roam_def rpk_info_def Let_def split: bind_splits option.splits)
  show ?thesis
    unfolding cmd_rpk_def t Let_def prod.case using assms(1) by (intro ok_intros i r l) simp_all
qed

lemma polctl_ok:
  assumes "sys_ok s" "cmd_polctl a s = Some (Returned s')"
  shows "sys_ok s'"
proof -
  have "sys_ok t'" if "polctl_opts o' t = Returned t'" "sys_ok t" for o' and t t' :: "'a pol_scheme"
    using that by (auto simp: polctl_opts_def Let_def split: if_splits dest!: after_key_ok[rotated])
  then show ?thesis
    using assms by (fastforce simp: cmd_polctl_def Let_def split: bind_splits polparse.splits if_splits)
qed

subsection \<open>The editors\<close>

lemma VFS_cstr: "v \<in> set VFS \<Longrightarrow> vn_content v = Some t \<Longrightarrow> cstr t"
  by (auto simp: VFS_def cstr_def)

lemma vnode_cstr: "fs_find_vnode p s = Some v \<Longrightarrow> vn_content v = Some t \<Longrightarrow> cstr t"
  by (auto simp: fs_find_vnode_def find_Some_iff intro: VFS_cstr[OF nth_mem] split: if_splits)

lemma edit_load_cstr:
  assumes "fs_ok s" "edit_load cap p s = Some t"
  shows "cstr t \<and> (cap = 2048 \<longrightarrow> length t < 2048)"
  using assms fs_ok_get_cstr[OF assms(1), of p] vnode_cstr[of p s]
  by (auto simp: edit_load_def fits_eq_Some split: option.splits if_splits)

lemma edit_path_cstr: "abs_path 255 cwd \<Longrightarrow> cstr f \<Longrightarrow> edit_path cwd f = Some p \<Longrightarrow> cstr p"
  by (auto simp: edit_path_def dest: fs_resolve_256(2) split: if_splits)

lemma store_file_ok: "sys_ok s \<Longrightarrow> cstr p \<Longrightarrow> cstr t \<Longrightarrow> store_file p t s = Some s' \<Longrightarrow> sys_ok s'"
  unfolding store_file_put by (rule sys_ok_put_file)

lemma nano_save_ok:
  "sys_ok s \<Longrightarrow> cstr p \<Longrightarrow> nano_ok e \<Longrightarrow> nano_save p e s = Some (e', s') \<Longrightarrow> sys_ok s' \<and> nano_ok e'"
  by (auto simp: nano_save_def nano_ok_def Let_def split: bind_splits dest: store_file_ok)

lemma ok_ctl_bind:
  "(\<And>x. r = Some x \<Longrightarrow> ok_ctl (f x)) \<Longrightarrow> ok_ctl (Option.bind r f)"
  by (cases r) (auto simp: ok_ctl_def)

lemma ok_ctl_list: "ok_ctl q \<Longrightarrow> (\<And>x xs. z = x # xs \<Longrightarrow> ok_ctl (f x xs)) \<Longrightarrow> ok_ctl (case z of [] \<Rightarrow> q | x # xs \<Rightarrow> f x xs)"
  by (cases z) auto

lemma nano_loop_sys_ok: "sys_ok (s :: 'a tty_scheme) \<Longrightarrow> nano_ok e \<Longrightarrow> cstr p \<Longrightarrow> ok_ctl (nano_loop ks p e s)"
proof (induction "length ks" arbitrary: ks e s rule: less_induct)
  case less
  show ?case
  proof (cases ks)
    case (Cons c cs)
    note IH = less(1)[unfolded Cons]
    have save: "ok_ctl (do { (e, s) \<leftarrow> nano_save p e s; nano_loop ks' p e s })"
      if "length ks' < length ks" "sys_ok s" for ks' and s :: "'a tty_scheme"
    proof (rule ok_ctl_bind)
      fix x assume "nano_save p e s = Some x"
      then show "ok_ctl (case x of (e, s) \<Rightarrow> nano_loop ks' p e s)"
        using nano_save_ok[OF that(2) less(4,3)] less(1)[OF that(1)] less(4) by (cases x) auto
    qed
    have edit: "ok_ctl (case nano_edit c e of (e, f) \<Rightarrow> nano_loop cs p e (pr f s))"
      using IH nano_edit_ok[OF less(3), of c] less(2,4) by (cases "nano_edit c e") auto
    show ?thesis
      unfolding Cons nano_loop.simps Let_def
      by (intro ok_intros ok_ctl_list save edit IH) (use less Cons in auto)
  qed (simp add: ok_ctl_def)
qed

lemma nano_sys_ok: "sys_ok s \<Longrightarrow> abs_path 255 cwd \<Longrightarrow> cstr f \<Longrightarrow> ok_ctl (cmd_nano cwd f s)"
  unfolding cmd_nano_def Let_def
  by (intro ok_ctl_bind nano_loop_sys_ok)
    (auto simp: nano_ok_def sys_ok_def dest: edit_load_cstr edit_path_cstr)

lemma cstr_join_nl: "\<forall>x \<in> set xs. cstr x \<Longrightarrow> cstr (join_nl xs)"
  by (cases xs) (auto simp: join_nl_def cstr_def)

lemma cstr_vi_text: "cstr (vi_text e)"
  unfolding vi_text_def by (rule cstr_join_nl) auto

lemma ok_ctl_mode:
  "ok_ctl a \<Longrightarrow> ok_ctl b \<Longrightarrow> ok_ctl c \<Longrightarrow> ok_ctl (case m of VI_NORMAL \<Rightarrow> a | VI_INSERT \<Rightarrow> b | VI_CMD \<Rightarrow> c)"
  by (cases m) auto

lemma vi_loop_sys_ok: "sys_ok (s :: 'a tty_scheme) \<Longrightarrow> cstr p \<Longrightarrow> ok_ctl (vi_loop ks p e s)"
proof (induction "length ks" arbitrary: ks e s rule: less_induct)
  case less
  show ?case
  proof (cases ks)
    case (Cons c cs)
    note IH = less(1)[unfolded Cons]
    have fin: "ok_ctl (vi_done ks' s')" if "sys_ok s'" for ks' and s' :: "'a tty_scheme"
      using that by (simp add: vi_done_def ok_ctl_def)
    show ?thesis
      unfolding Cons vi_loop.simps[of "c # cs"] Let_def list.case
      by (intro ok_intros ok_ctl_list ok_ctl_mode ok_ctl_bind fin IH)
        (use less Cons in \<open>auto simp: fits_eq_Some intro: store_file_ok[OF _ _ cstr_vi_text]\<close>)
  qed (simp add: ok_ctl_def vi_loop.simps)
qed

lemma vi_sys_ok: "sys_ok s \<Longrightarrow> abs_path 255 cwd \<Longrightarrow> cstr f \<Longrightarrow> ok_ctl (cmd_vi junk cwd f s)"
  unfolding cmd_vi_def Let_def by (intro ok_ctl_bind vi_loop_sys_ok) (auto dest: edit_path_cstr)

section \<open>The shell\<close>

definition slots_ok :: "slots \<Rightarrow> bool" where
  "slots_ok xs \<longleftrightarrow> length xs \<le> 32 \<and> (\<forall>(n, v) \<in> set xs. length n < 32 \<and> cstr v \<and> length v < 128)"

definition hist_ok :: "string list \<Rightarrow> bool" where
  "hist_ok h \<longleftrightarrow> length h \<le> 64 \<and> (\<forall>l \<in> set h. cstr l \<and> length l < 512)"

definition sh_ok :: "sh \<Rightarrow> bool" where
  "sh_ok st \<longleftrightarrow> sys_ok (sys st) \<and> cstr (sh_user st) \<and> length (sh_user st) < 32 \<and> abs_path 255 (sh_cwd st) \<and>
     slots_ok (sh_vars st) \<and> slots_ok (sh_aliases st) \<and> hist_ok (sh_hist st) \<and> hist_ok (lash_hist st) \<and>
     length (todo st) \<le> 8 \<and> (\<forall>t \<in> set (todo st). length t < 64)"

definition ok_run :: "run \<Rightarrow> bool" where
  "ok_run r \<longleftrightarrow> (\<forall>st. r = Ran st \<longrightarrow> sh_ok st)"

definition ok_calls :: "(string \<Rightarrow> sh \<Rightarrow> run) \<Rightarrow> bool" where
  "ok_calls rec \<longleftrightarrow> (\<forall>l st. cstr l \<longrightarrow> sh_ok st \<longrightarrow> ok_run (rec l st))"

definition keeps :: "handler \<Rightarrow> bool" where
  "keeps h \<longleftrightarrow> (\<forall>rec cmd a st. ok_calls rec \<longrightarrow> cstr cmd \<longrightarrow> cstr a \<longrightarrow> sh_ok st \<longrightarrow> ok_run (h rec cmd a st))"

lemma ok_run_simps [simp]:
  "ok_run (Ran st) = sh_ok st" "ok_run (Halt st)" "ok_run Await" "ok_run Undef" "ok_run Deep"
  by (simp_all add: ok_run_def)

lemma ok_run_of_opt: "(\<And>st. r = Some st \<Longrightarrow> sh_ok st) \<Longrightarrow> ok_run (of_opt r)"
  by (cases r) (auto simp: of_opt_def)

lemma sh_ok_say [simp]: "sh_ok (say f st) = sh_ok st"
  by (simp add: sh_ok_def say_def)

lemma sh_ok_sys: "sh_ok st \<Longrightarrow> sys_ok s \<Longrightarrow> sh_ok (st\<lparr>sys := s\<rparr>)"
  by (simp add: sh_ok_def)

lemma sh_okD: "sh_ok st \<Longrightarrow> sys_ok (sys st)" "sh_ok st \<Longrightarrow> abs_path 255 (sh_cwd st)"
  by (simp_all add: sh_ok_def)

lemma ok_on_sys: "sh_ok st \<Longrightarrow> ok_opt (f (sys st)) \<Longrightarrow> ok_run (of_opt (on_sys f st))"
  by (auto simp: on_sys_def ok_opt_def intro!: ok_run_of_opt sh_ok_sys)

lemma ok_on_ctl: "sh_ok st \<Longrightarrow> ok_ctl (f (sys st)) \<Longrightarrow> ok_run (on_ctl f st)"
  by (auto simp: on_ctl_def ok_ctl_def intro: sh_ok_sys split: option.splits ctl.splits)

lemma run_then_ok: "ok_run r \<Longrightarrow> (\<And>st. sh_ok st \<Longrightarrow> ok_run (k st)) \<Longrightarrow> ok_run (run_then r k)"
  by (cases r) auto

subsection \<open>Kinds of handlers\<close>

lemma keeps_talk: "keeps (talk f)" "keeps (talk_st g)" "keeps (talk_opt h)" "keeps (stop v)"
  by (auto simp: keeps_def talk_def talk_st_def talk_opt_def stop_def ok_opt_def sh_okD intro!: ok_on_sys)

lemma keeps_act: "(\<And>a st st'. sh_ok st \<Longrightarrow> cstr a \<Longrightarrow> f a st = Some st' \<Longrightarrow> sh_ok st') \<Longrightarrow> keeps (act f)"
  by (auto simp: keeps_def act_def intro: ok_run_of_opt)

lemma keeps_sys_act:
  "(\<And>st a s. sh_ok st \<Longrightarrow> cstr a \<Longrightarrow> sys_ok s \<Longrightarrow> ok_opt (f st a s)) \<Longrightarrow> keeps (sys_act f)"
  by (auto simp: keeps_def sys_act_def sh_okD intro: ok_on_sys)

lemma keeps_ctl_act:
  "(\<And>st a s. sh_ok st \<Longrightarrow> cstr a \<Longrightarrow> sys_ok s \<Longrightarrow> ok_ctl (f st a s)) \<Longrightarrow> keeps (ctl_act f)"
  by (auto simp: keeps_def ctl_act_def sh_okD intro: ok_on_ctl)

definition ok_other :: "(string \<Rightarrow> string \<Rightarrow> sh \<Rightarrow> run) \<Rightarrow> bool" where
  "ok_other other \<longleftrightarrow> (\<forall>cmd a st. cstr a \<longrightarrow> sh_ok st \<longrightarrow> ok_run (other cmd a st))"

lemma keeps_foreign: "ok_other other \<Longrightarrow> keeps (foreign other)"
  by (simp add: keeps_def foreign_def ok_other_def)

subsection \<open>Single commands\<close>

lemma slots_ok_set:
  assumes "slots_ok xs" "cstr v" "slot_set n v xs = Some xs'"
  shows "slots_ok xs'"
proof (cases "find_idx (\<lambda>p. fst p = n) xs")
  case None
  then show ?thesis
    using assms by (auto simp: slot_set_def slots_ok_def fits_eq_Some split: bind_splits if_splits)
next
  case (Some i)
  then have i: "xs' = xs[i := (n, v)]" "length v < 128"
    using assms(3) by (auto simp: slot_set_def fits_eq_Some split: bind_splits)
  have j: "i < length xs" "fst (xs ! i) = n" using Some by (simp_all add: find_idx_Some)
  have "case xs ! i of (n, v) \<Rightarrow> length n < 32"
    using assms(1) nth_mem[OF j(1)] unfolding slots_ok_def by fastforce
  then have "length n < 32" using j(2) by (cases "xs ! i") simp
  then show ?thesis
    using assms(1,2) i by (auto simp: slots_ok_def dest!: set_update_subset_insert[THEN subsetD])
qed

lemma var_set_ok: "sh_ok st \<Longrightarrow> cstr v \<Longrightarrow> sh_var_set n v st = Some st' \<Longrightarrow> sh_ok st'"
  by (auto simp: sh_var_set_def sh_ok_def dest: slots_ok_set)

lemma alias_set_ok: "sh_ok st \<Longrightarrow> cstr v \<Longrightarrow> sh_alias_set n v st = Some st' \<Longrightarrow> sh_ok st'"
  by (auto simp: sh_alias_set_def sh_ok_def dest: slots_ok_set)

lemma cstr_parts:
  "cstr s \<Longrightarrow> cstr (tl s)" "cstr s \<Longrightarrow> cstr (dropWhile P s)" "cstr s \<Longrightarrow> cstr (takeWhile P s)"
  by (cases s; auto simp: cstr_def dest: set_dropWhileD set_takeWhileD)+

lemmas cstr_ops = cstr_parts cstr_take cstr_drop

lemma assignment_cstr: "cstr a \<Longrightarrow> assignment a = Some (n, v) \<Longrightarrow> cstr v"
  by (auto simp: assignment_def Let_def fits_eq_Some cstr_ops split: if_splits bind_splits)

lemma alias_parse_cstr: "cstr a \<Longrightarrow> cstr (snd (alias_parse a))"
  by (simp add: alias_parse_def alias_value_def Let_def cstr_ops)

lemma assign_ok:
  assumes "sh_ok st" "cstr a" "do { (n, v) \<leftarrow> assignment a; st \<leftarrow> sh_var_set n v st; Some (g n v st) } = Some st'"
    and "\<And>n v st. sh_ok (g n v st) = sh_ok st"
  shows "sh_ok st'"
proof -
  obtain n v st1 where "assignment a = Some (n, v)" "sh_var_set n v st = Some st1" "st' = g n v st1"
    using assms(3) by (auto split: bind_splits)
  then show ?thesis using assignment_cstr[OF assms(2)] var_set_ok[OF assms(1)] assms(4) by simp
qed

lemma export_ok: "sh_ok st \<Longrightarrow> cstr a \<Longrightarrow> cmd_export a st = Some st' \<Longrightarrow> sh_ok st'"
  using assign_ok[of st a "\<lambda>vn vv. say (seqs [vps vn, vps ''='', vpln vv])" st']
  by (simp add: cmd_export_def split: if_splits) auto

lemma set_ok: "sh_ok st \<Longrightarrow> cstr a \<Longrightarrow> cmd_set a st = Some st' \<Longrightarrow> sh_ok st'"
  using assign_ok[of st a "\<lambda>vn vv st. st" st'] by (simp add: cmd_set_def split: if_splits) auto

lemma alias_ok:
  assumes "sh_ok st" "cstr a" "cmd_alias a st = Some st'"
  shows "sh_ok st'"
proof (cases "a = []")
  case False
  obtain n v where p: "alias_parse a = (n, v)" by fastforce
  obtain st1 where "sh_alias_set n v st = Some st1" "st' = say (alias_line n v) st1"
    using assms(3) False p by (auto simp: cmd_alias_def split: bind_splits)
  then show ?thesis using alias_set_ok[OF assms(1)] alias_parse_cstr[OF assms(2)] p by simp
qed (use assms in \<open>auto simp: cmd_alias_def\<close>)

lemma slots_ok_blank: "slots_ok xs \<Longrightarrow> slots_ok (map (\<lambda>p. if fst p = n then ([], []) else p) xs)"
  by (auto simp: slots_ok_def split: if_splits)

lemma slots_ok_blank_at: "slots_ok xs \<Longrightarrow> slots_ok (xs[i := ([], [])])"
  by (auto simp: slots_ok_def dest!: set_update_subset_insert[THEN subsetD])

lemma unset_ok: "sh_ok st \<Longrightarrow> sh_ok (unset_var a st)" "sh_ok st \<Longrightarrow> sh_ok (cmd_unalias a st)"
  by (auto simp: unset_var_def cmd_unalias_def unset_alias_def sh_ok_def slots_ok_blank slots_ok_blank_at say_def
      split: option.splits)

lemma counters_ok: "sh_ok st \<Longrightarrow> cmd_color st = Some st' \<Longrightarrow> sh_ok st'" "sh_ok st \<Longrightarrow> cmd_fortune st = Some st' \<Longrightarrow> sh_ok st'"
  by (auto simp: cmd_color_def cmd_fortune_def sh_ok_def say_def Let_def split: bind_splits)

lemma todo_ok: "sh_ok st \<Longrightarrow> cmd_todo a st = Some st' \<Longrightarrow> sh_ok st'"
  by (auto simp: cmd_todo_def on_sys_def sh_ok_def say_def fits_eq_Some split: if_splits bind_splits)

lemma cd_ok: "sh_ok st \<Longrightarrow> cstr a \<Longrightarrow> sh_cd a f st = Some st' \<Longrightarrow> sh_ok st'"
  using fs_cd_abs[of "sh_cwd st" a "sys st"] fs_cd_same[of "sh_cwd st" a "sys st"]
  by (auto simp: sh_cd_def sh_ok_def say_def split: bind_splits intro: sys_ok_same)

lemma ask_password_ok: "sh_ok st \<Longrightarrow> ask_password st = Some (pw, st') \<Longrightarrow> sh_ok st' \<and> users (sys st') = users (sys st)"
  by (auto simp: ask_password_def Let_def pr_def sh_ok_def split: option.splits)

lemma become_ok: "sh_ok st \<Longrightarrow> u \<in> set (users (sys st)) \<Longrightarrow> become u st = Some st' \<Longrightarrow> sh_ok st'"
  by (auto simp: become_def sh_ok_def sys_ok_def say_def fits_eq_Some split: bind_splits)

lemma su_ok:
  assumes "sh_ok st"
  shows "ok_run (cmd_su a st)"
proof -
  have b: "ok_run (of_opt (become (users (sys st') ! i) st'))"
    if "ask_password st = Some (pw, st')" "ufind t (sys st) = Some i" for pw st' t i
  proof (rule ok_run_of_opt)
    fix s assume "become (users (sys st') ! i) st' = Some s"
    then show "sh_ok s"
      using become_ok[of st' "users (sys st') ! i" s] ask_password_ok[OF assms that(1)] nth_mem[OF ufind_less[OF that(2)]] by simp
  qed
  have k: "sh_ok st'" if "ask_password st = Some (pw, st')" for pw st'
    using ask_password_ok[OF assms that] by simp
  show ?thesis
    using assms unfolding cmd_su_def Let_def by (simp add: b k split: option.split prod.split)
qed

lemma as_root_ok: "ok_calls rec \<Longrightarrow> cstr a \<Longrightarrow> sh_ok st \<Longrightarrow> ok_run (as_root rec a st)"
  unfolding as_root_def by (intro run_then_ok) (auto simp: ok_calls_def sh_ok_def say_def)

lemma rok_ok: "ok_calls rec \<Longrightarrow> cstr a \<Longrightarrow> sh_ok st \<Longrightarrow> ok_run (cmd_rok rec a st)"
  using ask_password_ok[of st, THEN conjunct1] by (simp add: cmd_rok_def as_root_ok split: option.split prod.split)

lemma r_minus_ok: "sh_ok st \<Longrightarrow> sh_ok (r_minus st)"
  by (simp add: r_minus_def sh_ok_def say_def abs_path_def)

lemma passwd_opt: "sys_ok s \<Longrightarrow> ok_opt (cmd_passwd a ks s)"
  by (simp add: ok_opt_def passwd_ok)

lemma passwd_keys_ok: "sh_ok st \<Longrightarrow> ok_run (passwd_keys a st)"
  by (simp add: passwd_keys_def Let_def sh_okD ok_on_sys passwd_opt split: list.split)

subsection \<open>Scripts\<close>

lemma hist_put_ok: "hist_ok h \<Longrightarrow> cstr l \<Longrightarrow> length l < 512 \<Longrightarrow> hist_ok (hist_put l h)"
  by (cases h) (auto simp: hist_ok_def hist_put_def)

lemma push_hist_ok: "sh_ok st \<Longrightarrow> cstr l \<Longrightarrow> lash_push_hist l st = Some st' \<Longrightarrow> sh_ok st'"
  by (auto simp: lash_push_hist_def sh_ok_def fits_eq_Some hist_put_ok split: if_splits bind_splits)

lemma src_alias_ok:
  assumes "sh_ok st" "cstr l" "src_alias l st = Some st'"
  shows "sh_ok st'"
proof -
  define eq where "eq = drop (length (take 31 (takeWhile (\<lambda>c. c \<noteq> CHR ''='') (skip_sp (drop 6 l))))) (skip_sp (drop 6 l))"
  define v where "v = take 127 (takeWhile (\<lambda>c. \<not> is_quote c) (if tl eq \<noteq> [] \<and> is_quote (hd (tl eq)) then tl (tl eq) else tl eq))"
  have "cstr eq" using assms(2) by (simp add: eq_def cstr_ops)
  then have "cstr v" by (simp add: v_def cstr_ops)
  moreover obtain n st1 where "sh_alias_set n v st = Some st1" "st' = say (alias_line n v) st1"
    using assms(3) unfolding src_alias_def Let_def eq_def[symmetric] v_def[symmetric] by (auto split: if_splits bind_splits)
  ultimately show ?thesis using alias_set_ok[OF assms(1)] by simp
qed

lemma run_src_line_ok: "ok_calls rec \<Longrightarrow> cstr l \<Longrightarrow> sh_ok st \<Longrightarrow> ok_run (run_src_line rec l st)"
  unfolding run_src_line_def Let_def
  by (auto simp: ok_calls_def intro!: ok_run_of_opt run_then_ok dest: src_alias_ok push_hist_ok)

lemma run_src_ok: "ok_calls rec \<Longrightarrow> \<forall>l \<in> set ls. cstr l \<Longrightarrow> sh_ok st \<Longrightarrow> ok_run (run_src rec ls st)"
  by (induction ls arbitrary: st) (auto intro!: run_then_ok run_src_line_ok)

lemma src_lines_cstr: "cstr s \<Longrightarrow> l \<in> set (src_lines s) \<Longrightarrow> cstr l"
proof (induction s rule: src_lines.induct)
  case (1 s)
  then show ?case
    by (subst (asm) (2) src_lines.simps) (auto simp: src_line_def src_rest_def Let_def cstr_ops split: if_splits)
qed

lemma src_content_cstr: "fs_ok s \<Longrightarrow> src_content p s = Some t \<Longrightarrow> cstr t"
  using fs_ok_get_cstr[of s p] vnode_cstr[of p s] by (auto simp: src_content_def split: option.splits bind_splits)

lemma source_ok:
  assumes "ok_calls rec" "sh_ok st"
  shows "ok_run (lash_source rec p st)"
proof -
  have "fs_ok (sys st)" using sh_okD(1)[OF assms(2)] by (simp add: sys_ok_def)
  then have "\<forall>l \<in> set (src_lines t). cstr l" if "src_content rp (sys st) = Some t" for rp t
    using src_content_cstr src_lines_cstr that by blast
  then show ?thesis
    using assms by (simp add: lash_source_def run_src_ok split: option.split)
qed

subsection \<open>The chain of commands\<close>

lemma ok_optI: "(\<And>s'. r = Some s' \<Longrightarrow> sys_ok s') \<Longrightarrow> ok_opt r"
  by (simp add: ok_opt_def)

lemma keeps_plain: "(\<And>cmd a st. cstr a \<Longrightarrow> sh_ok st \<Longrightarrow> ok_run (h cmd a st)) \<Longrightarrow> keeps (\<lambda>rec. h)"
  by (simp add: keeps_def)

lemma ok_callsD: "ok_calls rec \<Longrightarrow> cstr l \<Longrightarrow> sh_ok st \<Longrightarrow> ok_run (rec l st)"
  by (simp add: ok_calls_def)

lemma last_hist_cstr: "sh_ok st \<Longrightarrow> sh_hist st \<noteq> [] \<Longrightarrow> cstr (last (sh_hist st))"
  by (simp add: sh_ok_def hist_ok_def)

lemma keeps_callers:
  "keeps (\<lambda>rec cmd. rec)" "cstr l \<Longrightarrow> keeps (\<lambda>rec cmd a. rec l)" "keeps (\<lambda>rec cmd. cmd_rok rec)"
  "keeps (\<lambda>rec cmd a. if a = [] then talk f rec cmd a else lash_source rec a)"
  "keeps (\<lambda>rec cmd a st. if sh_hist st \<noteq> [] then rec (last (sh_hist st)) st else Ran st)"
  by (simp_all add: keeps_def ok_callsD rok_ok source_ok talk_def last_hist_cstr)

lemma rpk_run_ctl: "sys_ok s \<Longrightarrow> ok_ctl (cmd_rpk_run c s)"
  by (simp add: ok_ctl_def rpk_run_ok)

lemma polctl_ctl: "sys_ok s \<Longrightarrow> ok_ctl (cmd_polctl c s)"
  by (simp add: ok_ctl_def polctl_ok)

lemma after_key_ctl: "sys_ok s \<Longrightarrow> ok_ctl (Some (after_key p f (pr g s)))"
  by (auto simp: ok_ctl_def dest: after_key_ok[rotated])

lemma packaged_ok: "sh_ok st \<Longrightarrow> ok_run (packaged c st)" "sh_ok st \<Longrightarrow> ok_run (python_cmd c st)"
    "sh_ok st \<Longrightarrow> ok_run (unknown_cmd c st)"
  by (simp_all add: packaged_def python_cmd_def unknown_cmd_def ok_on_ctl rpk_run_ctl sh_okD)

lemma rm_run_ok: "sh_ok st \<Longrightarrow> cstr a \<Longrightarrow> ok_run (on_out (fs_rm (sh_cwd st) a) st)"
  by (auto simp: on_out_def sh_okD intro!: sh_ok_sys intro: rm_ok[OF sh_okD] split: option.splits outcome.splits)

lemma ls_run_ok: "sh_ok st \<Longrightarrow> ok_run (of_opt (on_sys (ls_cmd cmd (sh_cwd st) a) st))"
  by (intro ok_on_sys ok_optI) (auto intro: readers_ok(1) sh_okD)

lemma cd_root_ok: "sh_ok st \<Longrightarrow> sh_cd ''/'' f st = Some st' \<Longrightarrow> sh_ok st'"
  by (rule cd_ok) auto

lemmas keeps_kinds = keeps_talk keeps_callers keeps_act keeps_sys_act keeps_ctl_act keeps_plain

lemma system_keeps: "ok_other other \<Longrightarrow> list_all (\<lambda>(g, h). keeps h) (system_cmds other)"
  unfolding system_cmds_def list.pred_inject prod.case
  by (intro conjI keeps_kinds keeps_foreign) (auto dest: counters_ok)

lemma user_keeps: "list_all (\<lambda>(g, h). keeps h) user_cmds"
  unfolding user_cmds_def list.pred_inject prod.case
  by (intro conjI keeps_kinds)
    (auto simp: poingctl_ok polctl_ctl passwd_keys_ok su_ok r_minus_ok accounts_ok(2,4) deluser_ok
      intro!: ok_optI dest: adduser_ok usermod_ok accounts_ok)

lemma var_keeps: "list_all (\<lambda>(g, h). keeps h) var_cmds"
  unfolding var_cmds_def list.pred_inject prod.case
  by (intro conjI keeps_kinds) (auto simp: unset_ok dest: export_ok set_ok)

lemma file_keeps: "list_all (\<lambda>(g, h). keeps h) (file_cmds junk)"
  unfolding file_cmds_def list.pred_inject prod.case
  by (intro conjI keeps_kinds)
    (auto simp: ls_run_ok rm_run_ok fs_pwd_def nano_sys_ok vi_sys_ok sh_okD
      intro!: ok_optI intro: readers_ok(2-5) rmdir_ok touch_ok[OF _ sh_okD(2)] mkdir_ok[OF _ sh_okD(2)]
      dest: cd_ok cd_root_ok readers_ok(2)[rotated])

lemma proc_keeps: "list_all (\<lambda>(g, h). keeps h) proc_cmds"
  unfolding proc_cmds_def list.pred_inject prod.case
  by (intro conjI keeps_kinds after_key_ctl) auto

lemma net_keeps: "ok_other other \<Longrightarrow> list_all (\<lambda>(g, h). keeps h) (net_cmds other)"
  unfolding net_cmds_def list.pred_inject prod.case
  by (intro conjI keeps_kinds keeps_foreign) (auto simp: ok_other_def)

lemma hw_keeps: "list_all (\<lambda>(g, h). keeps h) hw_cmds"
  unfolding hw_cmds_def list.pred_inject prod.case by (intro conjI keeps_kinds) auto

lemma crypto_keeps: "ok_other other \<Longrightarrow> list_all (\<lambda>(g, h). keeps h) (crypto_cmds other)"
  unfolding crypto_cmds_def list.pred_inject prod.case by (intro conjI keeps_kinds keeps_foreign rpk_sys_ok) auto

lemma util_keeps: "ok_other other \<Longrightarrow> list_all (\<lambda>(g, h). keeps h) (util_cmds other)"
  unfolding util_cmds_def list.pred_inject prod.case
  by (intro conjI keeps_kinds keeps_foreign) (auto simp: unset_ok dest: alias_ok)

lemma app_keeps: "ok_other other \<Longrightarrow> list_all (\<lambda>(g, h). keeps h) (app_cmds other)"
  unfolding app_cmds_def list.pred_inject prod.case
  by (intro conjI keeps_kinds keeps_foreign after_key_ctl)
    (auto simp: packaged_ok ok_other_def polctl_ctl dest: counters_ok todo_ok)

lemma builtins_keep: "ok_other other \<Longrightarrow> list_all (\<lambda>(g, h). keeps h) (builtins other junk)"
  by (simp add: builtins_def system_keeps user_keeps var_keeps file_keeps proc_keeps net_keeps hw_keeps crypto_keeps
      util_keeps app_keeps)

subsection \<open>The dispatcher\<close>

lemma slot_get_cstr: "slots_ok xs \<Longrightarrow> slot_get n xs = Some v \<Longrightarrow> cstr v"
  by (auto simp: slots_ok_def slot_get_map_of dest: map_of_SomeD)

lemma var_value_cstr:
  assumes "sh_ok st" "cstr vn"
  shows "cstr (var_value st vn)"
proof (cases "sh_var_get vn st")
  case None
  have "cstr (sh_user st)" "cstr (sh_cwd st)" using assms(1) by (simp_all add: sh_ok_def abs_path_def)
  then show ?thesis using assms(2) by (simp add: var_value_def None)
next
  case (Some v)
  then show ?thesis using assms(1) by (auto simp: var_value_def sh_ok_def sh_var_get_def dest: slot_get_cstr)
qed

lemma expand_spec_cstr: "(\<And>vn. cstr vn \<Longrightarrow> cstr (f vn)) \<Longrightarrow> cstr s \<Longrightarrow> cstr (expand_spec f s)"
proof (induction f s rule: expand_spec.induct)
  case (1 f s)
  have n: "cstr (f (var_name (tl s)))" using 1(3,4) by (simp add: var_name_def cstr_ops)
  show ?case
  proof (cases "s = []")
    case False
    then have h: "hd s \<noteq> CHR 0x00" using 1(4) by (cases s) auto
    have "cstr (expand_spec f (drop (length (var_name (tl s))) (tl s)))" if "hd s = CHR ''$''"
      using 1(1)[OF False that] 1(3,4) by (simp add: cstr_ops)
    moreover have "cstr (expand_spec f (tl s))" if "hd s \<noteq> CHR ''$''"
      using 1(2)[OF False that] 1(3,4) by (simp add: cstr_ops)
    ultimately show ?thesis using n h by (subst expand_spec.simps) simp
  qed (simp add: expand_spec.simps)
qed

lemma sh_expand_cstr: "sh_ok st \<Longrightarrow> cstr l \<Longrightarrow> cstr (sh_expand st l n)"
  by (simp add: sh_expand_def expand_loop_spec cstr_take expand_spec_cstr var_value_cstr)

lemma alias_get_cstr: "sh_ok st \<Longrightarrow> sh_alias_get n st = Some v \<Longrightarrow> cstr v"
  by (auto simp: sh_ok_def sh_alias_get_def dest: slot_get_cstr)

lemma run_cmd_ok:
  assumes "ok_other other" "ok_calls rec" "cstr cmd" "cstr a" "sh_ok st"
  shows "ok_run (run_cmd other junk rec cmd a st)"
proof (cases "sh_alias_get cmd st")
  case None
  show ?thesis
  proof (cases "List.find (\<lambda>(g, h). g cmd a) (builtins other junk)")
    case (Some gh)
    obtain g h where "gh = (g, h)" by fastforce
    then show ?thesis
      using find_builtin[OF Some builtins_keep[OF assms(1)]] None Some assms by (simp add: run_cmd_def keeps_def)
  qed (simp add: run_cmd_def None packaged_ok assms)
next
  case (Some v)
  then show ?thesis using assms ok_callsD alias_get_cstr by (simp add: run_cmd_def)
qed

lemma run_pipe_ok: "ok_calls rec \<Longrightarrow> cstr l \<Longrightarrow> cstr r \<Longrightarrow> sh_ok st \<Longrightarrow> ok_run (run_pipe rec l r st)"
  unfolding run_pipe_def Let_def
  by (intro run_then_ok) (simp_all add: ok_callsD pipe_mode_def sh_ok_sys sh_okD)

lemma dispatch_step_ok:
  assumes "ok_other other" "ok_calls rec"
  shows "ok_calls (dispatch_step other junk rec)"
proof -
  have "ok_run (dispatch_step other junk rec l st)" if "cstr l" "sh_ok st" for l st
  proof -
    define e where "e = skip_sp (sh_expand st l 512)"
    have e: "cstr e" using that by (simp add: e_def cstr_ops sh_expand_cstr)
    obtain cmd p where t: "take_word 63 e = (cmd, p)" by fastforce
    have "cmd @ p = e" using take_word_append[of 63 e] t by simp
    then have "cstr cmd" "cstr (skip_sp p)" using e by (auto simp: cstr_ops)
    then show ?thesis
      unfolding dispatch_step_def Let_def e_def[symmetric] t
      using that(2) e by (simp add: run_cmd_ok[OF assms] run_pipe_ok[OF assms(2)] cstr_ops split: option.split nat.split)
  qed
  then show ?thesis by (simp add: ok_calls_def)
qed

lemma sh_dispatch_ok: "ok_other other \<Longrightarrow> ok_calls (sh_dispatch other junk n)"
  by (induction n) (simp add: ok_calls_def, simp add: dispatch_step_ok)


lemma sh0_ok: "sh_ok sh0"
proof -
  have "sys_ok pol0"
    by (simp add: sys_ok_def pol0_def rpk0_def poing0_def tty0_def usys0_def pol.defs rpk.defs poing.defs
        tty.defs usys.defs fs_ok_def store_ok_def fs0_def kbd0_def fs.defs kbd.defs)
  then show ?thesis
    by (simp add: sh_ok_def sh0_def abs_path_def slots_ok_def hist_ok_def)
qed


end
