(* ===== verification/Pig_Lash.thy ===== *)
theory Pig_Lash
  imports Pig_ShInv
begin

text \<open>
  The line editor and completion of \<open>shell/lash.h\<close> and the start of the shell, \<open>shell_run\<close> of
  \<open>shell/shell.h\<close>. The line is kept as the code keeps it: the whole array of 512 bytes, the length and
  the cursor as separate numbers, so that a state in which they do not agree (there is one: the down key
  forgets the line and keeps the cursor) is a state of the model. A store outside the array has no result.

  The keys are the ones \<open>kb_get\<close> returns, in order; packets that arrive between two keys are left to the
  network stack.
\<close>

section \<open>Definitions\<close>

definition LASH_COMPLETIONS :: "string list" where
  "LASH_COMPLETIONS =
    [''help'', ''ls'', ''cd'', ''cat'', ''echo'', ''pwd'', ''mkdir'', ''rmdir'', ''rm'', ''cp'', ''mv'',
     ''chmod'', ''chown'', ''touch'', ''grep'', ''find'', ''tar'', ''gzip'', ''gunzip'', ''apt'',
     ''apt-get'', ''dpkg'', ''make'', ''gcc'', ''g++'', ''python'', ''python3'', ''git'', ''npm'', ''node'',
     ''curl'', ''wget'', ''ssh'', ''scp'', ''rsync'', ''systemctl'', ''service'', ''journalctl'', ''ps'',
     ''top'', ''htop'', ''kill'', ''killall'', ''pkill'', ''bg'', ''fg'', ''jobs'', ''alias'', ''unalias'',
     ''export'', ''unset'', ''env'', ''ifconfig'', ''ip'', ''ping'', ''route'', ''netstat'', ''traceroute'',
     ''pi'', ''pnano'', ''pivi'', ''emacs'', ''clear'', ''date'', ''whoami'', ''uname'', ''hostname'',
     ''uptime'', ''pigfetch'', ''wm'', ''snake'', ''tetris'', ''matrix'', ''fortune'', ''adduser'',
     ''passwd'', ''su'', ''sudo'', ''useradd'', ''userdel'', ''usermod'', ''pigcrypt'', ''pighash'',
     ''pigkey'', ''rpk'', ''menuconfig'', ''exit'', ''logout'', ''reboot'', ''shutdown'', ''halt'',
     ''poweroff'', ''mount'', ''umount'', ''df'', ''du'', ''free'', ''lsblk'']"

record led =
  inp :: string
  ilen :: nat
  lcur :: nat
  hi_cur :: int
  cands :: "string list"
  comp_pos :: nat
  comp_shown :: bool
  comp_input :: string
  comp_ilen :: nat

definition blank :: string where
  "blank = replicate 512 CHR 0x00"

definition led_reset :: "led \<Rightarrow> led" where
  "led_reset e = e\<lparr>inp := blank, comp_input := blank, ilen := 0, lcur := 0, hi_cur := -1, comp_shown := False,
     cands := [], comp_ilen := 0\<rparr>"

text \<open>The C string at the start of an array; \<^term>\<open>None\<close> when no NUL ends it.\<close>

definition arr_str :: "string \<Rightarrow> string option" where
  "arr_str b = (if CHR 0x00 \<in> set b then Some (takeWhile (\<lambda>c. c \<noteq> CHR 0x00) b) else None)"

definition arr_set :: "nat \<Rightarrow> char \<Rightarrow> string \<Rightarrow> string option" where
  "arr_set i c b = (if i < length b then Some (b[i := c]) else None)"

text \<open>\<open>kcp(b,s)\<close> on an array: the bytes after the terminator keep what they held.\<close>

definition arr_cp :: "string \<Rightarrow> string \<Rightarrow> string option" where
  "arr_cp s b = (if length s < length b then Some (s @ CHR 0x00 # drop (Suc (length s)) b) else None)"

subsection \<open>Completion\<close>

text \<open>The comparison stops at the end of either string.\<close>

definition comp_match :: "string \<Rightarrow> string \<Rightarrow> bool" where
  "comp_match prefix c \<longleftrightarrow> (let n = min (length prefix) (length c) in take n c = take n prefix)"

definition comp_rpk :: "string \<Rightarrow> string list \<Rightarrow> string list \<Rightarrow> string list" where
  "comp_rpk prefix cmds acc = fold (\<lambda>c acc.
     if length acc < 64 \<and> c \<notin> set LASH_COMPLETIONS \<and> comp_match prefix c then acc @ [c] else acc) cmds acc"

definition base_name :: "string \<Rightarrow> string" where
  "base_name p = rev (takeWhile (\<lambda>c. c \<noteq> CHR ''/'') (rev p))"

definition comp_file :: "string \<Rightarrow> vnode \<Rightarrow> string list \<Rightarrow> string list option" where
  "comp_file filt v acc =
     (let p = vn_path v; fn = base_name p in
      if length acc \<ge> 63 \<or> cget p 0 \<noteq> CHR ''/'' \<or> fn = [] \<or>
         (filt \<noteq> [] \<and> map to_lower (take (length filt) fn) \<noteq> map to_lower filt) \<or> fn \<in> set acc then Some acc
      else do { c \<leftarrow> fits 64 fn; Some (acc @ [c]) })"

definition lash_find_completions :: "string \<Rightarrow> string list \<Rightarrow> string list option" where
  "lash_find_completions prefix cmds =
     (if prefix = [] then Some []
      else (let acc = comp_rpk prefix cmds (take 64 (filter (comp_match prefix) LASH_COMPLETIONS)) in
        if CHR '' '' \<in> set prefix
        then ofold (comp_file (tl (dropWhile (\<lambda>c. c \<noteq> CHR '' '') (take 64 prefix)))) VFS acc
        else Some acc))"

subsection \<open>Drawing\<close>

definition rub :: "nat \<Rightarrow> vga \<Rightarrow> vga" where
  "rub n = seqs (replicate n (seqs [vpc CHR 0x08, vpc CHR '' '', vpc CHR 0x08]))"

definition show_from :: "nat \<Rightarrow> led \<Rightarrow> vga \<Rightarrow> vga" where
  "show_from k e = fold vpc (drop k (take (ilen e) (inp e)))"

definition back_to :: "nat \<Rightarrow> led \<Rightarrow> vga \<Rightarrow> vga" where
  "back_to k e = fold vpc (replicate (ilen e - k) CHR 0x08)"

text \<open>The whole line replaced by another text.\<close>

definition led_load :: "string \<Rightarrow> led \<Rightarrow> led option" where
  "led_load s e = do { b \<leftarrow> arr_cp s (inp e); Some (e\<lparr>inp := b, ilen := length s, lcur := length s\<rparr>) }"

definition line_load :: "string \<Rightarrow> led \<Rightarrow> sh \<Rightarrow> (led \<times> sh) option" where
  "line_load s e st = do {
     e' \<leftarrow> led_load s e;
     Some (e', say (seqs [rub (ilen e), fold vpc s]) st) }"

subsection \<open>Keys\<close>

type_synonym lres = "run + led \<times> sh"

definition go_on :: "(led \<times> sh) option \<Rightarrow> lres" where
  "go_on r = (case r of None \<Rightarrow> Inl Undef | Some x \<Rightarrow> Inr x)"

definition comp_off :: "led \<Rightarrow> led" where
  "comp_off e = e\<lparr>comp_shown := False, cands := []\<rparr>"

text \<open>The two loops that move bytes: one place to the right from \<open>cur\<close> to \<open>ilen\<close>, and one to the left.\<close>

definition shift_up :: "nat \<Rightarrow> nat \<Rightarrow> string \<Rightarrow> string" where
  "shift_up k n b = fold (\<lambda>i b. b[i := b ! (i - 1)]) (rev [Suc k ..< Suc n]) b"

definition shift_down :: "nat \<Rightarrow> nat \<Rightarrow> string \<Rightarrow> string" where
  "shift_down k n b = fold (\<lambda>i b. b[i := b ! Suc i]) [k ..< n - 1] b"

definition led_insert :: "char \<Rightarrow> led \<Rightarrow> led option" where
  "led_insert c e = do {
     b \<leftarrow> arr_set (lcur e) c (shift_up (lcur e) (ilen e) (inp e));
     b \<leftarrow> arr_set (Suc (ilen e)) CHR 0x00 b;
     Some (e\<lparr>inp := b, ilen := Suc (ilen e), lcur := Suc (lcur e)\<rparr>) }"

definition key_insert :: "int \<Rightarrow> led \<Rightarrow> sh \<Rightarrow> (led \<times> sh) option" where
  "key_insert c e st = do {
     e \<leftarrow> led_insert (char_of c) e;
     Some (e, say (seqs [vpc (char_of c), show_from (lcur e) e, back_to (lcur e) e]) st) }"

definition led_delete :: "led \<Rightarrow> led" where
  "led_delete e = (let k = lcur e - 1 in
     e\<lparr>inp := shift_down k (ilen e) (inp e), ilen := ilen e - 1, lcur := k\<rparr>)"

definition key_backspace :: "led \<Rightarrow> sh \<Rightarrow> (led \<times> sh) option" where
  "key_backspace e st =
     (let e1 = (if ilen e > 0 then led_delete e else e);
          st = (if ilen e > 0
                then say (seqs [vpc CHR 0x08, vpc CHR '' '', vpc CHR 0x08, show_from (lcur e1) e1, back_to (lcur e1) e1]) st
                else st)
      in if ilen e1 = 0 then Some (comp_off (e1\<lparr>inp := blank, lcur := 0\<rparr>), st)
         else do { b \<leftarrow> arr_set (ilen e1) CHR 0x00 (inp e1); Some (comp_off (e1\<lparr>inp := b\<rparr>), st) })"

definition hist_load :: "int \<Rightarrow> led \<Rightarrow> sh \<Rightarrow> (led \<times> sh) option" where
  "hist_load hi e st =
     (if 0 \<le> hi \<and> hi < int (length (lash_hist st))
      then line_load (lash_hist st ! nat hi) (e\<lparr>hi_cur := hi\<rparr>) st else None)"

definition key_up :: "led \<Rightarrow> sh \<Rightarrow> (led \<times> sh) option" where
  "key_up e st =
     (let e = comp_off e; hn = int (length (lash_hist st)) in
      if hn > 0 then hist_load (if hi_cur e < 0 then hn - 1 else if hi_cur e > 0 then hi_cur e - 1 else hi_cur e) e st
      else Some (e, st))"

definition key_down :: "led \<Rightarrow> sh \<Rightarrow> (led \<times> sh) option" where
  "key_down e st =
     (let e = comp_off e; hn = int (length (lash_hist st)) in
      if hi_cur e \<ge> 0 \<and> hi_cur e < hn - 1 then hist_load (hi_cur e + 1) e st
      else Some (e\<lparr>hi_cur := -1, ilen := 0\<rparr>, say (rub (ilen e)) st))"

definition key_redraw :: "led \<Rightarrow> sh \<Rightarrow> sh" where
  "key_redraw e = say (seqs [rub (ilen e), show_from 0 e])"

text \<open>Tab. The typed word stops at the first blank, so the prefix given to \<open>lash_find_completions\<close> never holds
  one.\<close>

definition tab_prefix :: "led \<Rightarrow> string" where
  "tab_prefix e = takeWhile (\<lambda>c. c \<noteq> CHR 0x00) (takeWhile (\<lambda>c. c \<noteq> CHR '' '') (take (min (ilen e) 63) (inp e)))"

definition tab_complete :: "led \<Rightarrow> bool" where
  "tab_complete e \<longleftrightarrow>
     (let n = (if inp e ! (ilen e - 1) = CHR '' '' then ilen e - 1 else ilen e)
      in takeWhile (\<lambda>c. c \<noteq> CHR 0x00) (take n (inp e)) \<in> set (cands e))"

definition key_tab :: "led \<Rightarrow> sh \<Rightarrow> (led \<times> sh) option" where
  "key_tab e st =
     (if ilen e = 0 then Some (e, st)
      else do {
        cs \<leftarrow> lash_find_completions (tab_prefix e) (rpk_installed_cmds (sys st));
        let e = e\<lparr>cands := cs, comp_pos := 0\<rparr>;
        if cs = [] \<or> tab_complete e then Some (e, st)
        else if comp_shown e \<and> length cs > 1 then line_load (cs ! 1) (e\<lparr>comp_pos := 1\<rparr>) st
        else if length cs = 1 then do {
          (e, st) \<leftarrow> line_load (cs ! 0) e st;
          Some (e, say (vpc CHR '' '') st) }
        else do {
          l \<leftarrow> arr_str (inp e);
          b \<leftarrow> arr_cp l (comp_input e);
          Some (e\<lparr>comp_shown := True, comp_input := b, comp_ilen := ilen e\<rparr>,
            say (seqs ([vpc CHR 0x0A] @ map (\<lambda>c. seqs [vps c, vpc CHR '' '']) cs @
                       [vpc CHR 0x0A, lash_render_prompt st, show_from 0 e])) st) } })"

text \<open>Enter with a list of completions on the screen takes the first of them instead of running the line.\<close>

definition set_from :: "nat \<Rightarrow> string \<Rightarrow> string \<Rightarrow> string" where
  "set_from k s b = take k b @ s @ drop (k + length s) b"

definition take_completion :: "led \<Rightarrow> sh \<Rightarrow> (led \<times> sh) option" where
  "take_completion e st = do {
     let cmd = hd (cands e);
     l \<leftarrow> arr_str (comp_input e);
     (case find_idx (\<lambda>c. c = CHR '' '') l of
        Some sp \<Rightarrow> do {
          let fn_start = sp + 1;
          let put = take (511 - fn_start) cmd;
          b \<leftarrow> arr_set (fn_start + length cmd) CHR 0x00 (set_from fn_start put (comp_input e));
          let n = fn_start + length cmd;
          i \<leftarrow> arr_set n CHR 0x00 (set_from 0 (take n b) (inp e));
          Some (comp_off (e\<lparr>comp_input := b, comp_ilen := n, inp := i, ilen := n, lcur := n\<rparr>),
            say (seqs [rub (comp_ilen e - fn_start), fold vpc put]) st) }
      | None \<Rightarrow> do { (e, st) \<leftarrow> line_load cmd e st; Some (comp_off e, st) }) }"

text \<open>The end of a line: the keys still in the driver's buffer are dropped.\<close>

definition line_done :: "led \<Rightarrow> sh \<Rightarrow> led \<times> sh" where
  "line_done e st = (led_reset e, say (lash_render_prompt st) (st\<lparr>sys := (sys st)\<lparr>kb_h := 0, kb_t := 0\<rparr>\<rparr>))"

definition key_enter :: "(string \<Rightarrow> sh \<Rightarrow> run) \<Rightarrow> led \<Rightarrow> sh \<Rightarrow> lres" where
  "key_enter rec e st =
     (if comp_shown e \<and> cands e \<noteq> [] then go_on (take_completion e st)
      else (let st = say (vpc CHR 0x0A) st in
        if ilen e > 0
        then (case arr_str (inp e) of
                None \<Rightarrow> Inl Undef
              | Some l \<Rightarrow> (case run_then (of_opt (lash_push_hist l st)) (rec l) of
                  Ran st \<Rightarrow> Inr (line_done e st)
                | r \<Rightarrow> Inl r))
        else Inr (line_done e st)))"

definition lash_key :: "(string \<Rightarrow> sh \<Rightarrow> run) \<Rightarrow> int \<Rightarrow> led \<Rightarrow> sh \<Rightarrow> lres" where
  "lash_key rec c e st =
     (if c = KEY_LEFT then Inr (e\<lparr>lcur := lcur e - 1\<rparr>, key_redraw e st)
      else if c = KEY_RIGHT then Inr (e\<lparr>lcur := (if lcur e < ilen e then lcur e + 1 else lcur e)\<rparr>, key_redraw e st)
      else if c = 10 \<or> c = 13 then key_enter rec e st
      else if c = 3 then Inr (line_done e (say (seqs [vps ''^C'', vpc CHR 0x0A]) st))
      else if c = 8 \<or> c = 127 then go_on (key_backspace e st)
      else if c = KEY_UP then go_on (key_up e st)
      else if c = KEY_DOWN then go_on (key_down e st)
      else if c = 9 then go_on (key_tab e st)
      else if c \<ge> 32 \<and> c < 127 \<and> ilen e < 511 then go_on (key_insert c e st)
      else Inr (e, st))"

text \<open>The loop of \<open>lash_loop\<close> over the next \<open>n\<close> keys.\<close>

fun lash_steps :: "(string \<Rightarrow> sh \<Rightarrow> run) \<Rightarrow> nat \<Rightarrow> led \<Rightarrow> sh \<Rightarrow> lres" where
  "lash_steps rec 0 e st = Inr (e, st)"
| "lash_steps rec (Suc n) e st =
     (case keys (sys st) of
        [] \<Rightarrow> Inl Await
      | c # cs \<Rightarrow>
          (case lash_key rec c e (st\<lparr>sys := (sys st)\<lparr>keys := cs\<rparr>\<rparr>) of
             Inl r \<Rightarrow> Inl r
           | Inr (e, st) \<Rightarrow> lash_steps rec n e st))"

definition led0 :: led where
  "led0 = \<lparr>inp = blank, ilen = 0, lcur = 0, hi_cur = -1, cands = [], comp_pos = 0, comp_shown = False,
     comp_input = blank, comp_ilen = 0\<rparr>"

definition lash_loop :: "(string \<Rightarrow> sh \<Rightarrow> run) \<Rightarrow> nat \<Rightarrow> sh \<Rightarrow> lres" where
  "lash_loop rec n st = (let st = say lash_print_logo st in lash_steps rec n led0 (say (lash_render_prompt st) st))"

definition shell_run :: "(string \<Rightarrow> sh \<Rightarrow> run) \<Rightarrow> nat \<Rightarrow> sh \<Rightarrow> lres" where
  "shell_run rec n st =
     (case ofold (\<lambda>(a, v). sh_alias_set a v) [(''ll'', ''ls -la''), (''la'', ''ls -la''), (''cls'', ''clear'')]
             (say (seqs [vclear, pigos_splash]) st) of
        None \<Rightarrow> Inl Undef
      | Some st \<Rightarrow> lash_loop rec n st)"

section \<open>The line as an editor of text\<close>

text \<open>What the user sees: a text and a place in it.\<close>

fun ed_key :: "int \<Rightarrow> string \<times> nat \<Rightarrow> string \<times> nat" where
  "ed_key c (l, k) =
     (if c = KEY_LEFT then (l, k - 1)
      else if c = KEY_RIGHT then (l, min (k + 1) (length l))
      else if c = 8 \<or> c = 127 then (take (k - 1) l @ drop (Suc (k - 1)) l, k - 1)
      else if length l < 511 then (take k l @ char_of c # drop k l, k + 1)
      else (l, k))"

definition edit_key :: "int \<Rightarrow> bool" where
  "edit_key c \<longleftrightarrow> c = KEY_LEFT \<or> c = KEY_RIGHT \<or> c = 8 \<or> c = 127 \<or> 32 \<le> c \<and> c < 127"

definition line_text :: "led \<Rightarrow> string" where
  "line_text e = take (ilen e) (inp e)"

definition led_ok :: "led \<Rightarrow> bool" where
  "led_ok e \<longleftrightarrow> length (inp e) = 512 \<and> ilen e \<le> 511 \<and> lcur e \<le> ilen e \<and> inp e ! ilen e = CHR 0x00 \<and>
     CHR 0x00 \<notin> set (line_text e)"

definition led_abs :: "led \<Rightarrow> string \<times> nat" where
  "led_abs e = (line_text e, lcur e)"

text \<open>What editing the line leaves alone.\<close>

definition same_comp :: "led \<Rightarrow> led \<Rightarrow> bool" where
  "same_comp e' e \<longleftrightarrow> comp_input e' = comp_input e \<and> hi_cur e' = hi_cur e \<and> set (cands e') \<subseteq> set (cands e) \<and>
     (comp_shown e' \<longrightarrow> comp_shown e)"

lemma say_say: "say g (say f st) = say (g \<circ> f) st"
  by (simp add: say_def pr_def)

lemma say_id: "say id st = st"
  by (simp add: say_def pr_def)

lemma keys_say [simp]: "keys (sys (say f st)) = keys (sys st)"
  by (simp add: say_def pr_def)

lemma say_keys: "(say f st)\<lparr>sys := (sys (say f st))\<lparr>keys := ks\<rparr>\<rparr> = say f (st\<lparr>sys := (sys st)\<lparr>keys := ks\<rparr>\<rparr>)"
  by (simp add: say_def pr_def)

lemma length_shift_up [simp]: "length (shift_up k n b) = length b"
proof -
  have "length (fold (\<lambda>i b. b[i := b ! (i - 1)]) is b) = length b" for "is" and b :: string
    by (induction "is" arbitrary: b) simp_all
  then show ?thesis by (simp add: shift_up_def)
qed

lemma length_shift_down [simp]: "length (shift_down k n b) = length b"
proof -
  have "length (fold (\<lambda>i b. b[i := b ! Suc i]) is b) = length b" for "is" and b :: string
    by (induction "is" arbitrary: b) simp_all
  then show ?thesis by (simp add: shift_down_def)
qed

lemma nth_shift_up:
  "n < length b \<Longrightarrow> i < length b \<Longrightarrow> shift_up k n b ! i = (if k < i \<and> i \<le> n then b ! (i - 1) else b ! i)"
proof (induction n arbitrary: b)
  case 0
  then show ?case by (auto simp: shift_up_def)
next
  case (Suc n)
  show ?case
  proof (cases "k \<le> n")
    case True
    then have "shift_up k (Suc n) b = shift_up k n (b[Suc n := b ! n])" by (simp add: shift_up_def)
    then show ?thesis using Suc.IH[of "b[Suc n := b ! n]"] Suc.prems True by (auto simp: nth_list_update)
  qed (auto simp: shift_up_def)
qed

lemma nth_shift_down:
  "i < length b \<Longrightarrow> m < length b \<Longrightarrow> shift_down k (Suc m) b ! i = (if k \<le> i \<and> i < m then b ! Suc i else b ! i)"
proof (induction m arbitrary: i)
  case 0
  then show ?case by (simp add: shift_down_def)
next
  case (Suc m)
  show ?case
  proof (cases "k \<le> m")
    case True
    then have "shift_down k (Suc (Suc m)) b = (shift_down k (Suc m) b)[m := shift_down k (Suc m) b ! Suc m]"
      by (simp add: shift_down_def)
    then show ?thesis
      using Suc.IH[of i] Suc.IH[of "Suc m"] Suc.prems True by (auto simp: nth_list_update less_Suc_eq)
  qed (auto simp: shift_down_def)
qed

lemma led_insert_correct:
  assumes "led_ok e" "ilen e < 511" "c \<noteq> CHR 0x00"
  shows "\<exists>e'. led_insert c e = Some e' \<and> led_ok e' \<and>
    led_abs e' = (take (lcur e) (line_text e) @ c # drop (lcur e) (line_text e), Suc (lcur e)) \<and>
    same_comp e' e"
proof -
  let ?k = "lcur e" and ?n = "ilen e" and ?b = "inp e"
  define b' where "b' = (shift_up ?k ?n ?b)[?k := c, Suc ?n := CHR 0x00]"
  let ?e = "e\<lparr>inp := b', ilen := Suc ?n, lcur := Suc ?k\<rparr>"
  have L: "length ?b = 512" "?k \<le> ?n" "CHR 0x00 \<notin> set (line_text e)" using assms(1) by (simp_all add: led_ok_def)
  have "led_insert c e = Some ?e" using L assms(2) by (simp add: led_insert_def arr_set_def b'_def)
  moreover have t: "take (Suc ?n) b' = take ?k (line_text e) @ c # drop ?k (line_text e)"
    using L assms(2)
    by (intro nth_equalityI) (auto simp: b'_def line_text_def nth_list_update nth_shift_up nth_append nth_Cons' min_def)
  moreover have "set (take (Suc ?n) b') \<subseteq> insert c (set (line_text e))"
    unfolding t using set_take_subset[of ?k "line_text e"] set_drop_subset[of ?k "line_text e"] by auto
  then have "led_ok ?e" using L assms(2,3) by (auto simp: led_ok_def line_text_def b'_def)
  ultimately show ?thesis by (auto simp: led_abs_def line_text_def same_comp_def)
qed

lemma led_delete_correct:
  assumes "led_ok e" "ilen e > 0"
  shows "led_abs (led_delete e) =
      (take (lcur e - 1) (line_text e) @ drop (Suc (lcur e - 1)) (line_text e), lcur e - 1)"
    and "length (inp (led_delete e)) = 512" "ilen (led_delete e) = ilen e - 1" "lcur (led_delete e) \<le> ilen e - 1"
    and "same_comp (led_delete e) e"
proof -
  let ?k = "lcur e - 1" and ?b = "inp e"
  obtain m where m: "ilen e = Suc m" using assms(2) by (cases "ilen e") auto
  have L: "length ?b = 512" "lcur e \<le> Suc m" "Suc m \<le> 511" using assms(1) m by (simp_all add: led_ok_def)
  have "take m (shift_down ?k (Suc m) ?b) = take ?k (line_text e) @ drop (Suc ?k) (line_text e)"
    using L by (intro nth_equalityI) (auto simp: line_text_def m nth_shift_down nth_append min_def)
  then show "led_abs (led_delete e) = (take ?k (line_text e) @ drop (Suc ?k) (line_text e), ?k)"
    by (simp add: led_abs_def led_delete_def line_text_def m Let_def)
qed (use assms in \<open>auto simp: led_delete_def led_ok_def Let_def same_comp_def\<close>)

lemma edit_key_refines:
  assumes "led_ok e" "edit_key c"
  shows "\<exists>e' f. lash_key rec c e st = Inr (e', say f st) \<and> led_ok e' \<and> same_comp e' e \<and>
    led_abs e' = ed_key c (led_abs e)"
proof -
  have L: "length (line_text e) = ilen e" using assms(1) by (simp add: led_ok_def line_text_def)
  consider "c = KEY_LEFT" | "c = KEY_RIGHT" | "c = 8 \<or> c = 127" "ilen e = 0" | "c = 8 \<or> c = 127" "ilen e > 0"
    | "32 \<le> c" "c < 127" "ilen e < 511" | "32 \<le> c" "c < 127" "\<not> ilen e < 511"
    using assms(1,2) by (auto simp: edit_key_def led_ok_def)
  then show ?thesis
  proof cases
    case 3
    then have "key_backspace e st = Some (comp_off (e\<lparr>inp := blank, lcur := 0\<rparr>), say id st)"
      by (simp add: key_backspace_def say_id)
    then show ?thesis
      using 3 assms
      by (intro exI[of _ "comp_off (e\<lparr>inp := blank, lcur := 0\<rparr>)"] exI[of _ id])
        (auto simp: lash_key_def go_on_def led_ok_def led_abs_def line_text_def comp_off_def blank_def same_comp_def)
  next
    case 4
    note D = led_delete_correct[OF assms(1) 4(2)]
    let ?e = "led_delete e" and ?a = "(take (lcur e - 1) (line_text e) @ drop (Suc (lcur e - 1)) (line_text e), lcur e - 1)"
    define e' where "e' = comp_off (if ilen ?e = 0 then ?e\<lparr>inp := blank, lcur := 0\<rparr>
      else ?e\<lparr>inp := (inp ?e)[ilen ?e := CHR 0x00]\<rparr>)"
    have "\<exists>f. key_backspace e st = Some (e', say f st)"
      using 4 D assms(1) by (auto simp: key_backspace_def e'_def arr_set_def led_ok_def Let_def)
    moreover have "led_abs e' = ?a"
      using D by (auto simp: e'_def led_abs_def line_text_def comp_off_def)
    moreover have "set (fst ?a) \<subseteq> set (line_text e)"
      using set_take_subset[of "lcur e - 1" "line_text e"] set_drop_subset[of "Suc (lcur e - 1)" "line_text e"] by auto
    then have "CHR 0x00 \<notin> set (fst ?a)" using assms(1) by (auto simp: led_ok_def)
    then have "led_ok e'" using D calculation(2) assms(1)
      by (auto simp: led_ok_def e'_def comp_off_def blank_def led_abs_def line_text_def)
    ultimately show ?thesis
      using 4 D(5) by (auto simp: lash_key_def go_on_def led_abs_def e'_def comp_off_def same_comp_def)
  next
    case 5
    then have "char_of c \<noteq> CHR 0x00" by (auto simp: char_of_eq_iff take_bit_eq_mod)
    from led_insert_correct[OF assms(1) 5(3) this]
    show ?thesis using 5 L by (auto simp: lash_key_def go_on_def key_insert_def led_abs_def)
  next
    case 6
    then show ?thesis using assms L
      by (intro exI[of _ e] exI[of _ id]) (auto simp: lash_key_def led_abs_def say_id same_comp_def)
  qed (use assms L in \<open>auto simp: lash_key_def key_redraw_def led_ok_def led_abs_def line_text_def min_def same_comp_def\<close>)
qed

lemma edit_keys_refine:
  assumes "keys (sys st) = ks @ rest" "\<forall>c \<in> set ks. edit_key c" "led_ok e" "\<not> comp_shown e"
  shows "\<exists>e' f. lash_steps rec (length ks) e st = Inr (e', say f (st\<lparr>sys := (sys st)\<lparr>keys := rest\<rparr>\<rparr>)) \<and>
    led_ok e' \<and> \<not> comp_shown e' \<and> led_abs e' = fold ed_key ks (led_abs e)"
  using assms
proof (induction ks arbitrary: e st)
  case Nil
  have "say id (st\<lparr>sys := (sys st)\<lparr>keys := rest\<rparr>\<rparr>) = st" using Nil.prems(1) by (simp add: say_def pr_def)
  then show ?case using Nil.prems by (intro exI[of _ e] exI[of _ id]) (simp add: id_def)
next
  case (Cons c ks)
  let ?st = "st\<lparr>sys := (sys st)\<lparr>keys := ks @ rest\<rparr>\<rparr>"
  obtain e1 f where 1: "lash_key rec c e ?st = Inr (e1, say f ?st)" "led_ok e1" "\<not> comp_shown e1"
      "led_abs e1 = ed_key c (led_abs e)"
    using edit_key_refines[of e c rec ?st] Cons.prems by (auto simp: same_comp_def)
  obtain e2 g where 2: "lash_steps rec (length ks) e1 (say f ?st) =
      Inr (e2, say g ((say f ?st)\<lparr>sys := (sys (say f ?st))\<lparr>keys := rest\<rparr>\<rparr>))"
      "led_ok e2" "\<not> comp_shown e2" "led_abs e2 = fold ed_key ks (led_abs e1)"
    using Cons.IH[of "say f ?st" e1] Cons.prems 1 by (auto simp: say_def pr_def)
  have "say g ((say f ?st)\<lparr>sys := (sys (say f ?st))\<lparr>keys := rest\<rparr>\<rparr>) =
      say (g \<circ> f) (st\<lparr>sys := (sys st)\<lparr>keys := rest\<rparr>\<rparr>)"
    by (simp add: say_def pr_def)
  with 1 2 Cons.prems(1) show ?case by (intro exI[of _ e2] exI[of _ "g \<circ> f"]) (simp add: o_def)
qed

lemma lash_steps_add:
  "lash_steps rec (m + n) e st =
     (case lash_steps rec m e st of Inl r \<Rightarrow> Inl r | Inr (e, st) \<Rightarrow> lash_steps rec n e st)"
  by (induction m arbitrary: e st) (auto split: list.split sum.split)

lemma led_ok_str: "led_ok e \<Longrightarrow> arr_str (inp e) = Some (line_text e)"
proof -
  assume e: "led_ok e"
  then have "ilen e < length (inp e)" "inp e ! ilen e = CHR 0x00" by (simp_all add: led_ok_def)
  then have "inp e = line_text e @ CHR 0x00 # drop (Suc (ilen e)) (inp e)"
    by (metis id_take_nth_drop line_text_def)
  moreover have "takeWhile (\<lambda>c. c \<noteq> CHR 0x00) (line_text e @ CHR 0x00 # xs) = line_text e" for xs
    using e by (subst takeWhile_append2) (auto simp: led_ok_def)
  moreover have "CHR 0x00 \<in> set (inp e)" by (subst calculation(1)) simp
  ultimately show ?thesis by (metis arr_str_def)
qed

text \<open>C6: what runs is the line on the screen: whatever is typed, rubbed out and inserted with the cursor keys,
  the command Enter pushes to the history and dispatches is the text those keys spell.\<close>

theorem enter_runs_edited_line:
  assumes "led_ok e" "\<not> comp_shown e" "\<forall>c \<in> set ks. edit_key c" "keys (sys st) = ks @ 10 # rest"
    and "fst (fold ed_key ks (led_abs e)) = l" "l \<noteq> []"
  shows "\<exists>e' f. lash_steps rec (length ks + 1) e st =
    (case run_then (of_opt (lash_push_hist l (say f (st\<lparr>sys := (sys st)\<lparr>keys := rest\<rparr>\<rparr>)))) (rec l) of
       Ran st' \<Rightarrow> Inr (line_done e' st')
     | r \<Rightarrow> Inl r)"
proof -
  let ?st = "\<lambda>ks. st\<lparr>sys := (sys st)\<lparr>keys := ks\<rparr>\<rparr>"
  obtain e' f where *: "lash_steps rec (length ks) e st = Inr (e', say f (?st (10 # rest)))" "led_ok e'"
      "\<not> comp_shown e'" "led_abs e' = fold ed_key ks (led_abs e)"
    using edit_keys_refine[OF assms(4,3,1,2)] by blast
  have t: "line_text e' = l" using *(4) assms(5) by (metis fst_conv led_abs_def)
  then have n: "ilen e' > 0" using assms(6) by (auto simp: line_text_def)
  have k: "(say f (?st (10 # rest)))\<lparr>sys := (sys (say f (?st (10 # rest))))\<lparr>keys := rest\<rparr>\<rparr> = say f (?st rest)"
    by (simp add: say_keys)
  have "keys (sys (say f (?st (10 # rest)))) = 10 # rest" by (simp add: say_def pr_def)
  then have "lash_steps rec (length ks + 1) e st =
    (case run_then (of_opt (lash_push_hist l (say (vpc CHR 0x0A \<circ> f) (?st rest)))) (rec l) of
       Ran st' \<Rightarrow> Inr (line_done e' st') | r \<Rightarrow> Inl r)"
    unfolding lash_steps_add *(1) using *(3) n led_ok_str[OF *(2)] t
    by (simp add: k say_say lash_key_def key_enter_def Let_def line_done_def split: run.split)
  then show ?thesis by blast
qed

section \<open>The editor stays inside its arrays\<close>

definition led_inv :: "sh \<Rightarrow> led \<Rightarrow> bool" where
  "led_inv st e \<longleftrightarrow> led_ok e \<and> length (comp_input e) = 512 \<and> CHR 0x00 \<in> set (comp_input e) \<and>
     (\<forall>c \<in> set (cands e). cstr c \<and> length c < 64) \<and> hi_cur e < int (length (lash_hist st))"

lemma set_comp_rpk: "set (comp_rpk p cmds acc) \<subseteq> set acc \<union> set cmds"
  unfolding comp_rpk_def
proof (induction cmds arbitrary: acc)
  case (Cons a cmds)
  then show ?case using Cons.IH[of acc] Cons.IH[of "acc @ [a]"] by auto
qed simp

lemma completions_ok: "\<forall>c \<in> set LASH_COMPLETIONS. cstr c \<and> length c < 64"
  by (simp add: LASH_COMPLETIONS_def)

lemma tab_prefix_word: "CHR '' '' \<notin> set (tab_prefix e)"
  by (auto simp: tab_prefix_def dest!: set_takeWhileD)

text \<open>Tab completes names of commands only: the search in the file system needs a blank in the prefix, and the
  prefix stops before the first one.\<close>

lemma tab_never_completes_files:
  "\<exists>cs. lash_find_completions (tab_prefix e) cmds = Some cs \<and> set cs \<subseteq> set LASH_COMPLETIONS \<union> set cmds"
proof -
  let ?p = "tab_prefix e" and ?t = "take 64 (filter (comp_match (tab_prefix e)) LASH_COMPLETIONS)"
  have "set ?t \<subseteq> set LASH_COMPLETIONS" using set_take_subset[of 64 "filter (comp_match ?p) LASH_COMPLETIONS"] by auto
  with set_comp_rpk[of ?p cmds ?t] tab_prefix_word[of e] show ?thesis by (auto simp: lash_find_completions_def)
qed

lemma rpk_cmds_short:
  assumes "rpk_ok st"
  shows "\<forall>c \<in> set (rpk_installed_cmds st). cstr c \<and> length c < 64"
proof -
  have t: "\<forall>x \<in> set rpk_table. cstr (fst x) \<and> length (fst x) < 64" by (simp add: rpk_table_def)
  have m: "map (\<lambda>r. (rp_name r, rp_version r, rp_desc r, rp_size_kb r)) (rpk_db st) = rpk_table"
    using assms by (simp add: rpk_ok_def db_static_def)
  have "map fst rpk_table = map rp_name (rpk_db st)" by (simp flip: m)
  then have "fst ` set rpk_table = rp_name ` set (rpk_db st)" by (metis set_map)
  moreover have "set (rpk_installed_cmds st) \<subseteq> rp_name ` set (rpk_db st)"
    using assms by (auto simp: rpk_ok_def inst_def rpk_cmd_installed_def)
  ultimately show ?thesis using t by (metis (no_types, lifting) imageE subsetD)
qed

lemma line_load_ok:
  assumes "cstr s" "length s < 512" "length (inp e) = 512"
  shows "\<exists>e' f. line_load s e st = Some (e', say f st) \<and> led_ok e' \<and> comp_input e' = comp_input e \<and>
    cands e' = cands e \<and> hi_cur e' = hi_cur e"
  using assms by (auto simp: line_load_def led_load_def arr_cp_def led_ok_def line_text_def cstr_def)

lemma led_inv_frame [simp]: "led_inv (say f st) e = led_inv st e"
  by (simp add: led_inv_def say_def)

lemma led_inv_comp_off: "led_inv st e \<Longrightarrow> led_inv st (comp_off e)"
  by (simp add: led_inv_def comp_off_def led_ok_def line_text_def)

lemma hist_load_ok:
  assumes "sh_ok st" "led_inv st e" "0 \<le> hi" "hi < int (length (lash_hist st))"
  shows "\<exists>e' f. hist_load hi e st = Some (e', say f st) \<and> led_inv st e'"
proof -
  have "lash_hist st ! nat hi \<in> set (lash_hist st)" using assms(3,4) by simp
  then have "cstr (lash_hist st ! nat hi)" "length (lash_hist st ! nat hi) < 512"
    using assms(1) by (auto simp: sh_ok_def hist_ok_def)
  from line_load_ok[OF this, of "e\<lparr>hi_cur := hi\<rparr>" st] show ?thesis
    using assms(2-4) by (auto simp: hist_load_def led_inv_def led_ok_def)
qed

lemma key_up_ok:
  assumes "sh_ok st" "led_inv st e"
  shows "\<exists>e' f. key_up e st = Some (e', say f st) \<and> led_inv st e'"
proof (cases "lash_hist st = []")
  case True
  then show ?thesis using led_inv_comp_off[OF assms(2)]
    by (intro exI[of _ "comp_off e"] exI[of _ id]) (simp add: key_up_def say_def pr_def)
next
  case False
  then show ?thesis
    using hist_load_ok[OF assms(1) led_inv_comp_off[OF assms(2)]] assms(2)
    by (simp add: key_up_def Let_def led_inv_def comp_off_def)
qed

lemma key_tab_ok:
  assumes "rpk_ok (sys st)" "led_inv st e"
  shows "\<exists>e' f. key_tab e st = Some (e', say f st) \<and> led_inv st e'"
proof -
  obtain cs where cs: "lash_find_completions (tab_prefix e) (rpk_installed_cmds (sys st)) = Some cs"
      "set cs \<subseteq> set LASH_COMPLETIONS \<union> set (rpk_installed_cmds (sys st))"
    using tab_never_completes_files by blast
  then have short: "\<forall>c \<in> set cs. cstr c \<and> length c < 64"
    using completions_ok rpk_cmds_short[OF assms(1)] by blast
  let ?e = "e\<lparr>cands := cs, comp_pos := 0\<rparr>"
  have e: "led_inv st ?e" "\<And>n. led_inv st (?e\<lparr>comp_pos := n\<rparr>)" "length (inp e) = 512"
    using assms(2) short by (auto simp: led_inv_def led_ok_def line_text_def)
  have load: "\<exists>e' f. line_load (cs ! i) (?e\<lparr>comp_pos := n\<rparr>) st = Some (e', say f st) \<and> led_inv st e'"
    if "i < length cs" for i n
  proof -
    have "cstr (cs ! i)" "length (cs ! i) < 512" using short that nth_mem by fastforce+
    from line_load_ok[OF this, of "?e\<lparr>comp_pos := n\<rparr>" st] obtain e' f where
        "line_load (cs ! i) (?e\<lparr>comp_pos := n\<rparr>) st = Some (e', say f st)" "led_ok e'" "comp_input e' = comp_input e"
        "cands e' = cs" "hi_cur e' = hi_cur e" using e(3) by auto
    then show ?thesis using e(1) by (auto simp: led_inv_def)
  qed
  have str: "arr_str (inp e) = Some (line_text e)" using assms(2) by (simp add: led_inv_def led_ok_str)
  have cp: "length (line_text e) < length (comp_input e)"
    using assms(2) by (simp add: led_inv_def led_ok_def line_text_def)
  have len: "cs = [] \<or> length cs = 1 \<or> cs \<noteq> [] \<and> length cs > 1" by (cases cs) auto
  consider "ilen e = 0" | "ilen e > 0" "cs = [] \<or> tab_complete ?e"
    | "ilen e > 0" "cs \<noteq> []" "\<not> tab_complete ?e" "comp_shown e" "length cs > 1"
    | "ilen e > 0" "\<not> tab_complete ?e" "length cs = 1"
    | "ilen e > 0" "cs \<noteq> []" "\<not> tab_complete ?e" "\<not> comp_shown e" "length cs > 1"
    using len neq0_conv by blast
  then show ?thesis
  proof cases
    case 1
    then show ?thesis using assms(2) by (intro exI[of _ e] exI[of _ id]) (simp add: key_tab_def say_id say_id[unfolded id_def])
  next
    case 2
    then show ?thesis using cs(1) e
      by (intro exI[of _ ?e] exI[of _ id]) (auto simp: key_tab_def say_id say_id[unfolded id_def])
  next
    case 3
    then show ?thesis using cs(1) load[of 1 1] by (simp add: key_tab_def)
  next
    case 4
    have "cs \<noteq> []" using 4(3) by auto
    moreover obtain e' f where "line_load (cs ! 0) ?e st = Some (e', say f st)" "led_inv st e'"
      using load[of 0 0] 4(3) by auto
    ultimately show ?thesis using 4 cs(1) by (auto simp: key_tab_def say_say)
  next
    case 5
    then show ?thesis using cs(1) str cp e(1)
      by (auto simp: key_tab_def arr_cp_def led_inv_def led_ok_def line_text_def Let_def)
  qed
qed

lemma take_completion_ok:
  assumes "led_inv st e" "cands e \<noteq> []" "\<And>l. arr_str (comp_input e) = Some l \<Longrightarrow> length l < 448"
  shows "\<exists>e' f. take_completion e st = Some (e', say f st) \<and> led_inv st e'"
proof -
  let ?cmd = "hd (cands e)" and ?b = "comp_input e"
  have cmd: "cstr ?cmd" "length ?cmd < 64" using assms(1,2) by (auto simp: led_inv_def)
  obtain l where l: "arr_str ?b = Some l" "l = takeWhile (\<lambda>c. c \<noteq> CHR 0x00) ?b"
    using assms(1) by (auto simp: arr_str_def led_inv_def)
  have ll: "length l < 448" using assms(3) l(1) by blast
  show ?thesis
  proof (cases "find_idx (\<lambda>c. c = CHR '' '') l")
    case None
    obtain e' f where "line_load ?cmd e st = Some (e', say f st)" "led_ok e'" "comp_input e' = comp_input e"
        "hi_cur e' = hi_cur e"
      using line_load_ok[OF cmd(1), of e st] cmd(2) assms(1) by (auto simp: led_inv_def led_ok_def)
    then show ?thesis using None l(1) assms(1)
      by (auto simp: take_completion_def led_inv_def comp_off_def led_ok_def line_text_def)
  next
    case (Some sp)
    let ?k = "sp + 1" and ?n = "sp + 1 + length ?cmd"
    have sp: "sp < length l" using Some by (rule find_idx_less)
    have n: "?n < 512" "take (511 - ?k) ?cmd = ?cmd" using sp ll cmd(2) by simp_all
    have lb: "length ?b = 512" "length (inp e) = 512" using assms(1) by (simp_all add: led_inv_def led_ok_def)
    have "?b = l @ dropWhile (\<lambda>c. c \<noteq> CHR 0x00) ?b" unfolding l(2) by (rule takeWhile_dropWhile_id[symmetric])
    then have "take ?k ?b = take ?k (l @ dropWhile (\<lambda>c. c \<noteq> CHR 0x00) ?b)" by (rule arg_cong)
    also have "\<dots> = take ?k l" using sp by simp
    finally have pre: "take ?k ?b = take ?k l" .
    define b where "b = (set_from ?k ?cmd ?b)[?n := CHR 0x00]"
    define i where "i = (set_from 0 (take ?n b) (inp e))[?n := CHR 0x00]"
    have sf: "length (set_from ?k ?cmd ?b) = 512" using n lb by (simp add: set_from_def)
    have b: "length b = 512" "take ?n b = take ?k l @ ?cmd"
      using n lb pre sp sf by (simp_all add: b_def) (simp add: set_from_def)
    have b0: "CHR 0x00 \<in> set b" using n(1) sf by (simp add: b_def set_update_memI)
    have i: "length i = 512" "take ?n i = take ?k l @ ?cmd" "i ! ?n = CHR 0x00"
      using n lb b sp by (simp_all add: i_def set_from_def)
    have nul: "CHR 0x00 \<notin> set (take ?k l @ ?cmd)"
      using cmd(1) set_take_subset[of ?k l] by (auto simp: l(2) cstr_def dest: set_takeWhileD)
    have "take_completion e st = Some (comp_off (e\<lparr>comp_input := b, comp_ilen := ?n, inp := i, ilen := ?n, lcur := ?n\<rparr>),
        say (seqs [rub (comp_ilen e - ?k), fold vpc ?cmd]) st)"
      using n lb b(1) Some l(1) by (simp add: take_completion_def arr_set_def i_def b_def set_from_def Let_def)
    then show ?thesis using i b b0 n nul assms(1) by (auto simp: led_inv_def led_ok_def line_text_def comp_off_def)
  qed
qed

lemma led_inv_same: "led_inv st e \<Longrightarrow> led_ok e' \<Longrightarrow> same_comp e' e \<Longrightarrow> led_inv st e'"
  by (auto simp: led_inv_def same_comp_def)

text \<open>C18: the line editor stays inside its arrays. From a well-formed state, every key but the down arrow gives a
  well-formed state again, and the only results that are not are those of the command Enter runs, provided the
  line kept for completion leaves room for a name of 63 characters.\<close>

theorem lash_key_safe:
  assumes "sh_ok st" "rpk_ok (sys st)" "led_inv st e" "c \<noteq> KEY_DOWN"
    and "\<And>l. arr_str (comp_input e) = Some l \<Longrightarrow> length l < 448"
  shows "(\<exists>e' st'. lash_key rec c e st = Inr (e', st') \<and> led_inv st' e') \<or>
    (\<exists>f. lash_key rec c e st =
       (case run_then (of_opt (lash_push_hist (line_text e) (say f st))) (rec (line_text e)) of
          Ran st' \<Rightarrow> Inr (line_done e st') | r \<Rightarrow> Inl r))"
proof -
  have ok: "led_ok e" using assms(3) by (simp add: led_inv_def)
  have reset: "led_inv s' (led_reset e)" for s'
    using assms(3) by (auto simp: led_inv_def led_reset_def led_ok_def line_text_def blank_def)
  have d: "\<exists>e' st'. Inr (line_done e s) = (Inr (e', st') :: lres) \<and> led_inv st' e'" for s
    using reset by (auto simp: line_done_def)
  consider "edit_key c" | "c = 10 \<or> c = 13" | "c = 3" | "c = KEY_UP" | "c = 9"
    | "\<not> edit_key c" "c \<notin> {10, 13, 3, KEY_UP, 9}" by blast
  then show ?thesis
  proof cases
    case 1
    then show ?thesis using edit_key_refines[OF ok 1, of rec st] led_inv_same[OF assms(3)] by fastforce
  next
    case 2
    show ?thesis
    proof (cases "comp_shown e \<and> cands e \<noteq> []")
      case True
      then show ?thesis
        using take_completion_ok[OF assms(3) _ assms(5)] 2 by (force simp: lash_key_def key_enter_def go_on_def)
    next
      case False
      then have "lash_key rec c e st = key_enter rec e st" using 2 by (auto simp: lash_key_def)
      with False show ?thesis using led_ok_str[OF ok] d by (auto simp: key_enter_def Let_def split: if_splits)
    qed
  next
    case 3
    then show ?thesis using d by (auto simp: lash_key_def)
  next
    case 4
    then show ?thesis using key_up_ok[OF assms(1,3)] by (force simp: lash_key_def go_on_def)
  next
    case 5
    then show ?thesis using key_tab_ok[OF assms(2,3)] by (force simp: lash_key_def go_on_def)
  next
    case 6
    then show ?thesis using assms(3,4) by (auto simp: lash_key_def edit_key_def)
  qed
qed

section \<open>Whole sessions\<close>

lemma sys_ok_kb [simp]: "sys_ok (s\<lparr>kb_h := h, kb_t := t\<rparr>) = sys_ok s"
  by (simp add: sys_ok_def fs_ok_def store_ok_def)

definition ok_lres :: "lres \<Rightarrow> bool" where
  "ok_lres r \<longleftrightarrow> (\<forall>e st. r = Inr (e, st) \<longrightarrow> sh_ok st)"

lemma ok_lres_simps [simp]: "ok_lres (Inl r)" "ok_lres (Inr (e, st)) = sh_ok st"
  by (simp_all add: ok_lres_def)

lemma sh_ok_keys: "sh_ok st \<Longrightarrow> sh_ok (st\<lparr>sys := (sys st)\<lparr>keys := ks\<rparr>\<rparr>)"
  by (simp add: sh_ok_def)

lemma line_done_ok: "sh_ok st \<Longrightarrow> ok_lres (Inr (line_done e st))"
  by (simp add: line_done_def sh_ok_def say_def)

lemma line_load_says: "line_load s e st = Some (e', st') \<Longrightarrow> \<exists>f. st' = say f st"
  by (auto simp: line_load_def split: bind_splits)

lemma go_on_ok: "(\<And>e' st'. r = Some (e', st') \<Longrightarrow> sh_ok st') \<Longrightarrow> ok_lres (go_on r)"
  by (auto simp: go_on_def split: option.split)

lemma key_enter_ok:
  assumes "ok_calls rec" "sh_ok st"
  shows "ok_lres (key_enter rec e st)"
proof -
  have "sh_ok st'" if "take_completion e st = Some (e', st')" for e' st'
    using that assms(2) by (auto simp: take_completion_def Let_def dest!: line_load_says split: bind_splits option.splits)
  moreover have "ok_run (run_then (of_opt (lash_push_hist l (say f st))) (rec l))" if "arr_str (inp e) = Some l" for l f
  proof (intro run_then_ok)
    have l: "cstr l" using that by (auto simp: arr_str_def cstr_def dest: set_takeWhileD split: if_splits)
    then show "ok_run (of_opt (lash_push_hist l (say f st)))"
      using push_hist_ok[OF _ l, of "say f st"] assms(2) by (auto simp: of_opt_def ok_run_def split: option.splits)
    show "ok_run (rec l s)" if "sh_ok s" for s using ok_callsD[OF assms(1) l that] .
  qed
  ultimately show ?thesis
    using assms(2) by (auto simp: key_enter_def Let_def line_done_ok ok_run_def intro: go_on_ok split: option.split run.split)
qed

lemma says_self: "\<exists>f. st = say f st"
  by (rule exI[of _ id]) (simp add: say_id)

lemma hist_load_says: "hist_load hi e st = Some (e', st') \<Longrightarrow> \<exists>f. st' = say f st"
  by (auto simp: hist_load_def dest: line_load_says split: if_splits)

lemma key_backspace_says: "key_backspace e st = Some (e', st') \<Longrightarrow> \<exists>f. st' = say f st"
  using says_self by (auto simp: key_backspace_def Let_def split: if_splits bind_splits)

lemma key_up_says: "key_up e st = Some (e', st') \<Longrightarrow> \<exists>f. st' = say f st"
  using says_self by (auto simp: key_up_def Let_def dest: hist_load_says split: if_splits)

lemma key_down_says: "key_down e st = Some (e', st') \<Longrightarrow> \<exists>f. st' = say f st"
  by (auto simp: key_down_def Let_def dest: hist_load_says split: if_splits)

lemma key_insert_says: "key_insert c e st = Some (e', st') \<Longrightarrow> \<exists>f. st' = say f st"
  by (auto simp: key_insert_def split: bind_splits)

lemma key_tab_says:
  assumes "key_tab e st = Some (e', st')"
  shows "\<exists>f. st' = say f st"
proof (cases "ilen e = 0")
  case False
  obtain cs where cs: "lash_find_completions (tab_prefix e) (rpk_installed_cmds (sys st)) = Some cs"
    using assms False by (auto simp: key_tab_def split: bind_splits)
  define d where "d = e\<lparr>cands := cs, comp_pos := 0\<rparr>"
  consider "cs = [] \<or> tab_complete d" | "\<not> (cs = [] \<or> tab_complete d)" "comp_shown d \<and> length cs > 1"
    | "\<not> (cs = [] \<or> tab_complete d)" "\<not> (comp_shown d \<and> length cs > 1)" "length cs = 1"
    | "\<not> (cs = [] \<or> tab_complete d)" "\<not> (comp_shown d \<and> length cs > 1)" "length cs \<noteq> 1"
    by blast
  note K = this and A = assms[unfolded key_tab_def, simplified False cs, simplified, folded d_def]
  show ?thesis
    using K
  proof cases
    case 1
    then show ?thesis using A says_self by (auto simp: Let_def d_def)
  next
    case 2
    then show ?thesis using A line_load_says by (auto simp: Let_def d_def)
  next
    case 3
    then show ?thesis using A by (auto simp: Let_def d_def say_say dest!: line_load_says split: bind_splits)
  next
    case 4
    then show ?thesis using A by (auto simp: Let_def d_def split: bind_splits)
  qed
qed (use assms says_self in \<open>auto simp: key_tab_def\<close>)

lemmas keys_only_say = key_backspace_says key_up_says key_down_says key_insert_says key_tab_says

lemma lash_key_ok:
  assumes "ok_calls rec" "sh_ok st"
  shows "ok_lres (lash_key rec c e st)"
proof -
  have say: "sh_ok st'" if "\<exists>f. st' = say f st" for st' using that assms(2) by auto
  have "ok_lres (go_on (key_backspace e st))" "ok_lres (go_on (key_up e st))" "ok_lres (go_on (key_down e st))"
    "ok_lres (go_on (key_insert c e st))" "ok_lres (go_on (key_tab e st))"
    by (rule go_on_ok, rule say, erule keys_only_say)+
  then show ?thesis
    using assms key_enter_ok[OF assms] line_done_ok by (simp add: lash_key_def key_redraw_def)
qed

lemma lash_steps_ok: "ok_calls rec \<Longrightarrow> sh_ok st \<Longrightarrow> ok_lres (lash_steps rec n e st)"
proof (induction n arbitrary: e st)
  case (Suc n)
  have "ok_lres (lash_key rec c e (st\<lparr>sys := (sys st)\<lparr>keys := cs\<rparr>\<rparr>))" for c cs
    using Suc.prems by (simp add: lash_key_ok sh_ok_keys)
  then have "sh_ok st'" if "lash_key rec c e (st\<lparr>sys := (sys st)\<lparr>keys := cs\<rparr>\<rparr>) = Inr (e', st')" for c cs e' st'
    using that by (auto simp: ok_lres_def)
  then show ?case using Suc.IH[OF Suc.prems(1)] by (auto split: list.split sum.split)
qed simp


lemma arr_str_one: "length b \<ge> 2 \<Longrightarrow> b ! 0 \<noteq> CHR 0x00 \<Longrightarrow> b ! 1 = CHR 0x00 \<Longrightarrow> arr_str b = Some [b ! 0]"
  by (cases b; cases "tl b") (auto simp: arr_str_def)

lemma down_then_type:
  assumes "led_ok e" "\<not> comp_shown e" "hi_cur e = -1" "lcur e \<ge> 2" "lcur e < 511" "32 \<le> c" "c < 127"
    and "keys (sys st) = KEY_DOWN # c # ks"
  shows "\<exists>e' f. lash_steps rec 2 e st = Inr (e', say f (st\<lparr>sys := (sys st)\<lparr>keys := ks\<rparr>\<rparr>)) \<and> \<not> comp_shown e' \<and>
    ilen e' = 1 \<and> arr_str (inp e') = Some [hd (line_text e)]"
proof -
  define e1 where "e1 = (comp_off e)\<lparr>hi_cur := -1, ilen := 0\<rparr>"
  define b where "b = (inp e)[lcur e := char_of c, 1 := CHR 0x00]"
  define e2 where "e2 = e1\<lparr>inp := b, ilen := 1, lcur := Suc (lcur e)\<rparr>"
  have L: "length (inp e) = 512" "CHR 0x00 \<notin> set (line_text e)" "lcur e \<le> ilen e" "ilen e \<le> 511"
    using assms(1) by (simp_all add: led_ok_def)
  have "length (line_text e) \<ge> 2" using L assms(4) by (simp add: line_text_def)
  then have ne: "line_text e \<noteq> []" by auto
  then have "hd (line_text e) \<in> set (line_text e)" by simp
  moreover have h: "hd (line_text e) = inp e ! 0" using ne L(1) by (auto simp: line_text_def hd_conv_nth)
  ultimately have "inp e ! 0 \<noteq> CHR 0x00" using L(2) by auto
  then have b: "arr_str b = Some [hd (line_text e)]"
    using arr_str_one[of b] L(1) assms(4) by (simp add: b_def h)
  have down: "lash_key rec KEY_DOWN e s = Inr (e1, say (rub (ilen e)) s)" for s
    using assms(3) by (simp add: lash_key_def key_down_def go_on_def Let_def comp_off_def e1_def)
  have "\<exists>f. lash_key rec c e1 s = Inr (e2, say f s)" for s
    using assms(4-7) L
    by (auto simp: lash_key_def go_on_def key_insert_def led_insert_def arr_set_def shift_up_def e1_def e2_def b_def comp_off_def)
  then obtain f where f: "lash_key rec c e1 (say (rub (ilen e)) (st\<lparr>sys := (sys st)\<lparr>keys := ks\<rparr>\<rparr>)) =
      Inr (e2, say f (say (rub (ilen e)) (st\<lparr>sys := (sys st)\<lparr>keys := ks\<rparr>\<rparr>)))" by blast
  have "lash_steps rec 2 e st = Inr (e2, say (f \<circ> rub (ilen e)) (st\<lparr>sys := (sys st)\<lparr>keys := ks\<rparr>\<rparr>))"
    using assms(8) down f by (simp add: numeral_2_eq_2 say_keys say_say)
  moreover have "\<not> comp_shown e2" "ilen e2 = 1" "inp e2 = b" by (simp_all add: e2_def e1_def comp_off_def)
  ultimately show ?thesis using b by blast
qed

text \<open>C39: a defect of the down key. Past the newest line it empties the line and keeps the cursor, so the next
  character is stored where the cursor was: Enter then runs the first character of the line that was given up,
  whatever has been typed.\<close>

theorem down_runs_old_text:
  assumes "led_ok e" "\<not> comp_shown e" "hi_cur e = -1" "lcur e \<ge> 2" "lcur e < 511" "32 \<le> c" "c < 127"
    and "keys (sys st) = KEY_DOWN # c # 10 # rest"
  shows "\<exists>e' f. lash_steps rec 3 e st =
    (case run_then (of_opt (lash_push_hist [hd (line_text e)] (say f (st\<lparr>sys := (sys st)\<lparr>keys := rest\<rparr>\<rparr>))))
       (rec [hd (line_text e)]) of
       Ran st' \<Rightarrow> Inr (line_done e' st')
     | r \<Rightarrow> Inl r)"
proof -
  obtain e' f where *: "lash_steps rec 2 e st = Inr (e', say f (st\<lparr>sys := (sys st)\<lparr>keys := 10 # rest\<rparr>\<rparr>))"
      "\<not> comp_shown e'" "ilen e' = 1" "arr_str (inp e') = Some [hd (line_text e)]"
    using down_then_type[OF assms] by blast
  have "lash_steps rec (2 + 1) e st =
    (case run_then (of_opt (lash_push_hist [hd (line_text e)]
        (say (vpc CHR 0x0A \<circ> f) (st\<lparr>sys := (sys st)\<lparr>keys := rest\<rparr>\<rparr>)))) (rec [hd (line_text e)]) of
       Ran st' \<Rightarrow> Inr (line_done e' st') | r \<Rightarrow> Inl r)"
    unfolding lash_steps_add *(1) using *(2-4)
    by (simp add: say_keys say_say lash_key_def key_enter_def Let_def line_done_def split: run.split)
  then show ?thesis by auto
qed

section \<open>Examples\<close>

definition lash_ex :: "int list \<Rightarrow> sh" where
  "lash_ex ks = sh0\<lparr>sys := (sys sh0)\<lparr>keys := ks\<rparr>\<rparr>"

lemma led0_ok: "led_ok led0" "\<not> comp_shown led0" "hi_cur led0 = -1"
  by (simp_all add: led0_def led_ok_def line_text_def blank_def)

lemma led0_abs: "led_abs led0 = ([], 0)"
  by (simp add: led0_def led_abs_def line_text_def)

lemma lash_ex_ok: "sh_ok (lash_ex ks)" "keys (sys (lash_ex ks)) = ks"
  using sh_ok_keys[OF sh0_ok] by (simp_all add: lash_ex_def)

theorem enter_runs_edited_line_witness:
  "\<exists>e' f. lash_steps (sh_dispatch (\<lambda>cmd a. Ran) [] 2) 6 led0 (lash_ex [108, 120, 8, KEY_LEFT, 97, 10]) =
    (case run_then (of_opt (lash_push_hist ''al'' (say f (lash_ex [])))) (sh_dispatch (\<lambda>cmd a. Ran) [] 2 ''al'') of
       Ran st' \<Rightarrow> Inr (line_done e' st')
     | r \<Rightarrow> Inl r)"
proof -
  let ?ks = "[108, 120, 8, KEY_LEFT, 97] :: int list"
  have "fst (fold ed_key ?ks (led_abs led0)) = ''al''" unfolding led0_abs by code_simp
  then have "\<exists>e' f. lash_steps rec (length ?ks + 1) led0 (lash_ex (?ks @ [10])) =
    (case run_then (of_opt (lash_push_hist ''al'' (say f (lash_ex [])))) (rec ''al'') of
       Ran st' \<Rightarrow> Inr (line_done e' st') | r \<Rightarrow> Inl r)" for rec
    using enter_runs_edited_line[OF led0_ok(1,2), of ?ks "lash_ex (?ks @ [10])" "[]" "''al''" rec]
    by (simp add: edit_key_def lash_ex_def del: lash_steps.simps)
  moreover have "length ?ks + 1 = 6" "?ks @ [10] = [108, 120, 8, KEY_LEFT, 97, 10]" by simp_all
  ultimately show ?thesis by metis
qed

lemma led0_inv: "led_inv (lash_ex ks) led0"
  using led0_ok by (simp add: led_inv_def led0_def blank_def)

lemma rpk_ex: "rpk_ok (sys (lash_ex ks))"
proof -
  have "rpk_db (sys (lash_ex ks)) = rpk_db rpk0" "rpk_installed_cmds (sys (lash_ex ks)) = rpk_installed_cmds rpk0"
    by (simp_all add: lash_ex_def sh0_def pol0_def pol.defs rpk.defs)
  then show ?thesis using rpk0_ok by (simp add: rpk_ok_def rpk_cmd_installed_def)
qed

theorem lash_key_safe_witness:
  "(\<exists>e' st'. lash_key (\<lambda>l. Ran) 9 led0 (lash_ex []) = Inr (e', st') \<and> led_inv st' e') \<or>
    (\<exists>f. lash_key (\<lambda>l. Ran) 9 led0 (lash_ex []) =
       (case run_then (of_opt (lash_push_hist (line_text led0) (say f (lash_ex [])))) Ran of
          Ran st' \<Rightarrow> Inr (line_done led0 st') | r \<Rightarrow> Inl r))"
proof -
  have "length l < 448" if "arr_str (comp_input led0) = Some l" for l
    using that by (simp add: led0_def blank_def arr_str_def split: if_splits)
  with lash_key_safe[OF lash_ex_ok(1) rpk_ex led0_inv, where c = 9 and rec = "\<lambda>l. Ran"] show ?thesis by simp
qed


definition led_ex :: led where
  "led_ex = led0\<lparr>inp := ''rm'' @ replicate 510 CHR 0x00, ilen := 2, lcur := 2\<rparr>"

theorem down_runs_old_text_witness:
  "\<exists>e' f. lash_steps (sh_dispatch (\<lambda>cmd a. Ran) [] 2) 3 led_ex (lash_ex [KEY_DOWN, 119, 10]) =
    (case run_then (of_opt (lash_push_hist ''r'' (say f (lash_ex [])))) (sh_dispatch (\<lambda>cmd a. Ran) [] 2 ''r'') of
       Ran st' \<Rightarrow> Inr (line_done e' st')
     | r \<Rightarrow> Inl r)"
proof -
  have e: "led_ok led_ex" "\<not> comp_shown led_ex" "hi_cur led_ex = -1" "lcur led_ex \<ge> 2" "lcur led_ex < 511"
    "hd (line_text led_ex) = CHR ''r''"
    by (simp_all add: led_ex_def led0_def led_ok_def line_text_def numeral_2_eq_2)
  then have "\<exists>e' f. lash_steps rec 3 led_ex (lash_ex [KEY_DOWN, 119, 10]) =
    (case run_then (of_opt (lash_push_hist ''r'' (say f (lash_ex [])))) (rec ''r'') of
       Ran st' \<Rightarrow> Inr (line_done e' st') | r \<Rightarrow> Inl r)" for rec
    using down_runs_old_text[OF e(1-5), of 119 "lash_ex [KEY_DOWN, 119, 10]" "[]" rec] by (simp add: lash_ex_def)
  then show ?thesis by blast
qed

text \<open>The room \<open>lash_key_safe\<close> asks for is needed. A line of 511 characters that starts with \<open>pivi\<close> and whose
  first blank is its last character has two completions; Enter after Tab writes behind the array.\<close>

lemma completion_overflows:
  assumes "cands e = ''pi'' # cs" "comp_input e = l @ '' '' @ [CHR 0x00]" "length l = 510"
    and "\<forall>c \<in> set l. c \<noteq> CHR '' '' \<and> c \<noteq> CHR 0x00" "comp_shown e"
  shows "lash_key rec 10 e st = Inl Undef"
proof -
  have s: "arr_str (comp_input e) = Some (l @ '' '')"
    using assms(2,4) by (simp add: arr_str_def takeWhile_append2)
  have "find_idx (\<lambda>c. c = CHR '' '') (l @ '' '') = Some 510"
    using assms(3,4) find_idx_None[of "\<lambda>c. c = CHR '' ''" l] by (auto simp: find_idx_append)
  then show ?thesis using assms(1,2,3,5) s
    by (simp add: lash_key_def key_enter_def take_completion_def arr_set_def set_from_def go_on_def)
qed

end
