(* ===== verification/Pig_Snake.thy ===== *)
theory Pig_Snake
  imports Pig_Ps2
begin

text \<open>
  The game \<open>cmd_snake\<close> of \<open>shell/shell.h\<close>. The arrays \<open>sx\<close> and \<open>sy\<close> are one list of cells, head first, of the
  length \<open>slen\<close>. A frame waits for at most one key, so a game is driven by a list with one entry per frame: the
  key that arrived, or \<^term>\<open>None\<close> when the delay ran out.

  The generator \<open>rng=rng*1103515245+12345\<close> works on a signed \<open>int\<close>. What an operation does with a result
  is the argument \<open>ovf\<close>: \<^term>\<open>chk32\<close>, under which an overflow is undefined, is the rule of the language;
  \<open>wrap32\<close> is what a compiler does that wraps around.
\<close>

section \<open>Definitions\<close>

abbreviation (input) SN_W :: int where "SN_W \<equiv> 42"
abbreviation (input) SN_H :: int where "SN_H \<equiv> 19"
abbreviation (input) SN_MAX :: nat where "SN_MAX \<equiv> 200"
abbreviation "CH_MED \<equiv> CHR 0xB1"
abbreviation "CH_DIAM \<equiv> CHR 0x04"

type_synonym pos = "int \<times> int"

record snake = kst +
  body :: "pos list"
  heading :: pos
  food :: pos
  score :: int
  rng :: int
  paused :: bool

datatype snake_result = Crawling snake | Game_over snake

definition wrap32 :: "int \<Rightarrow> int option" where
  "wrap32 n = Some (signed_take_bit 31 n)"

definition cell_at :: "char \<Rightarrow> u8 \<Rightarrow> pos \<Rightarrow> vga \<Rightarrow> vga" where
  "cell_at c col p = vat c col (fst p + 1) (snd p + 1)"

definition snake_frame_box :: "vga \<Rightarrow> vga" where
  "snake_frame_box =
     (let bc = COL C_LCYAN C_BLACK in
      seqs [vclear,
        fold (\<lambda>i. seqs [vat CH_H bc i 0, vat CH_H bc i (SN_H + 1)]) [0 .. SN_W + 1],
        fold (\<lambda>i. seqs [vat CH_V bc 0 i, vat CH_V bc (SN_W + 1) i]) [0 .. SN_H + 1],
        vat CH_TL bc 0 0, vat CH_TR bc (SN_W + 1) 0, vat CH_BL bc 0 (SN_H + 1), vat CH_BR bc (SN_W + 1) (SN_H + 1),
        vstr (SN_W + 3) 1 (COL C_YELLOW C_BLACK) ''SNAKE!'',
        vstr (SN_W + 3) 3 (COL C_WHITE C_BLACK) ''WASD/arrows'',
        vstr (SN_W + 3) 4 (COL C_WHITE C_BLACK) ''SPACE=pause  Q=quit''])"

definition snake_draw :: "snake \<Rightarrow> snake option" where
  "snake_draw st = do {
     sb \<leftarrow> fits 8 (kia_str (score st));
     Some (pr (seqs [cell_at CH_DIAM (COL C_BLACK C_YELLOW) (food st),
        cell_at CH_BLOCK (COL C_BLACK C_LGREEN) (hd (body st)),
        fold (cell_at CH_MED (COL C_LGREEN C_BLACK)) (tl (body st)),
        vstr (SN_W + 3) 7 (COL C_YELLOW C_BLACK) ''Score:'',
        vstr (SN_W + 10) 7 (COL C_WHITE C_BLACK) sb]) st) }"

definition snake_turn :: "int \<Rightarrow> pos \<Rightarrow> pos" where
  "snake_turn c = (\<lambda>(dx, dy).
     if (c = 119 \<or> c = KEY_UP) \<and> dy \<noteq> 1 then (0, -1)
     else if (c = 115 \<or> c = KEY_DOWN) \<and> dy \<noteq> -1 then (0, 1)
     else if (c = 97 \<or> c = KEY_LEFT) \<and> dx \<noteq> 1 then (-1, 0)
     else if (c = 100 \<or> c = KEY_RIGHT) \<and> dx \<noteq> -1 then (1, 0)
     else (dx, dy))"

definition snake_key :: "int \<Rightarrow> snake \<Rightarrow> snake" where
  "snake_key c st =
     (let st = (if c = 32 then st\<lparr>paused := \<not> paused st\<rparr> else st)
      in if paused st then st else st\<lparr>heading := snake_turn c (heading st)\<rparr>)"

definition in_field :: "pos \<Rightarrow> bool" where
  "in_field p \<longleftrightarrow> \<not> (fst p < 0 \<or> fst p \<ge> SN_W \<or> snd p < 0 \<or> snd p \<ge> SN_H)"

definition snake_eat :: "(int \<Rightarrow> int option) \<Rightarrow> snake \<Rightarrow> snake option" where
  "snake_eat ovf st = do {
     m \<leftarrow> ovf (rng st * 1103515245);
     r \<leftarrow> ovf (m + 12345);
     s \<leftarrow> chk32 (score st + 10);
     Some (st\<lparr>rng := r, food := (take_bit 8 (drop_bit 8 r) mod SN_W, take_bit 8 (drop_bit 16 r) mod SN_H), score := s\<rparr>) }"

text \<open>The part of the loop after the delay, when the game is not paused.\<close>

definition snake_move :: "(int \<Rightarrow> int option) \<Rightarrow> snake \<Rightarrow> snake_result option" where
  "snake_move ovf st =
     (let n = (fst (hd (body st)) + fst (heading st), snd (hd (body st)) + snd (heading st)) in
      if \<not> in_field n \<or> n \<in> set (tl (body st)) then Some (Game_over st)
      else (let st = pr (cell_at CHR '' '' (COL C_BLACK C_BLACK) (last (body st))) st in
        if n = food st then do {
          let b = (if length (body st) < SN_MAX then body st else butlast (body st));
          st \<leftarrow> snake_eat ovf st;
          Some (Crawling (st\<lparr>body := n # b\<rparr>)) }
        else Some (Crawling (st\<lparr>body := n # butlast (body st)\<rparr>))))"

definition snake_frame :: "(int \<Rightarrow> int option) \<Rightarrow> int option \<Rightarrow> snake \<Rightarrow> snake_result option" where
  "snake_frame ovf k st = do {
     st \<leftarrow> snake_draw st;
     (case k of
        None \<Rightarrow> if paused st then Some (Crawling st) else snake_move ovf st
      | Some c \<Rightarrow>
          if c = 113 \<or> c = 27 then Some (Game_over st)
          else (let st = snake_key c st in if paused st then Some (Crawling st) else snake_move ovf st)) }"

fun snake_loop :: "(int \<Rightarrow> int option) \<Rightarrow> int option list \<Rightarrow> snake \<Rightarrow> snake_result option" where
  "snake_loop ovf [] st = Some (Crawling st)"
| "snake_loop ovf (k # ks) st =
     (case snake_frame ovf k st of
        Some (Crawling st) \<Rightarrow> snake_loop ovf ks st
      | r \<Rightarrow> r)"

definition snake_start :: "vga \<Rightarrow> snake" where
  "snake_start v = \<lparr>con = snake_frame_box v, body = [(10, 5), (9, 5), (8, 5)], heading = (1, 0), food = (21, 10), score = 0,
     rng = 12345, paused = False\<rparr>"

text \<open>The whole command: the screen after the game, or the game still going on.\<close>

definition cmd_snake :: "(int \<Rightarrow> int option) \<Rightarrow> int option list \<Rightarrow> vga \<Rightarrow> (snake + vga) option" where
  "cmd_snake ovf ks v = do {
     r \<leftarrow> snake_loop ovf ks (snake_start v);
     (case r of
        Crawling st \<Rightarrow> Some (Inl st)
      | Game_over st \<Rightarrow> do {
          sb \<leftarrow> fits 8 (kia_str (score st));
          Some (Inr (seqs [vclear, vset C_LRED C_BLACK, vps ''Game over! Score: '', vpln sb, vrst] (con st))) }) }"

section \<open>The game\<close>

text \<open>Cells of the body follow each other, the second one lies behind the head, and no cell is used twice.\<close>

fun linked :: "pos list \<Rightarrow> bool" where
  "linked (p # q # ps) \<longleftrightarrow> \<bar>fst p - fst q\<bar> + \<bar>snd p - snd q\<bar> = 1 \<and> linked (q # ps)"
| "linked _ \<longleftrightarrow> True"

definition headings :: "pos set" where
  "headings = {(1, 0), (-1, 0), (0, 1), (0, -1)}"

definition snake_ok :: "snake \<Rightarrow> bool" where
  "snake_ok st \<longleftrightarrow> 3 \<le> length (body st) \<and> length (body st) \<le> SN_MAX \<and> (\<forall>p \<in> set (body st). in_field p) \<and>
     distinct (body st) \<and> linked (body st) \<and> heading st \<in> headings \<and> in_field (food st) \<and> 0 \<le> score st"

text \<open>The second cell is the one the head came from.\<close>

definition neck :: "snake \<Rightarrow> bool" where
  "neck st \<longleftrightarrow> body st ! 1 = (fst (hd (body st)) - fst (heading st), snd (hd (body st)) - snd (heading st))"

lemma linked_butlast: "linked ps \<Longrightarrow> linked (butlast ps)"
  by (induction ps rule: linked.induct) (auto simp: butlast.simps split: if_splits) 

lemma linked_Cons: "ps \<noteq> [] \<Longrightarrow> linked (p # ps) \<longleftrightarrow> \<bar>fst p - fst (hd ps)\<bar> + \<bar>snd p - snd (hd ps)\<bar> = 1 \<and> linked ps"
  by (cases ps) auto

lemma snake_turn_heading: "d \<in> headings \<Longrightarrow> snake_turn c d \<in> headings"
proof -
  have "snake_turn c d \<in> {(0, -1), (0, 1), (-1, 0), (1, 0), d}" by (cases d) (simp add: snake_turn_def)
  then show "d \<in> headings \<Longrightarrow> snake_turn c d \<in> headings" by (auto simp: headings_def)
qed

lemma snake_pr [simp]: "snake_ok (pr f st) = snake_ok st"
  by (simp add: snake_ok_def pr_def)

lemma snake_eat_ok:
  assumes "snake_eat ovf st = Some st'"
  shows "body st' = body st" "heading st' = heading st" "in_field (food st')" "score st' = score st + 10"
  using assms by (auto simp: snake_eat_def in_field_def chk32_def split: bind_splits if_splits)

text \<open>The cell the head is about to enter, and the body after a step onto it.\<close>

abbreviation "ahead st \<equiv> (fst (hd (body st)) + fst (heading st), snd (hd (body st)) + snd (heading st))"

lemma step_body:
  assumes "snake_ok st" "in_field (ahead st)" "ahead st \<notin> set (tl (body st))"
    and "b = body st \<or> b = butlast (body st)"
  shows "distinct (ahead st # b)" "linked (ahead st # b)" "\<forall>p \<in> set (ahead st # b). in_field p" "hd b = hd (body st)"
proof -
  let ?b = "body st" and ?n = "ahead st"
  have o: "?b \<noteq> []" "3 \<le> length ?b" "distinct ?b" "linked ?b" "\<forall>p \<in> set ?b. in_field p" "heading st \<in> headings"
    using assms(1) by (auto simp: snake_ok_def)
  have "?n \<noteq> hd ?b" using o(6) by (cases "hd ?b") (auto simp: headings_def)
  then have nb: "?n \<notin> set ?b" using assms(3) o(1) by (cases ?b) auto
  have adj: "\<bar>fst ?n - fst (hd ?b)\<bar> + \<bar>snd ?n - snd (hd ?b)\<bar> = 1" using o(6) by (auto simp: headings_def)
  have bl: "b \<noteq> []" "hd b = hd ?b" using o(2) assms(4) by (cases ?b; cases "tl ?b"; auto)+
  have "set b \<subseteq> set ?b" "distinct b" "linked b"
    using assms(4) o by (auto simp: linked_butlast distinct_butlast dest: in_set_butlastD)
  then show "distinct (?n # b)" "linked (?n # b)" "\<forall>p \<in> set (?n # b). in_field p" "hd b = hd ?b"
    using nb adj bl o(5) assms(2) by (auto simp: linked_Cons)
qed

lemma snake_step_ok:
  assumes "snake_ok st" "in_field (ahead st)" "ahead st \<notin> set (tl (body st))"
    and "b = (if length (body st) < SN_MAX \<and> g then body st else butlast (body st))"
    and "body st' = ahead st # b" "heading st' = heading st" "in_field (food st')" "0 \<le> score st'"
  shows "snake_ok st' \<and> neck st'"
proof -
  have "b = body st \<or> b = butlast (body st)" using assms(4) by auto
  note S = step_body[OF assms(1-3) this]
  have l: "3 \<le> length b + 1" "length b + 1 \<le> SN_MAX" using assms(1,4) by (auto simp: snake_ok_def)
  show ?thesis using l S assms(1,5-8) by (cases b) (auto simp: snake_ok_def neck_def)
qed

lemma snake_move_ok:
  assumes "snake_ok st" "snake_move ovf st = Some r"
  shows "(\<exists>st'. r = Crawling st' \<and> snake_ok st' \<and> neck st') \<or> r = Game_over st"
proof (cases "\<not> in_field (ahead st) \<or> ahead st \<in> set (tl (body st))")
  case True
  then show ?thesis using assms(2) by (auto simp: snake_move_def)
next
  case False
  let ?st = "pr (cell_at CHR '' '' (COL C_BLACK C_BLACK) (last (body st))) st"
  have f: "in_field (food st)" "0 \<le> score st" using assms(1) by (simp_all add: snake_ok_def)
  show ?thesis
  proof (cases "ahead st = food st")
    case True
    then obtain s where s: "snake_eat ovf ?st = Some s"
        "r = Crawling (s\<lparr>body := ahead st # (if length (body st) < SN_MAX then body st else butlast (body st))\<rparr>)"
      using assms(2) False by (auto simp: snake_move_def Let_def pr_def split: bind_splits)
    show ?thesis
      using snake_step_ok[OF assms(1), of _ True] snake_eat_ok[OF s(1)] s(2) False f(2) by (auto simp: pr_def)
  next
    case neq: False
    then have "r = Crawling (?st\<lparr>body := ahead st # butlast (body st)\<rparr>)"
      using assms(2) False by (auto simp: snake_move_def Let_def pr_def)
    then show ?thesis using snake_step_ok[OF assms(1), of _ False] False f by (auto simp: pr_def)
  qed
qed

lemma snake_key_ok: "snake_ok st \<Longrightarrow> snake_ok (snake_key c st)"
  by (simp add: snake_key_def snake_ok_def Let_def snake_turn_heading)

lemma snake_key_paused: "paused (snake_key c st) \<Longrightarrow> neck st \<Longrightarrow> neck (snake_key c st)"
  by (auto simp: snake_key_def neck_def Let_def split: if_splits)

fun legal :: "snake_result \<Rightarrow> bool" where
  "legal (Crawling st) \<longleftrightarrow> snake_ok st \<and> neck st"
| "legal (Game_over st) \<longleftrightarrow> snake_ok st"

lemma snake_frame_ok:
  assumes "snake_ok st" "neck st" "snake_frame ovf k st = Some r"
  shows "legal r"
proof -
  obtain f where d: "snake_draw st = Some (pr f st)" 
    using assms(3) by (auto simp: snake_frame_def snake_draw_def split: bind_splits)
  have n: "neck (pr f st)" using assms(2) by (simp add: neck_def pr_def)
  have m: "legal r" if "snake_ok s" "snake_move ovf s = Some r" for s
    using snake_move_ok[OF that] that(1) by auto
  show ?thesis
    using assms(1,3) d n m[of "pr f st"] m[of "snake_key c (pr f st)" for c] snake_key_ok[of "pr f st"] snake_key_paused[of _ "pr f st"]
    by (auto simp: snake_frame_def Let_def split: option.splits if_splits)
qed

lemma snake_loop_induct:
  assumes "P st" "\<And>k st st'. P st \<Longrightarrow> snake_frame ovf k st = Some (Crawling st') \<Longrightarrow> P st'"
    and "snake_loop ovf ks st = Some r"
  shows "\<exists>s. P s \<and> (r = Crawling s \<or> (\<exists>k s'. r = Game_over s' \<and> snake_frame ovf k s = Some (Game_over s')))"
  using assms(1,3)
proof (induction ks arbitrary: st)
  case (Cons k ks)
  then show ?case using assms(2)[OF Cons.prems(1), of k] by (auto split: option.splits snake_result.splits)
qed auto

lemma snake_start_ok: "snake_ok (snake_start v)" "neck (snake_start v)"
  by (simp_all add: snake_start_def snake_ok_def neck_def in_field_def headings_def)

text \<open>C30: whatever keys are pressed, the snake stays in the field of 42 by 19 cells, in one piece, without crossing
  itself, between 3 and 200 cells long, and the food lies in the field; this does not depend on what the
  generator does on overflow.\<close>

theorem snake_stays_legal:
  assumes "snake_loop ovf ks (snake_start v) = Some r"
  shows "legal r"
proof -
  obtain s where s: "snake_ok s \<and> neck s" "r = Crawling s \<or> (\<exists>k s'. r = Game_over s' \<and> snake_frame ovf k s = Some (Game_over s'))"
    using snake_loop_induct[of "\<lambda>s. snake_ok s \<and> neck s", OF _ _ assms] snake_start_ok[of v] snake_frame_ok
    by (metis legal.simps(1))
  then show ?thesis using snake_frame_ok by auto
qed

text \<open>A turn is never a reversal: the cell ahead is not the neck.\<close>

lemma turn_avoids_neck:
  assumes "snake_ok st" "neck st"
  shows "ahead (snake_key c st) \<noteq> body st ! 1"
proof -
  have k: "body (snake_key c st) = body st" "heading (snake_key c st) \<in> {heading st, snake_turn c (heading st)}"
    by (auto simp: snake_key_def Let_def)
  obtain dx dy where d: "heading st = (dx, dy)" "(dx, dy) \<in> headings" using assms(1) by (cases "heading st") (auto simp: snake_ok_def)
  have "snake_turn c (dx, dy) \<noteq> (- dx, - dy)"
    using d(2) by (auto simp: headings_def snake_turn_def)
  then show ?thesis using k d assms(2)
    by (cases "heading (snake_key c st)") (auto simp: neck_def headings_def)
qed

subsection \<open>The generator\<close>

lemma first_food_undefined: "rng st = 12345 \<Longrightarrow> snake_eat chk32 st = None"
  by (simp add: snake_eat_def chk32_def)

lemma frame_without_food:
  assumes "rng st = 12345 \<and> score st = 0 \<and> length (body st) = 3" "snake_frame chk32 k st = Some (Crawling st')"
  shows "rng st' = 12345 \<and> score st' = 0 \<and> length (body st') = 3"
proof -
  have m: "rng s' = 12345 \<and> score s' = 0 \<and> length (body s') = 3"
    if "snake_move chk32 s = Some (Crawling s')" "rng s = 12345" "score s = 0" "length (body s) = 3" for s s'
    using that by (auto simp: snake_move_def Let_def first_food_undefined pr_def split: if_splits)
  have k: "rng (snake_key c s) = rng s" "score (snake_key c s) = score s" "body (snake_key c s) = body s" for c s
    by (simp_all add: snake_key_def Let_def)
  obtain f where d: "snake_draw st = Some (pr f st)"
    using assms(2) by (auto simp: snake_frame_def snake_draw_def split: bind_splits)
  show ?thesis
    using assms d m[of "pr f st"] m[of "snake_key c (pr f st)" for c]
    by (auto simp: snake_frame_def Let_def k pr_def split: option.splits if_splits)
qed

text \<open>by the rules of C no point can be scored: the seed 12345 times 1103515245 overflows \<open>int\<close>, so the first
  piece of food that is reached makes the program undefined, and every state a defined game reaches has score 0
  and a snake of three cells.\<close>

theorem snake_never_scores:
  assumes "snake_loop chk32 ks (snake_start v) = Some (Crawling st)"
  shows "score st = 0 \<and> length (body st) = 3"
proof -
  have "rng (snake_start v) = 12345 \<and> score (snake_start v) = 0 \<and> length (body (snake_start v)) = 3"
    by (simp add: snake_start_def)
  from snake_loop_induct[of "\<lambda>s. rng s = 12345 \<and> score s = 0 \<and> length (body s) = 3", OF this frame_without_food assms]
  show ?thesis by auto
qed

subsection \<open>With a generator that wraps around\<close>

lemma score_fits:
  assumes "0 \<le> n" "n < 10 ^ 7"
  shows "fits 8 (kia_str n) = Some (kia_str n)"
proof -
  have "nat n < 10 ^ 7" using assms by simp
  from kia_digits_length[OF this] show ?thesis using assms(1) by (auto simp: kia_str_def fits_def)
qed

lemma snake_move_wraps:
  assumes "0 \<le> score st" "score st < 10 ^ 7"
  shows "\<exists>r. snake_move wrap32 st = Some r \<and>
    (case r of Crawling s \<Rightarrow> score st \<le> score s \<and> score s \<le> score st + 10 | Game_over s \<Rightarrow> score s = score st)"
  using assms by (simp add: snake_move_def Let_def snake_eat_def wrap32_def chk32_def pr_def)

lemma snake_frame_wraps:
  assumes "0 \<le> score st" "score st < 10 ^ 7"
  shows "\<exists>r. snake_frame wrap32 k st = Some r \<and>
    (case r of Crawling s \<Rightarrow> 0 \<le> score s \<and> score s \<le> score st + 10 | Game_over s \<Rightarrow> score s = score st)"
proof -
  obtain f where d: "snake_draw st = Some (pr f st)" using score_fits[OF assms] by (auto simp: snake_draw_def)
  have s: "score (pr f st) = score st" "score (snake_key c (pr f st)) = score st" for c
    by (simp_all add: snake_key_def Let_def pr_def)
  have m: "\<exists>r. snake_move wrap32 s = Some r \<and>
      (case r of Crawling s \<Rightarrow> 0 \<le> score s \<and> score s \<le> score st + 10 | Game_over s \<Rightarrow> score s = score st)"
    if "score s = score st" for s
    using snake_move_wraps[of s] that assms by (fastforce split: snake_result.splits)
  show ?thesis
    using d assms s m[OF s(1)] m[OF s(2)] by (auto simp: snake_frame_def Let_def split: option.split)
qed

lemma snake_loop_wraps:
  assumes "0 \<le> score st" "score st + 10 * int (length ks) < 10 ^ 7"
  shows "\<exists>r. snake_loop wrap32 ks st = Some r \<and>
    (case r of Crawling s \<Rightarrow> True | Game_over s \<Rightarrow> 0 \<le> score s \<and> score s < 10 ^ 7)"
  using assms
proof (induction ks arbitrary: st)
  case (Cons k ks)
  obtain r where r: "snake_frame wrap32 k st = Some r"
      "case r of Crawling s \<Rightarrow> 0 \<le> score s \<and> score s \<le> score st + 10 | Game_over s \<Rightarrow> score s = score st"
    using snake_frame_wraps[of st k] Cons.prems by auto
  show ?case
  proof (cases r)
    case (Crawling s)
    then show ?thesis using r Cons.IH[of s] Cons.prems by simp
  next
    case (Game_over s)
    then show ?thesis using r Cons.prems by simp
  qed
qed simp

text \<open>compiled so that integers wrap around, the game is defined for every sequence of keys of less than a
  million frames: the score cannot outgrow its eight bytes before that.\<close>

theorem snake_defined:
  assumes "length ks < 10 ^ 6"
  shows "\<exists>r. cmd_snake wrap32 ks v = Some r"
proof -
  have "score (snake_start v) = 0" by (simp add: snake_start_def)
  then obtain r where "snake_loop wrap32 ks (snake_start v) = Some r"
      "case r of Crawling s \<Rightarrow> True | Game_over s \<Rightarrow> 0 \<le> score s \<and> score s < 10 ^ 7"
    using snake_loop_wraps[of "snake_start v" ks] assms by auto
  then show ?thesis by (auto simp: cmd_snake_def score_fits split: snake_result.splits)
qed

section \<open>Examples\<close>

definition snake_keys :: "int option list" where
  "snake_keys = [None, Some 115, None]"

lemma snake_ex: "\<exists>st. snake_loop ovf snake_keys (snake_start v) = Some (Crawling st)"
  by (simp add: snake_keys_def snake_frame_def snake_draw_def snake_move_def snake_key_def snake_turn_def snake_start_def
      in_field_def score_fits Let_def pr_def)

theorem snake_stays_legal_witness: "\<forall>v. \<exists>st. snake_loop wrap32 snake_keys (snake_start v) = Some (Crawling st) \<and> legal (Crawling st)"
  using snake_stays_legal snake_ex by metis

theorem snake_never_scores_witness:
  "\<forall>v. \<exists>st. snake_loop chk32 snake_keys (snake_start v) = Some (Crawling st) \<and> score st = 0 \<and> length (body st) = 3"
  using snake_never_scores snake_ex by metis

theorem snake_defined_witness: "\<forall>v. \<exists>r. cmd_snake wrap32 snake_keys v = Some r"
  using snake_defined[of snake_keys] by (simp add: snake_keys_def)

end
