(* ===== verification/Pig_Wm.thy ===== *)
theory Pig_Wm
  imports Pig_Poing
begin

text \<open>
  The window manager \<open>wm/wm.h\<close>: eight window slots, focus, closing and minimising, drawing, the
  dock, mouse clicks, the key loop of the desktop, the power menu, the file explorer and the line
  editor of the terminal window. The lines of a window are the list of its first \<open>nlines\<close> rows.
  What the mouse delivers at each \<open>mouse_poll\<close> is taken from the field \<open>mouse_polls\<close>.
\<close>

unbundle bit_operations_syntax

section \<open>Definitions\<close>

abbreviation (input) WM_MAX :: nat where "WM_MAX \<equiv> 8"
abbreviation (input) WIN_LINES :: nat where "WIN_LINES \<equiv> 20"
abbreviation (input) WIN_COLS :: nat where "WIN_COLS \<equiv> 76"

record pigwin =
  alive :: bool
  focused :: bool
  minimized :: bool
  maximized :: bool
  wx :: int
  wy :: int
  ww :: int
  wh :: int
  wox :: int
  woy :: int
  wow :: int
  woh :: int
  title :: string
  wlines :: "string list"
  wscroll :: int

record wm = poing +
  wins :: "pigwin list"
  wfocus :: int
  wcount :: int
  wm_running :: bool
  wm_tick :: u32
  dock_selected :: int
  mouse_wm_mode :: bool
  mouse_polls :: "(u8 \<times> u8) list list"

definition dock :: "(int \<times> string \<times> char \<times> u8) list" where
  "dock = [(3, ''Term'', CHR 0x01, COL C_LGREEN C_LGREEN),
     (12, ''Files'', CHR 0x02, COL C_LBLUE C_LBLUE),
     (21, ''Browser'', CHR 0x03, COL C_LCYAN C_LCYAN),
     (30, ''Settings'', CHR 0x04, COL C_LMAG C_LMAG),
     (39, ''Browser2'', CHR 0x05, COL C_YELLOW C_YELLOW),
     (48, ''Power'', CHR 0x06, COL C_LRED C_LRED)]"

definition wm_mouse :: "'a wm_scheme \<Rightarrow> 'a wm_scheme" where
  "wm_mouse st =
     (case mouse_polls st of [] \<Rightarrow> mouse_poll [] st
      | p # ps \<Rightarrow> mouse_poll p (st\<lparr>mouse_polls := ps\<rparr>))"

subsection \<open>Drawing\<close>

definition wm_wallpaper :: "vga \<Rightarrow> vga" where
  "wm_wallpaper =
     seqs [vfill 0 0 VGA_W VGA_H CHR '' '' (COL C_WHITE C_LGREY),
       fold (\<lambda>y. vfill 0 y VGA_W 1 CHR '' ''
         (if y < 15 then COL C_WHITE C_LGREY else if y < 20 then COL C_DGREY C_LGREY else COL C_DGREY C_LGREY))
         [1 .. VGA_H - 2],
       vstr 32 9 (COL C_LCYAN C_LGREY) ''   ____  _       '',
       vstr 32 10 (COL C_LCYAN C_LGREY) (''|  _ '' @ [CHR 0x5C] @ ''(_) ___   ''),
       vstr 32 11 (COL C_LCYAN C_LGREY) (''| |_) | |/ _ '' @ [CHR 0x5C] @ ''  ''),
       vstr 32 12 (COL C_LCYAN C_LGREY) ''|  __/| | (_) | '',
       vstr 32 13 (COL C_LCYAN C_LGREY) (''|_|   |_|'' @ [CHR 0x5C] @ ''___/  ''),
       vstr 34 15 (COL C_LCYAN C_LGREY) ''pigOS v1.0'',
       vstr 30 17 (COL C_DGREY C_LGREY) ''Powered by larpshell'']"

definition dock_icon :: "bool \<Rightarrow> int \<times> string \<times> char \<times> u8 \<Rightarrow> vga \<Rightarrow> vga" where
  "dock_icon selected = (\<lambda>(dx, label, icon_ch, icon_col).
     let dock_y = VGA_H - 6;
         icon_bg = (if selected then COL C_LCYAN C_LCYAN else COL C_WHITE C_WHITE);
         icon_col = (if selected then COL C_BLACK C_LCYAN else icon_col)
     in seqs [vfill dx (dock_y + 1) 8 4 CHR '' '' (COL C_DGREY C_LGREY),
          vfill (dx + 1) (dock_y + 2) 7 3 CHR '' '' icon_bg,
          vfill (dx + 3) (dock_y + 3) 2 1 CHR '' '' icon_col,
          vat icon_ch icon_col (dx + 3) (dock_y + 2),
          vstr dx (dock_y + 6) (COL C_DGREY C_LGREY) label,
          vstr dx (dock_y + 5) (COL C_BLACK C_LGREY) label])"

definition wm_dock :: "int \<Rightarrow> vga \<Rightarrow> vga" where
  "wm_dock sel =
     (let dock_y = VGA_H - 6 in
      seqs [vfill 0 dock_y VGA_W 6 CHR '' '' (COL C_LGREY C_LGREY),
        vfill 0 dock_y 80 1 CHR '' '' (COL C_WHITE C_WHITE),
        fold (\<lambda>i. dock_icon (sel = int i) (dock ! i)) [0 ..< 6],
        vstr 68 (dock_y + 2) (COL C_WHITE C_LGREY) ''10:00 AM'',
        vstr 68 (dock_y + 4) (COL C_DGREY C_LGREY) ''Jan 1 1970''])"

text \<open>The rectangle a window is drawn in, after the clipping at the start of \<open>wm_draw_win\<close>.\<close>

definition clip_win :: "pigwin \<Rightarrow> int \<times> int \<times> int \<times> int" where
  "clip_win W =
     (let x = (if wx W < 0 then 0 else wx W); y = (if wy W < 1 then 1 else wy W);
          w = (if x + ww W > VGA_W - 1 then VGA_W - 1 - x else ww W);
          h = (if y + wh W > VGA_H - 1 then VGA_H - 1 - y else wh W)
      in (x, y, w, h))"

definition win_buttons :: "bool \<Rightarrow> int \<Rightarrow> int \<Rightarrow> int \<Rightarrow> vga \<Rightarrow> vga" where
  "win_buttons foc x y w =
     (if w > 8 then
        seqs [vat CHR ''X'' (if foc then COL C_LRED C_LRED else COL C_DGREY C_LGREY) (x + w - 4) (y + 1),
              vat CHR ''_'' (if foc then COL C_YELLOW C_YELLOW else COL C_DGREY C_LGREY) (x + w - 6) (y + 1),
              vat CHR ''O'' (if foc then COL C_LGREEN C_LGREEN else COL C_DGREY C_LGREY) (x + w - 8) (y + 1)]
      else id)"

definition win_border :: "bool \<Rightarrow> int \<Rightarrow> int \<Rightarrow> int \<Rightarrow> int \<Rightarrow> vga \<Rightarrow> vga" where
  "win_border foc x y w h =
     (let bc = (if foc then COL C_LGREY C_LGREY else COL C_DGREY C_LGREY) in
      seqs [fold (\<lambda>c. vat CH_H bc c (y + 2)) [x .. x + w - 1],
            vat CH_TL bc x (y + 2), vat CH_TR bc (x + w - 1) (y + 2),
            fold (\<lambda>r. seqs [vat CH_V bc x r, vat CH_V bc (x + w - 1) r]) [y + 3 .. y + h]])"

definition win_frame :: "pigwin \<Rightarrow> int \<Rightarrow> int \<Rightarrow> int \<Rightarrow> int \<Rightarrow> vga \<Rightarrow> vga" where
  "win_frame W x y w h =
     (let foc = focused W; shadow = COL C_BLACK C_LGREY;
          tb = (if foc then COL C_WHITE C_LCYAN else COL C_WHITE C_LGREY);
          tl = min (int (length (title W))) (w - 10)
      in seqs [fold (\<lambda>r. vat CH_BLOCK shadow (x + w) (y + r + 1)) [0 .. h - 1],
          vat CH_BLOCK shadow (x + w) (y + h + 1),
          vfill x y w (h + 1) CHR '' '' (if foc then COL C_WHITE C_WHITE else COL C_DGREY C_LGREY),
          vfill x y w 3 CHR '' '' tb,
          vstr (x + 2) (y + 1) tb (take (nat tl) (title W)),
          win_buttons foc x y w,
          win_border foc x y w h])"

definition win_content :: "pigwin \<Rightarrow> int \<Rightarrow> int \<Rightarrow> int \<Rightarrow> vga \<Rightarrow> vga" where
  "win_content W x y maxr =
     fold (\<lambda>r. let li = r + wscroll W in
       if li < int (length (wlines W)) then vstr (x + 1) (y + 3 + r) (COL C_BLACK C_WHITE) (wlines W ! nat li) else id)
       [0 .. maxr - 1]"

text \<open>The scroll bar divides by the number of lines.\<close>

definition win_scrollbar :: "pigwin \<Rightarrow> int \<Rightarrow> int \<Rightarrow> int \<Rightarrow> int \<Rightarrow> (vga \<Rightarrow> vga) option" where
  "win_scrollbar W x y w maxr =
     (let n = int (length (wlines W)) in
      if n > maxr \<and> w > 3 then
        (if n = 0 then None
         else Some (seqs [fold (\<lambda>r. vat CH_V (COL C_LGREY C_LGREY) (x + w - 1) (y + 3 + r)) [0 .. maxr - 1],
                vat CH_BLOCK (COL C_BLUE C_LGREY) (x + w - 1) (y + 3 + c_div (wscroll W * maxr) n)]))
      else Some id)"

definition draw_win :: "pigwin \<Rightarrow> (vga \<Rightarrow> vga) option" where
  "draw_win W = (let (x, y, w, h) = clip_win W; maxr = min (h - 4) (int WIN_LINES) in
     map_option (\<lambda>sb. seqs [win_frame W x y w h, win_content W x y maxr, sb]) (win_scrollbar W x y w maxr))"

definition wm_draw_win :: "int \<Rightarrow> 'a wm_scheme \<Rightarrow> 'a wm_scheme option" where
  "wm_draw_win i st =
     (if i < 0 \<or> i \<ge> int WM_MAX \<or> \<not> alive (wins st ! nat i) \<or> minimized (wins st ! nat i) then Some st
      else map_option (\<lambda>f. pr f st) (draw_win (wins st ! nat i)))"

definition wm_render :: "'a wm_scheme \<Rightarrow> 'a wm_scheme option" where
  "wm_render st = do {
     let st = pr wm_wallpaper (mouse_erase st);
     st \<leftarrow> ofold (\<lambda>i st. let W = wins st ! i in
       if alive W \<and> \<not> focused W \<and> \<not> minimized W then wm_draw_win (int i) st else Some st) [0 ..< WM_MAX] st;
     st \<leftarrow> (if wfocus st \<ge> 0 \<and> alive (wins st ! nat (wfocus st)) then wm_draw_win (wfocus st) st else Some st);
     let st = wm_mouse (pr (wm_dock (dock_selected st)) st);
     let st = (if mouse_enabled st then mouse_draw_cursor st else st);
     Some (st\<lparr>wm_tick := wm_tick st + 1\<rparr>) }"


subsection \<open>Windows\<close>

definition upd_win :: "nat \<Rightarrow> (pigwin \<Rightarrow> pigwin) \<Rightarrow> 'a wm_scheme \<Rightarrow> 'a wm_scheme" where
  "upd_win i f st = st\<lparr>wins := (wins st)[i := f (wins st ! i)]\<rparr>"

definition wm_find_win :: "'a wm_scheme \<Rightarrow> nat option" where
  "wm_find_win st = find_idx (\<lambda>W. \<not> alive W) (wins st)"

definition wm_new :: "int \<Rightarrow> int \<Rightarrow> int \<Rightarrow> int \<Rightarrow> string \<Rightarrow> 'a wm_scheme \<Rightarrow> int \<times> 'a wm_scheme" where
  "wm_new x y w h t st =
     (case find_idx (\<lambda>W. \<not> alive W) (wins st) of
        None \<Rightarrow> (-1, st)
      | Some i \<Rightarrow>
          (let st = upd_win i (\<lambda>W. W\<lparr>alive := True, focused := False, minimized := False, maximized := False,
                      wx := x, wy := y, ww := w, wh := h, wox := x, woy := y, wow := w, woh := h,
                      wlines := [], wscroll := 0, title := take 47 t\<rparr>) st;
               st = st\<lparr>wcount := wcount st + 1\<rparr>
           in (int i, if wfocus st < 0 then upd_win i (\<lambda>W. W\<lparr>focused := True\<rparr>) (st\<lparr>wfocus := int i\<rparr>) else st)))"

definition wm_create_win :: "string \<Rightarrow> int \<Rightarrow> int \<Rightarrow> int \<Rightarrow> int \<Rightarrow> 'a wm_scheme \<Rightarrow> 'a wm_scheme" where
  "wm_create_win t x y w h st = snd (wm_new x y w h t st)"

definition slot :: "int \<Rightarrow> bool" where
  "slot i \<longleftrightarrow> 0 \<le> i \<and> i < int WM_MAX"

definition live :: "int \<Rightarrow> 'a wm_scheme \<Rightarrow> bool" where
  "live i st \<longleftrightarrow> slot i \<and> alive (wins st ! nat i)"

definition wm_write :: "int \<Rightarrow> string \<Rightarrow> 'a wm_scheme \<Rightarrow> 'a wm_scheme" where
  "wm_write i s st =
     (if \<not> live i st then st
      else if length (wlines (wins st ! nat i)) < WIN_LINES
      then upd_win (nat i) (\<lambda>W. W\<lparr>wlines := wlines W @ [take (WIN_COLS - 1) s]\<rparr>) st else st)"

definition wm_writeln :: "int \<Rightarrow> string \<Rightarrow> 'a wm_scheme \<Rightarrow> 'a wm_scheme" where
  "wm_writeln i s st =
     (let st = wm_write i s st in if live i st then upd_win (nat i) (\<lambda>W. W\<lparr>wscroll := 0\<rparr>) st else st)"

definition wm_focus :: "int \<Rightarrow> 'a wm_scheme \<Rightarrow> 'a wm_scheme" where
  "wm_focus i st =
     (let st = (if slot (wfocus st) then upd_win (nat (wfocus st)) (\<lambda>W. W\<lparr>focused := False\<rparr>) st else st);
          st = st\<lparr>wfocus := i\<rparr>
      in if slot i then upd_win (nat i) (\<lambda>W. W\<lparr>focused := True\<rparr>) st else st)"

text \<open>\<open>wfocus=-1; for(j..) if(P(wins[j])){ wm_focus(j); break; }\<close>\<close>

definition refocus :: "(pigwin \<Rightarrow> bool) \<Rightarrow> 'a wm_scheme \<Rightarrow> 'a wm_scheme" where
  "refocus P st =
     (let st = st\<lparr>wfocus := - 1\<rparr> in
      case find_idx P (wins st) of None \<Rightarrow> st | Some j \<Rightarrow> wm_focus (int j) st)"

definition wm_close :: "int \<Rightarrow> 'a wm_scheme \<Rightarrow> 'a wm_scheme" where
  "wm_close i st =
     (if live i st then
        (let st = upd_win (nat i) (\<lambda>W. W\<lparr>alive := False\<rparr>) st
         in if wfocus st = i then refocus alive st else st)
      else st)"

definition wm_minimize :: "int \<Rightarrow> 'a wm_scheme \<Rightarrow> 'a wm_scheme" where
  "wm_minimize i st =
     (if live i st then
        (let st = upd_win (nat i) (\<lambda>W. W\<lparr>minimized := True\<rparr>) st
         in if wfocus st = i then refocus (\<lambda>W. alive W \<and> \<not> minimized W) st else st)
      else st)"

subsection \<open>Events of the desktop\<close>

definition wm_init :: "'a wm_scheme \<Rightarrow> 'a wm_scheme" where
  "wm_init st =
     (let st = st\<lparr>wins := map (\<lambda>W. W\<lparr>alive := False\<rparr>) (wins st)\<rparr>;
          st = st\<lparr>wfocus := - 1, wcount := 0, wm_running := True\<rparr>
      in (mouse_init st)\<lparr>mouse_wm_mode := True\<rparr>)"

definition welcome_lines :: "string list" where
  "welcome_lines = [''  Welcome to pigOS!'', ''  ================='', '''', ''  F2 = Terminal'',
     ''  F3 = File Manager'', ''  F5 = Power Menu'', ''  ESC = Exit WM'', '''', ''  Click buttons to'',
     ''  minimize/close'']"

definition wm_desktop_start :: "'a wm_scheme \<Rightarrow> 'a wm_scheme option" where
  "wm_desktop_start st =
     (let st = wm_init (pr (seqs [vclear, vga_disable_cursor]) st);
          (wa, st) = wm_new 25 2 30 12 '' Welcome '' st;
          st = fold (wm_write wa) welcome_lines st
      in wm_render st)"

definition wm_tab :: "'a wm_scheme \<Rightarrow> 'a wm_scheme" where
  "wm_tab st =
     (let idxs = map (\<lambda>i. nat ((wfocus st + int i) mod int WM_MAX)) [1 ..< Suc WM_MAX];
          nf = (case find (\<lambda>j. alive (wins st ! j) \<and> \<not> minimized (wins st ! j)) idxs of
                  None \<Rightarrow> wfocus st | Some j \<Rightarrow> int j)
      in wm_focus nf st)"

text \<open>What the body of the click loop does for a window under the pointer, in the order of its tests.\<close>

datatype win_hit = Hit_close | Hit_minimize | Hit_focus

definition hit_win :: "int \<Rightarrow> int \<Rightarrow> pigwin \<Rightarrow> win_hit option" where
  "hit_win mx my W =
     (if \<not> alive W \<or> minimized W then None
      else if my = wy W + 1 \<and> mx = wx W + ww W - 4 then Some Hit_close
      else if my = wy W + 1 \<and> mx = wx W + ww W - 6 then Some Hit_minimize
      else if my = wy W + 1 \<and> mx \<ge> wx W \<and> mx < wx W + ww W - 8 then Some Hit_focus
      else if mx \<ge> wx W \<and> mx < wx W + ww W \<and> my \<ge> wy W \<and> my \<le> wy W + wh W then Some Hit_focus
      else None)"

definition click_windows :: "'a wm_scheme \<Rightarrow> 'a wm_scheme option" where
  "click_windows st =
     (let h = hit_win (mouse_x st) (mouse_y st) in
      case find_idx (\<lambda>W. h W \<noteq> None) (wins st) of
        None \<Rightarrow> None
      | Some i \<Rightarrow> Some (case the (h (wins st ! i)) of
            Hit_close \<Rightarrow> wm_close (int i) st
          | Hit_minimize \<Rightarrow> wm_minimize (int i) st
          | Hit_focus \<Rightarrow> wm_focus (int i) st))"

definition click_dock :: "'a wm_scheme \<Rightarrow> 'a wm_scheme option" where
  "click_dock st =
     (if mouse_y st \<ge> VGA_H - 6 then
        map_option (\<lambda>i. st\<lparr>dock_selected := int i\<rparr>)
          (find_idx (\<lambda>(dx, _). mouse_x st \<ge> dx \<and> mouse_x st \<le> dx + 7) dock)
      else None)"

definition wm_click :: "'a wm_scheme \<Rightarrow> 'a wm_scheme option" where
  "wm_click st = do {
     st \<leftarrow> (if mouse_btn_l st \<and> \<not> mouse_btn_l_prev st then
              (case click_dock st of Some st \<Rightarrow> wm_render st
               | None \<Rightarrow> (case click_windows st of Some st \<Rightarrow> wm_render st | None \<Rightarrow> Some st))
            else Some st);
     Some (st\<lparr>mouse_btn_l_prev := mouse_btn_l st\<rparr>) }"

definition power_menu_box :: "vga \<Rightarrow> vga" where
  "power_menu_box =
     (let px = 25; py = 8; pw = 30; ph = 8; tb = COL C_WHITE C_LCYAN; oc = COL C_BLACK C_WHITE in
      seqs [vfill (px - 1) (py - 1) (pw + 2) (ph + 2) CHR '' '' (COL C_DGREY C_DGREY),
        vfill px py pw ph CHR '' '' (COL C_WHITE C_BLACK), vfill px py pw 2 CHR '' '' tb,
        vstr (px + 1) py tb '' Power Options'',
        vstr (px + 2) (py + 3) oc ''[1] Sleep'', vstr (px + 2) (py + 4) oc ''[2] Restart'',
        vstr (px + 2) (py + 5) oc ''[3] Shutdown'', vstr (px + 2) (py + 6) oc ''[ESC] Cancel''])"

definition wm_power_menu :: "'a wm_scheme \<Rightarrow> 'a wm_scheme ctl" where
  "wm_power_menu st =
     (case next_key (pr power_menu_box st) of
        None \<Rightarrow> Waiting
      | Some (c, st) \<Rightarrow>
          if c = 51 then Stopped (pr (seqs [vclear, vset C_LRED C_BLACK, vpln ''Shutting down...'', outb 0xF4 0x00]) st)
          else if c = 50 then Returned (pr (seqs [vclear, outb 0x64 0xFE]) st)
          else Returned st)"

definition robin_screen :: "vga \<Rightarrow> vga" where
  "robin_screen =
     (let tb = COL C_WHITE C_LCYAN; sb = COL C_WHITE C_LGREY in
      seqs [vclear, vfill 0 0 VGA_W 1 CHR '' '' tb, vstr 1 0 tb '' Files - pigOS File Manager '',
        vstr 60 0 (COL C_WHITE C_LGREY) ''ESC=close'', vfill 0 1 VGA_W (VGA_H - 2) CHR '' '' sb,
        vstr 2 3 (COL C_LCYAN C_LGREY) ''/ pigfs virtual filesystem'',
        fold (\<lambda>i. if 5 + i < VGA_H - 4 then vstr 2 (5 + i) (COL C_YELLOW C_LGREY) ''  [dir]  virtual_entry'' else id) [0 .. 9],
        vstr 2 (VGA_H - 3) (COL C_DGREY C_LGREY) (''Use '' @ sq @ ''ls'' @ sq @ '' command for full listing'')])"

text \<open>The loop that waits for the escape key: the keys before it are read and dropped.\<close>

fun wait_esc :: "int list \<Rightarrow> int list option" where
  "wait_esc [] = None"
| "wait_esc (c # cs) = (if c = 27 then Some cs else wait_esc cs)"

definition wm_robin :: "'a wm_scheme \<Rightarrow> 'a wm_scheme ctl" where
  "wm_robin st =
     (let st = pr robin_screen st in
      case wait_esc (keys st) of None \<Rightarrow> Waiting | Some cs \<Rightarrow> Returned (pr vclear (st\<lparr>keys := cs\<rparr>)))"


subsection \<open>The terminal window\<close>

text \<open>The calls \<open>vat(ch,x,y,col)\<close> of \<open>wm_terminal\<close> pass their arguments in another order than
  \<open>vat(c,col,x,y)\<close> takes them.\<close>

definition vat_swapped :: "char \<Rightarrow> int \<Rightarrow> int \<Rightarrow> u8 \<Rightarrow> vga \<Rightarrow> vga" where
  "vat_swapped ch x y col = vat ch (word_of_int x) y (uint col)"

definition term_border :: "int \<Rightarrow> int \<Rightarrow> int \<Rightarrow> int \<Rightarrow> vga \<Rightarrow> vga" where
  "term_border tx ty tw th =
     (let col = COL C_LCYAN C_BLACK in
      seqs [fold (\<lambda>i. seqs [vat_swapped CHR 0xCD i ty col, vat_swapped CHR 0xCD i (ty + th - 1) col]) [tx .. tx + tw - 1],
        fold (\<lambda>i. seqs [vat_swapped CHR 0xBA tx i col, vat_swapped CHR 0xBA (tx + tw - 1) i col]) [ty .. ty + th - 1],
        vat_swapped CHR 0xC9 tx ty col, vat_swapped CHR 0xBB (tx + tw - 1) ty col,
        vat_swapped CHR 0xC8 tx (ty + th - 1) col, vat_swapped CHR 0xBC (tx + tw - 1) (ty + th - 1) col])"

definition term_frame :: "vga \<Rightarrow> vga" where
  "term_frame =
     (let tx = 3; ty = 3; tw = 74; th = 17 in
      seqs [vfill tx ty tw th CHR '' '' (COL C_WHITE C_BLACK), term_border tx ty tw th,
        vfill (tx + 1) ty (tw - 2) 1 CHR '' '' (COL C_BLACK C_LCYAN),
        vstr (tx + 2) ty (COL C_BLACK C_LCYAN) '' larpshell '',
        vstr (tx + tw - 8) ty (COL C_WHITE C_LRED) '' [X]''])"

definition rub_out :: "nat \<Rightarrow> vga \<Rightarrow> vga" where
  "rub_out n = seqs (replicate n (seqs [vpc CHR 0x08, vpc CHR '' '', vpc CHR 0x08]))"

datatype term_ans = T_more | T_line string | T_exit | T_wait

text \<open>One key of the line editor: the answer, the line typed so far, the position in the history and
  the console. The recalled line is copied into the 128 bytes of \<open>input\<close>.\<close>

definition recall :: "string list \<Rightarrow> int \<Rightarrow> string \<Rightarrow> vga \<Rightarrow> (term_ans \<times> string \<times> int \<times> vga) option" where
  "recall hist hi inp v = do {
     line \<leftarrow> fits 128 (hist ! nat (int (length hist) - 1 - hi));
     Some (T_more, line, hi, seqs [rub_out (length inp), fold vpc line] v) }"

definition term_key ::
    "string list \<Rightarrow> int \<Rightarrow> string \<Rightarrow> int \<Rightarrow> vga \<Rightarrow> (term_ans \<times> string \<times> int \<times> vga) option" where
  "term_key hist c inp hi v =
     (if c = 10 \<or> c = 13 then Some (T_line inp, inp, hi, vpc CHR 0x0A v)
      else if c = 3 then Some (T_line [], [], - 1, vpc CHR 0x0A (vps ''^C'' v))
      else if c = 8 \<or> c = 127 then
        (if inp \<noteq> [] then Some (T_more, butlast inp, hi, rub_out 1 v) else Some (T_more, inp, hi, v))
      else if c = KEY_UP then
        (if hist \<noteq> [] \<and> hi < int (length hist) - 1 then recall hist (hi + 1) inp v else Some (T_more, inp, hi, v))
      else if c = KEY_DOWN then
        (if hi > 0 then recall hist (hi - 1) inp v
         else if hi = 0 then Some (T_more, [], - 1, rub_out (length inp) v)
         else Some (T_more, inp, hi, v))
      else if c = 27 then Some (T_exit, inp, hi, vga_disable_cursor v)
      else if c \<ge> 32 \<and> c < 127 \<and> length inp < 127
        then Some (T_more, inp @ [char_of (nat c)], hi, vpc (char_of (nat c)) v)
      else Some (T_more, inp, hi, v))"

fun edit_line :: "string list \<Rightarrow> int list \<Rightarrow> string \<Rightarrow> int \<Rightarrow> vga \<Rightarrow> (term_ans \<times> int list \<times> vga) option" where
  "edit_line hist [] inp hi v = Some (T_wait, [], v)"
| "edit_line hist (c # cs) inp hi v =
     Option.bind (term_key hist c inp hi v) (\<lambda>(a, inp, hi, v).
       if a = T_more then edit_line hist cs inp hi v else Some (a, cs, v))"

text \<open>The loop over command lines. The shell is not known here: \<open>hist\<close> reads its history and \<open>run\<close>
  stores a line in the history and executes it. The first argument bounds the number of lines.\<close>

fun term_loop ::
    "('a wm_scheme \<Rightarrow> string list) \<Rightarrow> (string \<Rightarrow> 'a wm_scheme \<Rightarrow> 'a wm_scheme option) \<Rightarrow>
     nat \<Rightarrow> int \<Rightarrow> 'a wm_scheme \<Rightarrow> 'a wm_scheme ctl option"
where
  "term_loop hist run 0 cur_y st = Some Waiting"
| "term_loop hist run (Suc n) cur_y st = do {
     let st = pr (seqs [vset C_LGREEN C_BLACK, vstr 5 cur_y (COL C_LGREEN C_BLACK) ''> '']) st;
     (a, cs, v) \<leftarrow> edit_line (hist st) (keys st) [] (- 1) (con st);
     let st = st\<lparr>keys := cs, con := v\<rparr>;
     case a of
       T_exit \<Rightarrow> map_option Returned (wm_render st)
     | T_line (c # s) \<Rightarrow> do {
         st \<leftarrow> run (c # s) st;
         let cur_y = cur_y + 1;
         if cur_y \<ge> 18
         then term_loop hist run n 5
                (pr (seqs [fold (\<lambda>y. fold (\<lambda>x. vat CHR '' '' (COL C_WHITE C_BLACK) x y) [5 .. 74]) [5 .. 18],
                           term_frame]) st)
         else term_loop hist run n cur_y st }
     | T_line [] \<Rightarrow> term_loop hist run n cur_y st
     | _ \<Rightarrow> Some Waiting }"

definition wm_terminal ::
    "('a wm_scheme \<Rightarrow> string list) \<Rightarrow> (string \<Rightarrow> 'a wm_scheme \<Rightarrow> 'a wm_scheme option) \<Rightarrow>
     nat \<Rightarrow> 'a wm_scheme \<Rightarrow> 'a wm_scheme ctl option"
where
  "wm_terminal hist run n st =
     term_loop hist run n 7
       (pr (seqs [term_frame, vset C_LGREEN C_BLACK,
                  vstr 5 5 (COL C_LGREEN C_BLACK) ''> larpshell v5.9.3 ready'']) st)"

subsection \<open>The loop of the desktop\<close>

text \<open>A key: \<open>Returned\<close> goes on, the second component tells that the escape key left the desktop.\<close>

definition redraw :: "'a wm_scheme ctl \<Rightarrow> ('a wm_scheme ctl \<times> bool) option" where
  "redraw r = (case r of Returned st \<Rightarrow> map_option (\<lambda>st. (Returned st, False)) (wm_render st) | _ \<Rightarrow> Some (r, False))"

definition wm_key ::
    "('a wm_scheme \<Rightarrow> 'a wm_scheme ctl option) \<Rightarrow> int \<Rightarrow> 'a wm_scheme \<Rightarrow> ('a wm_scheme ctl \<times> bool) option" where
  "wm_key terminal c st =
     (if c = KEY_F5 then redraw (wm_power_menu st)
      else if c = KEY_F3 then redraw (wm_robin st)
      else if c = KEY_F2 then Option.bind (terminal st) redraw
      else if c = KEY_F7 then redraw (Returned (wm_close (wfocus st) st))
      else if c = 27 then Some (Returned (pr (seqs [vga_enable_cursor 13 15, vclear]) st), True)
      else if c = 9 then redraw (Returned (wm_tab st))
      else Some (Returned st, False))"

fun wm_keys ::
    "('a wm_scheme \<Rightarrow> 'a wm_scheme ctl option) \<Rightarrow> nat \<Rightarrow> 'a wm_scheme \<Rightarrow> ('a wm_scheme ctl \<times> bool) option" where
  "wm_keys terminal 0 st = Some (Returned st, False)"
| "wm_keys terminal (Suc n) st =
     (case next_key st of
        None \<Rightarrow> Some (Returned st, False)
      | Some (c, st) \<Rightarrow> Option.bind (wm_key terminal c st) (\<lambda>(r, left).
          case r of Returned st \<Rightarrow> if left then Some (r, True) else wm_keys terminal n st | _ \<Rightarrow> Some (r, left)))"

text \<open>An iteration of \<open>while(1)\<close> in \<open>wm_desktop\<close>: the mouse, all keys that are waiting, a click.\<close>

definition wm_iter ::
    "('a wm_scheme \<Rightarrow> 'a wm_scheme ctl option) \<Rightarrow> 'a wm_scheme \<Rightarrow> ('a wm_scheme ctl \<times> bool) option" where
  "wm_iter terminal st = do {
     let st = wm_mouse st;
     (r, left) \<leftarrow> wm_keys terminal (length (keys st)) st;
     case r of Returned st \<Rightarrow> if left then Some (r, True) else map_option (\<lambda>st. (Returned st, False)) (wm_click st)
     | _ \<Rightarrow> Some (r, left) }"


section \<open>Drawing inside a region\<close>

text \<open>An operation that stores only into the cells of a region of the screen.\<close>

definition draws_in :: "(int \<Rightarrow> int \<Rightarrow> bool) \<Rightarrow> (vga \<Rightarrow> vga) \<Rightarrow> bool" where
  "draws_in R f \<longleftrightarrow> draws f \<and>
     (\<forall>st x y. on_screen x y \<longrightarrow> \<not> R x y \<longrightarrow> VGA_MEM (f st) (cell x y) = VGA_MEM st (cell x y))"

named_theorems region_intros

lemma cell_inj:
  assumes "on_screen x y" "on_screen x' y'" "cell x y = cell x' y'"
  shows "x = x' \<and> y = y'"
proof -
  have e: "y * 80 + x = y' * 80 + x'"
    using assms by (auto simp: on_screen_def cell_def)
  have "y = (y * 80 + x) div 80" "y' = (y' * 80 + x') div 80"
    using assms(1,2) by (auto simp: on_screen_def)
  then show ?thesis using e by simp
qed

lemma draws_in_id [region_intros]: "draws_in R id"
  by (simp add: draws_in_def draws_id)

lemma draws_in_comp: "draws_in R f \<Longrightarrow> draws_in R g \<Longrightarrow> draws_in R (\<lambda>st. g (f st))"
  by (auto simp: draws_in_def intro: draws_comp)

lemma draws_in_seqs [region_intros]:
  "draws_in R (seqs [])" "draws_in R f \<Longrightarrow> draws_in R (seqs fs) \<Longrightarrow> draws_in R (seqs (f # fs))"
proof -
  show "draws_in R (seqs [])" by (simp add: draws_in_def draws_seqs)
  have *: "seqs (f # fs) = (\<lambda>st. seqs fs (f st))" by (simp add: fun_eq_iff)
  show "draws_in R f \<Longrightarrow> draws_in R (seqs fs) \<Longrightarrow> draws_in R (seqs (f # fs))"
    unfolding * by (rule draws_in_comp)
qed

lemma draws_in_fold [region_intros]: "(\<And>x. x \<in> set xs \<Longrightarrow> draws_in R (f x)) \<Longrightarrow> draws_in R (fold f xs)"
proof (induction xs)
  case (Cons x xs)
  have *: "fold f (x # xs) = (\<lambda>st. fold f xs (f x st))" by (simp add: fun_eq_iff)
  show ?case unfolding * by (rule draws_in_comp) (use Cons in auto)
next
  case Nil
  have "fold f [] = id" by (simp add: fun_eq_iff)
  then show ?case by (simp only: draws_in_id)
qed

lemma draws_in_if [region_intros]:
  "(b \<Longrightarrow> draws_in R f) \<Longrightarrow> (\<not> b \<Longrightarrow> draws_in R g) \<Longrightarrow> draws_in R (if b then f else g)"
  by simp

lemma draws_in_vat [region_intros]: "R x y \<Longrightarrow> draws_in R (vat c col x y)"
  by (auto simp: draws_in_def draws_vat vat_def dest: cell_inj)

lemma draws_in_vfill [region_intros]:
  "(\<And>c r. 0 \<le> c \<Longrightarrow> c < w \<Longrightarrow> 0 \<le> r \<Longrightarrow> r < h \<Longrightarrow> R (x + c) (y + r)) \<Longrightarrow> draws_in R (vfill x y w h ch col)"
  unfolding vfill_def by (intro region_intros) auto

lemma draws_in_vstr [region_intros]:
  "(\<And>i. 0 \<le> i \<Longrightarrow> i < int (length s) \<Longrightarrow> R (x + i) y) \<Longrightarrow> draws_in R (vstr x y col s)"
proof (induction s arbitrary: x)
  case Nil
  have "vstr x y col [] = id" by (simp add: fun_eq_iff)
  then show ?case by (simp only: draws_in_id)
next
  case (Cons c s)
  have *: "vstr x y col (c # s) = seqs [vat c col x y, vstr (x + 1) y col s]"
    by (simp add: fun_eq_iff)
  have "R x y" using Cons.prems[of 0] by simp
  moreover have "R (x + 1 + i) y" if "0 \<le> i" "i < int (length s)" for i
    using Cons.prems[of "i + 1"] that by (simp add: algebra_simps)
  ultimately show ?case unfolding * using Cons.IH[of "x + 1"] by (intro region_intros) auto
qed

text \<open>The rectangle of a window with its shadow: one column to the right and one row below.\<close>

definition in_win :: "int \<Rightarrow> int \<Rightarrow> int \<Rightarrow> int \<Rightarrow> int \<Rightarrow> int \<Rightarrow> bool" where
  "in_win x y w h c r \<longleftrightarrow> x \<le> c \<and> c \<le> x + w \<and> y \<le> r \<and> r \<le> y + h + 1"

lemma win_frame_in:
  assumes "0 < w" "1 \<le> h"
  shows "draws_in (in_win x y w h) (win_frame W x y w h)"
  unfolding win_frame_def win_buttons_def win_border_def Let_def
  by (intro region_intros) (use assms in \<open>auto simp: in_win_def split: if_splits\<close>)

text \<open>Text wider than the window is not cut: the region needs the lines to be short enough.\<close>

lemma win_content_in:
  assumes "\<forall>l \<in> set (wlines W). int (length l) \<le> w" "0 \<le> wscroll W" "maxr \<le> h - 4"
  shows "draws_in (in_win x y w h) (win_content W x y maxr)"
  unfolding win_content_def Let_def
proof (intro region_intros)
  fix r i
  assume r: "r \<in> set [0..maxr - 1]" "r + wscroll W < int (length (wlines W))" "0 \<le> i"
    "i < int (length (wlines W ! nat (r + wscroll W)))"
  then have "wlines W ! nat (r + wscroll W) \<in> set (wlines W)" using assms(2) by (intro nth_mem) auto
  then have "i < w" using r(4) assms(1) by force
  then show "in_win x y w h (x + 1 + i) (y + 3 + r)" using r assms(3) by (auto simp: in_win_def)
qed

lemma win_scrollbar_in:
  assumes "win_scrollbar W x y w maxr = Some f" "0 \<le> wscroll W" "wscroll W \<le> int (length (wlines W))" "0 \<le> maxr" "maxr \<le> h - 4"
  shows "draws_in (in_win x y w h) f"
proof (cases "int (length (wlines W)) > maxr \<and> w > 3")
  case True
  let ?n = "int (length (wlines W))"
  have n: "0 < ?n" using True assms(4) by linarith
  have "c_div (wscroll W * maxr) ?n = wscroll W * maxr div ?n" using n assms(2,4) by (intro c_div_nonneg) auto
  moreover have "0 \<le> wscroll W * maxr div ?n" using n assms(2,4) by (simp add: pos_imp_zdiv_nonneg_iff)
  moreover have "wscroll W * maxr div ?n \<le> ?n * maxr div ?n"
    using n assms(3,4) by (intro zdiv_mono1 mult_right_mono) auto
  ultimately have d: "0 \<le> c_div (wscroll W * maxr) ?n" "c_div (wscroll W * maxr) ?n \<le> maxr" using n by auto
  have f: "f = seqs [fold (\<lambda>r. vat CH_V (COL C_LGREY C_LGREY) (x + w - 1) (y + 3 + r)) [0 .. maxr - 1],
      vat CH_BLOCK (COL C_BLUE C_LGREY) (x + w - 1) (y + 3 + c_div (wscroll W * maxr) ?n)]"
    using assms(1) True n by (simp add: win_scrollbar_def Let_def)
  show ?thesis
    unfolding f by (intro region_intros) (use True assms(5) d in \<open>auto simp: in_win_def\<close>)
next
  case False
  then have "f = id" using assms(1) by (auto simp: win_scrollbar_def Let_def)
  then show ?thesis by (simp add: draws_in_id)
qed


section \<open>The window table\<close>

text \<open>A window the drawing code can handle: its lines fit, the division of the scroll bar is
  defined, and after clipping it has room for the title bar.\<close>

definition win_ok :: "pigwin \<Rightarrow> bool" where
  "win_ok W \<longleftrightarrow> length (title W) < 48 \<and> length (wlines W) \<le> WIN_LINES \<and>
     (\<forall>l \<in> set (wlines W). length l < WIN_COLS) \<and> wscroll W = 0"

definition wm_ok :: "'a wm_scheme \<Rightarrow> bool" where
  "wm_ok st \<longleftrightarrow> length (wins st) = WM_MAX \<and> (wfocus st = -1 \<or> live (wfocus st) st \<and> focused (wins st ! nat (wfocus st))) \<and>
     (\<forall>i < WM_MAX. alive (wins st ! i) \<longrightarrow> win_ok (wins st ! i) \<and>
        (focused (wins st ! i) \<and> \<not> minimized (wins st ! i) \<longrightarrow> wfocus st = int i))"

lemma wm_okD:
  assumes "wm_ok st"
  shows "length (wins st) = WM_MAX" "wfocus st = -1 \<or> live (wfocus st) st \<and> focused (wins st ! nat (wfocus st))"
    "\<And>i. i < WM_MAX \<Longrightarrow> alive (wins st ! i) \<Longrightarrow> win_ok (wins st ! i)"
    "\<And>i. i < WM_MAX \<Longrightarrow> alive (wins st ! i) \<Longrightarrow> focused (wins st ! i) \<Longrightarrow> minimized (wins st ! i) \<or> wfocus st = int i"
  using assms unfolding wm_ok_def by blast+

lemma wm_okI:
  assumes "length (wins st) = WM_MAX" "wfocus st = -1 \<or> live (wfocus st) st \<and> focused (wins st ! nat (wfocus st))"
    and "\<And>i. i < WM_MAX \<Longrightarrow> alive (wins st ! i) \<Longrightarrow> win_ok (wins st ! i)"
    and "\<And>i. i < WM_MAX \<Longrightarrow> alive (wins st ! i) \<Longrightarrow> focused (wins st ! i) \<Longrightarrow> minimized (wins st ! i) \<or> wfocus st = int i"
  shows "wm_ok st"
  using assms unfolding wm_ok_def by blast

text \<open>Operations that change neither the windows nor the focus.\<close>

definition same_wins :: "'a wm_scheme \<Rightarrow> 'a wm_scheme \<Rightarrow> bool" where
  "same_wins st st' \<longleftrightarrow> wins st' = wins st \<and> wfocus st' = wfocus st"

lemma wm_ok_same: "same_wins st st' \<Longrightarrow> wm_ok st' = wm_ok st"
  by (simp add: same_wins_def wm_ok_def live_def)

lemma same_wins_more: "kbd.more st' = kbd.more st \<Longrightarrow> same_wins st st'"
  by (cases st; cases st') (simp add: same_wins_def)

lemma same_wins_trans: "same_wins a b \<Longrightarrow> same_wins b c \<Longrightarrow> same_wins a c"
  by (simp add: same_wins_def)

lemma same_wins_pr [simp]: "same_wins st (pr f st)"
  by (simp add: same_wins_def pr_def)

lemma upd_win_sel [simp]:
  "wins (upd_win i f st) = (wins st)[i := f (wins st ! i)]" "wfocus (upd_win i f st) = wfocus st"
  "wcount (upd_win i f st) = wcount st"
  by (simp_all add: upd_win_def)

text \<open>The first half of \<open>wm_focus\<close>: no visible window is left focused.\<close>

definition unfocused :: "pigwin list \<Rightarrow> bool" where
  "unfocused ws \<longleftrightarrow> length ws = WM_MAX \<and>
     (\<forall>i < WM_MAX. alive (ws ! i) \<longrightarrow> win_ok (ws ! i) \<and> \<not> (focused (ws ! i) \<and> \<not> minimized (ws ! i)))"

lemma unfocusedD:
  assumes "unfocused ws"
  shows "length ws = WM_MAX" "\<And>i. i < WM_MAX \<Longrightarrow> alive (ws ! i) \<Longrightarrow> win_ok (ws ! i)"
    "\<And>i. i < WM_MAX \<Longrightarrow> alive (ws ! i) \<Longrightarrow> focused (ws ! i) \<Longrightarrow> minimized (ws ! i)"
  using assms unfolding unfocused_def by blast+

lemma win_ok_focused [simp]: "win_ok (W\<lparr>focused := b\<rparr>) = win_ok W" "win_ok (W\<lparr>minimized := b\<rparr>) = win_ok W"
  by (simp_all add: win_ok_def)

lemma unfocus_ok:
  assumes "wm_ok st" "slot (wfocus st)"
  shows "unfocused ((wins st)[nat (wfocus st) := (wins st ! nat (wfocus st))\<lparr>focused := False\<rparr>])"
    (is "unfocused ?ws")
proof -
  note d = wm_okD[OF assms(1)]
  let ?k = "nat (wfocus st)"
  have k: "?k < 8" "wfocus st = int ?k" using assms(2) by (auto simp: slot_def)
  have "win_ok (?ws ! i) \<and> \<not> (focused (?ws ! i) \<and> \<not> minimized (?ws ! i))" if i: "i < 8" "alive (?ws ! i)" for i
  proof (cases "i = ?k")
    case True
    have "alive (wins st ! ?k)" using i(2) d(1) k(1) unfolding True by simp
    then show ?thesis using d(1) d(3)[OF k(1)] k(1) unfolding True by simp
  next
    case False
    then have w: "?ws ! i = wins st ! i" by simp
    then show ?thesis using False d(3,4)[OF i(1)] i(2) k(2) by (metis nat_int)
  qed
  then show ?thesis using d(1) by (simp add: unfocused_def)
qed

lemma unfocused_none:
  assumes "wm_ok st" "\<not> slot (wfocus st)"
  shows "unfocused (wins st)"
proof -
  note d = wm_okD[OF assms(1)]
  have "wfocus st = -1" using d(2) assms(2) by (auto simp: live_def)
  then show ?thesis using d(1,3,4) unfolding unfocused_def by force
qed

lemma focus_one:
  assumes "unfocused ws" "i < WM_MAX" "alive (ws ! i)" "wins st = ws[i := (ws ! i)\<lparr>focused := True\<rparr>]" "wfocus st = int i"
  shows "wm_ok st"
proof -
  note d = unfocusedD[OF assms(1)]
  have n: "wins st ! j = (if j = i then (ws ! i)\<lparr>focused := True\<rparr> else ws ! j)" for j
    using assms(2,4) d(1) by simp
  show ?thesis
  proof (rule wm_okI)
    show "length (wins st) = 8" using assms(4) d(1) by simp
    show "wfocus st = - 1 \<or> live (wfocus st) st \<and> focused (wins st ! nat (wfocus st))"
      using assms(2,3,5) by (simp add: live_def slot_def n)
    show "win_ok (wins st ! j)" if "j < 8" "alive (wins st ! j)" for j
      using that d(2)[OF that(1)] by (auto simp: n split: if_splits)
    show "minimized (wins st ! j) \<or> wfocus st = int j" if "j < 8" "alive (wins st ! j)" "focused (wins st ! j)" for j
      using that d(3)[OF that(1)] assms(5) by (cases "j = i") (auto simp: n)
  qed
qed

lemma wm_focus_ok [inv_intros]:
  assumes "wm_ok st" "i = -1 \<or> live i st"
  shows "wm_ok (wm_focus i st)"
proof -
  let ?s = "if slot (wfocus st) then upd_win (nat (wfocus st)) (\<lambda>W. W\<lparr>focused := False\<rparr>) st else st"
  have u: "unfocused (wins ?s)"
    using unfocus_ok[OF assms(1)] unfocused_none[OF assms(1)] by simp
  have al: "alive (wins ?s ! nat i) = alive (wins st ! nat i)"
    by (cases "nat i = nat (wfocus st)"; cases "nat i < length (wins st)") (auto simp: list_update_beyond)
  have w: "wm_focus i st = (if slot i then upd_win (nat i) (\<lambda>W. W\<lparr>focused := True\<rparr>) (?s\<lparr>wfocus := i\<rparr>) else ?s\<lparr>wfocus := i\<rparr>)"
    by (simp only: wm_focus_def Let_def)
  show ?thesis
  proof (cases "slot i")
    case True
    then have "alive (wins ?s ! nat i)" "nat i < 8" "i = int (nat i)"
      using assms(2) al by (auto simp: live_def slot_def)
    then show ?thesis unfolding w using True by (intro focus_one[OF u, of "nat i"]) simp_all
  next
    case False
    then have "i = -1" using assms(2) by (auto simp: live_def)
    then show ?thesis unfolding w using False by (intro wm_okI) (use unfocusedD[OF u] in auto)
  qed
qed

lemma refocus_ok:
  assumes "unfocused (wins st)" "\<And>W. P W \<Longrightarrow> alive W"
  shows "wm_ok (refocus P st)"
proof -
  note d = unfocusedD[OF assms(1)]
  let ?s = "st\<lparr>wfocus := - 1\<rparr>"
  have ok: "wm_ok ?s" by (rule wm_okI) (use d in auto)
  show ?thesis
  proof (cases "find_idx P (wins st)")
    case None
    then show ?thesis using ok by (simp add: refocus_def)
  next
    case (Some j)
    then have "live (int j) ?s"
      using find_idx_less[OF Some] find_idx_sat[OF Some] d(1) assms(2) by (simp add: live_def slot_def)
    then show ?thesis using Some wm_focus_ok[OF ok, of "int j"] by (simp add: refocus_def Let_def)
  qed
qed

text \<open>Closing or minimising changes one window so that it is no longer visible.\<close>

lemma hide_win:
  assumes "wm_ok st" "slot i" "\<And>W. win_ok (f W) = win_ok W" "\<And>W. alive (f W) \<Longrightarrow> alive W \<and> minimized (f W)"
    and "\<And>W. focused (f W) = focused W" "\<And>W. minimized W \<Longrightarrow> minimized (f W)"
  defines "ws \<equiv> (wins st)[nat i := f (wins st ! nat i)]"
  shows "wfocus st = i \<Longrightarrow> unfocused ws" "wfocus st \<noteq> i \<Longrightarrow> wm_ok (st\<lparr>wins := ws\<rparr>)"
proof -
  note d = wm_okD[OF assms(1)]
  have i: "nat i < 8" "i = int (nat i)" using assms(2) by (auto simp: slot_def)
  have n: "ws ! j = (if j = nat i then f (wins st ! nat i) else wins st ! j)" for j
    using i(1) d(1) by (simp add: ws_def)
  have len: "length ws = 8" using d(1) by (simp add: ws_def)
  have ok: "win_ok (ws ! j)" if "j < 8" "alive (ws ! j)" for j
    using that d(3)[OF that(1)] d(3)[OF i(1)] assms(3,4) by (auto simp: n split: if_splits)
  have foc: "minimized (ws ! j) \<or> wfocus st = int j \<and> j \<noteq> nat i" if "j < 8" "alive (ws ! j)" "focused (ws ! j)" for j
    using that d(4)[OF that(1)] assms(4,6) by (auto simp: n split: if_splits)
  show "unfocused ws" if "wfocus st = i"
    unfolding unfocused_def using len ok foc that i(2) by force
  show "wm_ok (st\<lparr>wins := ws\<rparr>)" if ne: "wfocus st \<noteq> i"
  proof (rule wm_okI)
    have "ws ! nat (wfocus st) = wins st ! nat (wfocus st)" if "slot (wfocus st)"
      using that ne assms(2) by (auto simp: n slot_def nat_eq_iff2)
    then show "wfocus (st\<lparr>wins := ws\<rparr>) = - 1 \<or> live (wfocus (st\<lparr>wins := ws\<rparr>)) (st\<lparr>wins := ws\<rparr>) \<and> focused (wins (st\<lparr>wins := ws\<rparr>) ! nat (wfocus (st\<lparr>wins := ws\<rparr>)))"
      using d(2) by (auto simp: live_def)
  qed (use len ok foc in auto)
qed

lemma wm_close_ok [inv_intros]:
  assumes "wm_ok st"
  shows "wm_ok (wm_close i st)"
proof (cases "live i st")
  case True
  let ?f = "\<lambda>W. W\<lparr>alive := False\<rparr>"
  have "slot i" using True by (simp add: live_def)
  note h = hide_win[OF assms this, of ?f]
  show ?thesis
    using True h refocus_ok[of "upd_win (nat i) ?f st" alive]
    by (auto simp: wm_close_def Let_def win_ok_def upd_win_def)
qed (simp add: wm_close_def assms)

lemma wm_minimize_ok [inv_intros]:
  assumes "wm_ok st"
  shows "wm_ok (wm_minimize i st)"
proof (cases "live i st")
  case True
  let ?f = "\<lambda>W. W\<lparr>minimized := True\<rparr>"
  have "slot i" using True by (simp add: live_def)
  note h = hide_win[OF assms this, of ?f]
  show ?thesis
    using True h refocus_ok[of "upd_win (nat i) ?f st" "\<lambda>W. alive W \<and> \<not> minimized W"]
    by (auto simp: wm_minimize_def Let_def win_ok_def upd_win_def)
qed (simp add: wm_minimize_def assms)

lemma put_win_ok:
  assumes "wm_ok st" "i < WM_MAX" "\<not> alive (wins st ! i) \<or> alive W \<and> focused W = focused (wins st ! i) \<and> minimized W = minimized (wins st ! i)"
    and "win_ok W" "focused W \<longrightarrow> alive (wins st ! i)"
  shows "wm_ok (st\<lparr>wins := (wins st)[i := W]\<rparr>)"
proof -
  note d = wm_okD[OF assms(1)]
  let ?ws = "(wins st)[i := W]"
  have n: "?ws ! j = (if j = i then W else wins st ! j)" for j
    using assms(2) d(1) by simp
  show ?thesis
  proof (rule wm_okI)
    show "length (wins (st\<lparr>wins := ?ws\<rparr>)) = 8" using d(1) by simp
    show "wfocus (st\<lparr>wins := ?ws\<rparr>) = - 1 \<or> live (wfocus (st\<lparr>wins := ?ws\<rparr>)) (st\<lparr>wins := ?ws\<rparr>) \<and> focused (wins (st\<lparr>wins := ?ws\<rparr>) ! nat (wfocus (st\<lparr>wins := ?ws\<rparr>)))"
      using d(2) assms(3) by (auto simp: live_def n)
    show "win_ok (wins (st\<lparr>wins := ?ws\<rparr>) ! j)" if "j < 8" "alive (wins (st\<lparr>wins := ?ws\<rparr>) ! j)" for j
      using that d(3)[OF that(1)] assms(4) by (auto simp: n split: if_splits)
    show "minimized (wins (st\<lparr>wins := ?ws\<rparr>) ! j) \<or> wfocus (st\<lparr>wins := ?ws\<rparr>) = int j"
      if "j < 8" "alive (wins (st\<lparr>wins := ?ws\<rparr>) ! j)" "focused (wins (st\<lparr>wins := ?ws\<rparr>) ! j)" for j
      using that d(4)[OF that(1)] assms(3,5) by (auto simp: n split: if_splits)
  qed
qed

lemma wm_new_ok [inv_intros]:
  assumes "wm_ok st"
  shows "wm_ok (snd (wm_new x y w h t st))"
proof (cases "find_idx (\<lambda>W. \<not> alive W) (wins st)")
  case None
  then show ?thesis using assms by (simp add: wm_new_def)
next
  case (Some i)
  have len: "length (wins st) = 8" using wm_okD(1)[OF assms] by simp
  have i: "i < 8" "\<not> alive (wins st ! i)"
    using find_idx_less[OF Some] find_idx_sat[OF Some] len by auto
  let ?W = "(wins st ! i)\<lparr>alive := True, focused := False, minimized := False, maximized := False,
    wx := x, wy := y, ww := w, wh := h, wox := x, woy := y, wow := w, woh := h, wlines := [], wscroll := 0, title := take 47 t\<rparr>"
  let ?s = "st\<lparr>wins := (wins st)[i := ?W], wcount := wcount st + 1\<rparr>"
  have "wm_ok (st\<lparr>wins := (wins st)[i := ?W]\<rparr>)"
    using i by (intro put_win_ok[OF assms]) (simp_all add: win_ok_def)
  then have s: "wm_ok ?s"
    using wm_ok_same[of "st\<lparr>wins := (wins st)[i := ?W]\<rparr>" ?s] by (simp add: same_wins_def)
  have n: "wm_new x y w h t st = (int i, if wfocus st < 0 then upd_win i (\<lambda>W. W\<lparr>focused := True\<rparr>) (?s\<lparr>wfocus := int i\<rparr>) else ?s)"
    by (simp add: wm_new_def Some Let_def upd_win_def)
  have "wm_focus (int i) ?s = upd_win i (\<lambda>W. W\<lparr>focused := True\<rparr>) (?s\<lparr>wfocus := int i\<rparr>)" if "wfocus st < 0"
    using that i by (simp add: wm_focus_def slot_def)
  moreover have "wm_ok (wm_focus (int i) ?s)"
    using i len by (intro wm_focus_ok[OF s]) (simp add: live_def slot_def)
  ultimately show ?thesis using s unfolding n by auto
qed

lemma wm_write_ok [inv_intros]:
  assumes "wm_ok st"
  shows "wm_ok (wm_write i s st)"
proof (cases "live i st \<and> length (wlines (wins st ! nat i)) < WIN_LINES")
  case True
  let ?W = "(wins st ! nat i)\<lparr>wlines := wlines (wins st ! nat i) @ [take (WIN_COLS - 1) s]\<rparr>"
  have i: "nat i < 8" "alive (wins st ! nat i)" using True by (auto simp: live_def slot_def)
  have "win_ok (wins st ! nat i)" using wm_okD(3)[OF assms i] .
  then have "wm_ok (st\<lparr>wins := (wins st)[nat i := ?W]\<rparr>)"
    using i True by (intro put_win_ok[OF assms]) (auto simp: win_ok_def)
  then show ?thesis using True by (simp add: wm_write_def upd_win_def)
next
  case False
  then show ?thesis using assms by (auto simp: wm_write_def)
qed

lemma wm_writeln_ok [inv_intros]:
  assumes "wm_ok st"
  shows "wm_ok (wm_writeln i s st)"
proof -
  let ?s = "wm_write i s st"
  have s: "wm_ok ?s" by (rule wm_write_ok[OF assms])
  show ?thesis
  proof (cases "live i ?s")
    case True
    then have i: "nat i < 8" "alive (wins ?s ! nat i)" by (auto simp: live_def slot_def)
    then have "win_ok (wins ?s ! nat i)" using wm_okD(3)[OF s] by simp
    then have "wm_ok (?s\<lparr>wins := (wins ?s)[nat i := (wins ?s ! nat i)\<lparr>wscroll := 0\<rparr>]\<rparr>)"
      using i by (intro put_win_ok[OF s]) (auto simp: win_ok_def)
    then show ?thesis using True by (simp add: wm_writeln_def upd_win_def Let_def)
  qed (use s in \<open>simp add: wm_writeln_def\<close>)
qed


section \<open>Events keep the window table\<close>

lemma mouse_frame [frame_simps]:
  "kbd.more (mouse_erase s) = kbd.more s" "kbd.more (mouse_draw s) = kbd.more s"
  "kbd.more (mouse_draw_cursor s) = kbd.more s" "kbd.more (mouse_init s) = kbd.more s"
  by (simp_all add: mouse_erase_def mouse_draw_def mouse_draw_cursor_def mouse_init_def Let_def pr_def)

lemma mouse_byte_frame [frame_simps]: "kbd.more (mouse_byte b s) = kbd.more s"
  by (simp add: mouse_byte_def mouse_packet_done_def clamp_mouse_def Let_def pr_def)

lemma mouse_poll_frame [frame_simps]: "kbd.more (mouse_poll input s) = kbd.more s" for s :: "'a kbd_scheme"
proof -
  have "kbd.more (fold (\<lambda>(_, b). mouse_byte b) bs s) = kbd.more s" for bs :: "(u8 \<times> u8) list" and s :: "'a kbd_scheme"
    by (induction bs arbitrary: s) (auto simp: frame_simps)
  then show ?thesis by (simp add: mouse_poll_def)
qed

lemma same_wins_fields [simp]:
  "same_wins st (st\<lparr>mouse_polls := ps\<rparr>)" "same_wins st (st\<lparr>wm_tick := k\<rparr>)" "same_wins st (st\<lparr>keys := ks\<rparr>)"
  "same_wins st (st\<lparr>dock_selected := d\<rparr>)" "same_wins st (st\<lparr>mouse_btn_l_prev := b\<rparr>)" "same_wins st st"
  by (simp_all add: same_wins_def)

lemma wm_mouse_same: "same_wins st (wm_mouse st)"
proof (cases "mouse_polls st")
  case Nil
  then show ?thesis by (simp add: wm_mouse_def same_wins_more frame_simps)
next
  case (Cons p ps)
  have "same_wins (st\<lparr>mouse_polls := ps\<rparr>) (mouse_poll p (st\<lparr>mouse_polls := ps\<rparr>))"
    by (intro same_wins_more) (simp only: frame_simps)
  then show ?thesis
    using Cons same_wins_trans[OF same_wins_fields(1)] by (simp add: wm_mouse_def)
qed

lemma wm_draw_win_same: "wm_draw_win i st = Some st' \<Longrightarrow> same_wins st st'"
  by (auto simp: wm_draw_win_def split: if_splits)

lemma wm_render_same:
  assumes "wm_render st = Some st'"
  shows "same_wins st st'"
proof -
  let ?s0 = "pr wm_wallpaper (mouse_erase st)"
  obtain s1 s2 where 1: "ofold (\<lambda>i st. let W = wins st ! i in
      if alive W \<and> \<not> focused W \<and> \<not> minimized W then wm_draw_win (int i) st else Some st) [0 ..< WM_MAX] ?s0 = Some s1"
    and 2: "(if wfocus s1 \<ge> 0 \<and> alive (wins s1 ! nat (wfocus s1)) then wm_draw_win (wfocus s1) s1 else Some s1) = Some s2"
    and 3: "st' = (let s = wm_mouse (pr (wm_dock (dock_selected s2)) s2); s = (if mouse_enabled s then mouse_draw_cursor s else s)
      in s\<lparr>wm_tick := wm_tick s + 1\<rparr>)"
    using assms unfolding wm_render_def Let_def by (elim bind_eq_Some_conv[THEN iffD1, THEN exE] conjE) blast
  have s0: "same_wins st ?s0"
    using same_wins_trans[OF same_wins_more[of "mouse_erase st" st] same_wins_pr] by (simp add: frame_simps)
  have s1: "same_wins st s1"
    by (rule ofold_inv[where I = "same_wins st", OF _ s0 1])
      (auto simp: Let_def split: if_splits dest: wm_draw_win_same intro: same_wins_trans)
  have s2: "same_wins st s2"
    using 2 wm_draw_win_same[of "wfocus s1" s1 s2] s1 by (auto split: if_splits intro: same_wins_trans)
  let ?s = "wm_mouse (pr (wm_dock (dock_selected s2)) s2)"
  have "same_wins st ?s"
    using same_wins_trans[OF s2 same_wins_trans[OF same_wins_pr wm_mouse_same]] .
  moreover have "same_wins ?s (if mouse_enabled ?s then mouse_draw_cursor ?s else ?s)"
    by (simp add: same_wins_more frame_simps)
  ultimately show ?thesis
    unfolding 3 Let_def by (intro same_wins_trans[OF _ same_wins_fields(2)]) (rule same_wins_trans)
qed

lemma wm_render_ok: "wm_render st = Some st' \<Longrightarrow> wm_ok st' = wm_ok st"
  by (rule wm_ok_same[OF wm_render_same])

lemma wm_tab_ok [inv_intros]:
  assumes "wm_ok st"
  shows "wm_ok (wm_tab st)"
proof -
  let ?idxs = "map (\<lambda>i. nat ((wfocus st + int i) mod int WM_MAX)) [1 ..< Suc WM_MAX]"
  have "live (int j) st" if "find (\<lambda>j. alive (wins st ! j) \<and> \<not> minimized (wins st ! j)) ?idxs = Some j" for j
  proof -
    have "alive (wins st ! j)" using that unfolding find_Some_iff by blast
    moreover have "j \<in> set ?idxs" using that unfolding find_Some_iff by (metis nth_mem)
    then have "j < 8" by (auto simp del: upt_Suc)
    ultimately show ?thesis by (simp add: live_def slot_def)
  qed
  moreover have "wfocus st = -1 \<or> live (wfocus st) st" using wm_okD(2)[OF assms] by blast
  ultimately show ?thesis
    unfolding wm_tab_def Let_def by (intro wm_focus_ok[OF assms]) (auto split: option.split)
qed

lemma click_windows_ok:
  assumes "wm_ok st" "click_windows st = Some st'"
  shows "wm_ok st'"
proof -
  let ?h = "hit_win (mouse_x st) (mouse_y st)"
  obtain i where i: "find_idx (\<lambda>W. ?h W \<noteq> None) (wins st) = Some i"
    and st': "st' = (case the (?h (wins st ! i)) of Hit_close \<Rightarrow> wm_close (int i) st
          | Hit_minimize \<Rightarrow> wm_minimize (int i) st | Hit_focus \<Rightarrow> wm_focus (int i) st)"
    using assms(2) by (auto simp: click_windows_def Let_def split: option.splits)
  have "alive (wins st ! i)" "i < 8"
    using find_idx_sat[OF i] find_idx_less[OF i] wm_okD(1)[OF assms(1)] by (auto simp: hit_win_def split: if_splits)
  then have "live (int i) st" by (simp add: live_def slot_def)
  then show ?thesis
    unfolding st' by (cases "the (?h (wins st ! i))") (auto intro: inv_intros assms(1))
qed

lemma wm_click_ok:
  assumes "wm_ok st" "wm_click st = Some st'"
  shows "wm_ok st'"
proof -
  obtain s where s: "(if mouse_btn_l st \<and> \<not> mouse_btn_l_prev st then
      (case click_dock st of Some st \<Rightarrow> wm_render st
       | None \<Rightarrow> (case click_windows st of Some st \<Rightarrow> wm_render st | None \<Rightarrow> Some st)) else Some st) = Some s"
    and st': "st' = s\<lparr>mouse_btn_l_prev := mouse_btn_l s\<rparr>"
    using assms(2) unfolding wm_click_def by (auto simp: bind_eq_Some_conv)
  have d: "wm_ok t" if "click_dock st = Some t" for t
    using that assms(1) wm_ok_same[OF same_wins_fields(4)] by (auto simp: click_dock_def split: if_splits)
  have "wm_ok s"
    using s d click_windows_ok[OF assms(1)] wm_render_ok assms(1) by (auto split: if_splits option.splits)
  then show ?thesis using st' wm_ok_same[OF same_wins_fields(5)] by blast
qed

lemma redraw_ok:
  "redraw r = Some (Returned st', b) \<Longrightarrow> (\<And>st. r = Returned st \<Longrightarrow> wm_ok st) \<Longrightarrow> wm_ok st'"
  using wm_render_ok by (auto simp: redraw_def split: ctl.splits)

lemma wm_power_menu_same: "wm_power_menu st = Returned st' \<Longrightarrow> same_wins st st'"
  by (auto simp: wm_power_menu_def next_key_def same_wins_def pr_def split: option.splits list.splits if_splits)

lemma wm_robin_same: "wm_robin st = Returned st' \<Longrightarrow> same_wins st st'"
  by (auto simp: wm_robin_def same_wins_def pr_def Let_def split: option.splits)

lemma wm_key_ok:
  assumes "wm_ok st" "c \<noteq> KEY_F2" "wm_key T c st = Some (Returned st', b)"
  shows "wm_ok st'"
proof -
  have pm: "wm_ok s" if "wm_power_menu st = Returned s" for s
    using wm_ok_same[OF wm_power_menu_same[OF that]] assms(1) by simp
  have rb: "wm_ok s" if "wm_robin st = Returned s" for s
    using wm_ok_same[OF wm_robin_same[OF that]] assms(1) by simp
  have ex: "wm_ok (pr f st)" for f using wm_ok_same[OF same_wins_pr] assms(1) by blast
  show ?thesis
    using assms(1,3) unfolding wm_key_def if_not_P[OF assms(2)]
    by (auto split: if_splits dest!: redraw_ok intro: pm rb ex wm_close_ok wm_tab_ok assms(1))
qed


text \<open>The events of a running desktop, the terminal apart, and the two calls a program makes to open
  a window and to write to it.\<close>

inductive desk_step :: "'a wm_scheme \<Rightarrow> 'a wm_scheme \<Rightarrow> bool" where
  mouse: "desk_step st (wm_mouse st)"
| key: "next_key st = Some (c, st1) \<Longrightarrow> c \<noteq> KEY_F2 \<Longrightarrow> wm_key (\<lambda>_. None) c st1 = Some (Returned st', left) \<Longrightarrow>
    desk_step st st'"
| click: "wm_click st = Some st' \<Longrightarrow> desk_step st st'"
| open_win: "desk_step st (snd (wm_new x y w h t st))"
| write_win: "desk_step st (wm_writeln i s st)"

inductive_cases desk_stepE: "desk_step st st'"

lemma desk_step_ok: "desk_step st st' \<Longrightarrow> wm_ok st \<Longrightarrow> wm_ok st'"
proof (erule desk_step.cases, goal_cases)
  case (2 s c s1 s' left)
  have "wm_ok s1" using 2 wm_ok_same[OF same_wins_fields(3)] by (auto simp: next_key_def split: list.splits)
  then show ?case using wm_key_ok[of s1 c] 2 by auto
qed (auto intro: inv_intros wm_click_ok simp: wm_ok_same[OF wm_mouse_same])

lemma desk_steps_ok: "desk_step\<^sup>*\<^sup>* st st' \<Longrightarrow> wm_ok st \<Longrightarrow> wm_ok st'"
  by (induction rule: rtranclp_induct) (auto intro: desk_step_ok)

lemma wm_init_ok:
  assumes "length (wins st) = WM_MAX"
  shows "wm_ok (wm_init st)"
proof -
  let ?s = "st\<lparr>wins := map (\<lambda>W. W\<lparr>alive := False\<rparr>) (wins st), wfocus := - 1, wcount := 0, wm_running := True\<rparr>"
  have "wm_ok ?s" by (rule wm_okI) (use assms in auto)
  moreover have "same_wins ?s (mouse_init ?s)" by (rule same_wins_more) (simp only: frame_simps)
  ultimately have "wm_ok (mouse_init ?s)" using wm_ok_same by blast
  then have "wm_ok ((mouse_init ?s)\<lparr>mouse_wm_mode := True\<rparr>)"
    using wm_ok_same[of "mouse_init ?s" "(mouse_init ?s)\<lparr>mouse_wm_mode := True\<rparr>"] by (simp add: same_wins_def)
  then show ?thesis by (simp add: wm_init_def Let_def)
qed

lemma wm_desktop_start_ok:
  assumes "length (wins st) = WM_MAX" "wm_desktop_start st = Some st'"
  shows "wm_ok st'"
proof -
  let ?s = "wm_init (pr (seqs [vclear, vga_disable_cursor]) st)"
  have "wm_ok ?s" by (rule wm_init_ok) (simp add: pr_def assms(1))
  then have n: "wm_ok (snd (wm_new 25 2 30 12 '' Welcome '' ?s))" by (rule wm_new_ok)
  have "wm_ok (fold (wm_write wa) welcome_lines (snd (wm_new 25 2 30 12 '' Welcome '' ?s)))" for wa
    by (rule fold_inv[where I = wm_ok]) (auto intro: wm_write_ok n)
  then show ?thesis
    using assms(2) wm_render_ok by (auto simp: wm_desktop_start_def Let_def split_beta)
qed

section \<open>When drawing is defined\<close>

definition drawable :: "pigwin \<Rightarrow> bool" where
  "drawable W \<longleftrightarrow> wlines W \<noteq> [] \<or> (let (x, y, w, h) = clip_win W in 4 \<le> h \<or> w \<le> 3)"

lemma draw_win_defined: "drawable W \<Longrightarrow> \<exists>f. draw_win W = Some f"
  by (auto simp: drawable_def draw_win_def win_scrollbar_def Let_def split: prod.splits)

lemma wm_render_defined:
  assumes "length (wins st) = WM_MAX" "wfocus st < int WM_MAX"
    and "\<And>i. i < WM_MAX \<Longrightarrow> alive (wins st ! i) \<Longrightarrow> \<not> minimized (wins st ! i) \<Longrightarrow> drawable (wins st ! i)"
  shows "\<exists>st'. wm_render st = Some st'"
proof -
  have dw: "\<exists>s'. wm_draw_win i s = Some s' \<and> wins s' = wins s" if "wins s = wins st" for i s
    using assms(3)[of "nat i"] draw_win_defined[of "wins st ! nat i"] that
    by (auto simp: wm_draw_win_def pr_def)
  let ?s0 = "pr wm_wallpaper (mouse_erase st)"
  let ?f = "\<lambda>i st. let W = wins st ! i in
      if alive W \<and> \<not> focused W \<and> \<not> minimized W then wm_draw_win (int i) st else Some st"
  have "wins ?s0 = wins st"
    using same_wins_more[of "mouse_erase st" st] by (simp add: same_wins_def frame_simps pr_def)
  moreover have "\<exists>s'. ofold ?f xs s = Some s' \<and> wins s' = wins st" if "wins s = wins st" for xs s
    using that
  proof (induction xs arbitrary: s)
    case (Cons x xs)
    have "\<exists>s'. ?f x s = Some s' \<and> wins s' = wins st"
      using dw[OF Cons.prems, of "int x"] Cons.prems by (simp add: Let_def)
    then obtain s' where "?f x s = Some s'" "wins s' = wins st" by blast
    then show ?case using Cons.IH[of s'] by simp
  qed simp
  ultimately obtain s1 where s1: "ofold ?f [0 ..< WM_MAX] ?s0 = Some s1" "wins s1 = wins st" by blast
  have "\<exists>s2. (if wfocus s1 \<ge> 0 \<and> alive (wins s1 ! nat (wfocus s1)) then wm_draw_win (wfocus s1) s1 else Some s1) = Some s2"
    using dw[OF s1(2), of "wfocus s1"] by auto
  then obtain s2 where "(if wfocus s1 \<ge> 0 \<and> alive (wins s1 ! nat (wfocus s1)) then wm_draw_win (wfocus s1) s1 else Some s1) = Some s2"
    by blast
  then show ?thesis unfolding wm_render_def Let_def s1(1)[unfolded Let_def] by simp
qed


section \<open>Properties\<close>

text \<open>The window manager before its first start, on the booted machine.\<close>

definition no_win :: pigwin where
  "no_win = \<lparr>alive = False, focused = False, minimized = False, maximized = False, wx = 0, wy = 0, ww = 0, wh = 0,
     wox = 0, woy = 0, wow = 0, woh = 0, title = [], wlines = [], wscroll = 0\<rparr>"

definition wm0 :: wm where
  "wm0 = poing.extend booted (wm.fields (replicate 8 no_win) (- 1) 0 False 0 (- 1) False [])"

lemma wm0_wins: "wins wm0 = replicate 8 no_win" "wfocus wm0 = - 1" "keys wm0 = keys booted"
  by (simp_all add: wm0_def poing.defs wm.defs)

lemma mouse_init_wins: "wins (mouse_init s) = wins s" "wfocus (mouse_init s) = wfocus s"
  using same_wins_more[OF mouse_frame(4), of s] by (simp_all add: same_wins_def)

text \<open>The first window of a new desktop.\<close>

lemma wm_new_first:
  fixes x y w h :: int and t :: string
  assumes "length (wins s) = WM_MAX" "\<forall>W \<in> set (wins s). \<not> alive W" "wfocus s = - 1"
  defines "n \<equiv> snd (wm_new x y w h t s)"
  shows "length (wins n) = WM_MAX" "wfocus n = 0" "fst (wm_new x y w h t s) = 0"
    "\<And>i. i < WM_MAX \<Longrightarrow> alive (wins n ! i) \<Longrightarrow>
      i = 0 \<and> wx (wins n ! i) = x \<and> wy (wins n ! i) = y \<and> ww (wins n ! i) = w \<and> wh (wins n ! i) = h"
proof -
  have f: "find_idx (\<lambda>W. \<not> alive W) (wins s) = Some 0"
    using assms(1,2) by (cases "wins s") auto
  have d: "\<not> alive (wins s ! i)" if "i < 8" for i using assms(1,2) that by auto
  show "length (wins n) = WM_MAX" "wfocus n = 0" "fst (wm_new x y w h t s) = 0"
    using assms(1,3) f by (simp_all add: n_def wm_new_def Let_def)
  show "i = 0 \<and> wx (wins n ! i) = x \<and> wy (wins n ! i) = y \<and> ww (wins n ! i) = w \<and> wh (wins n ! i) = h"
    if "i < WM_MAX" "alive (wins n ! i)" for i
    using that d[of i] assms(1,3) f by (cases i) (auto simp: n_def wm_new_def Let_def)
qed

lemma wm_desktop_start_defined:
  assumes "length (wins st) = WM_MAX"
  shows "\<exists>st'. wm_desktop_start st = Some st'"
proof -
  let ?s = "wm_init (pr (seqs [vclear, vga_disable_cursor]) st)"
  have s: "wins ?s = map (\<lambda>W. W\<lparr>alive := False\<rparr>) (wins st)" "wfocus ?s = - 1"
    by (simp_all add: wm_init_def Let_def mouse_init_wins pr_def)
  let ?n = "snd (wm_new 25 2 30 12 '' Welcome '' ?s)"
  have "length (wins ?s) = WM_MAX" "\<forall>W \<in> set (wins ?s). \<not> alive W" unfolding s using assms by auto
  note n = wm_new_first[OF this s(2), where x = 25 and y = 2 and w = 30 and h = 12 and t = "'' Welcome ''"]
  define Q where "Q W \<longleftrightarrow> alive W \<longrightarrow> wx W = 25 \<and> wy W = 2 \<and> ww W = 30 \<and> wh W = 12" for W :: pigwin
  define P where "P t \<longleftrightarrow> length (wins t) = 8 \<and> wfocus t = 0 \<and> (\<forall>W \<in> set (wins t). Q W)" for t :: "'a wm_scheme"
  have "P ?n" using n unfolding P_def Q_def by (metis in_set_conv_nth)
  moreover have "P (wm_write wa l t)" if t: "P t" for wa l t
  proof (cases "live wa t \<and> length (wlines (wins t ! nat wa)) < WIN_LINES")
    case True
    then have "wins t ! nat wa \<in> set (wins t)" using t by (intro nth_mem) (auto simp: P_def live_def slot_def)
    then have q: "Q ((wins t ! nat wa)\<lparr>wlines := ls\<rparr>)" for ls using t by (auto simp: P_def Q_def)
    have "\<forall>W \<in> set (wins (wm_write wa l t)). Q W"
      unfolding wm_write_def using True t q by (auto simp: P_def dest!: set_update_subset_insert[THEN subsetD])
    then show ?thesis using True t unfolding P_def by (simp add: wm_write_def)
  qed (use t in \<open>auto simp: wm_write_def\<close>)
  ultimately have p: "P (fold (wm_write wa) ls ?n)" for wa ls
    by (rule fold_inv[where I = P, rotated])
  have "drawable (wins t ! i)" if "P t" "i < 8" "alive (wins t ! i)" for t i
  proof -
    have "Q (wins t ! i)" using that(1,2) by (simp add: P_def)
    then show ?thesis using that(3) by (simp add: Q_def drawable_def clip_win_def)
  qed
  then have "\<exists>st'. wm_render t = Some st'" if "P t" for t
    using that wm_render_defined[of t] by (auto simp: P_def)
  then show ?thesis using p by (simp add: wm_desktop_start_def Let_def split_beta)
qed

text \<open>C22: at most one visible window has the focus. However windows are opened, written to, clicked,
  closed, minimised and cycled through with the tabulator, two windows that are on the screen and
  marked as focused are the same window, it is the one \<open>wfocus\<close> names, and \<open>wfocus\<close> never names a
  slot without a window.\<close>
theorem focus_exclusive:
  assumes "length (wins st) = WM_MAX" "wm_desktop_start st = Some st0" "desk_step\<^sup>*\<^sup>* st0 st1"
  shows "(wfocus st1 = -1 \<or> live (wfocus st1) st1) \<and>
    (\<forall>i < WM_MAX. alive (wins st1 ! i) \<and> \<not> minimized (wins st1 ! i) \<and> focused (wins st1 ! i) \<longrightarrow> wfocus st1 = int i)"
proof -
  have "wm_ok st1" by (rule desk_steps_ok[OF assms(3) wm_desktop_start_ok[OF assms(1,2)]])
  from wm_okD[OF this] show ?thesis by blast
qed

theorem focus_exclusive_witness:
  "\<exists>st0. wm_desktop_start wm0 = Some st0 \<and>
     (wfocus (wm_writeln 0 ''hello'' st0) = -1 \<or> live (wfocus (wm_writeln 0 ''hello'' st0)) (wm_writeln 0 ''hello'' st0))"
proof -
  obtain st0 where st0: "wm_desktop_start wm0 = Some st0"
    using wm_desktop_start_defined[of wm0] by (auto simp: wm0_wins)
  have "desk_step\<^sup>*\<^sup>* st0 (wm_writeln 0 ''hello'' st0)" by (rule r_into_rtranclp) (rule desk_step.write_win)
  from focus_exclusive[OF _ st0 this] st0 show ?thesis by (simp add: wm0_wins)
qed

text \<open>a window stays in its place. A window whose lines are no longer than it is wide is drawn, for
  any position and size that leaves it a title bar on the screen, without an error, and the drawing
  changes no cell outside its clipped rectangle and the shadow of one cell.\<close>
theorem window_draws_inside:
  assumes "win_ok W" "clip_win W = (x, y, w, h)" "0 < w" "4 \<le> h" "\<forall>l \<in> set (wlines W). int (length l) \<le> w"
  shows "\<exists>f. draw_win W = Some f \<and> draws_in (in_win x y w h) f"
proof -
  let ?m = "min (h - 4) (int WIN_LINES)"
  have s: "wscroll W = 0" using assms(1) by (simp add: win_ok_def)
  have "\<exists>sb. win_scrollbar W x y w ?m = Some sb"
    using assms(4) by (auto simp: win_scrollbar_def Let_def)
  then obtain sb where sb: "win_scrollbar W x y w ?m = Some sb" by blast
  have "draws_in (in_win x y w h) sb" by (rule win_scrollbar_in[OF sb]) (use s assms(4) in auto)
  moreover have "draws_in (in_win x y w h) (win_content W x y ?m)"
    by (rule win_content_in) (use s assms(5) in auto)
  moreover have "draws_in (in_win x y w h) (win_frame W x y w h)" by (rule win_frame_in) (use assms in auto)
  ultimately have "draws_in (in_win x y w h) (seqs [win_frame W x y w h, win_content W x y ?m, sb])"
    by (intro region_intros)
  then show ?thesis using assms(2) sb by (simp add: draw_win_def)
qed

theorem window_draws_inside_witness:
  "\<exists>f. draw_win (no_win\<lparr>alive := True, wx := 25, wy := 2, ww := 30, wh := 12, wlines := welcome_lines\<rparr>) = Some f \<and>
     draws_in (in_win 25 2 30 12) f"
  by (rule window_draws_inside) (simp_all add: win_ok_def no_win_def clip_win_def welcome_lines_def)

text \<open>A longer line is drawn past the right edge: the text of a window is not clipped.\<close>

lemma window_text_spills:
  "\<not> draws_in (in_win 2 2 10 6) (win_content (no_win\<lparr>wlines := [replicate 20 CHR ''x'']\<rparr>) 2 2 2)"
proof
  let ?f = "win_content (no_win\<lparr>wlines := [replicate 20 CHR ''x'']\<rparr>) 2 2 2"
  let ?v = "vga0\<lparr>VGA_MEM := (\<lambda>_. 0)\<rparr>"
  assume "draws_in (in_win 2 2 10 6) ?f"
  then have "VGA_MEM (?f ?v) (cell 20 5) = VGA_MEM ?v (cell 20 5)"
    unfolding draws_in_def by (elim conjE) (simp add: on_screen_def in_win_def)
  moreover have "VGA_MEM (?f ?v) (cell 20 5) = ENT CHR ''x'' (COL C_BLACK C_WHITE)"
    by (simp add: win_content_def no_win_def numeral_eq_Suc vat_def on_screen_def cell_def upto.simps)
  moreover have "ENT CHR ''x'' (COL C_BLACK C_WHITE) \<noteq> 0"
    by (simp add: ENT_def COL_def byte_of_def)
  ultimately show False by simp
qed

text \<open>Recalling a history line of more than 127 characters overruns the terminal's input buffer.\<close>

lemma recall_overrun:
  assumes "hist \<noteq> []" "128 \<le> length (last hist)"
  shows "edit_line hist [KEY_UP] [] (- 1) v = None"
  using assms by (simp add: term_key_def recall_def last_conv_nth nat_diff_distrib')

text \<open>The border of the terminal goes to row 11 of the screen, not to the edges of the window.\<close>

lemma term_border_row: "draws_in (\<lambda>x y. y = 11) (term_border tx ty tw th)"
proof -
  have "uint (COL C_LCYAN C_BLACK) = 11" by (simp add: COL_def)
  then show ?thesis unfolding term_border_def vat_swapped_def Let_def by (intro region_intros) simp_all
qed

end
