(* ===== verification/Pig_Tetris.thy ===== *)
theory Pig_Tetris
  imports Pig_Ps2
begin

text \<open>
  The game of \<open>shell/games/tetris.h\<close>. The board is a list of 20 rows of 10 cells. One iteration of
  the game loop is \<open>tet_frame\<close>: it is given what the keyboard polls of that iteration read. The
  random generator multiplies a 32-bit integer; it is modelled with the wrap-around of the
  machine's multiplication. The score and the line count are checked against the \<open>int\<close> range.
\<close>

unbundle bit_operations_syntax

section \<open>Definitions\<close>

abbreviation (input) TET_W :: int where "TET_W \<equiv> 10"
abbreviation (input) TET_H :: int where "TET_H \<equiv> 20"
abbreviation (input) TET_OX :: int where "TET_OX \<equiv> 2"
abbreviation (input) TET_OY :: int where "TET_OY \<equiv> 2"

definition PIECES :: "(int \<times> int) list list list" where
  "PIECES =
    [[[(0,1),(1,1),(2,1),(3,1)],[(2,0),(2,1),(2,2),(2,3)],[(0,2),(1,2),(2,2),(3,2)],[(1,0),(1,1),(1,2),(1,3)]],
     [[(1,0),(2,0),(1,1),(2,1)],[(1,0),(2,0),(1,1),(2,1)],[(1,0),(2,0),(1,1),(2,1)],[(1,0),(2,0),(1,1),(2,1)]],
     [[(1,0),(0,1),(1,1),(2,1)],[(1,0),(1,1),(2,1),(1,2)],[(0,1),(1,1),(2,1),(1,2)],[(1,0),(0,1),(1,1),(1,2)]],
     [[(1,0),(2,0),(0,1),(1,1)],[(1,0),(1,1),(2,1),(2,2)],[(1,1),(2,1),(0,2),(1,2)],[(0,0),(0,1),(1,1),(1,2)]],
     [[(0,0),(1,0),(1,1),(2,1)],[(2,0),(1,1),(2,1),(1,2)],[(0,1),(1,1),(1,2),(2,2)],[(1,0),(0,1),(1,1),(0,2)]],
     [[(0,0),(0,1),(1,1),(2,1)],[(1,0),(2,0),(1,1),(1,2)],[(0,1),(1,1),(2,1),(2,2)],[(1,0),(1,1),(0,2),(1,2)]],
     [[(2,0),(0,1),(1,1),(2,1)],[(1,0),(1,1),(1,2),(2,2)],[(0,1),(1,1),(2,1),(0,2)],[(0,0),(1,0),(1,1),(1,2)]]]"

definition PIECE_COLORS :: "u8 list" where
  "PIECE_COLORS = [COL C_LCYAN C_BLACK, COL C_YELLOW C_BLACK, COL C_LMAG C_BLACK, COL C_LGREEN C_BLACK,
     COL C_LRED C_BLACK, COL C_LBLUE C_BLACK, COL C_BROWN C_BLACK]"

type_synonym board = "u8 list list"

record tet = kbd +
  tet_board :: board
  tet_score :: int
  tet_lines :: int
  tet_level :: int
  tet_px :: int
  tet_py :: int
  tet_rot :: nat
  tet_piece :: nat
  tet_next :: nat
  tet_rng_seed :: u32

definition tet_rand :: "'a tet_scheme \<Rightarrow> nat \<times> 'a tet_scheme" where
  "tet_rand st =
     (let seed = tet_rng_seed st * 1103515245 + 12345
      in (unat (drop_bit 16 seed AND 7), st\<lparr>tet_rng_seed := seed\<rparr>))"

text \<open>The four squares of a piece at a position.\<close>

definition squares :: "int \<Rightarrow> int \<Rightarrow> nat \<Rightarrow> nat \<Rightarrow> (int \<times> int) list" where
  "squares px py rot piece = map (\<lambda>(dx, dy). (px + dx, py + dy)) (PIECES ! piece ! rot)"

definition free_at :: "board \<Rightarrow> int \<times> int \<Rightarrow> bool" where
  "free_at b = (\<lambda>(x, y).
     \<not> (x < 0 \<or> x \<ge> TET_W \<or> y \<ge> TET_H) \<and> \<not> (y \<ge> 0 \<and> b ! nat y ! nat x \<noteq> 0))"

definition tet_valid :: "int \<Rightarrow> int \<Rightarrow> nat \<Rightarrow> nat \<Rightarrow> board \<Rightarrow> bool" where
  "tet_valid px py rot piece b = list_all (free_at b) (squares px py rot piece)"

definition set_cell :: "u8 \<Rightarrow> int \<times> int \<Rightarrow> board \<Rightarrow> board" where
  "set_cell v = (\<lambda>(x, y) b.
     if y \<ge> 0 \<and> y < TET_H \<and> x \<ge> 0 \<and> x < TET_W then b[nat y := (b ! nat y)[nat x := v]] else b)"

definition tet_place :: "'a tet_scheme \<Rightarrow> 'a tet_scheme" where
  "tet_place st =
     st\<lparr>tet_board := fold (set_cell (of_nat (tet_piece st + 1)))
        (squares (tet_px st) (tet_py st) (tet_rot st) (tet_piece st)) (tet_board st)\<rparr>"

subsection \<open>Clearing lines\<close>

definition full_row :: "board \<Rightarrow> nat \<Rightarrow> bool" where
  "full_row b r = list_all (\<lambda>c. b ! r ! c \<noteq> 0) [0 ..< 10]"

definition copy_down_row :: "nat \<Rightarrow> board \<Rightarrow> board" where
  "copy_down_row rr b = fold (\<lambda>c b. b[rr := (b ! rr)[c := b ! (rr - 1) ! c]]) [0 ..< 10] b"

definition clear_top :: "board \<Rightarrow> board" where
  "clear_top b = fold (\<lambda>c b. b[0 := (b ! 0)[c := 0]]) [0 ..< 10] b"

text \<open>The two inner loops of \<open>tet_clear_lines\<close>: every row from \<open>r\<close> up is replaced by the one above.\<close>

definition drop_row :: "nat \<Rightarrow> board \<Rightarrow> board" where
  "drop_row r b = clear_top (fold copy_down_row (rev [1 ..< Suc r]) b)"

text \<open>The outer loop with its \<open>r++\<close> that looks at the same row again; the first argument is
  \<open>r + 1\<close>, the second a bound on the number of iterations.\<close>

fun clear_loop :: "nat \<Rightarrow> nat \<Rightarrow> nat \<Rightarrow> board \<Rightarrow> (nat \<times> board) option" where
  "clear_loop fuel 0 cleared b = Some (cleared, b)"
| "clear_loop 0 (Suc r) cleared b = None"
| "clear_loop (Suc fuel) (Suc r) cleared b =
     (if full_row b r then clear_loop fuel (Suc r) (cleared + 1) (drop_row r b)
      else clear_loop fuel r cleared b)"

definition tet_clear_lines :: "board \<Rightarrow> (nat \<times> board) option" where
  "tet_clear_lines b = clear_loop 40 20 0 b"

subsection \<open>Drawing\<close>

definition draw_border :: "vga \<Rightarrow> vga" where
  "draw_border =
     (let bc = COL C_WHITE C_BLACK in
      seqs [vat CH_TL bc (TET_OX - 1) (TET_OY - 1),
            fold (\<lambda>c. vat CH_H bc (TET_OX + c) (TET_OY - 1)) [0 .. TET_W - 1],
            vat CH_TR bc (TET_OX + TET_W) (TET_OY - 1),
            fold (\<lambda>r. seqs [vat CH_V bc (TET_OX - 1) (TET_OY + r),
                            vat CH_V bc (TET_OX + TET_W) (TET_OY + r)]) [0 .. TET_H - 1],
            vat CH_BL bc (TET_OX - 1) (TET_OY + TET_H),
            fold (\<lambda>c. vat CH_H bc (TET_OX + c) (TET_OY + TET_H)) [0 .. TET_W - 1],
            vat CH_BR bc (TET_OX + TET_W) (TET_OY + TET_H)])"

text \<open>A cell of the board: the read of \<open>PIECE_COLORS\<close> is in bounds for the values 1 to 7.\<close>

definition draw_cell :: "board \<Rightarrow> nat \<Rightarrow> nat \<Rightarrow> vga \<Rightarrow> vga option" where
  "draw_cell b r c v =
     (let k = unat (b ! r ! c); x = TET_OX + int c; y = TET_OY + int r in
      if k = 0 then Some (vat CHR ''.'' (COL C_DGREY C_BLACK) x y v)
      else if k - 1 < 7 then Some (vat CH_BLOCK (PIECE_COLORS ! (k - 1)) x y v)
      else None)"

definition draw_cells :: "board \<Rightarrow> vga \<Rightarrow> vga option" where
  "draw_cells b = ofold (\<lambda>r. ofold (draw_cell b r) [0 ..< 10]) [0 ..< 20]"

definition draw_piece :: "'a tet_scheme \<Rightarrow> vga \<Rightarrow> vga" where
  "draw_piece st =
     fold (\<lambda>(x, y). if y \<ge> 0 then vat CH_BLOCK (PIECE_COLORS ! tet_piece st) (TET_OX + x) (TET_OY + y)
                    else id)
       (squares (tet_px st) (tet_py st) (tet_rot st) (tet_piece st))"

definition draw_number :: "int \<Rightarrow> int \<Rightarrow> vga \<Rightarrow> vga option" where
  "draw_number n y v = do {
     k \<leftarrow> kia n;
     sb \<leftarrow> fits 16 k;
     Some (vstr (TET_OX + TET_W + 3) y (COL C_LGREEN C_BLACK) sb v) }"

definition draw_sidebar :: "'a tet_scheme \<Rightarrow> vga \<Rightarrow> vga option" where
  "draw_sidebar st v = do {
     let sx = TET_OX + TET_W + 3;
     let v = seqs [vset C_YELLOW C_BLACK, vstr sx TET_OY (COL C_YELLOW C_BLACK) ''TETRIS'',
                   vstr sx (TET_OY + 1) (COL C_DGREY C_BLACK) ''------'',
                   vstr sx (TET_OY + 3) (COL C_WHITE C_BLACK) ''Score:''] v;
     v \<leftarrow> draw_number (tet_score st) (TET_OY + 4) v;
     let v = vstr sx (TET_OY + 6) (COL C_WHITE C_BLACK) ''Lines:'' v;
     v \<leftarrow> draw_number (tet_lines st) (TET_OY + 7) v;
     let v = vstr sx (TET_OY + 9) (COL C_WHITE C_BLACK) ''Level:'' v;
     v \<leftarrow> draw_number (tet_level st) (TET_OY + 10) v;
     Some (seqs [vstr sx (TET_OY + 12) (COL C_LCYAN C_BLACK) ''Next:'',
        fold (\<lambda>r. fold (\<lambda>c. vat CHR '' '' (COL C_BLACK C_BLACK) (sx + c) (TET_OY + 13 + r)) [0 .. 5]) [0 .. 3],
        fold (\<lambda>(x, y). if x \<ge> 0 \<and> x < 6 \<and> y \<ge> 0 \<and> y < 4
                then vat CH_BLOCK (PIECE_COLORS ! tet_next st) (sx + x) (TET_OY + 13 + y) else id)
          (PIECES ! tet_next st ! 0),
        vstr sx (TET_OY + 17) (COL C_LGREY C_BLACK) ''Controls:'',
        vstr sx (TET_OY + 18) (COL C_LGREY C_BLACK) ''WASD/Arrow'',
        vstr sx (TET_OY + 19) (COL C_LGREY C_BLACK) ''Q=quit'',
        vrst] v) }"

definition tet_draw_board :: "'a tet_scheme \<Rightarrow> 'a tet_scheme option" where
  "tet_draw_board st = do {
     v \<leftarrow> draw_cells (tet_board st) (draw_border (con st));
     v \<leftarrow> draw_sidebar st (draw_piece st v);
     Some (pr (\<lambda>_. v) st) }"

subsection \<open>The game loop\<close>

text \<open>The loop of the hard drop.\<close>

function hard_drop :: "int \<Rightarrow> int \<Rightarrow> nat \<Rightarrow> nat \<Rightarrow> board \<Rightarrow> int" where
  "hard_drop px ny rot piece b =
     (if ny < TET_H \<and> tet_valid px (ny + 1) rot piece b then hard_drop px (ny + 1) rot piece b else ny)"
  by pat_completeness auto
termination
  by (relation "measure (\<lambda>(px, ny, rot, piece, b). nat (20 - ny))") auto

declare hard_drop.simps [simp del]

text \<open>The block at the label \<open>tet_lock\<close> up to the choice of the next piece, with the new drop speed.\<close>

definition tet_lock :: "'a tet_scheme \<Rightarrow> (int \<times> 'a tet_scheme) option" where
  "tet_lock st = do {
     let st = tet_place st;
     (k, b) \<leftarrow> tet_clear_lines (tet_board st);
     let cl = int k;
     let st = st\<lparr>tet_board := b\<rparr>;
     ls \<leftarrow> chk32 (tet_lines st + cl);
     gain \<leftarrow> chk32 (cl * cl * 100 * tet_level st);
     sc \<leftarrow> chk32 (tet_score st + gain);
     let level = 1 + c_div ls 10;
     let st = st\<lparr>tet_lines := ls, tet_score := sc, tet_level := level\<rparr>;
     let speed = 40 - level * 3;
     let (r, st) = tet_rand (st\<lparr>tet_piece := tet_next st\<rparr>);
     Some (if speed < 4 then 4 else speed,
       st\<lparr>tet_next := r mod 7, tet_px := 4, tet_py := 0, tet_rot := 0\<rparr>) }"

text \<open>The state of a game after a frame: still playing, with the drop timer and the drop speed; over,
  with the message on the screen and the program waiting for a key; or given up.\<close>

datatype 's game = Playing int int 's | Over 's | Quit 's

definition game_over :: "vga \<Rightarrow> vga" where
  "game_over = seqs [vset C_LRED C_BLACK,
     vstr TET_OX (TET_OY + c_div TET_H 2) (COL C_WHITE C_LRED) '' GAME OVER '', vrst]"

definition lock_and_draw :: "int \<Rightarrow> 'a tet_scheme \<Rightarrow> 'a tet_scheme game option" where
  "lock_and_draw timer st = do {
     (speed, st) \<leftarrow> tet_lock st;
     st' \<leftarrow> tet_draw_board st;
     if \<not> tet_valid (tet_px st) (tet_py st) (tet_rot st) (tet_piece st) (tet_board st)
     then Some (Over (pr game_over st')) else Some (Playing timer speed st') }"

text \<open>The three guarded moves for a key.\<close>

definition tet_move :: "int \<Rightarrow> 'a tet_scheme \<Rightarrow> 'a tet_scheme" where
  "tet_move c st =
     (let nx = tet_px st - (if c = 97 \<or> c = KEY_LEFT then 1 else 0)
               + (if c = 100 \<or> c = KEY_RIGHT then 1 else 0);
          nr = (if c = 119 \<or> c = KEY_UP then (tet_rot st + 1) mod 4 else tet_rot st);
          ny = tet_py st + (if c = 115 \<or> c = KEY_DOWN then 1 else 0);
          st = (if nx \<noteq> tet_px st \<and> tet_valid nx (tet_py st) (tet_rot st) (tet_piece st) (tet_board st)
                then st\<lparr>tet_px := nx\<rparr> else st);
          st = (if nr \<noteq> tet_rot st \<and> tet_valid (tet_px st) (tet_py st) nr (tet_piece st) (tet_board st)
                then st\<lparr>tet_rot := nr\<rparr> else st)
      in if ny \<noteq> tet_py st \<and> tet_valid (tet_px st) ny (tet_rot st) (tet_piece st) (tet_board st)
         then st\<lparr>tet_py := ny\<rparr> else st)"

text \<open>The automatic drop and the drawing at the end of an iteration.\<close>

definition tet_tick :: "int \<Rightarrow> int \<Rightarrow> 'a tet_scheme \<Rightarrow> 'a tet_scheme game option" where
  "tet_tick timer speed st =
     (let timer = timer + 1 in
      if timer \<ge> speed then
        (if tet_valid (tet_px st) (tet_py st + 1) (tet_rot st) (tet_piece st) (tet_board st)
         then map_option (Playing 0 speed) (tet_draw_board (st\<lparr>tet_py := tet_py st + 1\<rparr>))
         else lock_and_draw 0 st)
      else map_option (Playing timer speed) (tet_draw_board st))"

text \<open>An iteration of \<open>while(1)\<close>: \<open>p1\<close> is what the poll of \<open>kb_avail\<close> reads and \<open>p2\<close> what the first
  poll of \<open>kb_get\<close> reads; a key is there already, so that poll ends its wait.\<close>

definition tet_frame ::
    "(u8 \<times> u8) list \<times> (u8 \<times> u8) list \<Rightarrow> int \<Rightarrow> int \<Rightarrow> 'a tet_scheme \<Rightarrow> 'a tet_scheme game option" where
  "tet_frame = (\<lambda>(p1, p2) timer speed st.
     let (avail, st) = kb_avail p1 st in
     if avail then do {
       (c, st) \<leftarrow> kb_get [p2] st;
       if c = 113 \<or> c = 27 then Some (Quit st)
       else if c = 32 then
         lock_and_draw timer (st\<lparr>tet_py := hard_drop (tet_px st) (tet_py st) (tet_rot st) (tet_piece st) (tet_board st)\<rparr>)
       else tet_tick timer speed (tet_move c st) }
     else tet_tick timer speed st)"

fun tet_run ::
    "((u8 \<times> u8) list \<times> (u8 \<times> u8) list) list \<Rightarrow> int \<Rightarrow> int \<Rightarrow> 'a tet_scheme \<Rightarrow> 'a tet_scheme game option" where
  "tet_run [] timer speed st = Some (Playing timer speed st)"
| "tet_run (p # ps) timer speed st =
     Option.bind (tet_frame p timer speed st)
       (\<lambda>g. case g of Playing timer speed st \<Rightarrow> tet_run ps timer speed st | _ \<Rightarrow> Some g)"

definition tet_start :: "'a tet_scheme \<Rightarrow> 'a tet_scheme" where
  "tet_start st =
     (let st = pr vclear st;
          st = st\<lparr>tet_board := replicate 20 (replicate 10 0), tet_score := 0, tet_lines := 0, tet_level := 1\<rparr>;
          (r, st) = tet_rand st; st = st\<lparr>tet_piece := r mod 7\<rparr>;
          (r, st) = tet_rand st; st = st\<lparr>tet_next := r mod 7\<rparr>
      in st\<lparr>tet_px := 4, tet_py := 0, tet_rot := 0, tet_rng_seed := 12345\<rparr>)"

definition tet_done :: "'a tet_scheme \<Rightarrow> 'a tet_scheme option" where
  "tet_done st = do {
     let st = pr (seqs [vclear, vset C_YELLOW C_BLACK, vps ''Tetris done! Score: '']) st;
     k \<leftarrow> kia (tet_score st); sb \<leftarrow> fits 16 k;
     let st = pr (seqs [vps sb, vps ''  Lines: '']) st;
     k \<leftarrow> kia (tet_lines st); sb \<leftarrow> fits 16 k;
     let st = pr (seqs [vps sb, vps ''  Level: '']) st;
     k \<leftarrow> kia (tet_level st); sb \<leftarrow> fits 16 k;
     Some (pr (seqs [vpln sb, vrst]) st) }"

text \<open>The command: \<open>Inl\<close> a game that goes on (or waits for the key after its end) when the inputs
  stop, \<open>Inr\<close> the state it returns with.\<close>

definition cmd_tetris ::
    "((u8 \<times> u8) list \<times> (u8 \<times> u8) list) list \<Rightarrow> (u8 \<times> u8) list list \<Rightarrow> 'a tet_scheme \<Rightarrow>
     ('a tet_scheme game + 'a tet_scheme) option" where
  "cmd_tetris frames wait st = do {
     g \<leftarrow> tet_run frames 0 40 (tet_start st);
     case g of
       Playing _ _ _ \<Rightarrow> Some (Inl g)
     | Quit st \<Rightarrow> map_option Inr (tet_done st)
     | Over st \<Rightarrow> (case kb_get wait st of None \<Rightarrow> Some (Inl g)
                  | Some (_, st) \<Rightarrow> map_option Inr (tet_done st)) }"


section \<open>Clearing full lines\<close>

abbreviation blank_row :: "u8 list" where "blank_row \<equiv> replicate 10 0"

definition shape :: "board \<Rightarrow> bool" where
  "shape b \<longleftrightarrow> length b = 20 \<and> (\<forall>rw \<in> set b. length rw = 10)"

definition row_full :: "u8 list \<Rightarrow> bool" where
  "row_full rw \<longleftrightarrow> 0 \<notin> set rw"

lemma shape_row: "shape b \<Longrightarrow> r < 20 \<Longrightarrow> length (b ! r) = 10"
  by (simp add: shape_def)

lemma full_row_eq: "shape b \<Longrightarrow> r < 20 \<Longrightarrow> full_row b r = row_full (b ! r)"
  using shape_row[of b r] by (auto simp: full_row_def row_full_def list_all_iff in_set_conv_nth)

text \<open>A loop that copies the cells of one row into another.\<close>

lemma fold_copy_cells:
  assumes "rr < length b" "rs < length b" "rr \<noteq> rs" "length (b ! rr) = 10" "n \<le> 10"
  shows "fold (\<lambda>c b. b[rr := (b ! rr)[c := b ! rs ! c]]) [0 ..< n] b =
    b[rr := take n (map (\<lambda>c. b ! rs ! c) [0 ..< 10]) @ drop n (b ! rr)]"
  using assms(5)
proof (induction n)
  case 0
  then show ?case by simp
next
  case (Suc n)
  then have n: "n < 10" by simp
  have "(take n (map (\<lambda>c. b ! rs ! c) [0 ..< 10]) @ drop n (b ! rr))[n := b ! rs ! n] =
      take (Suc n) (map (\<lambda>c. b ! rs ! c) [0 ..< 10]) @ drop (Suc n) (b ! rr)"
    using n assms(4) by (simp add: take_Suc_conv_app_nth list_update_append Cons_nth_drop_Suc [symmetric])
  then show ?case
    using Suc assms(1-3) n by simp
qed

lemma copy_down_row_eq:
  assumes "shape b" "0 < rr" "rr < 20"
  shows "copy_down_row rr b = b[rr := b ! (rr - 1)]"
proof -
  have "map (\<lambda>c. b ! (rr - 1) ! c) [0 ..< 10] = b ! (rr - 1)"
    using shape_row[of b "rr - 1"] assms by (metis less_imp_diff_less map_nth)
  then show ?thesis
    unfolding copy_down_row_def
    using fold_copy_cells[of rr b "rr - 1" 10] assms shape_row[of b rr] by (auto simp: shape_def)
qed

lemma clear_top_eq:
  assumes "b \<noteq> []" "length (b ! 0) = 10"
  shows "clear_top b = b[0 := blank_row]"
proof -
  have "fold (\<lambda>c b. b[0 := (b ! 0)[c := 0]]) [0 ..< n] b = b[0 := replicate n 0 @ drop n (b ! 0)]" if "n \<le> 10" for n
    using that
  proof (induction n)
    case (Suc n)
    have "(replicate n 0 @ drop n (b ! 0))[n := 0] = replicate (Suc n) 0 @ drop (Suc n) (b ! 0)"
      using Suc.prems assms(2)
      by (simp add: list_update_append Cons_nth_drop_Suc [symmetric] replicate_append_same)
    then show ?case using Suc assms(1) by simp
  qed simp
  then show ?thesis using assms(2) by (simp add: clear_top_def)
qed

lemma shape_update [inv_intros]: "shape b \<Longrightarrow> length rw = 10 \<Longrightarrow> shape (b[r := rw])"
  by (auto simp: shape_def dest!: set_update_subset_insert[THEN subsetD])

lemma drop_row_eq:
  assumes "shape b" "r < 20"
  shows "drop_row r b = blank_row # take r b @ drop (Suc r) b"
proof -
  have "fold copy_down_row (rev [1 ..< Suc k]) b = b ! 0 # take k b @ drop (Suc k) b"
    if "shape b" "k < 20" for k b
    using that
  proof (induction k arbitrary: b)
    case 0
    then show ?case by (cases b) (auto simp: shape_def)
  next
    case (Suc k)
    let ?b = "b[Suc k := b ! k]"
    have "shape ?b" using Suc.prems shape_row[of b k] by (intro shape_update) auto
    moreover have "copy_down_row (Suc k) b = ?b"
      using copy_down_row_eq[of b "Suc k"] Suc.prems by simp
    ultimately have "fold copy_down_row (rev [1 ..< Suc (Suc k)]) b = ?b ! 0 # take k ?b @ drop (Suc k) ?b"
      using Suc.IH[of ?b] Suc.prems(2) by simp
    also have "\<dots> = b ! 0 # take (Suc k) b @ drop (Suc (Suc k)) b"
      using Suc.prems by (auto simp: shape_def take_Suc_conv_app_nth Cons_nth_drop_Suc [symmetric])
    finally show ?case .
  qed
  from this[OF assms] show ?thesis
    using assms shape_row[of b 0] by (simp add: drop_row_def clear_top_eq)
qed

lemma shape_drop_row: "shape b \<Longrightarrow> r < 20 \<Longrightarrow> shape (drop_row r b)"
  by (auto simp: drop_row_eq) (auto simp: shape_def dest: in_set_takeD in_set_dropD)

lemma not_full_blank [simp]: "\<not> row_full blank_row"
  by (simp add: row_full_def)

text \<open>The outer loop: with fuel for every row and every full row of the part it still has to look
  at, it stacks the rows that are not full and puts blank ones on top.\<close>

lemma clear_loop_correct:
  assumes "shape b" "n \<le> 20" "n + length (filter row_full (take n b)) \<le> fuel"
  shows "clear_loop fuel n cl b =
    (let k = length (filter row_full (take n b)) in
     Some (cl + k, replicate k blank_row @ filter (\<lambda>r. \<not> row_full r) (take n b) @ drop n b))"
  using assms
proof (induction fuel n cl b rule: clear_loop.induct)
  case (3 fuel r cl b)
  have len: "r < length b" using 3(3,4) by (simp add: shape_def)
  have tk: "take (Suc r) b = take r b @ [b ! r]" by (rule take_Suc_conv_app_nth[OF len])
  show ?case
  proof (cases "row_full (b ! r)")
    case True
    let ?b = "drop_row r b"
    have b: "?b = blank_row # take r b @ drop (Suc r) b" by (rule drop_row_eq) (use 3 in auto)
    have lr: "length (take r b) = r" using len by simp
    have t: "take (Suc r) ?b = blank_row # take r b" "drop (Suc r) ?b = drop (Suc r) b"
      unfolding b using lr by simp_all
    have "clear_loop fuel (Suc r) (cl + 1) ?b =
        (let k = length (filter row_full (take (Suc r) ?b)) in
         Some (cl + 1 + k, replicate k blank_row @ filter (\<lambda>r. \<not> row_full r) (take (Suc r) ?b) @ drop (Suc r) ?b))"
      by (rule 3(1)) (use 3(3-5) True in \<open>auto simp: full_row_eq shape_drop_row t tk\<close>)
    then show ?thesis
      using 3(3,4) True by (simp add: full_row_eq t tk Let_def replicate_app_Cons_same)
  next
    case False
    have d: "drop r b = b ! r # drop (Suc r) b" using len by (simp add: Cons_nth_drop_Suc)
    have "clear_loop fuel r cl b =
        (let k = length (filter row_full (take r b)) in
         Some (cl + k, replicate k blank_row @ filter (\<lambda>r. \<not> row_full r) (take r b) @ drop r b))"
      by (rule 3(2)) (use 3(3-5) False in \<open>auto simp: full_row_eq tk\<close>)
    then show ?thesis
      using 3(3,4) False by (simp add: full_row_eq tk d Let_def)
  qed
qed auto

lemma clear_lines_eq:
  assumes "shape b"
  shows "tet_clear_lines b =
    (let k = length (filter row_full b) in
     Some (k, replicate k blank_row @ filter (\<lambda>r. \<not> row_full r) b))"
proof -
  have "length b = 20" using assms by (simp add: shape_def)
  moreover from this have "length (filter row_full b) \<le> 20" by (metis length_filter_le)
  ultimately show ?thesis
    unfolding tet_clear_lines_def using clear_loop_correct[OF assms, of 20 40 0] by simp
qed


section \<open>The cells of the board\<close>

definition occ :: "board \<Rightarrow> (int \<times> int) set" where
  "occ b = {(x, y). 0 \<le> x \<and> x < 10 \<and> 0 \<le> y \<and> y < 20 \<and> b ! nat y ! nat x \<noteq> 0}"

definition colours_ok :: "board \<Rightarrow> bool" where
  "colours_ok b \<longleftrightarrow> (\<forall>rw \<in> set b. \<forall>v \<in> set rw. unat v \<le> 7)"

lemma occ_subset: "occ b \<subseteq> {0..9} \<times> {0..19}"
  by (auto simp: occ_def)

lemma finite_occ [simp]: "finite (occ b)"
  by (rule finite_subset[OF occ_subset]) simp

lemma card_occ_le: "card (occ b) \<le> 200"
  using card_mono[OF _ occ_subset, of b] by simp

definition on_board :: "int \<times> int \<Rightarrow> bool" where
  "on_board = (\<lambda>(x, y). 0 \<le> x \<and> x < 10 \<and> 0 \<le> y \<and> y < 20)"

lemma free_at_iff: "on_board p \<Longrightarrow> free_at b p \<longleftrightarrow> p \<notin> occ b"
  by (auto simp: on_board_def free_at_def occ_def)

lemma shape_set_cell [inv_intros]: "shape b \<Longrightarrow> shape (set_cell v p b)"
  using shape_row by (auto simp: set_cell_def intro!: shape_update split: prod.splits)

lemma colours_set_cell [inv_intros]:
  assumes "shape b" "colours_ok b" "unat v \<le> 7"
  shows "colours_ok (set_cell v p b)"
proof -
  obtain x y where p: "p = (x, y)" by force
  have "unat u \<le> 7" if "rw \<in> set (b[r := (b ! r)[c := v]])" "u \<in> set rw" "r < 20" for rw u r c
  proof (cases "rw \<in> set b")
    case True
    then show ?thesis using that(2) assms(2) by (auto simp: colours_ok_def)
  next
    case False
    then have "rw = (b ! r)[c := v]" using that(1) set_update_subset_insert[of b r] by auto
    then have "u = v \<or> u \<in> set (b ! r)" using that(2) set_update_subset_insert[of "b ! r" c v] by auto
    moreover have "b ! r \<in> set b" using that(3) assms(1) by (simp add: shape_def)
    ultimately show ?thesis using assms(2,3) by (auto simp: colours_ok_def)
  qed
  then show ?thesis
    using assms(2) by (auto simp: set_cell_def p colours_ok_def)
qed

lemma occ_set_cell:
  assumes "shape b" "v \<noteq> 0" "on_board p"
  shows "occ (set_cell v p b) = insert p (occ b)"
proof -
  obtain x y where p: "p = (x, y)" by force
  have "nat y < length b" "nat x < length (b ! nat y)"
    using assms(1,3) shape_row[of b "nat y"] by (auto simp: p on_board_def shape_def)
  then show ?thesis
    using assms(2,3)
    by (auto simp: p occ_def set_cell_def on_board_def nth_list_update nat_eq_iff2 split: if_splits)
qed

lemma fold_set_cell:
  assumes "shape b" "colours_ok b" "unat v \<le> 7" "v \<noteq> 0" "list_all on_board ps"
  shows "shape (fold (set_cell v) ps b) \<and> colours_ok (fold (set_cell v) ps b) \<and>
    occ (fold (set_cell v) ps b) = occ b \<union> set ps"
  using assms
proof (induction ps arbitrary: b)
  case (Cons p ps)
  then show ?case
    using Cons.IH[of "set_cell v p b"] shape_set_cell[of b v p] colours_set_cell[of b v p] occ_set_cell[of b v p]
    by auto
qed simp

section \<open>The pieces\<close>

text \<open>The table of pieces: four different squares in a 4 by 4 box, and on rotation 0 in its upper
  half.\<close>

definition piece_ok :: "(int \<times> int) list \<Rightarrow> bool" where
  "piece_ok ps \<longleftrightarrow> length ps = 4 \<and> distinct ps \<and> list_all (\<lambda>(x, y). 0 \<le> x \<and> x \<le> 3 \<and> 0 \<le> y \<and> y \<le> 3) ps"

lemma PIECES_ok:
  "list_all (\<lambda>p. length p = 4 \<and> list_all piece_ok p \<and> list_all (\<lambda>(x, y). y \<le> 1) (p ! 0)) PIECES"
  "length PIECES = 7"
  by (simp_all add: PIECES_def piece_ok_def)

lemma piece_squares:
  assumes "piece < 7" "rot < 4"
  shows "piece_ok (PIECES ! piece ! rot)"
  using PIECES_ok assms by (auto simp: list_all_length)

lemma squares_distinct:
  assumes "piece < 7" "rot < 4"
  shows "distinct (squares px py rot piece)" "length (squares px py rot piece) = 4"
    "\<And>x y. (x, y) \<in> set (squares px py rot piece) \<Longrightarrow> px \<le> x \<and> x \<le> px + 3 \<and> py \<le> y \<and> y \<le> py + 3"
  using piece_squares[OF assms]
  by (auto simp: squares_def piece_ok_def distinct_map inj_on_def list_all_iff)

lemma valid_on_board:
  assumes "tet_valid px py rot piece b" "piece < 7" "rot < 4" "0 \<le> py"
  shows "list_all on_board (squares px py rot piece)" "set (squares px py rot piece) \<inter> occ b = {}"
    "py < 20"
proof -
  let ?s = "squares px py rot piece"
  show *: "list_all on_board ?s"
    using assms(1,4) squares_distinct(3)[OF assms(2,3)]
    by (force simp: tet_valid_def list_all_iff free_at_def on_board_def)
  then show "set ?s \<inter> occ b = {}"
    using assms(1) free_at_iff by (auto simp: tet_valid_def list_all_iff)
  obtain x y where "(x, y) \<in> set ?s"
    using squares_distinct(2)[OF assms(2,3), of px py] by (cases ?s) auto
  then show "py < 20"
    using * squares_distinct(3)[OF assms(2,3)] by (force simp: list_all_iff on_board_def)
qed

text \<open>The guard on \<open>ny\<close> in the model of the hard drop is implied by the loop's own test.\<close>

lemma not_valid_below:
  assumes "piece < 7" "rot < 4" "20 \<le> py"
  shows "\<not> tet_valid px py rot piece b"
proof
  assume v: "tet_valid px py rot piece b"
  obtain x y where s: "(x, y) \<in> set (squares px py rot piece)"
    using squares_distinct(2)[OF assms(1,2), of px py] by (cases "squares px py rot piece") auto
  then have "y < 20" using v by (auto simp: tet_valid_def list_all_iff free_at_def)
  then show False using squares_distinct(3)[OF assms(1,2) s] assms(3) by simp
qed

lemma hard_drop_unfold:
  assumes "piece < 7" "rot < 4"
  shows "hard_drop px ny rot piece b =
    (if tet_valid px (ny + 1) rot piece b then hard_drop px (ny + 1) rot piece b else ny)"
  using not_valid_below[OF assms, of "ny + 1"] by (subst hard_drop.simps) auto

text \<open>The hard drop ends at the lowest position the piece can reach going straight down.\<close>

lemma hard_drop_valid:
  assumes "piece < 7" "rot < 4" "tet_valid px ny rot piece b"
  shows "tet_valid px (hard_drop px ny rot piece b) rot piece b \<and> ny \<le> hard_drop px ny rot piece b \<and>
    \<not> tet_valid px (hard_drop px ny rot piece b + 1) rot piece b"
  using assms
proof (induction px ny rot piece b rule: hard_drop.induct)
  case (1 px ny rot piece b)
  then show ?case
    using hard_drop_unfold[of piece rot px ny b] not_valid_below[of piece rot "ny + 1" px b]
    by (cases "tet_valid px (ny + 1) rot piece b") force+
qed


section \<open>The invariant of the game\<close>

definition tables_in_range :: "'a tet_scheme \<Rightarrow> bool" where
  "tables_in_range st \<longleftrightarrow> shape (tet_board st) \<and> colours_ok (tet_board st) \<and>
     tet_piece st < 7 \<and> tet_next st < 7 \<and> tet_rot st < 4 \<and> 0 \<le> tet_py st \<and>
     0 \<le> tet_lines st \<and> i32 (tet_lines st) \<and> 0 \<le> tet_score st \<and> i32 (tet_score st) \<and>
     tet_level st = 1 + tet_lines st div 10"

definition tet_ok :: "'a tet_scheme \<Rightarrow> bool" where
  "tet_ok st \<longleftrightarrow> tables_in_range st \<and> filter row_full (tet_board st) = [] \<and>
     tet_valid (tet_px st) (tet_py st) (tet_rot st) (tet_piece st) (tet_board st)"

lemma ofold_total:
  assumes "\<And>x s. x \<in> set xs \<Longrightarrow> \<exists>s'. f x s = Some s'"
  shows "\<exists>s'. ofold f xs s = Some s'"
  using assms
proof (induction xs arbitrary: s)
  case (Cons x xs)
  obtain s' where "f x s = Some s'" using Cons.prems[of x s] by auto
  then show ?case using Cons.IH[of s'] Cons.prems by simp
qed simp

lemma bind_total:
  "\<exists>y. f = Some y \<Longrightarrow> (\<And>y. \<exists>z. g y = Some z) \<Longrightarrow> \<exists>z. Option.bind f g = Some z"
  by auto

lemma draw_cells_defined:
  assumes "shape b" "colours_ok b"
  shows "\<exists>v'. draw_cells b v = Some v'"
proof -
  have "\<exists>v'. draw_cell b r c v = Some v'" if "r < 20" "c < 10" for r c v
  proof -
    have "b ! r \<in> set b" "b ! r ! c \<in> set (b ! r)"
      using that assms(1) shape_row[of b r] by (auto simp: shape_def)
    then have "unat (b ! r ! c) \<le> 7" using assms(2) by (auto simp: colours_ok_def)
    then show ?thesis by (auto simp: draw_cell_def Let_def)
  qed
  then show ?thesis
    unfolding draw_cells_def by (intro ofold_total) auto
qed

lemma draw_number_defined: "i32 n \<Longrightarrow> 0 \<le> n \<Longrightarrow> \<exists>v'. draw_number n y v = Some v'"
  using kia_str_length[of n] by (auto simp: draw_number_def kia_def i32_def)

lemma draw_board_defined:
  assumes "tables_in_range st"
  shows "\<exists>f. tet_draw_board st = Some (pr f st)"
proof -
  have l: "i32 (tet_level st)" "0 \<le> tet_level st"
    using assms by (auto simp: tables_in_range_def i32_def)
  have n: "\<exists>v'. draw_number (tet_level st) y v = Some v'" "\<exists>v'. draw_number (tet_score st) y v = Some v'"
    "\<exists>v'. draw_number (tet_lines st) y v = Some v'" for y v
    using assms draw_number_defined l by (auto simp: tables_in_range_def)
  have "\<exists>v'. draw_sidebar st v = Some v'" for v
    unfolding draw_sidebar_def Let_def using n by (intro bind_total) auto
  moreover obtain v where "draw_cells (tet_board st) (draw_border (con st)) = Some v"
    using draw_cells_defined[of "tet_board st"] assms by (auto simp: tables_in_range_def)
  ultimately obtain v' where "tet_draw_board st = Some (pr (\<lambda>_. v') st)"
    unfolding tet_draw_board_def by (metis bind.bind_lunit)
  then show ?thesis by blast
qed

lemma row_full_occ:
  assumes "shape b" "r < 20"
  shows "row_full (b ! r) \<longleftrightarrow> (\<forall>x \<in> {0..9}. (x, int r) \<in> occ b)"
proof -
  have "row_full (b ! r) \<longleftrightarrow> (\<forall>c < 10. b ! r ! c \<noteq> 0)"
    using shape_row[OF assms] by (auto simp: row_full_def in_set_conv_nth)
  also have "\<dots> \<longleftrightarrow> (\<forall>x \<in> {0..9}. (x, int r) \<in> occ b)"
  proof
    assume "\<forall>c < 10. b ! r ! c \<noteq> 0"
    then show "\<forall>x \<in> {0..9}. (x, int r) \<in> occ b" using assms(2) by (auto simp: occ_def)
  next
    assume *: "\<forall>x \<in> {0..9}. (x, int r) \<in> occ b"
    show "\<forall>c < 10. b ! r ! c \<noteq> 0"
    proof (intro allI impI)
      fix c :: nat
      assume "c < 10"
      then show "b ! r ! c \<noteq> 0" using *[rule_format, of "int c"] by (simp add: occ_def)
    qed
  qed
  finally show ?thesis .
qed

text \<open>Placing a piece fills four free cells, and so at most four rows.\<close>

lemma tet_place_board:
  assumes "tet_ok st"
  defines "b \<equiv> tet_board (tet_place st)"
    and "sq \<equiv> squares (tet_px st) (tet_py st) (tet_rot st) (tet_piece st)"
  shows "shape b" "colours_ok b" "occ b = occ (tet_board st) \<union> set sq" "card (occ b) = card (occ (tet_board st)) + 4"
    "length (filter row_full b) \<le> 4"
proof -
  have r: "tet_piece st < 7" "tet_rot st < 4" "0 \<le> tet_py st" "shape (tet_board st)" "colours_ok (tet_board st)"
    and v: "tet_valid (tet_px st) (tet_py st) (tet_rot st) (tet_piece st) (tet_board st)"
    and nf: "filter row_full (tet_board st) = []"
    using assms(1) by (auto simp: tet_ok_def tables_in_range_def)
  note vb = valid_on_board[OF v r(1-3)] and sd = squares_distinct[OF r(1,2), of "tet_px st" "tet_py st"]
  have u: "unat (of_nat (tet_piece st + 1) :: u8) = tet_piece st + 1"
    using r(1) by (intro unat_of_nat_small) simp
  then have "(of_nat (tet_piece st + 1) :: u8) \<noteq> 0" by (metis add_gr_0 less_numeral_extra(1) not_less0 unsigned_0)
  from fold_set_cell[OF r(4,5) _ this vb(1)] u r(1)
  show sh: "shape b" and "colours_ok b" and oc: "occ b = occ (tet_board st) \<union> set sq"
    by (auto simp: b_def sq_def tet_place_def)
  show "card (occ b) = card (occ (tet_board st)) + 4"
    unfolding oc using vb(2) sd(1,2) by (subst card_Un_disjoint) (auto simp: sq_def distinct_card)
  have "r \<in> nat ` snd ` set sq" if "r < 20" "row_full (b ! r)" for r
  proof (rule ccontr)
    assume "r \<notin> nat ` snd ` set sq"
    then have "\<forall>x. (x, int r) \<notin> set sq" by (force simp: image_iff)
    then have "row_full (tet_board st ! r)"
      using that row_full_occ[OF sh that(1)] row_full_occ[OF r(4) that(1)] oc by auto
    then show False using nf that(1) r(4) by (auto simp: filter_empty_conv shape_def)
  qed
  then have "{i. i < length b \<and> row_full (b ! i)} \<subseteq> nat ` snd ` set sq"
    using sh by (auto simp: shape_def)
  then have "length (filter row_full b) \<le> card (nat ` snd ` set sq)"
    unfolding length_filter_conv_card by (intro card_mono) auto
  also have "\<dots> \<le> card (set sq)" by (metis card_image_le finite_imageI finite_set le_trans)
  also have "\<dots> \<le> 4" using card_length[of sq] sd(2) by (simp add: sq_def)
  finally show "length (filter row_full b) \<le> 4" .
qed


section \<open>Locking a piece\<close>

lemma tet_rand_sel:
  "tet_rand st = (r, st') \<Longrightarrow> st' = st\<lparr>tet_rng_seed := tet_rng_seed st'\<rparr>"
  by (auto simp: tet_rand_def Let_def)

text \<open>What locking does when the counters stay inside \<open>int\<close>.\<close>

lemma tet_lock_spec:
  assumes ok: "tet_ok st" and bd: "tet_lines st + 4 < 2 ^ 31" "tet_score st + 1600 * tet_level st < 2 ^ 31"
  defines "b \<equiv> tet_board (tet_place st)"
  defines "k \<equiv> length (filter row_full b)"
  shows "\<exists>speed st'. tet_lock st = Some (speed, st') \<and> 4 \<le> speed \<and> speed \<le> 37 \<and>
    tables_in_range st' \<and> filter row_full (tet_board st') = [] \<and>
    tet_board st' = replicate k blank_row @ filter (\<lambda>r. \<not> row_full r) b \<and>
    tet_lines st' = tet_lines st + int k \<and>
    tet_score st' = tet_score st + int (k * k) * 100 * tet_level st \<and>
    tet_px st' = 4 \<and> tet_py st' = 0 \<and> tet_rot st' = 0 \<and> tet_piece st' = tet_next st \<and>
    kb_h st' = kb_h st \<and> kb_t st' = kb_t st"
proof -
  note pl = tet_place_board[OF ok, folded b_def]
  let ?b = "replicate k blank_row @ filter (\<lambda>r. \<not> row_full r) b"
  have k4: "k \<le> 4" using pl(5) by (simp add: k_def)
  have kl: "k \<le> length b" by (simp add: k_def)
  have cl: "tet_clear_lines b = Some (k, ?b)"
    using clear_lines_eq[OF pl(1)] by (simp add: Let_def k_def)
  have sh: "shape ?b" "colours_ok ?b" "filter row_full ?b = []"
    using pl(1,2) kl sum_length_filter_compl[of row_full b]
    by (auto simp: shape_def colours_ok_def k_def)
  have r: "tables_in_range st" using ok by (simp add: tet_ok_def)
  then have lv: "0 \<le> tet_lines st" "0 \<le> tet_score st" "tet_level st = 1 + tet_lines st div 10"
    by (auto simp: tables_in_range_def)
  define g where "g = int k * int k * 100 * tet_level st"
  have "g \<le> 4 * 4 * 100 * tet_level st"
    unfolding g_def using k4 lv by (intro mult_right_mono mult_mono) auto
  moreover have "0 \<le> g" using lv by (simp add: g_def)
  ultimately have "i32 (tet_lines st + int k)" "i32 g" "i32 (tet_score st + g)"
    using bd lv(1,2) k4 by (auto simp: i32_def)
  note i = this[unfolded g_def]
  have p: "tet_lines (tet_place st) = tet_lines st" "tet_score (tet_place st) = tet_score st"
    "tet_level (tet_place st) = tet_level st" "tet_next (tet_place st) = tet_next st"
    "kb_h (tet_place st) = kb_h st" "kb_t (tet_place st) = kb_t st"
    by (simp_all add: tet_place_def)
  have d: "c_div (tet_lines st + int k) 10 = (tet_lines st + int k) div 10"
    by (rule c_div_nonneg) (use lv in auto)
  have sp: "4 \<le> (if 40 - (1 + (tet_lines st + int k) div 10) * 3 < 4 then 4 else 40 - (1 + (tet_lines st + int k) div 10) * 3)"
    "(if 40 - (1 + (tet_lines st + int k) div 10) * 3 < 4 then 4 else 40 - (1 + (tet_lines st + int k) div 10) * 3) \<le> 37"
    using lv by auto
  show ?thesis
    using r sh sp lv i pl
    by (simp add: tet_lock_def Let_def cl[unfolded b_def] p d tet_rand_def tables_in_range_def split_beta b_def)
qed


section \<open>One iteration of the game loop\<close>

lemma tet_more:
  assumes "kbd.more st = kbd.more st'"
  shows "tet_board st = tet_board st'" "tet_score st = tet_score st'" "tet_lines st = tet_lines st'"
    "tet_level st = tet_level st'" "tet_px st = tet_px st'" "tet_py st = tet_py st'" "tet_rot st = tet_rot st'"
    "tet_piece st = tet_piece st'" "tet_next st = tet_next st'"
  using assms by (cases st; cases st'; simp)+

lemma in_range_more: "kbd.more st = kbd.more st' \<Longrightarrow> tables_in_range st = tables_in_range st'"
  using tet_more[of st st'] by (simp add: tables_in_range_def)

lemma tet_ok_more: "kbd.more st = kbd.more st' \<Longrightarrow> tet_ok st = tet_ok st'"
  using in_range_more[of st st'] tet_more[of st st'] by (simp add: tet_ok_def)

lemma pr_more [simp]: "kbd.more (pr f st) = kbd.more st"
  by (simp add: pr_def)

definition room_left :: "'a tet_scheme \<Rightarrow> bool" where
  "room_left st \<longleftrightarrow> tet_lines st + 4 < 2 ^ 31 \<and> tet_score st + 1600 * tet_level st < 2 ^ 31"

definition game_ok :: "'a tet_scheme game \<Rightarrow> bool" where
  "game_ok g = (case g of Playing _ _ st \<Rightarrow> tet_ok st | Over st \<Rightarrow> tables_in_range st | Quit st \<Rightarrow> tet_ok st)"

lemma lock_and_draw_ok:
  assumes "tet_ok st" "room_left st"
  shows "\<exists>g. lock_and_draw timer st = Some g \<and> game_ok g"
proof -
  obtain speed st' where l: "tet_lock st = Some (speed, st')" "tables_in_range st'" "filter row_full (tet_board st') = []"
    using tet_lock_spec[OF assms(1)] assms(2) by (auto simp: room_left_def)
  obtain f where "tet_draw_board st' = Some (pr f st')"
    using draw_board_defined[OF l(2)] by blast
  then show ?thesis
    using l tet_ok_more[of "pr f st'" st'] in_range_more[of "pr (seqs [f, game_over]) st'" st']
    by (auto simp: lock_and_draw_def game_ok_def tet_ok_def)
qed

lemma draw_ok:
  assumes "tet_ok st"
  shows "\<exists>g. map_option (Playing t s) (tet_draw_board st) = Some g \<and> game_ok g"
proof -
  obtain f where "tet_draw_board st = Some (pr f st)"
    using draw_board_defined assms by (auto simp: tet_ok_def)
  then show ?thesis using assms tet_ok_more[of "pr f st" st] by (simp add: game_ok_def)
qed

lemma tet_ok_px: "tet_ok st \<Longrightarrow> tet_valid nx (tet_py st) (tet_rot st) (tet_piece st) (tet_board st) \<Longrightarrow> tet_ok (st\<lparr>tet_px := nx\<rparr>)"
  by (simp add: tet_ok_def tables_in_range_def)

lemma tet_ok_rot: "tet_ok st \<Longrightarrow> nr < 4 \<Longrightarrow> tet_valid (tet_px st) (tet_py st) nr (tet_piece st) (tet_board st) \<Longrightarrow>
    tet_ok (st\<lparr>tet_rot := nr\<rparr>)"
  by (simp add: tet_ok_def tables_in_range_def)

lemma tet_ok_py: "tet_ok st \<Longrightarrow> tet_py st \<le> ny \<Longrightarrow> tet_valid (tet_px st) ny (tet_rot st) (tet_piece st) (tet_board st) \<Longrightarrow>
    tet_ok (st\<lparr>tet_py := ny\<rparr>)"
  by (simp add: tet_ok_def tables_in_range_def)

lemma tet_move_ok:
  assumes "tet_ok st"
  shows "tet_ok (tet_move c st)"
proof -
  have r: "tet_rot st < 4" using assms by (simp add: tet_ok_def tables_in_range_def)
  have keep: "tet_ok (if P \<and> tet_valid nx (tet_py s) (tet_rot s) (tet_piece s) (tet_board s) then s\<lparr>tet_px := nx\<rparr> else s)"
    "nr < 4 \<Longrightarrow> tet_ok (if P \<and> tet_valid (tet_px s) (tet_py s) nr (tet_piece s) (tet_board s) then s\<lparr>tet_rot := nr\<rparr> else s)"
    "tet_py s \<le> ny \<Longrightarrow> tet_ok (if P \<and> tet_valid (tet_px s) ny (tet_rot s) (tet_piece s) (tet_board s) then s\<lparr>tet_py := ny\<rparr> else s)"
    if "tet_ok s" for P nx nr ny and s :: "'a tet_scheme"
    using that tet_ok_px[of s nx] tet_ok_rot[of s nr] tet_ok_py[of s ny] by auto
  show ?thesis
    unfolding tet_move_def Let_def using r assms by (intro keep) (auto simp: mod_less_divisor)
qed

lemma room_left_move: "room_left (tet_move c st) = room_left st"
  by (simp add: tet_move_def room_left_def Let_def)

lemma tet_tick_ok:
  assumes "tet_ok st" "room_left st"
  shows "\<exists>g. tet_tick timer speed st = Some g \<and> game_ok g"
  unfolding tet_tick_def Let_def
  using draw_ok[OF assms(1)] lock_and_draw_ok[OF assms] draw_ok[OF tet_ok_py[OF assms(1), of "tet_py st + 1"]]
  by simp

text \<open>A key in the buffer is still there after another poll.\<close>

lemma kb_push_nonempty: "kb_h st \<noteq> kb_t st \<Longrightarrow> kb_h (kb_push c st) \<noteq> kb_t (kb_push c st)"
  by (simp add: kb_push_def Let_def)

lemma ps2_byte_nonempty: "kb_h st \<noteq> kb_t st \<Longrightarrow> kb_h (ps2_byte b st) \<noteq> kb_t (ps2_byte b st)"
  by (cases b) (simp add: ps2_byte_def Let_def kb_push_nonempty split: option.split)

lemma ps2_poll_nonempty: "kb_h st \<noteq> kb_t st \<Longrightarrow> kb_h (ps2_poll p st) \<noteq> kb_t (ps2_poll p st)"
  unfolding ps2_poll_def
  by (rule fold_inv[where I = "\<lambda>st. kb_h st \<noteq> kb_t st"]) (blast dest: ps2_byte_nonempty)

lemma kb_get_now:
  assumes "kb_h st \<noteq> kb_t st"
  shows "\<exists>c st'. kb_get [p] st = Some (c, st') \<and> kbd.more st' = kbd.more st"
  using ps2_poll_nonempty[OF assms, of p] ps2_poll_frame(1)[of p st]
  by (simp add: kb_avail_def Let_def kb_take_def)

lemma tet_frame_ok:
  assumes "tet_ok st" "room_left st"
  shows "\<exists>g. tet_frame p timer speed st = Some g \<and> game_ok g"
proof -
  obtain p1 p2 where p: "p = (p1, p2)" by force
  let ?s = "ps2_poll p1 st"
  have m: "kbd.more ?s = kbd.more st" by (rule ps2_poll_frame)
  have ok: "tet_ok s" "room_left s" if "kbd.more s = kbd.more st" for s
    using that assms tet_ok_more[of s st] tet_more[of s st] by (auto simp: room_left_def)
  show ?thesis
  proof (cases "kb_h ?s \<noteq> kb_t ?s")
    case False
    then show ?thesis
      using tet_tick_ok[OF ok[OF m]] by (simp add: tet_frame_def p kb_avail_def Let_def)
  next
    case True
    obtain c s where g: "kb_get [p2] ?s = Some (c, s)" "kbd.more s = kbd.more ?s"
      using kb_get_now[OF True] by blast
    then have s: "tet_ok s" "room_left s" using ok[of s] m by auto
    let ?ny = "hard_drop (tet_px s) (tet_py s) (tet_rot s) (tet_piece s) (tet_board s)"
    have "tet_piece s < 7" "tet_rot s < 4" "tet_valid (tet_px s) (tet_py s) (tet_rot s) (tet_piece s) (tet_board s)"
      using s(1) by (auto simp: tet_ok_def tables_in_range_def)
    note hd = hard_drop_valid[OF this]
    have d: "tet_ok (s\<lparr>tet_py := ?ny\<rparr>)" "room_left (s\<lparr>tet_py := ?ny\<rparr>)"
      using tet_ok_py[OF s(1), of ?ny] hd s(2) by (auto simp: room_left_def)
    have mv: "tet_ok (tet_move c s)" "room_left (tet_move c s)"
      using s tet_move_ok[of s c] room_left_move[of c s] by auto
    show ?thesis
      using True g(1) s(1) lock_and_draw_ok[OF d] tet_tick_ok[OF mv]
      by (simp add: tet_frame_def p kb_avail_def Let_def game_ok_def)
  qed
qed


section \<open>An unattended game\<close>

text \<open>A game nobody plays: no key is waiting, and the pieces fall where they appear, so that the four
  leftmost columns stay empty and no line is ever cleared.\<close>

definition idle :: "int \<Rightarrow> int \<Rightarrow> 'a tet_scheme \<Rightarrow> bool" where
  "idle timer speed st \<longleftrightarrow> tet_ok st \<and> kb_h st = kb_t st \<and> occ (tet_board st) \<subseteq> {(x, y). 4 \<le> x} \<and>
     tet_lines st = 0 \<and> tet_score st = 0 \<and> tet_px st = 4 \<and> tet_rot st = 0 \<and>
     0 \<le> timer \<and> timer < speed \<and> speed \<le> 40"

definition time_left :: "int \<Rightarrow> 'a tet_scheme \<Rightarrow> nat" where
  "time_left timer st = (200 - card (occ (tet_board st))) * 211 + nat (20 - tet_py st) * 40 + nat (40 - timer)"

lemma no_full_row:
  assumes "shape b" "occ b \<subseteq> {(x, y). 4 \<le> x}"
  shows "filter row_full b = []"
proof -
  have "\<not> row_full (b ! r)" if "r < 20" for r
    using row_full_occ[OF assms(1) that] assms(2) by force
  then show ?thesis
    using assms(1) by (auto simp: filter_empty_conv in_set_conv_nth shape_def)
qed

lemma idle_pr: "idle timer speed (pr f st) = idle timer speed st" "time_left timer (pr f st) = time_left timer st"
  using tet_ok_more[of "pr f st" st] tet_more[of "pr f st" st]
  by (simp_all add: idle_def time_left_def pr_def)

lemma idle_lock:
  assumes "idle timer speed st"
  shows "\<exists>g. lock_and_draw 0 st = Some g \<and>
    (case g of Playing t s st' \<Rightarrow> idle t s st' \<and> time_left t st' < time_left timer st | Over _ \<Rightarrow> True | Quit _ \<Rightarrow> False)"
proof -
  let ?b = "tet_board (tet_place st)"
  have i: "tet_ok st" "tet_lines st = 0" "tet_score st = 0" "kb_h st = kb_t st" "tet_px st = 4" "0 \<le> timer" "timer < 40"
    "occ (tet_board st) \<subseteq> {(x, y). 4 \<le> x}"
    using assms by (auto simp: idle_def)
  have pr: "tet_piece st < 7" "tet_rot st < 4" "0 \<le> tet_py st" "tet_level st = 1"
    using i(1,2) by (auto simp: tet_ok_def tables_in_range_def)
  note pl = tet_place_board[OF i(1)]
  have oc: "occ ?b \<subseteq> {(x, y). 4 \<le> x}"
    using pl(3) i(5,8) squares_distinct(3)[OF pr(1,2)] by fastforce
  have nf: "filter row_full ?b = []" by (rule no_full_row[OF pl(1) oc])
  then have b: "filter (\<lambda>r. \<not> row_full r) ?b = ?b" by (simp add: filter_empty_conv)
  obtain speed' st' where l: "tet_lock st = Some (speed', st')" "4 \<le> speed'" "speed' \<le> 37" "tables_in_range st'"
      "tet_board st' = ?b" "tet_lines st' = 0" "tet_score st' = 0" "tet_px st' = 4" "tet_py st' = 0" "tet_rot st' = 0"
      "kb_h st' = kb_t st'" "filter row_full (tet_board st') = []"
    using tet_lock_spec[OF i(1)] i(2-4) pr(4) nf b by auto
  obtain f where f: "tet_draw_board st' = Some (pr f st')"
    using draw_board_defined[OF l(4)] by blast
  have "200 - card (occ ?b) + 4 = 200 - card (occ (tet_board st))"
    using pl(4) card_occ_le[of ?b] by simp
  then have "(200 - card (occ ?b)) * 211 + 844 = (200 - card (occ (tet_board st))) * 211"
    by linarith
  then have "time_left 0 st' < time_left timer st"
    using l(5,9) i(6,7) by (simp add: time_left_def)
  moreover have "idle 0 speed' st'" if "tet_valid (tet_px st') (tet_py st') (tet_rot st') (tet_piece st') (tet_board st')"
    using that l oc by (auto simp: idle_def tet_ok_def)
  ultimately show ?thesis
    using l(1) f by (simp add: lock_and_draw_def idle_pr)
qed

lemma idle_frame:
  assumes "idle timer speed st"
  shows "\<exists>g. tet_frame ([], []) timer speed st = Some g \<and>
    (case g of Playing t s st' \<Rightarrow> idle t s st' \<and> time_left t st' < time_left timer st | Over _ \<Rightarrow> True | Quit _ \<Rightarrow> False)"
proof -
  have i: "tet_ok st" "kb_h st = kb_t st" "0 \<le> timer" "timer < speed" "speed \<le> 40"
    using assms by (auto simp: idle_def)
  have fr: "tet_frame ([], []) timer speed st = tet_tick timer speed st"
    using i(2) by (simp add: tet_frame_def kb_avail_def ps2_poll_def)
  consider (wait) "timer + 1 < speed"
    | (fall) "speed \<le> timer + 1" "tet_valid (tet_px st) (tet_py st + 1) (tet_rot st) (tet_piece st) (tet_board st)"
    | (lock) "speed \<le> timer + 1" "\<not> tet_valid (tet_px st) (tet_py st + 1) (tet_rot st) (tet_piece st) (tet_board st)"
    by linarith
  then show ?thesis
  proof cases
    case wait
    obtain f where f: "tet_draw_board st = Some (pr f st)"
      using draw_board_defined i(1) by (auto simp: tet_ok_def)
    have "idle (timer + 1) speed st" "time_left (timer + 1) st < time_left timer st"
      using assms wait i(3-5) by (auto simp: idle_def time_left_def)
    then show ?thesis using wait f by (simp add: fr tet_tick_def idle_pr)
  next
    case fall
    let ?st = "st\<lparr>tet_py := tet_py st + 1\<rparr>"
    have ok: "tet_ok ?st" by (rule tet_ok_py[OF i(1)]) (use fall(2) in auto)
    then obtain f where f: "tet_draw_board ?st = Some (pr f ?st)"
      using draw_board_defined by (auto simp: tet_ok_def)
    have "tet_piece ?st < 7" "tet_rot ?st < 4" "0 \<le> tet_py ?st"
      "tet_valid (tet_px ?st) (tet_py ?st) (tet_rot ?st) (tet_piece ?st) (tet_board ?st)"
      using ok by (auto simp only: tet_ok_def tables_in_range_def)
    then have "tet_py ?st < 20" using valid_on_board(3) by blast
    then have "idle 0 speed ?st" "time_left 0 ?st < time_left timer st"
      using assms ok i(3-5) by (auto simp: idle_def time_left_def)
    then show ?thesis using fall f by (simp add: fr tet_tick_def idle_pr)
  next
    case lock
    then show ?thesis using idle_lock[OF assms] by (simp add: fr tet_tick_def)
  qed
qed

lemma idle_run:
  "idle timer speed st \<Longrightarrow> time_left timer st < n \<Longrightarrow>
   \<exists>st'. tet_run (replicate n ([], [])) timer speed st = Some (Over st')"
proof (induction n arbitrary: timer speed st)
  case (Suc n)
  obtain g where g: "tet_frame ([], []) timer speed st = Some g"
    "case g of Playing t s st' \<Rightarrow> idle t s st' \<and> time_left t st' < time_left timer st | Over _ \<Rightarrow> True | Quit _ \<Rightarrow> False"
    using idle_frame[OF Suc.prems(1)] by blast
  then show ?case
    using Suc.IH Suc.prems(2) by (cases g) force+
qed simp

lemma start_idle:
  assumes "kb_h st = kb_t st"
  shows "idle 0 40 (tet_start st)" "time_left 0 (tet_start st) = 43040"
proof -
  let ?b = "replicate 20 (replicate 10 0) :: board"
  have oc: "occ ?b = {}" by (auto simp: occ_def)
  have b: "shape ?b" "colours_ok ?b" "filter row_full ?b = []"
    by (simp_all add: shape_def colours_ok_def row_full_def)
  have s: "tet_board (tet_start st) = ?b" "tet_px (tet_start st) = 4" "tet_py (tet_start st) = 0"
    "tet_rot (tet_start st) = 0" "tet_lines (tet_start st) = 0" "tet_score (tet_start st) = 0" "tet_level (tet_start st) = 1"
    "tet_piece (tet_start st) < 7" "tet_next (tet_start st) < 7" "kb_h (tet_start st) = kb_t (tet_start st)"
    using assms by (simp_all add: tet_start_def tet_rand_def Let_def pr_def split_beta)
  have "free_at ?b p" if "p \<in> set (squares 4 0 0 (tet_piece (tet_start st)))" for p
    using squares_distinct(3)[OF s(8), of 0 "fst p" "snd p" 4 0] that
    by (subst free_at_iff) (auto simp: on_board_def oc split: prod.splits)
  then have "tet_valid 4 0 0 (tet_piece (tet_start st)) ?b"
    by (simp add: tet_valid_def list_all_iff)
  then show "idle 0 40 (tet_start st)"
    using b s by (auto simp: idle_def tet_ok_def tables_in_range_def oc i32_def)
  show "time_left 0 (tet_start st) = 43040"
    using s by (simp add: time_left_def oc)
qed


section \<open>Properties\<close>

text \<open>C25: \<open>tet_clear_lines\<close>, which moves rows down in place and looks at a row again after each move,
  returns the number of full rows and leaves the board with those rows removed, the others in
  their order, and as many empty rows on top. Its loop always ends.\<close>
theorem tet_clear_lines_correct:
  assumes "shape b"
  shows "tet_clear_lines b =
    Some (length (filter row_full b),
          replicate (length (filter row_full b)) (replicate 10 0) @ filter (\<lambda>rw. \<not> row_full rw) b)"
  using clear_lines_eq[OF assms] by (simp add: Let_def)

theorem tet_clear_lines_correct_witness:
  "\<exists>k b'. tet_clear_lines (replicate 17 (replicate 10 0) @ [replicate 10 3, [0, 1, 1, 1, 1, 1, 1, 1, 1, 1], replicate 10 5]) =
     Some (k, b') \<and> k = 2 \<and> last b' = [0, 1, 1, 1, 1, 1, 1, 1, 1, 1]"
  using tet_clear_lines_correct[of "replicate 17 (replicate 10 0) @ [replicate 10 3, [0, 1, 1, 1, 1, 1, 1, 1, 1, 1], replicate 10 5]"]
  by (simp add: shape_def row_full_def)


definition tet0 :: tet where
  "tet0 = kbd.extend kbd0 \<lparr>tet_board = [], tet_score = 0, tet_lines = 0, tet_level = 1, tet_px = 4, tet_py = 0,
     tet_rot = 0, tet_piece = 0, tet_next = 0, tet_rng_seed = 12345\<rparr>"

lemma tet0_start: "tet_ok (tet_start tet0)" "room_left (tet_start tet0)" "kb_h tet0 = kb_t tet0"
proof -
  show k: "kb_h tet0 = kb_t tet0" by (simp add: tet0_def kbd0_def kbd.defs)
  show "tet_ok (tet_start tet0)" "room_left (tet_start tet0)"
    using start_idle(1)[OF k] by (auto simp: idle_def tet_ok_def tables_in_range_def room_left_def)
qed


text \<open>C29: an unattended game comes to its end. Started with an empty keyboard buffer and left without
  a key, the game shows \<open>GAME OVER\<close> after at most 43041 iterations of its loop and then waits.\<close>
theorem unattended_game_ends:
  assumes "kb_h st = kb_t st" "43041 \<le> n"
  shows "\<exists>st'. cmd_tetris (replicate n ([], [])) [] st = Some (Inl (Over st'))"
proof -
  obtain st' where "tet_run (replicate n ([], [])) 0 40 (tet_start st) = Some (Over st')"
    using idle_run[OF start_idle(1)[OF assms(1)], of n] start_idle(2)[OF assms(1)] assms(2) by auto
  then show ?thesis by (simp add: cmd_tetris_def)
qed

theorem unattended_game_ends_witness:
  "\<exists>st'. cmd_tetris (replicate 50000 ([], [])) [] tet0 = Some (Inl (Over st'))"
  by (rule unattended_game_ends) (simp_all add: tet0_start)

end
