(* ===== verification/Pig_Sha256.thy ===== *)
theory Pig_Sha256
  imports Pig_Prelude
begin

unbundle bit_operations_syntax

text \<open>
  SHA-256 and HMAC of \<open>crypto/sha256.h\<close>. The hash state keeps a partly filled 64-byte chunk; the
  pointer \<open>chunk_pos\<close> is the offset \<open>64 - space_left\<close>. The compression function keeps only the last 16
  words of the message schedule, in a circular buffer. The specification is the standard's: the
  schedule as a recursion over all 64 words, the padded message cut into blocks. Byte arrays are
  lists of bytes.
\<close>

section \<open>Definitions\<close>

abbreviation (input) SHA256_CHUNK :: nat where "SHA256_CHUNK \<equiv> 64"

record sha256 =
  sh_chunk :: "u8 list"
  sh_left :: nat
  sh_total :: u64
  sh_h :: "u32 list"

definition sha256_rr :: "u32 \<Rightarrow> nat \<Rightarrow> u32" where
  "sha256_rr v c = drop_bit c v OR push_bit (32 - c) v"

definition sha256_k :: "u32 list" where
  "sha256_k = [
     0x428a2f98, 0x71374491, 0xb5c0fbcf, 0xe9b5dba5, 0x3956c25b, 0x59f111f1, 0x923f82a4, 0xab1c5ed5,
     0xd807aa98, 0x12835b01, 0x243185be, 0x550c7dc3, 0x72be5d74, 0x80deb1fe, 0x9bdc06a7, 0xc19bf174,
     0xe49b69c1, 0xefbe4786, 0x0fc19dc6, 0x240ca1cc, 0x2de92c6f, 0x4a7484aa, 0x5cb0a9dc, 0x76f988da,
     0x983e5152, 0xa831c66d, 0xb00327c8, 0xbf597fc7, 0xc6e00bf3, 0xd5a79147, 0x06ca6351, 0x14292967,
     0x27b70a85, 0x2e1b2138, 0x4d2c6dfc, 0x53380d13, 0x650a7354, 0x766a0abb, 0x81c2c92e, 0x92722c85,
     0xa2bfe8a1, 0xa81a664b, 0xc24b8b70, 0xc76c51a3, 0xd192e819, 0xd6990624, 0xf40e3585, 0x106aa070,
     0x19a4c116, 0x1e376c08, 0x2748774c, 0x34b0bcb5, 0x391c0cb3, 0x4ed8aa4a, 0x5b9cca4f, 0x682e6ff3,
     0x748f82ee, 0x78a5636f, 0x84c87814, 0x8cc70208, 0x90befffa, 0xa4506ceb, 0xbef9a3f7, 0xc67178f2]"

text \<open>\<open>(uint32_t)p[0]<<24|(uint32_t)p[1]<<16|(uint32_t)p[2]<<8|(uint32_t)p[3]\<close>\<close>

definition be32 :: "u8 list \<Rightarrow> nat \<Rightarrow> u32" where
  "be32 p o4 = push_bit 24 (ucast (p ! o4)) OR push_bit 16 (ucast (p ! (o4 + 1))) OR
     push_bit 8 (ucast (p ! (o4 + 2))) OR ucast (p ! (o4 + 3))"

definition sched0 :: "u32 \<Rightarrow> u32" where
  "sched0 x = sha256_rr x 7 XOR sha256_rr x 18 XOR drop_bit 3 x"

definition sched1 :: "u32 \<Rightarrow> u32" where
  "sched1 x = sha256_rr x 17 XOR sha256_rr x 19 XOR drop_bit 10 x"

text \<open>The store to \<open>w[j]\<close> in round \<open>16i+j\<close>, on the circular buffer \<open>w\<close>.\<close>

definition sha256_sched :: "u8 list \<Rightarrow> nat \<Rightarrow> nat \<Rightarrow> u32 list \<Rightarrow> u32 list" where
  "sha256_sched p i j w =
     (if i = 0 then w[j := be32 p (4 * j)]
      else w[j := w ! j + sched0 (w ! ((j + 1) mod 16)) + w ! ((j + 9) mod 16) + sched1 (w ! ((j + 14) mod 16))])"

definition sha256_round :: "u32 \<Rightarrow> u32 \<Rightarrow> u32 list \<Rightarrow> u32 list" where
  "sha256_round kt wt ah =
     (let s1 = sha256_rr (ah ! 4) 6 XOR sha256_rr (ah ! 4) 11 XOR sha256_rr (ah ! 4) 25;
          ch = (ah ! 4 AND ah ! 5) XOR (NOT (ah ! 4) AND ah ! 6);
          t1 = ah ! 7 + s1 + ch + kt + wt;
          s0 = sha256_rr (ah ! 0) 2 XOR sha256_rr (ah ! 0) 13 XOR sha256_rr (ah ! 0) 22;
          maj = (ah ! 0 AND ah ! 1) XOR (ah ! 0 AND ah ! 2) XOR (ah ! 1 AND ah ! 2);
          t2 = s0 + maj
      in [t1 + t2, ah ! 0, ah ! 1, ah ! 2, ah ! 3 + t1, ah ! 4, ah ! 5, ah ! 6])"

definition sha256_step :: "u8 list \<Rightarrow> nat \<times> nat \<Rightarrow> u32 list \<times> u32 list \<Rightarrow> u32 list \<times> u32 list" where
  "sha256_step p = (\<lambda>(i, j) (ah, w).
     let w = sha256_sched p i j w in (sha256_round (sha256_k ! (16 * i + j)) (w ! j) ah, w))"

definition sha256_consume :: "u32 list \<Rightarrow> u8 list \<Rightarrow> u32 list" where
  "sha256_consume h p =
     map2 (+) h (fst (fold (sha256_step p) (List.product [0..<4] [0..<16]) (h, replicate 16 0)))"

definition sha256_iv :: "u32 list" where
  "sha256_iv = [0x6a09e667, 0xbb67ae85, 0x3c6ef372, 0xa54ff53a, 0x510e527f, 0x9b05688c, 0x1f83d9ab, 0x5be0cd19]"

text \<open>The chunk is uninitialised memory, a parameter.\<close>

definition sha256_init :: "u8 list \<Rightarrow> sha256" where
  "sha256_init ch = \<lparr>sh_chunk = ch, sh_left = SHA256_CHUNK, sh_total = 0, sh_h = sha256_iv\<rparr>"

text \<open>A copy of the bytes \<open>d\<close> into an array at offset \<open>i\<close>.\<close>

definition blit :: "'a list \<Rightarrow> nat \<Rightarrow> 'a list \<Rightarrow> 'a list" where
  "blit xs i d = take i xs @ d @ drop (i + length d) xs"

function sha256_write_loop :: "u8 list \<Rightarrow> sha256 \<Rightarrow> sha256" where
  "sha256_write_loop p s =
     (if p = [] then s
      else if sh_left s = SHA256_CHUNK \<and> length p \<ge> SHA256_CHUNK then
        sha256_write_loop (drop SHA256_CHUNK p) (s\<lparr>sh_h := sha256_consume (sh_h s) (take SHA256_CHUNK p)\<rparr>)
      else
        (let c = (if length p < sh_left s then length p else sh_left s);
             ch = blit (sh_chunk s) (SHA256_CHUNK - sh_left s) (take c p)
         in if sh_left s - c = 0
            then sha256_write_loop (drop c p)
                   (s\<lparr>sh_chunk := ch, sh_left := SHA256_CHUNK, sh_h := sha256_consume (sh_h s) ch\<rparr>)
            else sha256_write_loop (drop c p) (s\<lparr>sh_chunk := ch, sh_left := sh_left s - c\<rparr>)))"
  by auto
termination
  by (relation "measure (\<lambda>(p, s). 2 * length p + (if sh_left s = 0 then 1 else 0))") (auto split: if_splits)

declare sha256_write_loop.simps [simp del]

definition sha256_write :: "u8 list \<Rightarrow> sha256 \<Rightarrow> sha256" where
  "sha256_write p s = sha256_write_loop p (s\<lparr>sh_total := sh_total s + of_nat (length p)\<rparr>)"

text \<open>The eight length bytes: \<open>len<<3\<close> into the last one, then \<open>len>>5\<close> byte by byte from the right.\<close>

fun len_bytes_loop :: "nat \<Rightarrow> u64 \<Rightarrow> u8 list \<Rightarrow> u8 list" where
  "len_bytes_loop 0 len acc = acc"
| "len_bytes_loop (Suc i) len acc = len_bytes_loop i (drop_bit 8 len) (ucast len # acc)"

definition sha256_len_bytes :: "u64 \<Rightarrow> u8 list" where
  "sha256_len_bytes len = len_bytes_loop 7 (drop_bit 5 len) [ucast (push_bit 3 len)]"

definition be32_bytes :: "u32 \<Rightarrow> u8 list" where
  "be32_bytes h = [ucast (drop_bit 24 h), ucast (drop_bit 16 h), ucast (drop_bit 8 h), ucast h]"

definition sha256_close :: "sha256 \<Rightarrow> u8 list" where
  "sha256_close s =
     (let pos = SHA256_CHUNK - sh_left s;
          ch = blit (sh_chunk s) pos [0x80];
          (ch, h, pos, sl) =
            (if sh_left s - 1 < 8
             then (let ch = blit ch (pos + 1) (replicate (sh_left s - 1) 0)
                   in (ch, sha256_consume (sh_h s) ch, 0, SHA256_CHUNK))
             else (ch, sh_h s, pos + 1, sh_left s - 1));
          ch = blit ch pos (replicate (sl - 8) 0);
          ch = blit ch (pos + (sl - 8)) (sha256_len_bytes (sh_total s))
      in concat (map be32_bytes (sha256_consume h ch)))"

definition calc_sha256 :: "u8 list \<Rightarrow> u8 list \<Rightarrow> u8 list" where
  "calc_sha256 stack input = sha256_close (sha256_write input (sha256_init stack))"

text \<open>The length \<open>64+mlen\<close> of the inner message is computed in 32 bits.\<close>

definition hmac_sha256 :: "u8 list \<Rightarrow> u8 list \<Rightarrow> u8 list \<Rightarrow> u8 list option" where
  "hmac_sha256 stack key msg =
     (if 64 + length msg \<ge> 2 ^ 32 then None
      else
        (let k_pad = (if length key > 64 then blit (replicate 64 0) 0 (calc_sha256 stack key)
                      else blit (replicate 64 0) 0 key);
             i_pad = map (\<lambda>k. k XOR 0x36) k_pad;
             o_pad = map (\<lambda>k. k XOR 0x5c) k_pad;
             ih = calc_sha256 stack (i_pad @ msg)
         in Some (calc_sha256 stack (o_pad @ ih))))"
section \<open>The standard's definition\<close>

text \<open>The message schedule of a block of 16 words.\<close>

function sha_W :: "(nat \<Rightarrow> u32) \<Rightarrow> nat \<Rightarrow> u32" where
  "sha_W m t = (if t < 16 then m t
     else sha_W m (t - 16) + sched0 (sha_W m (t - 15)) + sha_W m (t - 7) + sched1 (sha_W m (t - 2)))"
  by auto
termination by (relation "measure snd") auto

declare sha_W.simps [simp del]

definition sha_compress :: "u32 list \<Rightarrow> u8 list \<Rightarrow> u32 list" where
  "sha_compress h p = map2 (+) h
     (fold (\<lambda>t. sha256_round (sha256_k ! t) (sha_W (\<lambda>j. be32 p (4 * j)) t)) [0..<64] h)"

function blocks64 :: "u8 list \<Rightarrow> u8 list list" where
  "blocks64 m = (if length m < 64 then [] else take 64 m # blocks64 (drop 64 m))"
  by auto
termination by (relation "measure length") auto

declare blocks64.simps [simp del]

definition be64_bytes :: "u64 \<Rightarrow> u8 list" where
  "be64_bytes x = map (\<lambda>k. ucast (drop_bit (8 * k) x)) (rev [0..<8])"

text \<open>A one bit, zeros up to eight bytes short of a block, and the length in bits.\<close>

definition sha_pad :: "u8 list \<Rightarrow> u8 list" where
  "sha_pad m = m @ 0x80 # replicate ((119 - length m mod 64) mod 64) 0 @ be64_bytes (8 * of_nat (length m))"

definition sha256_spec :: "u8 list \<Rightarrow> u8 list" where
  "sha256_spec m = concat (map be32_bytes (foldl sha_compress sha256_iv (blocks64 (sha_pad m))))"

section \<open>The circular schedule\<close>

lemma rounds_upt: "List.product [0..<4] [0..<16] = map (\<lambda>t. (t div 16, t mod 16)) [0..<64]"
  by code_simp

lemma sha256_sched_upd: "\<exists>v. sha256_sched p i j w = w[j := v]"
  by (auto simp: sha256_sched_def)

lemma sched_window:
  assumes "length w = 16" "\<forall>s < t. t \<le> s + 16 \<longrightarrow> w ! (s mod 16) = sha_W (\<lambda>j. be32 p (4 * j)) s"
  defines "w' \<equiv> sha256_sched p (t div 16) (t mod 16) w"
  shows "length w' = 16" "w' ! (t mod 16) = sha_W (\<lambda>j. be32 p (4 * j)) t"
    "\<forall>s < Suc t. Suc t \<le> s + 16 \<longrightarrow> w' ! (s mod 16) = sha_W (\<lambda>j. be32 p (4 * j)) s"
proof -
  let ?W = "sha_W (\<lambda>j. be32 p (4 * j))"
  show len: "length w' = 16" using assms(1) by (simp add: w'_def sha256_sched_def)
  have t: "t mod 16 < length w" using assms(1) by simp
  show cur: "w' ! (t mod 16) = ?W t"
  proof (cases "t < 16")
    case True
    then show ?thesis using t by (simp add: w'_def sha256_sched_def) (simp add: sha_W.simps[of _ t])
  next
    case False
    then obtain u where u: "t = u + 16" by (metis add.commute le_Suc_ex not_less)
    have old: "w ! ((u + k) mod 16) = ?W (u + k)" if "k < 16" for k
      using assms(2) that u by simp
    have "w' ! (t mod 16) = w ! ((u + 0) mod 16) + sched0 (w ! ((u + 1) mod 16)) + w ! ((u + 9) mod 16) +
        sched1 (w ! ((u + 14) mod 16))"
      using t u div_eq_0_iff[of "u + 16" 16] by (auto simp: w'_def sha256_sched_def mod_simps)
    also have "\<dots> = ?W (u + 0) + sched0 (?W (u + 1)) + ?W (u + 9) + sched1 (?W (u + 14))"
      by (simp only: old)
    also have "\<dots> = ?W t" using u by (simp add: sha_W.simps[of _ "u + 16"] add.commute[of _ u])
    finally show ?thesis .
  qed
  show "\<forall>s < Suc t. Suc t \<le> s + 16 \<longrightarrow> w' ! (s mod 16) = ?W s"
  proof (intro allI impI)
    fix s assume s: "s < Suc t" "Suc t \<le> s + 16"
    show "w' ! (s mod 16) = ?W s"
    proof (cases "s = t")
      case False
      have "s mod 16 \<noteq> t mod 16"
      proof
        assume "s mod 16 = t mod 16"
        then have "16 dvd t - s" using s by (metis dvd_triv_left less_Suc_eq_le mod_eq_dvd_iff_nat)
        then show False using s False by (auto dest: dvd_imp_le)
      qed
      then have "w' ! (s mod 16) = w ! (s mod 16)"
        using sha256_sched_upd[of p "t div 16" "t mod 16" w] unfolding w'_def by auto
      then show ?thesis using assms(2) s False by simp
    qed (use cur in simp)
  qed
qed

lemma steps_compress:
  assumes "t \<le> 64"
  shows "\<exists>w. fold (sha256_step p) (map (\<lambda>t. (t div 16, t mod 16)) [0..<t]) (h, replicate 16 0) =
      (fold (\<lambda>t. sha256_round (sha256_k ! t) (sha_W (\<lambda>j. be32 p (4 * j)) t)) [0..<t] h, w) \<and> length w = 16 \<and>
      (\<forall>s < t. t \<le> s + 16 \<longrightarrow> w ! (s mod 16) = sha_W (\<lambda>j. be32 p (4 * j)) s)"
  using assms
proof (induction t)
  case (Suc t)
  then obtain w where w: "fold (sha256_step p) (map (\<lambda>t. (t div 16, t mod 16)) [0..<t]) (h, replicate 16 0) =
      (fold (\<lambda>t. sha256_round (sha256_k ! t) (sha_W (\<lambda>j. be32 p (4 * j)) t)) [0..<t] h, w)" "length w = 16"
      "\<forall>s < t. t \<le> s + 16 \<longrightarrow> w ! (s mod 16) = sha_W (\<lambda>j. be32 p (4 * j)) s" by auto
  note s = sched_window[OF w(2,3)]
  have "16 * (t div 16) + t mod 16 = t" by simp
  then show ?case using w(1) s by (auto simp: sha256_step_def Let_def)
qed simp

lemma sha256_consume_compress: "sha256_consume h p = sha_compress h p"
  using steps_compress[of 64 p h] by (auto simp: sha256_consume_def sha_compress_def rounds_upt)

section \<open>Blocks\<close>

definition rest64 :: "u8 list \<Rightarrow> u8 list" where
  "rest64 m = drop (64 * (length m div 64)) m"

lemma rest64_length: "length (rest64 m) = length m mod 64"
  by (simp add: rest64_def minus_mult_div_eq_mod)

lemma rest64_drop: "64 \<le> length m \<Longrightarrow> rest64 (drop 64 m) = rest64 m"
proof -
  assume "64 \<le> length m"
  then have "64 + 64 * ((length m - 64) div 64) = 64 * (length m div 64)" by (simp add: le_div_geq)
  then show ?thesis by (simp add: rest64_def drop_drop add.commute)
qed

lemma blocks64_short: "length m < 64 \<Longrightarrow> blocks64 m = []" "length m < 64 \<Longrightarrow> rest64 m = m"
  by (simp_all add: blocks64.simps[of m] rest64_def)

lemma blocks64_Cons: "length b = 64 \<Longrightarrow> blocks64 (b @ m) = b # blocks64 m" "length b = 64 \<Longrightarrow> rest64 (b @ m) = rest64 m"
  using rest64_drop[of "b @ m"] by (simp_all add: blocks64.simps[of "b @ m"])

lemma blocks64_append: "blocks64 (m @ d) = blocks64 m @ blocks64 (rest64 m @ d) \<and> rest64 (m @ d) = rest64 (rest64 m @ d)"
proof (induction m rule: blocks64.induct)
  case (1 m)
  show ?case
  proof (cases "length m < 64")
    case False
    then have m: "m = take 64 m @ drop 64 m" "length (take 64 m) = 64" by auto
    have IH: "blocks64 (drop 64 m @ d) = blocks64 (drop 64 m) @ blocks64 (rest64 m @ d)"
      "rest64 (drop 64 m @ d) = rest64 (rest64 m @ d)"
      using 1[OF False] rest64_drop[of m] False by auto
    have "blocks64 (m @ d) = take 64 m # blocks64 (drop 64 m @ d)" "rest64 (m @ d) = rest64 (drop 64 m @ d)"
      using blocks64_Cons[OF m(2), of "drop 64 m @ d"] by (simp_all flip: append_assoc)
    moreover have "blocks64 m = take 64 m # blocks64 (drop 64 m)" using False by (simp add: blocks64.simps[of m])
    ultimately show ?thesis using IH by simp
  qed (simp add: blocks64_short)
qed

section \<open>Writing\<close>

text \<open>The state after the bytes \<open>m\<close>: every complete block is hashed, the rest is pending in the chunk.\<close>

definition sha_inv :: "u8 list \<Rightarrow> sha256 \<Rightarrow> bool" where
  "sha_inv m s \<longleftrightarrow> sh_h s = foldl sha_compress sha256_iv (blocks64 m) \<and> length (sh_chunk s) = 64 \<and>
     sh_left s = 64 - length (rest64 m) \<and> take (length (rest64 m)) (sh_chunk s) = rest64 m"

lemma take_blit: "i \<le> length xs \<Longrightarrow> take (i + length d) (blit xs i d) = take i xs @ d"
  by (simp add: blit_def)

lemma length_blit: "i + length d \<le> length xs \<Longrightarrow> length (blit xs i d) = length xs"
  by (simp add: blit_def)

lemma sha256_write_loop_inv:
  "sha_inv m s \<Longrightarrow> sha_inv (m @ p) (sha256_write_loop p s) \<and> sh_total (sha256_write_loop p s) = sh_total s"
proof (induction p s arbitrary: m rule: sha256_write_loop.induct)
  case (1 p s)
  note inv = 1(4)
  let ?r = "rest64 m"
  have r: "length ?r < 64" "sh_left s = 64 - length ?r" "take (length ?r) (sh_chunk s) = ?r" "length (sh_chunk s) = 64"
    using inv by (auto simp: sha_inv_def rest64_length)
  consider "p = []" | "p \<noteq> []" "sh_left s = 64 \<and> length p \<ge> 64" | "p \<noteq> []" "\<not> (sh_left s = 64 \<and> length p \<ge> 64)" by blast
  then show ?case
  proof cases
    case 1
    then show ?thesis using inv by (simp add: sha256_write_loop.simps[of "[]"])
  next
    case 2
    have "length ?r = 0" using 2 r(1,2) by linarith
    then have "?r = []" by simp
    then have "blocks64 (m @ take 64 p) = blocks64 m @ [take 64 p]" "rest64 (m @ take 64 p) = []"
      using blocks64_append[of m "take 64 p"] blocks64_Cons[of "take 64 p" "[]"] 2 by (simp_all add: blocks64_short)
    then have "sha_inv (m @ take 64 p) (s\<lparr>sh_h := sha256_consume (sh_h s) (take 64 p)\<rparr>)"
      using inv 2 by (simp add: sha_inv_def sha256_consume_compress)
    from "1.IH"(1)[OF 2 this] show ?thesis using 2 by (simp add: sha256_write_loop.simps[of p])
  next
    case 3
    let ?c = "if length p < sh_left s then length p else sh_left s"
    let ?ch = "blit (sh_chunk s) (64 - sh_left s) (take ?c p)"
    have pos: "64 - sh_left s = length ?r" using r by simp
    have c: "length (take ?c p) = ?c" "length ?r + ?c \<le> 64" using r by auto
    have ch: "length ?ch = 64" "take (length ?r + ?c) ?ch = ?r @ take ?c p"
      using length_blit[of "length ?r" "take ?c p" "sh_chunk s"] take_blit[of "length ?r" "sh_chunk s" "take ?c p"] c r pos by simp_all
    note ap = blocks64_append[of m "take ?c p"]
    show ?thesis
    proof (cases "sh_left s - ?c = 0")
      case True
      then have e: "?r @ take ?c p = ?ch" "length ?ch = 64" using ch c r by auto
      have "blocks64 (m @ take ?c p) = blocks64 m @ [?ch]" "rest64 (m @ take ?c p) = []"
        using ap blocks64_Cons[of ?ch "[]"] e by (simp_all add: blocks64_short)
      then have "sha_inv (m @ take ?c p) (s\<lparr>sh_chunk := ?ch, sh_left := 64, sh_h := sha256_consume (sh_h s) ?ch\<rparr>)"
        using inv e(2) by (simp add: sha_inv_def sha256_consume_compress)
      from "1.IH"(2)[OF 3(1,2) refl refl True this] show ?thesis
        unfolding sha256_write_loop.simps[of p s] Let_def if_not_P[OF 3(1)] if_not_P[OF 3(2)] if_P[OF True] by simp
    next
      case False
      then have lt: "length (?r @ take ?c p) < 64" using c r by auto
      have "sha_inv (m @ take ?c p) (s\<lparr>sh_chunk := ?ch, sh_left := sh_left s - ?c\<rparr>)"
        using inv ch c r lt ap by (simp add: sha_inv_def blocks64_short)
      from "1.IH"(3)[OF 3(1,2) refl refl False this] show ?thesis
        unfolding sha256_write_loop.simps[of p s] Let_def if_not_P[OF 3(1)] if_not_P[OF 3(2)] if_not_P[OF False] by simp
    qed
  qed
qed

section \<open>Closing\<close>

lemma byte_of_shifted: "ucast (drop_bit (8 * k) (8 * len)) = (ucast (drop_bit (8 * k - 3) len) :: u8)"
  if "0 < k" "k < 8" for len :: u64
proof (rule bit_word_eqI)
  fix n assume n: "n < LENGTH(8)"
  have e: "8 * len = push_bit 3 len" by (simp add: push_bit_eq_mult mult.commute)
  show "bit (ucast (drop_bit (8 * k) (8 * len)) :: u8) n = bit (ucast (drop_bit (8 * k - 3) len) :: u8) n"
    using that n unfolding e by (auto simp: bit_simps algebra_simps)
qed

lemma sha256_len_bytes_be64: "sha256_len_bytes len = be64_bytes (8 * len)"
proof -
  have "8 * len = push_bit 3 len" by (simp add: push_bit_eq_mult mult.commute)
  then have "sha256_len_bytes len = map (\<lambda>k. ucast (drop_bit (8 * k - 3) len)) (rev [1..<8]) @ [ucast (8 * len)]"
    by (simp add: sha256_len_bytes_def numeral_eq_Suc)
  also have "map (\<lambda>k. ucast (drop_bit (8 * k - 3) len)) (rev [1..<8]) = map (\<lambda>k. ucast (drop_bit (8 * k) (8 * len)) :: u8) (rev [1..<8])"
    by (intro map_cong refl byte_of_shifted[symmetric]) auto
  finally show ?thesis by (simp add: be64_bytes_def upt_rec[of 0])
qed

lemma be64_bytes_length [simp]: "length (be64_bytes x) = 8"
  by (simp add: be64_bytes_def)

lemma blit_end: "i \<le> length xs \<Longrightarrow> i + length d = length xs \<Longrightarrow> blit xs i d = take i xs @ d"
  by (simp add: blit_def)

lemma sha_pad_rest: "blocks64 (sha_pad m) = blocks64 m @
    blocks64 (rest64 m @ 0x80 # replicate ((119 - length (rest64 m)) mod 64) 0 @ be64_bytes (8 * of_nat (length m)))"
  using blocks64_append[of m "0x80 # replicate ((119 - length (rest64 m)) mod 64) 0 @ be64_bytes (8 * of_nat (length m))"]
  by (simp add: sha_pad_def rest64_length)

lemma sha256_close_spec:
  assumes "sha_inv m s" "sh_total s = of_nat (length m)"
  shows "sha256_close s = sha256_spec m"
proof -
  let ?r = "rest64 m" and ?L = "be64_bytes (8 * of_nat (length m))"
  have r: "length ?r < 64" "sh_left s = 64 - length ?r" "take (length ?r) (sh_chunk s) = ?r" "length (sh_chunk s) = 64"
    "sh_h s = foldl sha_compress sha256_iv (blocks64 m)"
    using assms by (auto simp: sha_inv_def rest64_length)
  have pos: "64 - sh_left s = length ?r" using r by simp
  define c1 where "c1 = blit (sh_chunk s) (length ?r) [0x80]"
  have c1: "length c1 = 64" "take (length ?r + 1) c1 = ?r @ [0x80]"
    using r take_blit[of "length ?r" "sh_chunk s" "[0x80]"] by (auto simp: c1_def length_blit)
  show ?thesis
  proof (cases "sh_left s - 1 < 8")
    case True
    let ?b1 = "?r @ 0x80 # replicate (sh_left s - 1) 0"
    let ?b2 = "replicate 56 0 @ ?L"
    have b1: "blit c1 (length ?r + 1) (replicate (sh_left s - 1) 0) = ?b1" "length ?b1 = 64"
      using c1 r blit_end[of "length ?r + 1" c1 "replicate (sh_left s - 1) 0"] by auto
    have b2: "blit (blit ?b1 0 (replicate 56 0)) 56 ?L = ?b2"
      using b1(2) by (simp add: blit_def)
    have k: "(119 - length ?r) mod 64 = (sh_left s - 1) + 56"
      using True r by (simp add: mod_if) 
    have "blocks64 (?r @ 0x80 # replicate ((119 - length ?r) mod 64) 0 @ ?L) = blocks64 (?b1 @ ?b2 @ [])"
      unfolding k replicate_add by simp
    also have "\<dots> = [?b1, ?b2]"
      using blocks64_Cons(1)[OF b1(2), of "?b2 @ []"] blocks64_Cons(1)[of ?b2 "[]"] by (simp add: blocks64_short)
    finally have "blocks64 (sha_pad m) = blocks64 m @ [?b1, ?b2]" unfolding sha_pad_rest by simp
    then show ?thesis
      using True b1 b2 by (simp add: sha256_close_def sha256_spec_def pos sha256_len_bytes_be64 assms(2)
          sha256_consume_compress r(5) Let_def flip: c1_def)
  next
    case False
    let ?b = "?r @ 0x80 # replicate (sh_left s - 9) 0 @ ?L"
    let ?c2 = "blit c1 (length ?r + 1) (replicate (sh_left s - 1 - 8) 0)"
    have p: "length ?r + 1 + (sh_left s - 1 - 8) = 56" using False r by auto
    have c2: "length ?c2 = 64" "take 56 ?c2 = ?r @ 0x80 # replicate (sh_left s - 9) 0"
      using c1 p length_blit[of "length ?r + 1" "replicate (sh_left s - 1 - 8) 0" c1]
        take_blit[of "length ?r + 1" c1 "replicate (sh_left s - 1 - 8) (0 :: u8)"] by auto
    have b: "blit ?c2 56 ?L = ?b" using blit_end[of 56 ?c2 ?L] c2 by simp
    have "(119 - length ?r) mod 64 = sh_left s - 9" using False r by (simp add: mod_if)
    then have "blocks64 (sha_pad m) = blocks64 m @ [?b]"
      using blocks64_Cons(1)[of ?b "[]"] False r unfolding sha_pad_rest by (simp add: blocks64_short)
    then show ?thesis
      using False b p by (simp add: sha256_close_def sha256_spec_def pos sha256_len_bytes_be64 assms(2)
          sha256_consume_compress r(5) flip: c1_def)
  qed
qed

lemma sha_inv_init: "length ch = 64 \<Longrightarrow> sha_inv [] (sha256_init ch)"
  by (simp add: sha_inv_def sha256_init_def blocks64_short)

lemma sha256_write_inv:
  assumes "sha_inv m s" "sh_total s = of_nat (length m)"
  shows "sha_inv (m @ p) (sha256_write p s) \<and> sh_total (sha256_write p s) = of_nat (length (m @ p))"
proof -
  have "sha_inv m (s\<lparr>sh_total := sh_total s + of_nat (length p)\<rparr>)" using assms(1) by (simp add: sha_inv_def)
  from sha256_write_loop_inv[OF this, of p] show ?thesis using assms(2) by (simp add: sha256_write_def)
qed

lemma sha256_writes_inv:
  "sha_inv m s \<Longrightarrow> sh_total s = of_nat (length m) \<Longrightarrow>
   sha_inv (m @ concat ps) (fold sha256_write ps s) \<and>
   sh_total (fold sha256_write ps s) = of_nat (length (m @ concat ps))"
proof (induction ps arbitrary: m s)
  case (Cons p ps)
  from sha256_write_inv[OF Cons.prems, of p] Cons.IH[of "m @ p" "sha256_write p s"] show ?case by simp
qed simp

lemma calc_sha256_spec: "length stack = 64 \<Longrightarrow> calc_sha256 stack m = sha256_spec m"
  using sha256_close_spec[of m] sha256_write_inv[OF sha_inv_init, of stack m]
  by (simp add: calc_sha256_def sha256_init_def)

lemma sha_compress_length: "length h = 8 \<Longrightarrow> length (sha_compress h p) = 8"
proof -
  have "length (fold (\<lambda>t. sha256_round (k t) (w t)) ts h) = 8" if "length h = 8" for k w h and ts :: "nat list"
    using that by (induction ts arbitrary: h) (auto simp: sha256_round_def Let_def)
  then show "length h = 8 \<Longrightarrow> length (sha_compress h p) = 8" by (simp add: sha_compress_def)
qed

lemma sha256_spec_length: "length (sha256_spec m) = 32"
proof -
  have "length (foldl sha_compress h bs) = 8" if "length h = 8" for h bs
    using that by (induction bs arbitrary: h) (auto simp: sha_compress_length)
  from this[of sha256_iv] have "length (foldl sha_compress sha256_iv bs) = 8" for bs by (simp add: sha256_iv_def)
  moreover have "length (concat (map be32_bytes hs)) = 4 * length hs" for hs
    by (induction hs) (auto simp: be32_bytes_def)
  ultimately show ?thesis by (simp add: sha256_spec_def)
qed

text \<open>RFC 2104, over the standard's hash.\<close>

definition hmac_key :: "u8 list \<Rightarrow> u8 list" where
  "hmac_key key = (let k = (if length key > 64 then sha256_spec key else key) in k @ replicate (64 - length k) 0)"

definition hmac_spec :: "u8 list \<Rightarrow> u8 list \<Rightarrow> u8 list" where
  "hmac_spec key msg = sha256_spec (map (\<lambda>k. k XOR 0x5c) (hmac_key key) @
     sha256_spec (map (\<lambda>k. k XOR 0x36) (hmac_key key) @ msg))"

section \<open>Properties\<close>

text \<open>C8: a message written in any number of pieces of any sizes hashes to the SHA-256 of the standard:
  the circular message schedule, the buffering of partial chunks and the padding are all exact, and
  the digest has 32 bytes.\<close>
theorem sha256_stream_correct:
  assumes "length stack = SHA256_CHUNK"
  shows "sha256_close (fold sha256_write ps (sha256_init stack)) = sha256_spec (concat ps) \<and>
    length (sha256_close (fold sha256_write ps (sha256_init stack))) = 32"
proof -
  have "sh_total (sha256_init stack) = of_nat (length ([] :: u8 list))" by (simp add: sha256_init_def)
  from sha256_writes_inv[OF sha_inv_init[OF assms] this, of ps]
  show ?thesis using sha256_close_spec[of "concat ps"] by (simp add: sha256_spec_length)
qed

theorem sha256_stream_correct_witness:
  "sha256_close (sha256_write [99] (sha256_write [97, 98] (sha256_init (replicate 64 0)))) = sha256_spec [97, 98, 99]"
  using sha256_stream_correct[of "replicate 64 0" "[[97, 98], [99]]"] by simp

text \<open>C40: the keyed hash is HMAC over that SHA-256, for keys of every length; it is undefined only when
  the 32-bit length of the inner message wraps around.\<close>
theorem hmac_sha256_correct:
  assumes "length stack = 64"
  shows "hmac_sha256 stack key msg = (if length msg + 64 < 2 ^ 32 then Some (hmac_spec key msg) else None)"
proof -
  have "(if length key > 64 then blit (replicate 64 0) 0 (calc_sha256 stack key)
         else blit (replicate 64 0) 0 key) = hmac_key key"
    by (simp add: hmac_key_def Let_def blit_def calc_sha256_spec[OF assms] sha256_spec_length)
  then show ?thesis
    by (simp add: hmac_sha256_def hmac_spec_def Let_def calc_sha256_spec[OF assms] add.commute)
qed

theorem hmac_sha256_correct_witness:
  "hmac_sha256 (replicate 64 0) [1, 2] [3] = Some (hmac_spec [1, 2] [3])"
  using hmac_sha256_correct[of "replicate 64 0" "[1, 2]" "[3]"] by simp

end
