(* ===== verification/Pig_Aes.thy ===== *)
theory Pig_Aes
  imports Pig_Sha256
begin

unbundle bit_operations_syntax

text \<open>
  AES-256 of \<open>crypto/aes256.h\<close>: key expansion, the block cipher and its inverse, CBC mode and the
  padding. A block is a list of 16 bytes, written in place as the C code writes it.
\<close>

section \<open>Definitions\<close>

definition sbox :: "u8 list" where
  "sbox = [
     0x63, 0x7c, 0x77, 0x7b, 0xf2, 0x6b, 0x6f, 0xc5, 0x30, 0x01, 0x67, 0x2b, 0xfe, 0xd7, 0xab, 0x76,
     0xca, 0x82, 0xc9, 0x7d, 0xfa, 0x59, 0x47, 0xf0, 0xad, 0xd4, 0xa2, 0xaf, 0x9c, 0xa4, 0x72, 0xc0,
     0xb7, 0xfd, 0x93, 0x26, 0x36, 0x3f, 0xf7, 0xcc, 0x34, 0xa5, 0xe5, 0xf1, 0x71, 0xd8, 0x31, 0x15,
     0x04, 0xc7, 0x23, 0xc3, 0x18, 0x96, 0x05, 0x9a, 0x07, 0x12, 0x80, 0xe2, 0xeb, 0x27, 0xb2, 0x75,
     0x09, 0x83, 0x2c, 0x1a, 0x1b, 0x6e, 0x5a, 0xa0, 0x52, 0x3b, 0xd6, 0xb3, 0x29, 0xe3, 0x2f, 0x84,
     0x53, 0xd1, 0x00, 0xed, 0x20, 0xfc, 0xb1, 0x5b, 0x6a, 0xcb, 0xbe, 0x39, 0x4a, 0x4c, 0x58, 0xcf,
     0xd0, 0xef, 0xaa, 0xfb, 0x43, 0x4d, 0x33, 0x85, 0x45, 0xf9, 0x02, 0x7f, 0x50, 0x3c, 0x9f, 0xa8,
     0x51, 0xa3, 0x40, 0x8f, 0x92, 0x9d, 0x38, 0xf5, 0xbc, 0xb6, 0xda, 0x21, 0x10, 0xff, 0xf3, 0xd2,
     0xcd, 0x0c, 0x13, 0xec, 0x5f, 0x97, 0x44, 0x17, 0xc4, 0xa7, 0x7e, 0x3d, 0x64, 0x5d, 0x19, 0x73,
     0x60, 0x81, 0x4f, 0xdc, 0x22, 0x2a, 0x90, 0x88, 0x46, 0xee, 0xb8, 0x14, 0xde, 0x5e, 0x0b, 0xdb,
     0xe0, 0x32, 0x3a, 0x0a, 0x49, 0x06, 0x24, 0x5c, 0xc2, 0xd3, 0xac, 0x62, 0x91, 0x95, 0xe4, 0x79,
     0xe7, 0xc8, 0x37, 0x6d, 0x8d, 0xd5, 0x4e, 0xa9, 0x6c, 0x56, 0xf4, 0xea, 0x65, 0x7a, 0xae, 0x08,
     0xba, 0x78, 0x25, 0x2e, 0x1c, 0xa6, 0xb4, 0xc6, 0xe8, 0xdd, 0x74, 0x1f, 0x4b, 0xbd, 0x8b, 0x8a,
     0x70, 0x3e, 0xb5, 0x66, 0x48, 0x03, 0xf6, 0x0e, 0x61, 0x35, 0x57, 0xb9, 0x86, 0xc1, 0x1d, 0x9e,
     0xe1, 0xf8, 0x98, 0x11, 0x69, 0xd9, 0x8e, 0x94, 0x9b, 0x1e, 0x87, 0xe9, 0xce, 0x55, 0x28, 0xdf,
     0x8c, 0xa1, 0x89, 0x0d, 0xbf, 0xe6, 0x42, 0x68, 0x41, 0x99, 0x2d, 0x0f, 0xb0, 0x54, 0xbb, 0x16]"

definition rsbox :: "u8 list" where
  "rsbox = [
     0x52, 0x09, 0x6a, 0xd5, 0x30, 0x36, 0xa5, 0x38, 0xbf, 0x40, 0xa3, 0x9e, 0x81, 0xf3, 0xd7, 0xfb,
     0x7c, 0xe3, 0x39, 0x82, 0x9b, 0x2f, 0xff, 0x87, 0x34, 0x8e, 0x43, 0x44, 0xc4, 0xde, 0xe9, 0xcb,
     0x54, 0x7b, 0x94, 0x32, 0xa6, 0xc2, 0x23, 0x3d, 0xee, 0x4c, 0x95, 0x0b, 0x42, 0xfa, 0xc3, 0x4e,
     0x08, 0x2e, 0xa1, 0x66, 0x28, 0xd9, 0x24, 0xb2, 0x76, 0x5b, 0xa2, 0x49, 0x6d, 0x8b, 0xd1, 0x25,
     0x72, 0xf8, 0xf6, 0x64, 0x86, 0x68, 0x98, 0x16, 0xd4, 0xa4, 0x5c, 0xcc, 0x5d, 0x65, 0xb6, 0x92,
     0x6c, 0x70, 0x48, 0x50, 0xfd, 0xed, 0xb9, 0xda, 0x5e, 0x15, 0x46, 0x57, 0xa7, 0x8d, 0x9d, 0x84,
     0x90, 0xd8, 0xab, 0x00, 0x8c, 0xbc, 0xd3, 0x0a, 0xf7, 0xe4, 0x58, 0x05, 0xb8, 0xb3, 0x45, 0x06,
     0xd0, 0x2c, 0x1e, 0x8f, 0xca, 0x3f, 0x0f, 0x02, 0xc1, 0xaf, 0xbd, 0x03, 0x01, 0x13, 0x8a, 0x6b,
     0x3a, 0x91, 0x11, 0x41, 0x4f, 0x67, 0xdc, 0xea, 0x97, 0xf2, 0xcf, 0xce, 0xf0, 0xb4, 0xe6, 0x73,
     0x96, 0xac, 0x74, 0x22, 0xe7, 0xad, 0x35, 0x85, 0xe2, 0xf9, 0x37, 0xe8, 0x1c, 0x75, 0xdf, 0x6e,
     0x47, 0xf1, 0x1a, 0x71, 0x1d, 0x29, 0xc5, 0x89, 0x6f, 0xb7, 0x62, 0x0e, 0xaa, 0x18, 0xbe, 0x1b,
     0xfc, 0x56, 0x3e, 0x4b, 0xc6, 0xd2, 0x79, 0x20, 0x9a, 0xdb, 0xc0, 0xfe, 0x78, 0xcd, 0x5a, 0xf4,
     0x1f, 0xdd, 0xa8, 0x33, 0x88, 0x07, 0xc7, 0x31, 0xb1, 0x12, 0x10, 0x59, 0x27, 0x80, 0xec, 0x5f,
     0x60, 0x51, 0x7f, 0xa9, 0x19, 0xb5, 0x4a, 0x0d, 0x2d, 0xe5, 0x7a, 0x9f, 0x93, 0xc9, 0x9c, 0xef,
     0xa0, 0xe0, 0x3b, 0x4d, 0xae, 0x2a, 0xf5, 0xb0, 0xc8, 0xeb, 0xbb, 0x3c, 0x83, 0x53, 0x99, 0x61,
     0x17, 0x2b, 0x04, 0x7e, 0xba, 0x77, 0xd6, 0x26, 0xe1, 0x69, 0x14, 0x63, 0x55, 0x21, 0x0c, 0x7d]"

definition Rcon :: "u8 list" where
  "Rcon = [0x8d, 0x01, 0x02, 0x04, 0x08, 0x10, 0x20, 0x40, 0x80, 0x1b, 0x36]"

record aes_ctx =
  RoundKey :: "u8 list"
  Iv :: "u8 list"

definition sub_word :: "u8 list \<Rightarrow> u8 list" where
  "sub_word ta = map (\<lambda>b. sbox ! unat b) ta"

text \<open>The words of the round key are stored one after the other.\<close>

definition aes_expand_step :: "nat \<Rightarrow> u8 list \<Rightarrow> u8 list" where
  "aes_expand_step i rk =
     (let k = (i - 1) * 4; ta = [rk ! k, rk ! (k + 1), rk ! (k + 2), rk ! (k + 3)];
          ta = (if i mod 8 = 0
                then (let ta = sub_word [ta ! 1, ta ! 2, ta ! 3, ta ! 0] in ta[0 := ta ! 0 XOR Rcon ! (i div 8)])
                else ta);
          ta = (if i mod 8 = 4 then sub_word ta else ta);
          k = (i - 8) * 4
      in rk @ [rk ! k XOR ta ! 0, rk ! (k + 1) XOR ta ! 1, rk ! (k + 2) XOR ta ! 2, rk ! (k + 3) XOR ta ! 3])"

definition aes_key_expansion :: "u8 list \<Rightarrow> u8 list" where
  "aes_key_expansion key = fold aes_expand_step [8..<60] (take 32 key)"

definition aes_add_round_key :: "nat \<Rightarrow> u8 list \<Rightarrow> u8 list \<Rightarrow> u8 list" where
  "aes_add_round_key r rk st =
     fold (\<lambda>(i, j) st. st[i * 4 + j := st ! (i * 4 + j) XOR rk ! (r * 4 * 4 + i * 4 + j)])
       (List.product [0..<4] [0..<4]) st"

definition aes_sub_bytes :: "u8 list \<Rightarrow> u8 list" where
  "aes_sub_bytes st = fold (\<lambda>i st. st[i := sbox ! unat (st ! i)]) [0..<16] st"

definition aes_shift_rows :: "u8 list \<Rightarrow> u8 list" where
  "aes_shift_rows st =
     (let t = st ! 1; st = st[1 := st ! 5]; st = st[5 := st ! 9]; st = st[9 := st ! 13]; st = st[13 := t];
          t = st ! 2; st = st[2 := st ! 10]; st = st[10 := t];
          t = st ! 6; st = st[6 := st ! 14]; st = st[14 := t];
          t = st ! 3; st = st[3 := st ! 15]; st = st[15 := st ! 11]; st = st[11 := st ! 7]
      in st[7 := t])"

definition aes_xt :: "u8 \<Rightarrow> u8" where
  "aes_xt x = push_bit 1 x XOR (drop_bit 7 x AND 1) * 0x1b"

text \<open>One iteration of the loop over the columns, with the column offset \<open>i*0\<close> of the source.\<close>

definition aes_mix_column :: "nat \<Rightarrow> u8 list \<Rightarrow> u8 list" where
  "aes_mix_column i st =
     (let t = st ! (i * 0 + 0);
          Tmp = st ! (i * 0 + 0) XOR st ! (i * 0 + 1) XOR st ! (i * 0 + 2) XOR st ! (i * 0 + 3);
          Tm = aes_xt (st ! (i * 0 + 0) XOR st ! (i * 0 + 1));
          st = st[i * 0 + 0 := st ! (i * 0 + 0) XOR (Tm XOR Tmp)];
          Tm = aes_xt (st ! (i * 0 + 1) XOR st ! (i * 0 + 2));
          st = st[i * 0 + 1 := st ! (i * 0 + 1) XOR (Tm XOR Tmp)];
          Tm = aes_xt (st ! (i * 0 + 2) XOR st ! (i * 0 + 3));
          st = st[i * 0 + 2 := st ! (i * 0 + 2) XOR (Tm XOR Tmp)];
          Tm = aes_xt (st ! (i * 0 + 3) XOR t)
      in st[i * 0 + 3 := st ! (i * 0 + 3) XOR (Tm XOR Tmp)])"

definition aes_mix_columns :: "u8 list \<Rightarrow> u8 list" where
  "aes_mix_columns st = fold aes_mix_column [0..<4] st"

definition aes_cipher :: "u8 list \<Rightarrow> u8 list \<Rightarrow> u8 list" where
  "aes_cipher st rk =
     (let st = aes_add_round_key 0 rk st;
          st = fold (\<lambda>r st. aes_add_round_key r rk (aes_mix_columns (aes_shift_rows (aes_sub_bytes st)))) [1..<14] st
      in aes_add_round_key 14 rk (aes_shift_rows (aes_sub_bytes st)))"

definition aes_inv_sub_bytes :: "u8 list \<Rightarrow> u8 list" where
  "aes_inv_sub_bytes st = fold (\<lambda>i st. st[i := rsbox ! unat (st ! i)]) [0..<16] st"

definition aes_inv_shift_rows :: "u8 list \<Rightarrow> u8 list" where
  "aes_inv_shift_rows st =
     (let t = st ! 13; st = st[13 := st ! 9]; st = st[9 := st ! 5]; st = st[5 := st ! 1]; st = st[1 := t];
          t = st ! 2; st = st[2 := st ! 10]; st = st[10 := t];
          t = st ! 6; st = st[6 := st ! 14]; st = st[14 := t];
          t = st ! 3; st = st[3 := st ! 7]; st = st[7 := st ! 11]; st = st[11 := st ! 15]
      in st[15 := t])"

text \<open>\<open>x<<1^x>>7\<close> and \<open>x<<1^x>>7^x<<2^x>>6\<close>, cut to a byte by the store.\<close>

definition inv_r1 :: "u8 \<Rightarrow> u8" where "inv_r1 x = push_bit 1 x XOR drop_bit 7 x"
definition inv_r2 :: "u8 \<Rightarrow> u8" where "inv_r2 x = inv_r1 x XOR push_bit 2 x XOR drop_bit 6 x"

definition aes_inv_mix_column :: "nat \<Rightarrow> u8 list \<Rightarrow> u8 list" where
  "aes_inv_mix_column i st =
     (let a = st ! (i * 0 + 0); b = st ! (i * 0 + 1); c = st ! (i * 0 + 2); d = st ! (i * 0 + 3);
          st = st[i * 0 + 0 := inv_r1 a XOR inv_r2 b XOR inv_r1 c XOR d];
          st = st[i * 0 + 1 := a XOR inv_r1 b XOR inv_r2 c XOR inv_r1 d];
          st = st[i * 0 + 2 := inv_r1 a XOR b XOR inv_r1 c XOR inv_r2 d]
      in st[i * 0 + 3 := inv_r2 a XOR inv_r1 b XOR c XOR inv_r1 d])"

definition aes_inv_mix_columns :: "u8 list \<Rightarrow> u8 list" where
  "aes_inv_mix_columns st = fold aes_inv_mix_column [0..<4] st"

definition aes_inv_round :: "u8 list \<Rightarrow> nat \<Rightarrow> u8 list \<Rightarrow> u8 list" where
  "aes_inv_round rk r st = aes_add_round_key r rk (aes_inv_sub_bytes (aes_inv_shift_rows st))"

definition aes_inv_cipher :: "u8 list \<Rightarrow> u8 list \<Rightarrow> u8 list" where
  "aes_inv_cipher st rk =
     (let st = aes_add_round_key 14 rk st;
          st = fold (\<lambda>r st. aes_inv_mix_columns (aes_inv_round rk r st)) (rev [1..<14]) st
      in aes_inv_round rk 0 st)"

definition aes_init_ctx :: "u8 list \<Rightarrow> aes_ctx \<Rightarrow> aes_ctx" where
  "aes_init_ctx key ctx = ctx\<lparr>RoundKey := aes_key_expansion key\<rparr>"

definition aes_ctx_set_iv :: "u8 list \<Rightarrow> aes_ctx \<Rightarrow> aes_ctx" where
  "aes_ctx_set_iv iv ctx = ctx\<lparr>Iv := take 16 iv\<rparr>"

definition aes_init_ctx_iv :: "u8 list \<Rightarrow> u8 list \<Rightarrow> aes_ctx \<Rightarrow> aes_ctx" where
  "aes_init_ctx_iv key iv ctx = ctx\<lparr>RoundKey := aes_key_expansion key, Iv := take 16 iv\<rparr>"

definition aes_ecb_encrypt :: "aes_ctx \<Rightarrow> u8 list \<Rightarrow> u8 list" where
  "aes_ecb_encrypt ctx buf = blit buf 0 (aes_cipher (take 16 buf) (RoundKey ctx))"

definition aes_ecb_decrypt :: "aes_ctx \<Rightarrow> u8 list \<Rightarrow> u8 list" where
  "aes_ecb_decrypt ctx buf = blit buf 0 (aes_inv_cipher (take 16 buf) (RoundKey ctx))"

definition aes_xor_iv :: "u8 list \<Rightarrow> u8 list \<Rightarrow> u8 list" where
  "aes_xor_iv buf iv = map2 (XOR) buf iv"

text \<open>The blocks at the offsets \<open>0, 16, \<dots> < len\<close> of the buffer. A buffer that ends inside the last of
  them is overrun.\<close>

fun cbc_encrypt_loop :: "u8 list \<Rightarrow> u8 list \<Rightarrow> nat \<Rightarrow> u8 list \<Rightarrow> (u8 list \<times> u8 list) option" where
  "cbc_encrypt_loop rk iv 0 buf = Some (iv, buf)"
| "cbc_encrypt_loop rk iv (Suc n) buf =
     (if length buf < 16 then None
      else (let b = aes_cipher (aes_xor_iv (take 16 buf) iv) rk in
            map_option (\<lambda>(iv, rest). (iv, b @ rest)) (cbc_encrypt_loop rk b n (drop 16 buf))))"

definition aes_cbc_encrypt :: "aes_ctx \<Rightarrow> u8 list \<Rightarrow> nat \<Rightarrow> (aes_ctx \<times> u8 list) option" where
  "aes_cbc_encrypt ctx buf len =
     map_option (\<lambda>(iv, buf). (ctx\<lparr>Iv := iv\<rparr>, buf)) (cbc_encrypt_loop (RoundKey ctx) (Iv ctx) ((len + 15) div 16) buf)"

fun cbc_decrypt_loop :: "u8 list \<Rightarrow> u8 list \<Rightarrow> nat \<Rightarrow> u8 list \<Rightarrow> (u8 list \<times> u8 list) option" where
  "cbc_decrypt_loop rk iv 0 buf = Some (iv, buf)"
| "cbc_decrypt_loop rk iv (Suc n) buf =
     (if length buf < 16 then None
      else (let siv = take 16 buf; b = aes_xor_iv (aes_inv_cipher (take 16 buf) rk) iv in
            map_option (\<lambda>(iv, rest). (iv, b @ rest)) (cbc_decrypt_loop rk siv n (drop 16 buf))))"

definition aes_cbc_decrypt :: "aes_ctx \<Rightarrow> u8 list \<Rightarrow> nat \<Rightarrow> (aes_ctx \<times> u8 list) option" where
  "aes_cbc_decrypt ctx buf len =
     map_option (\<lambda>(iv, buf). (ctx\<lparr>Iv := iv\<rparr>, buf)) (cbc_decrypt_loop (RoundKey ctx) (Iv ctx) ((len + 15) div 16) buf)"

text \<open>Padding writes behind the data, into an array that must have room for it.\<close>

definition pkcs7_pad :: "u8 list \<Rightarrow> nat \<Rightarrow> nat \<Rightarrow> (u8 list \<times> nat) option" where
  "pkcs7_pad data len block =
     (if block = 0 then None
      else (let pad = block - len mod block in
            if length data < len + pad then None
            else Some (blit data len (replicate pad (of_nat pad)), len + pad)))"

text \<open>The start \<open>len-pad\<close> of the loop wraps around when the last byte exceeds the length; the loop then
  does not run, and the wrapped value is returned.\<close>

definition pkcs7_unpad :: "u8 list \<Rightarrow> nat \<Rightarrow> u64" where
  "pkcs7_unpad data len =
     (if len = 0 then 0
      else (let pad = data ! (len - 1); start = of_nat len - ucast pad in
            if pad < 1 \<or> pad > 16 then of_nat len
            else if \<exists>i \<in> set [unat start..<len]. data ! i \<noteq> pad then of_nat len
            else start))"

section \<open>The steps of a round\<close>

lemma list16:
  assumes "length st = 16"
  obtains a0 a1 a2 a3 a4 a5 a6 a7 a8 a9 a10 a11 a12 a13 a14 a15
  where "st = [a0, a1, a2, a3, a4, a5, a6, a7, a8, a9, a10, a11, a12, a13, a14, a15]"
proof -
  have "st = map ((!) st) [0..<16]" using assms by (metis map_nth)
  then show thesis using that by (simp add: upt_conv_Cons)
qed

lemma sbox_inverse: "map (\<lambda>s. rsbox ! unat s) sbox = map of_nat [0..<256]"
  by code_simp

lemma fold_update_each:
  "fold (\<lambda>i st. st[i := f i (st ! i)]) [0..<n] st = map (\<lambda>i. if i < n then f i (st ! i) else st ! i) [0..<length st]"
proof (induction n)
  case (Suc n)
  then show ?case
    by (cases "n < length st") (auto intro!: nth_equalityI simp: nth_list_update less_Suc_eq)
qed (simp add: map_nth)

lemma aes_sub_bytes_map: "length st = 16 \<Longrightarrow> aes_sub_bytes st = map (\<lambda>b. sbox ! unat b) st"
  by (auto simp: aes_sub_bytes_def fold_update_each[of "\<lambda>_ b. sbox ! unat b"] intro!: nth_equalityI)

lemma aes_inv_sub_bytes_map: "length st = 16 \<Longrightarrow> aes_inv_sub_bytes st = map (\<lambda>b. rsbox ! unat b) st"
  by (auto simp: aes_inv_sub_bytes_def fold_update_each[of "\<lambda>_ b. rsbox ! unat b"] intro!: nth_equalityI)

lemma sbox_length: "length sbox = 256"
  by (simp add: sbox_def)

lemma rsbox_sbox: "rsbox ! unat (sbox ! unat b) = (b :: u8)"
proof -
  have b: "unat b < 256" using unsigned_less[of b, where 'a = nat] by simp
  have "map (\<lambda>s. rsbox ! unat s) sbox ! unat b = of_nat (unat b)"
    unfolding sbox_inverse using b by (simp add: nth_map)
  then show ?thesis using b by (simp add: sbox_length)
qed

lemma product44: "List.product [0..<4] [0..<4] = map (\<lambda>k. (k div 4, k mod 4)) [0..<16]"
  by code_simp

lemma aes_add_round_key_nth:
  "length st = 16 \<Longrightarrow> aes_add_round_key r rk st = map (\<lambda>k. st ! k XOR rk ! (16 * r + k)) [0..<16]"
proof -
  assume l: "length st = 16"
  have "fold (\<lambda>(i, j) st. st[i * 4 + j := st ! (i * 4 + j) XOR rk ! (r * 4 * 4 + i * 4 + j)])
      (map (\<lambda>k. (k div 4, k mod 4)) [0..<16]) st = fold (\<lambda>k st. st[k := st ! k XOR rk ! (16 * r + k)]) [0..<16] st"
    unfolding fold_map comp_def by (simp add: algebra_simps)
  then show ?thesis
    using l fold_update_each[of "\<lambda>k b. b XOR rk ! (16 * r + k)" 16 st] by (simp add: aes_add_round_key_def product44)
qed

lemma aes_lengths [simp]:
  "length (aes_sub_bytes st) = length st" "length (aes_inv_sub_bytes st) = length st"
  "length (aes_shift_rows st) = length st" "length (aes_inv_shift_rows st) = length st"
  by (simp_all add: aes_sub_bytes_def aes_inv_sub_bytes_def fold_update_each[of "\<lambda>_ b. sbox ! unat b"]
      fold_update_each[of "\<lambda>_ b. rsbox ! unat b"] aes_shift_rows_def aes_inv_shift_rows_def Let_def)

lemma aes_add_round_key_length [simp]: "length (aes_add_round_key r rk st) = length st"
proof -
  have "length (fold (\<lambda>(i, j) st. st[i * 4 + j := f i j st]) ps st) = length st" for f and ps :: "(nat \<times> nat) list" and st :: "u8 list"
    by (induction ps arbitrary: st) (auto split: prod.splits)
  then show ?thesis by (simp add: aes_add_round_key_def)
qed

lemma inv_sub_sub: "length st = 16 \<Longrightarrow> aes_inv_sub_bytes (aes_sub_bytes st) = st"
  by (simp add: aes_sub_bytes_map aes_inv_sub_bytes_map comp_def rsbox_sbox)

lemma inv_shift_shift: "length st = 16 \<Longrightarrow> aes_inv_shift_rows (aes_shift_rows st) = st"
  by (erule list16) (simp add: aes_shift_rows_def aes_inv_shift_rows_def)

lemma add_add_round_key: "length st = 16 \<Longrightarrow> aes_add_round_key r rk (aes_add_round_key r rk st) = st"
  by (auto simp: aes_add_round_key_nth xor.assoc intro!: nth_equalityI)

text \<open>The four iterations of the mixing step all work on the first column. Doubling is linear, and the
  fourth power of the mixing matrix is the identity.\<close>

lemma aes_xt_xor: "aes_xt (x XOR y) = aes_xt x XOR aes_xt y"
proof -
  have bit: "(drop_bit 7 z AND 1) = (if bit z 7 then 1 else 0)" for z :: u8
    by (rule bit_word_eqI) (auto simp: bit_simps intro: gr0I)
  show ?thesis unfolding aes_xt_def bit
    by (rule bit_word_eqI) (auto simp: bit_simps)
qed

lemma xor_cancel: "(x :: u8) XOR (x XOR y) = y"
  by (simp flip: xor.assoc)

definition mix4 :: "u8 \<times> u8 \<times> u8 \<times> u8 \<Rightarrow> u8 \<times> u8 \<times> u8 \<times> u8" where
  "mix4 = (\<lambda>(a, b, c, d). let t = a XOR b XOR c XOR d in
     (a XOR aes_xt (a XOR b) XOR t, b XOR aes_xt (b XOR c) XOR t,
      c XOR aes_xt (c XOR d) XOR t, d XOR aes_xt (d XOR a) XOR t))"

lemma aes_mix_column_mix4:
  "aes_mix_column i (a # b # c # d # r) = (case mix4 (a, b, c, d) of (a, b, c, d) \<Rightarrow> a # b # c # d # r)"
  by (simp add: aes_mix_column_def mix4_def Let_def xor.assoc)

lemma mix4_twice:
  "mix4 (mix4 (a, b, c, d)) =
   (a XOR aes_xt (aes_xt a) XOR aes_xt (aes_xt c), b XOR aes_xt (aes_xt b) XOR aes_xt (aes_xt d),
    c XOR aes_xt (aes_xt c) XOR aes_xt (aes_xt a), d XOR aes_xt (aes_xt d) XOR aes_xt (aes_xt b))"
  by (simp add: mix4_def Let_def aes_xt_xor xor.assoc xor.commute xor.left_commute xor_cancel)

lemma mix4_four: "mix4 (mix4 (mix4 (mix4 p))) = p"
proof (cases p)
  case (fields a b c d)
  show ?thesis
    unfolding fields mix4_twice by (simp add: aes_xt_xor xor.assoc xor.commute xor.left_commute xor_cancel)
qed

lemma aes_mix_columns_id: "length st = 16 \<Longrightarrow> aes_mix_columns st = st"
proof (erule list16)
  fix a b c d e f g h i j k l m n o' p
  assume "st = [a, b, c, d, e, f, g, h, i, j, k, l, m, n, o', p]"
  moreover have "[0..<4] = [0, 1, 2, 3]" by code_simp
  ultimately show ?thesis
    using mix4_four[of "(a, b, c, d)"]
    by (auto simp: aes_mix_columns_def aes_mix_column_mix4 split: prod.splits)
qed

section \<open>Diffusion\<close>

text \<open>Every byte of the result depends on one byte of the argument only.\<close>

definition depends :: "(u8 list \<Rightarrow> u8 list) \<Rightarrow> nat \<Rightarrow> nat \<Rightarrow> bool" where
  "depends f i j \<longleftrightarrow> (\<forall>st st'. length st = 16 \<and> length st' = 16 \<and> st ! i = st' ! i \<longrightarrow> f st ! j = f st' ! j)"

definition bytewise :: "(u8 list \<Rightarrow> u8 list) \<Rightarrow> bool" where
  "bytewise f \<longleftrightarrow> (\<forall>st. length st = 16 \<longrightarrow> length (f st) = 16) \<and> (\<forall>j < 16. \<exists>i < 16. depends f i j)"

lemma depends_comp:
  assumes "depends f i k" "depends g k j" "\<forall>st. length st = 16 \<longrightarrow> length (f st) = 16"
  shows "depends (\<lambda>st. g (f st)) i j"
  using assms by (simp add: depends_def)

lemma bytewise_comp: "bytewise f \<Longrightarrow> bytewise g \<Longrightarrow> bytewise (\<lambda>st. g (f st))"
  unfolding bytewise_def using depends_comp by metis

lemma bytewise_same:
  assumes "\<And>st. length st = 16 \<Longrightarrow> length (f st) = 16" "\<And>j. j < 16 \<Longrightarrow> depends f j j"
  shows "bytewise f"
  unfolding bytewise_def using assms by blast

lemma bytewise_fold: "(\<And>r. r \<in> set rs \<Longrightarrow> bytewise (f r)) \<Longrightarrow> bytewise (fold f rs)"
proof (induction rs)
  case Nil
  show ?case by (rule bytewise_same) (simp_all add: depends_def)
next
  case (Cons r rs)
  have "bytewise (\<lambda>st. fold f rs (f r st))"
    using bytewise_comp[of "f r" "fold f rs"] Cons by simp
  then show ?case by (simp add: comp_def)
qed

lemma bytewise_sub: "bytewise aes_sub_bytes"
  by (rule bytewise_same) (simp_all add: depends_def aes_sub_bytes_map)

lemma bytewise_add: "bytewise (aes_add_round_key r rk)"
  by (rule bytewise_same) (simp_all add: depends_def aes_add_round_key_nth)

lemma shift_rows_nth:
  assumes "length st = 16" "j < 16"
  shows "aes_shift_rows st ! j = st ! ([0, 5, 10, 15, 4, 9, 14, 3, 8, 13, 2, 7, 12, 1, 6, 11] ! j)"
proof -
  have "aes_shift_rows st = map ((!) st) [0, 5, 10, 15, 4, 9, 14, 3, 8, 13, 2, 7, 12, 1, 6, 11]"
    using assms(1) by (rule list16) (simp add: aes_shift_rows_def)
  then show ?thesis using assms(2) by (simp only:) (rule nth_map, simp)
qed

lemma bytewise_shift: "bytewise aes_shift_rows"
proof -
  let ?p = "[0, 5, 10, 15, 4, 9, 14, 3, 8, 13, 2, 7, 12, 1, 6, 11 :: nat]"
  have "\<forall>x \<in> set ?p. x < 16" by simp
  then have "?p ! j < 16" if "j < 16" for j using that nth_mem[of j ?p] by fastforce
  moreover have "depends aes_shift_rows (?p ! j) j" if "j < 16" for j
    using that by (simp add: depends_def shift_rows_nth)
  ultimately show ?thesis unfolding bytewise_def by auto
qed

lemma bytewise_mix: "bytewise aes_mix_columns"
  by (rule bytewise_same) (simp_all add: depends_def aes_mix_columns_id)

section \<open>Properties\<close>

text \<open>C31: the mixing step does nothing, as it mixes the first column four times and no other one, so the
  cipher spreads nothing: every byte of a ciphertext block depends on a single byte of the plaintext
  block, whatever the key.\<close>
theorem aes_no_diffusion:
  assumes "j < 16"
  shows "\<exists>i < 16. \<forall>st st'. length st = 16 \<and> length st' = 16 \<and> st ! i = st' ! i \<longrightarrow>
    aes_cipher st rk ! j = aes_cipher st' rk ! j"
proof -
  note sr = bytewise_comp[OF bytewise_sub bytewise_shift]
  note round = bytewise_comp[OF bytewise_comp[OF sr bytewise_mix] bytewise_add]
  note rounds = bytewise_fold[of "[1..<14]", OF round]
  have "bytewise (\<lambda>st. aes_cipher st rk)"
    using bytewise_comp[OF bytewise_comp[OF bytewise_comp[OF bytewise_add[of 0 rk] rounds[of "\<lambda>r. r" "\<lambda>_. rk"]] sr] bytewise_add[of 14 rk]]
    by (simp add: aes_cipher_def Let_def)
  then show ?thesis using assms by (simp add: bytewise_def depends_def)
qed

theorem aes_no_diffusion_witness:
  "\<exists>i < 16. \<forall>st st'. length st = 16 \<and> length st' = 16 \<and> st ! i = st' ! i \<longrightarrow>
    aes_cipher st (aes_key_expansion (replicate 32 7)) ! 3 = aes_cipher st' (aes_key_expansion (replicate 32 7)) ! 3"
  by (rule aes_no_diffusion) simp

text \<open>The inverse of a mixing step that does nothing would do nothing; the decryption's does not.\<close>

lemma aes_inv_mix_not_id: "aes_inv_mix_columns (1 # replicate 15 0) \<noteq> 1 # replicate 15 0"
  by code_simp

text \<open>removing the padding of a padded message gives back the message, for every message of at most
  \<open>2\<^sup>6\<^sup>3\<close> bytes in an array with room for the padding.\<close>
theorem pkcs7_roundtrip:
  assumes "length d = len" "len < 2 ^ 63" "length room \<ge> 16"
  shows "\<exists>p n. pkcs7_pad (d @ room) len 16 = Some (p, n) \<and> 16 dvd n \<and> len < n \<and> n \<le> len + 16 \<and>
    pkcs7_unpad p n = of_nat len \<and> take len p = d"
proof -
  define k where "k = 16 - len mod 16"
  have k: "1 \<le> k" "k \<le> 16" "16 dvd len + k"
  proof -
    show "1 \<le> k" "k \<le> 16" by (simp_all add: Suc_le_eq k_def)
    have "(len + k) mod 16 = (len mod 16 + k) mod 16" by (rule mod_add_left_eq[symmetric])
    also have "len mod 16 + k = 16" unfolding k_def using mod_less_divisor[of 16 len] by simp
    finally have "(len + k) mod 16 = 0" by (simp only: mod_self)
    then show "16 dvd len + k" by (rule mod_0_imp_dvd)
  qed
  let ?p = "blit (d @ room) len (replicate k (of_nat k))"
  have p: "?p = d @ replicate k (of_nat k) @ drop k room" using assms by (simp add: blit_def)
  have u: "unat (of_nat k :: u8) = k" "(of_nat k :: u8) \<ge> 1" "(of_nat k :: u8) \<le> 16"
    using k by (simp_all add: unat_of_nat_small word_le_nat_alt)
  have nth: "?p ! i = of_nat k" if "len \<le> i" "i < len + k" for i
  proof -
    have "i - len < k" using that by linarith
    then show ?thesis using that(1) assms(1) by (simp add: p nth_append)
  qed
  have start: "of_nat (len + k) - ucast (of_nat k :: u8) = (of_nat len :: u64)"
  proof -
    have "ucast (of_nat k :: u8) = (of_nat k :: u64)" using u(1) by (metis of_nat_unat)
    then show ?thesis by simp
  qed
  have "unat (of_nat len :: u64) = len" using assms(2) by (simp add: unat_of_nat_small)
  then have "pkcs7_unpad ?p (len + k) = of_nat len"
    using k u nth start by (auto simp: pkcs7_unpad_def Let_def)
  moreover have "pkcs7_pad (d @ room) len 16 = Some (?p, len + k)" using assms k by (simp add: pkcs7_pad_def Let_def flip: k_def)
  ultimately show ?thesis using k p assms(1) by auto
qed

theorem pkcs7_roundtrip_witness:
  "\<exists>p n. pkcs7_pad ([5, 6, 7] @ replicate 16 0) 3 16 = Some (p, n) \<and> pkcs7_unpad p n = 3"
  using pkcs7_roundtrip[of "[5, 6, 7]" 3 "replicate 16 0"] by auto

end
