(* ===== verification/Pig_Bignum.thy ===== *)
theory Pig_Bignum
  imports Pig_Prelude
begin

unbundle bit_operations_syntax

text \<open>
  The unsigned big integers of \<open>crypto/bignum.h\<close>. A \<open>BN\<close> is the list of its first \<open>n\<close> words, least
  significant first; an operation whose result needs more than the 64 words of the array, or that
  reads a word it never wrote, has no defined result. The 128-bit intermediate values of the C code
  are 128-bit words. \<open>bn_val\<close> is the number a \<open>BN\<close> stands for.
\<close>

section \<open>Definitions\<close>

type_synonym bn = "u64 list"

abbreviation (input) BN_MAX_WORDS :: nat where "BN_MAX_WORDS \<equiv> 64"

definition bn_zero :: bn where "bn_zero = [0]"
definition bn_one :: bn where "bn_one = [1]"
definition bn_set_u64 :: "u64 \<Rightarrow> bn" where "bn_set_u64 v = [v]"
definition bn_is_zero :: "bn \<Rightarrow> bool" where "bn_is_zero a \<longleftrightarrow> length a = 1 \<and> a ! 0 = 0"
definition bn_is_one :: "bn \<Rightarrow> bool" where "bn_is_one a \<longleftrightarrow> length a = 1 \<and> a ! 0 = 1"

text \<open>\<open>i<a->n?a->w[i]:0\<close>\<close>

definition bn_w :: "bn \<Rightarrow> nat \<Rightarrow> u64" where
  "bn_w a i = (if i < length a then a ! i else 0)"

fun bn_cmp_loop :: "bn \<Rightarrow> bn \<Rightarrow> nat \<Rightarrow> int" where
  "bn_cmp_loop a b 0 = 0"
| "bn_cmp_loop a b (Suc i) =
     (if bn_w a i \<noteq> bn_w b i then (if bn_w a i > bn_w b i then 1 else -1) else bn_cmp_loop a b i)"

definition bn_cmp :: "bn \<Rightarrow> bn \<Rightarrow> int" where
  "bn_cmp a b = bn_cmp_loop a b (if length a > length b then length a else length b)"

text \<open>A store to \<open>r->w[k]\<close> past the array is undefined.\<close>

definition bn_fit :: "bn \<Rightarrow> bn option" where
  "bn_fit r = (if length r \<le> BN_MAX_WORDS then Some r else None)"

text \<open>The two halves of a 128-bit intermediate value.\<close>

definition lo64 :: "128 word \<Rightarrow> u64" where "lo64 p = ucast p"
definition hi64 :: "128 word \<Rightarrow> u64" where "hi64 p = ucast (drop_bit 64 p)"

fun bn_add_loop :: "u64 \<Rightarrow> (u64 \<times> u64) list \<Rightarrow> u64 list \<times> u64" where
  "bn_add_loop c [] = ([], c)"
| "bn_add_loop c ((av, bv) # ps) =
     (let s = ucast av + ucast bv + ucast c; (ws, c') = bn_add_loop (hi64 s) ps
      in (lo64 s # ws, c'))"

definition bn_add :: "bn \<Rightarrow> bn \<Rightarrow> bn option" where
  "bn_add a b =
     (let n = (if length a > length b then length a else length b);
          (ws, c) = bn_add_loop 0 (map (\<lambda>i. (bn_w a i, bn_w b i)) [0..<n])
      in bn_fit (if c \<noteq> 0 then ws @ [c] else ws))"

text \<open>\<open>while(n>1&&r->w[n-1]==0)n--\<close>\<close>

function bn_trim :: "bn \<Rightarrow> bn" where
  "bn_trim r = (if length r > 1 \<and> last r = 0 then bn_trim (butlast r) else r)"
  by auto
termination by (relation "measure length") auto

declare bn_trim.simps [simp del]

text \<open>The signed 128-bit difference of two words and a borrow lies in its type; it is an integer.\<close>

fun bn_sub_loop :: "u64 \<Rightarrow> (u64 \<times> u64) list \<Rightarrow> u64 list" where
  "bn_sub_loop c [] = []"
| "bn_sub_loop c ((av, bv) # ps) =
     (let s = uint av - uint bv - uint c
      in of_int s # bn_sub_loop (if s < 0 then 1 else 0) ps)"

definition bn_sub :: "bn \<Rightarrow> bn \<Rightarrow> bn" where
  "bn_sub a b = bn_trim (bn_sub_loop 0 (map (\<lambda>i. (a ! i, bn_w b i)) [0..<length a]))"

text \<open>One row of the product: \<open>x\<close> times \<open>b\<close>, added into \<open>r\<close> from word \<open>i\<close> on.\<close>

fun bn_mul_row :: "u64 \<Rightarrow> nat \<Rightarrow> u64 list \<Rightarrow> u64 \<Rightarrow> bn \<Rightarrow> bn \<times> u64" where
  "bn_mul_row x k [] c r = (r, c)"
| "bn_mul_row x k (y # ys) c r =
     (let p = ucast x * ucast y + ucast (r ! k) + ucast c
      in bn_mul_row x (k + 1) ys (hi64 p) (r[k := lo64 p]))"

definition bn_mul_step :: "bn \<Rightarrow> bn \<Rightarrow> nat \<Rightarrow> bn \<Rightarrow> bn" where
  "bn_mul_step a b i r =
     (let (r, c) = bn_mul_row (a ! i) i b 0 r; k = i + length b
      in if c \<noteq> 0 then r[k := r ! k + c] else r)"

definition bn_mul :: "bn \<Rightarrow> bn \<Rightarrow> bn option" where
  "bn_mul a b =
     (let rn = length a + length b in
      if rn > BN_MAX_WORDS then None
      else Some (bn_trim (fold (bn_mul_step a b) [0..<length a] (replicate rn 0))))"

text \<open>The body of the double loop of \<open>bn_mod\<close> does not use the loop variables, nor the \<open>q\<close> of the
  iteration before: it stores \<open>2r\<close>, less \<open>m\<close> when that is possible, in \<open>q\<close>.\<close>

definition bn_mod_body :: "bn \<Rightarrow> bn \<Rightarrow> nat \<times> nat \<Rightarrow> bn \<Rightarrow> bn option" where
  "bn_mod_body r m ij q = do {
     q \<leftarrow> bn_add r r;
     Some (if bn_cmp q m \<ge> 0 then bn_sub q m else q) }"

definition bn_mod :: "bn \<Rightarrow> bn \<Rightarrow> bn option" where
  "bn_mod a m =
     (if bn_cmp a m < 0 then Some a
      else ofold (bn_mod_body a m) (List.product (rev [0..<length a]) (rev [0..<64])) bn_zero)"

definition bn_mulmod :: "bn \<Rightarrow> bn \<Rightarrow> bn \<Rightarrow> bn option" where
  "bn_mulmod a b m = do { t \<leftarrow> bn_mul a b; bn_mod t m }"

text \<open>\<open>e.w[i]=(e.w[i]>>1)|(e.w[i+1]<<63)\<close> for all but the last word, \<open>e.w[e.n-1]>>=1\<close>, then the trimming.\<close>

fun bn_shr_words :: "bn \<Rightarrow> bn" where
  "bn_shr_words [] = []"
| "bn_shr_words [w] = [drop_bit 1 w]"
| "bn_shr_words (w # v # ws) = (drop_bit 1 w OR push_bit 63 v) # bn_shr_words (v # ws)"

definition bn_shr1 :: "bn \<Rightarrow> bn" where
  "bn_shr1 e = bn_trim (bn_shr_words e)"
section \<open>Values\<close>

abbreviation base64 :: nat where "base64 \<equiv> 2 ^ 64"

fun bn_val :: "bn \<Rightarrow> nat" where
  "bn_val [] = 0"
| "bn_val (w # ws) = unat w + base64 * bn_val ws"

definition bn_ok :: "bn \<Rightarrow> bool" where
  "bn_ok a \<longleftrightarrow> 0 < length a \<and> length a \<le> BN_MAX_WORDS"

lemma unat_lt64: "unat (w :: u64) < base64"
  using unsigned_less[of w, where 'a = nat] by simp

lemma bn_val_bound: "bn_val ws < base64 ^ length ws"
proof (induction ws)
  case (Cons w ws)
  have "unat w + base64 * bn_val ws < base64 + base64 * bn_val ws" using unat_lt64[of w] by simp
  also have "\<dots> = base64 * Suc (bn_val ws)" by simp
  also have "\<dots> \<le> base64 * base64 ^ length ws" using Cons by (intro mult_le_mono2) simp
  finally show ?case by simp
qed simp

lemma bn_val_append: "bn_val (xs @ ys) = bn_val xs + base64 ^ length xs * bn_val ys"
  by (induction xs) (simp_all add: algebra_simps)

lemma bn_val_update:
  "k < length r \<Longrightarrow> bn_val (r[k := v]) + base64 ^ k * unat (r ! k) = bn_val r + base64 ^ k * unat v"
proof (induction r arbitrary: k)
  case (Cons x r)
  then show ?case
  proof (cases k)
    case (Suc j)
    have "base64 * bn_val (r[j := v]) + base64 * (base64 ^ j * unat (r ! j)) =
        base64 * bn_val r + base64 * (base64 ^ j * unat v)"
      using Cons.IH[of j] Cons.prems Suc by (metis distrib_left length_Cons Suc_less_eq)
    then show ?thesis using Suc by (simp add: mult.assoc)
  qed simp
qed simp

lemma bn_val_replicate [simp]: "bn_val (replicate n 0) = 0"
  by (induction n) auto

lemma bn_val_pad: "length a \<le> n \<Longrightarrow> bn_val (map (bn_w a) [0..<n]) = bn_val a"
proof -
  assume "length a \<le> n"
  then have "map (bn_w a) [0..<n] = a @ replicate (n - length a) 0"
    by (intro nth_equalityI) (auto simp: bn_w_def nth_append)
  then show ?thesis by (simp add: bn_val_append)
qed

lemma bn_trim_val [simp]: "bn_val (bn_trim r) = bn_val r"
proof (induction r rule: bn_trim.induct)
  case (1 r)
  show ?case
  proof (cases "length r > 1 \<and> last r = 0")
    case True
    then have "r = butlast r @ [0]" by (metis append_butlast_last_id list.size(3) not_less_zero)
    then have "bn_val r = bn_val (butlast r)" by (metis bn_val_append bn_val.simps add.right_neutral mult_0_right unat_0)
    then show ?thesis using 1 True by (subst bn_trim.simps) simp
  next
    case False
    then show ?thesis by (subst bn_trim.simps) auto
  qed
qed

lemma bn_trim_length: "length (bn_trim r) \<le> length r" "0 < length r \<Longrightarrow> 0 < length (bn_trim r)"
proof (induction r rule: bn_trim.induct)
  case (1 r)
  { case 1 then show ?case using "1.IH"(1) by (subst bn_trim.simps) (auto intro: le_trans) }
  { case 2 then show ?case using "1.IH"(2) by (subst bn_trim.simps) auto }
qed

lemma lo_hi: "unat (lo64 p) + base64 * unat (hi64 p) = unat p"
proof -
  have "unat p < 2 ^ 64 * 2 ^ 64" using unsigned_less[of p, where 'a = nat] by (simp add: power_add[symmetric])
  then have lt: "unat p div 2 ^ 64 < 2 ^ 64" by (rule less_mult_imp_div_less)
  have "unat (hi64 p) = unat p div 2 ^ 64"
    using lt unfolding hi64_def unsigned_ucast_eq unsigned_drop_bit_eq
    by (simp add: take_bit_eq_mod drop_bit_eq_div)
  moreover have "unat (lo64 p) = unat p mod 2 ^ 64" by (simp add: lo64_def unsigned_ucast_eq take_bit_eq_mod)
  ultimately show ?thesis by simp
qed

section \<open>Comparison, addition and subtraction\<close>

lemma bn_val_take_Suc:
  "bn_val (map (bn_w a) [0..<Suc i]) = bn_val (map (bn_w a) [0..<i]) + base64 ^ i * unat (bn_w a i)"
  by (simp add: bn_val_append)

definition cmp3 :: "nat \<Rightarrow> nat \<Rightarrow> int" where
  "cmp3 x y = (if x > y then 1 else if x < y then -1 else 0)"

lemma bn_cmp_loop_val:
  "bn_cmp_loop a b i = cmp3 (bn_val (map (bn_w a) [0..<i])) (bn_val (map (bn_w b) [0..<i]))"
proof (induction i)
  case (Suc i)
  let ?A = "bn_val (map (bn_w a) [0..<i])" and ?B = "bn_val (map (bn_w b) [0..<i])" and ?p = "base64 ^ i"
  have lt: "?A < ?p" "?B < ?p" using bn_val_bound[of "map _ [0..<i]"] by simp_all
  have gt: "x + ?p * u > y + ?p * v" if "u > v" "y < ?p" for x y u v :: nat
  proof -
    have "y + ?p * v < ?p * Suc v" using that(2) by simp
    also have "\<dots> \<le> ?p * u" using that(1) by (intro mult_le_mono2) simp
    finally show ?thesis by simp
  qed
  consider "bn_w a i = bn_w b i" | "bn_w b i < bn_w a i" | "bn_w a i < bn_w b i" by (metis linorder_neqE)
  then show ?case
  proof cases
    case 2
    then have "?A + ?p * unat (bn_w a i) > ?B + ?p * unat (bn_w b i)" using lt by (intro gt) (simp_all add: word_less_nat_alt)
    then show ?thesis using 2 by (auto simp: bn_val_take_Suc cmp3_def simp del: upt_Suc)
  next
    case 3
    then have "?A + ?p * unat (bn_w a i) < ?B + ?p * unat (bn_w b i)" using lt by (intro gt) (simp_all add: word_less_nat_alt)
    then show ?thesis using 3 by (auto simp: bn_val_take_Suc cmp3_def simp del: upt_Suc)
  qed (use Suc in \<open>simp add: bn_val_take_Suc cmp3_def del: upt_Suc\<close>)
qed (simp add: cmp3_def)

lemma bn_cmp_val: "bn_cmp a b = cmp3 (bn_val a) (bn_val b)"
  by (simp add: bn_cmp_def bn_cmp_loop_val bn_val_pad)

lemma unat_sum128:
  "unat (ucast av + ucast bv + ucast c :: 128 word) = unat (av :: u64) + unat (bv :: u64) + unat (c :: u64)"
proof -
  have "unat av + unat bv + unat c < 2 ^ 128"
    using unat_lt64[of av] unat_lt64[of bv] unat_lt64[of c] by simp
  then show ?thesis by (simp add: unat_word_ariths unsigned_ucast_eq take_bit_nat_eq_self)
qed

lemma bn_add_loop_val:
  "bn_add_loop c ps = (ws, c') \<Longrightarrow>
   length ws = length ps \<and>
   bn_val ws + base64 ^ length ps * unat c' = bn_val (map fst ps) + bn_val (map snd ps) + unat c"
proof (induction c ps arbitrary: ws c' rule: bn_add_loop.induct)
  case (2 c av bv ps)
  let ?s = "ucast av + ucast bv + ucast c :: 128 word"
  obtain vs where vs: "bn_add_loop (hi64 ?s) ps = (vs, c')" "ws = lo64 ?s # vs"
    using 2(2) by (auto simp: Let_def split: prod.splits)
  have IH: "length vs = length ps" "bn_val vs + base64 ^ length ps * unat c' =
      bn_val (map fst ps) + bn_val (map snd ps) + unat (hi64 ?s)"
    using 2(1)[OF refl vs(1)] by auto
  have "base64 * (bn_val vs + base64 ^ length ps * unat c') =
      base64 * (bn_val (map fst ps) + bn_val (map snd ps)) + base64 * unat (hi64 ?s)"
    unfolding IH(2) by (rule distrib_left)
  then show ?case using IH(1) lo_hi[of ?s] unfolding vs(2) unat_sum128 by (simp add: algebra_simps)
qed simp

lemma bn_add_val:
  assumes "bn_add a b = Some r"
  shows "bn_val r = bn_val a + bn_val b" "length r \<le> 64" "length r \<ge> length a"
proof -
  let ?n = "if length a > length b then length a else length b"
  obtain ws c where ws: "bn_add_loop 0 (map (\<lambda>i. (bn_w a i, bn_w b i)) [0..<?n]) = (ws, c)" by fastforce
  note v = bn_add_loop_val[OF ws, unfolded map_map comp_def fst_conv snd_conv]
  have r: "r = (if c \<noteq> 0 then ws @ [c] else ws)" "length r \<le> 64"
    using assms ws by (auto simp: bn_add_def Let_def bn_fit_def split: if_splits prod.splits)
  then show "length r \<le> 64" "length r \<ge> length a" using v by auto
  have "bn_val ws + base64 ^ ?n * unat c = bn_val a + bn_val b" using v by (simp add: bn_val_pad)
  moreover have "bn_val r = bn_val ws + base64 ^ ?n * unat c"
    using r(1) v by (auto simp: bn_val_append)
  ultimately show "bn_val r = bn_val a + bn_val b" by simp
qed

text \<open>The result is missing only when it needs a 65th word.\<close>

lemma bn_add_defined:
  assumes "bn_ok a" "bn_ok b"
  shows "bn_add a b = None \<longleftrightarrow> base64 ^ 64 \<le> bn_val a + bn_val b"
proof -
  let ?n = "if length a > length b then length a else length b"
  obtain ws c where ws: "bn_add_loop 0 (map (\<lambda>i. (bn_w a i, bn_w b i)) [0..<?n]) = (ws, c)" by fastforce
  note v = bn_add_loop_val[OF ws, unfolded map_map comp_def fst_conv snd_conv]
  have len: "length ws = ?n" "?n \<le> 64" using v assms by (auto simp: bn_ok_def)
  have val: "bn_val ws + base64 ^ ?n * unat c = bn_val a + bn_val b" using v by (simp add: bn_val_pad)
  have lt: "bn_val ws < base64 ^ ?n" using bn_val_bound[of ws] len by simp
  have none: "bn_add a b = None \<longleftrightarrow> c \<noteq> 0 \<and> ?n = 64"
    using ws len by (auto simp: bn_add_def bn_fit_def Let_def)
  have "bn_val a + bn_val b < base64 ^ 64" if "?n \<noteq> 64"
  proof -
    have "bn_val a < base64 ^ ?n" "bn_val b < base64 ^ ?n"
      using bn_val_bound[of "map (bn_w a) [0..<?n]"] bn_val_bound[of "map (bn_w b) [0..<?n]"] by (simp_all add: bn_val_pad)
    then have "bn_val a + bn_val b < base64 ^ Suc ?n" by simp
    also have "\<dots> \<le> base64 ^ 64" using that len(2) by (intro power_increasing) auto
    finally show ?thesis .
  qed
  moreover have "bn_val a + bn_val b < base64 ^ 64" if "?n = 64" "c = 0" using val lt that by simp
  moreover have "base64 ^ 64 \<le> bn_val a + bn_val b" if "?n = 64" "c \<noteq> 0"
  proof -
    have "1 \<le> unat c" using that(2) by (simp add: unat_gt_0 Suc_leI)
    then have "base64 ^ 64 * 1 \<le> base64 ^ 64 * unat c" by (intro mult_le_mono2)
    then show ?thesis using val unfolding that(1) by linarith
  qed
  ultimately show ?thesis using none by (metis leD)
qed

lemma uint_borrow:
  fixes av bv c :: u64
  assumes "c \<le> 1"
  defines "s \<equiv> uint av - uint bv - uint c"
  shows "uint (of_int s :: u64) = s + 2 ^ 64 * (if s < 0 then 1 else 0)"
proof -
  have c: "0 \<le> uint c" "uint c \<le> 1" using assms(1) by (simp_all add: word_le_def)
  have a: "0 \<le> uint av" "uint av < 2 ^ 64" "0 \<le> uint bv" "uint bv < 2 ^ 64"
    using unsigned_less[of av, where 'a = int] unsigned_less[of bv, where 'a = int] by simp_all
  have "- (2 ^ 64) \<le> s" "s < 2 ^ 64" unfolding s_def using c a by linarith+
  moreover have "(s + 2 ^ 64) mod 2 ^ 64 = s mod 2 ^ 64" by simp
  ultimately show ?thesis
    using mod_pos_pos_trivial[of "s + 2 ^ 64" "2 ^ 64"] mod_pos_pos_trivial[of s "2 ^ 64"]
    by (auto simp: uint_word_of_int take_bit_eq_mod)
qed

lemma bn_sub_loop_val:
  "c \<le> 1 \<Longrightarrow> length (bn_sub_loop c ps) = length ps \<and>
   (\<exists>k \<ge> 0. int (bn_val (bn_sub_loop c ps)) + uint c + int (bn_val (map snd ps)) =
      int (bn_val (map fst ps)) + int (base64 ^ length ps) * k)"
proof (induction c ps rule: bn_sub_loop.induct)
  case (1 c)
  have "0 \<le> uint c" by simp
  then show ?case by (auto intro: exI[of _ "uint c"])
next
  case (2 c av bv ps)
  let ?s = "uint av - uint bv - uint c"
  let ?c = "if ?s < 0 then 1 else 0 :: u64"
  have c1: "?c \<le> 1" by simp
  obtain k where k: "k \<ge> 0" "int (bn_val (bn_sub_loop ?c ps)) + uint ?c + int (bn_val (map snd ps)) =
      int (bn_val (map fst ps)) + int (base64 ^ length ps) * k" and l: "length (bn_sub_loop ?c ps) = length ps"
    using 2(1)[OF refl c1] by blast
  have u: "uint (of_int ?s :: u64) + uint c + uint bv = uint av + int base64 * uint ?c"
    using uint_borrow[OF 2(2), of av bv] by simp
  have "int (bn_val (bn_sub_loop c ((av, bv) # ps))) + uint c + int (bn_val (map snd ((av, bv) # ps))) =
      (uint (of_int ?s :: u64) + uint c + uint bv) + int base64 * (int (bn_val (bn_sub_loop ?c ps)) + int (bn_val (map snd ps)))"
    by (simp add: Let_def algebra_simps)
  also have "\<dots> = uint av + int base64 * (int (bn_val (bn_sub_loop ?c ps)) + uint ?c + int (bn_val (map snd ps)))"
    unfolding u by (simp add: algebra_simps)
  also have "\<dots> = int (bn_val (map fst ((av, bv) # ps))) + int (base64 ^ length ((av, bv) # ps)) * k"
    unfolding k(2) by (simp add: algebra_simps)
  finally show ?case using k(1) l by (auto simp: Let_def)
qed

lemma bn_sub_val:
  assumes "bn_val b \<le> bn_val a"
  shows "bn_val (bn_sub a b) = bn_val a - bn_val b"
proof -
  let ?n = "length a" and ?ps = "map (\<lambda>i. (a ! i, bn_w b i)) [0..<length a]"
  have snd: "map snd ?ps = map (bn_w b) [0..<?n]" and fst: "map fst ?ps = a"
    by (simp_all add: comp_def map_nth)
  have eqb: "bn_val (map (bn_w b) [0..<?n]) = bn_val b"
  proof (cases "?n \<le> length b")
    case True
    then have t: "map (bn_w b) [0..<?n] = take ?n b" by (intro nth_equalityI) (auto simp: bn_w_def)
    have v: "bn_val b = bn_val (take ?n b) + base64 ^ ?n * bn_val (drop ?n b)"
      using bn_val_append[of "take ?n b" "drop ?n b"] True by simp
    have "base64 ^ ?n * bn_val (drop ?n b) < base64 ^ ?n"
      using v assms bn_val_bound[of a] by linarith
    then have "bn_val (drop ?n b) = 0" by simp
    then show ?thesis using t v by simp
  qed (simp add: bn_val_pad)
  obtain k where k: "k \<ge> 0" "int (bn_val (bn_sub_loop 0 ?ps)) + int (bn_val b) = int (bn_val a) + int (base64 ^ ?n) * k"
    using bn_sub_loop_val[of 0 ?ps] unfolding snd fst eqb by auto
  have "bn_val (bn_sub_loop 0 ?ps) < base64 ^ ?n"
    using bn_val_bound[of "bn_sub_loop 0 ?ps"] bn_sub_loop_val[of 0 ?ps] by simp
  moreover have "int (bn_val (bn_sub_loop 0 ?ps)) \<ge> int (base64 ^ ?n) * k" using k assms by linarith
  ultimately have "int (base64 ^ ?n) * k < int (base64 ^ ?n) * 1" by linarith
  then have "k < 1" by (subst (asm) mult_less_cancel_left_pos) simp_all
  then have "k = 0" using k(1) by simp
  then show ?thesis using k(2) by (simp add: bn_sub_def)
qed

section \<open>Multiplication\<close>

lemma unat_mac128:
  "unat (ucast x * ucast y + ucast r + ucast c :: 128 word) =
   unat (x :: u64) * unat (y :: u64) + unat (r :: u64) + unat (c :: u64)"
proof -
  have le: "unat x \<le> 2 ^ 64 - 1" "unat y \<le> 2 ^ 64 - 1" "unat r \<le> 2 ^ 64 - 1" "unat c \<le> 2 ^ 64 - 1"
    using unat_lt64[of x] unat_lt64[of y] unat_lt64[of r] unat_lt64[of c] by simp_all
  have "unat x * unat y \<le> (2 ^ 64 - 1) * (2 ^ 64 - 1)" using le by (intro mult_le_mono)
  then have "unat x * unat y + unat r + unat c \<le> (2 ^ 64 - 1) * (2 ^ 64 - 1) + (2 ^ 64 - 1) + (2 ^ 64 - 1)"
    using le by linarith
  also have "\<dots> < 2 ^ 128" by simp
  finally have lt: "unat x * unat y + unat r + unat c < 2 ^ 128" .
  have "ucast x * ucast y + ucast r + ucast c = (of_nat (unat x * unat y + unat r + unat c) :: 128 word)" by simp
  then show ?thesis using lt by (simp only: unsigned_of_nat) (simp add: take_bit_nat_eq_self)
qed

lemma bn_mul_row_val:
  "k + length ys \<le> length r \<Longrightarrow> bn_mul_row x k ys c r = (r', c') \<Longrightarrow>
   length r' = length r \<and> (\<forall>j \<ge> k + length ys. r' ! j = r ! j) \<and>
   bn_val r' + base64 ^ (k + length ys) * unat c' = bn_val r + base64 ^ k * (unat x * bn_val ys + unat c)"
proof (induction x k ys c r arbitrary: r' c' rule: bn_mul_row.induct)
  case (2 x k y ys c r)
  let ?p = "ucast x * ucast y + ucast (r ! k) + ucast c :: 128 word"
  have k: "k < length r" using 2(2) by simp
  have IH: "length r' = length r" "\<forall>j \<ge> k + 1 + length ys. r' ! j = r[k := lo64 ?p] ! j"
    "bn_val r' + base64 ^ (k + 1 + length ys) * unat c' =
     bn_val (r[k := lo64 ?p]) + base64 ^ (k + 1) * (unat x * bn_val ys + unat (hi64 ?p))"
    using 2(1)[OF refl, of r' c'] 2(2,3) by (simp_all add: Let_def)
  have u: "bn_val (r[k := lo64 ?p]) + base64 ^ k * unat (r ! k) = bn_val r + base64 ^ k * unat (lo64 ?p)"
    by (rule bn_val_update[OF k])
  have "base64 ^ k * unat (lo64 ?p) + base64 ^ (k + 1) * unat (hi64 ?p) =
      base64 ^ k * (unat (lo64 ?p) + base64 * unat (hi64 ?p))" by (simp add: algebra_simps)
  also have "\<dots> = base64 ^ k * (unat x * unat y + unat c) + base64 ^ k * unat (r ! k)"
    unfolding lo_hi unat_mac128 by (simp add: algebra_simps)
  finally have "bn_val r' + base64 ^ (k + 1 + length ys) * unat c' =
      bn_val r + base64 ^ k * (unat x * unat y + unat c) + base64 ^ (k + 1) * (unat x * bn_val ys)"
    using IH(3) u unfolding distrib_left by linarith
  then show ?case using IH(1,2) by (simp add: algebra_simps)
qed simp

lemma bn_mul_step_val:
  assumes "i < length a" "length r = length a + length b" "\<forall>k \<ge> i + length b. k < length r \<longrightarrow> r ! k = 0"
  shows "length (bn_mul_step a b i r) = length r \<and>
    (\<forall>k \<ge> Suc i + length b. k < length r \<longrightarrow> bn_mul_step a b i r ! k = 0) \<and>
    bn_val (bn_mul_step a b i r) = bn_val r + base64 ^ i * (unat (a ! i) * bn_val b)"
proof -
  obtain r1 c where r1: "bn_mul_row (a ! i) i b 0 r = (r1, c)" by fastforce
  let ?k = "i + length b"
  have k: "?k < length r" using assms(1,2) by simp
  then have v: "length r1 = length r" "\<forall>j \<ge> ?k. r1 ! j = r ! j"
    "bn_val r1 + base64 ^ ?k * unat c = bn_val r + base64 ^ i * (unat (a ! i) * bn_val b)"
    using bn_mul_row_val[OF _ r1] by auto
  have z: "r1 ! ?k = 0" using v(2) assms(3) k by simp
  have st: "bn_mul_step a b i r = (if c \<noteq> 0 then r1[?k := c] else r1)"
    using z by (simp add: bn_mul_step_def r1)
  have "bn_val (r1[?k := c]) = bn_val r1 + base64 ^ ?k * unat c"
    using bn_val_update[of ?k r1 c] k v(1) z by simp
  then show ?thesis using v assms(3) unfolding st by auto
qed

lemma bn_mul_val:
  assumes "bn_mul a b = Some r"
  shows "bn_val r = bn_val a * bn_val b" "length r \<le> 64" "0 < length a \<Longrightarrow> 0 < length r"
proof -
  let ?f = "\<lambda>i. fold (bn_mul_step a b) [0..<i] (replicate (length a + length b) 0)"
  have inv: "length (?f i) = length a + length b \<and>
      (\<forall>k \<ge> i + length b. k < length a + length b \<longrightarrow> ?f i ! k = 0) \<and>
      bn_val (?f i) = bn_val (take i a) * bn_val b" if "i \<le> length a" for i
    using that
  proof (induction i)
    case (Suc i)
    then have i: "i < length a" by simp
    have "bn_val (take (Suc i) a) = bn_val (take i a) + base64 ^ i * unat (a ! i)"
      using i by (simp add: take_Suc_conv_app_nth bn_val_append)
    then show ?case
      using bn_mul_step_val[OF i, of "?f i" b] Suc.IH i by (simp add: algebra_simps)
  qed simp
  have r: "r = bn_trim (?f (length a))" "length a + length b \<le> 64"
    using assms by (auto simp: bn_mul_def Let_def split: if_splits)
  show "bn_val r = bn_val a * bn_val b" using inv[of "length a"] by (simp add: r(1))
  show "length r \<le> 64" "0 < length a \<Longrightarrow> 0 < length r"
    using bn_trim_length[of "?f (length a)"] inv[of "length a"] r(2) by (auto simp: r(1))
qed

section \<open>The remainder\<close>

lemma ofold_const:
  assumes "xs \<noteq> []" "\<And>x s. x \<in> set xs \<Longrightarrow> f x s = Some v"
  shows "ofold f xs s = Some v"
  using assms
proof (induction xs arbitrary: s)
  case (Cons x xs)
  then show ?case by (cases "xs = []") auto
qed simp

lemma bn_mod_small: "bn_val a < bn_val m \<Longrightarrow> bn_mod a m = Some a"
  by (simp add: bn_mod_def bn_cmp_val cmp3_def)

lemma bn_mod_large:
  assumes "bn_ok a" "bn_val m \<le> bn_val a" "bn_val a + bn_val a < base64 ^ 64"
  shows "\<exists>r. bn_mod a m = Some r \<and> bn_val r = 2 * bn_val a - bn_val m"
proof -
  obtain q where q: "bn_add a a = Some q"
    using bn_add_defined[OF assms(1,1)] assms(3) by (cases "bn_add a a") auto
  have v: "bn_val q = 2 * bn_val a" using bn_add_val(1)[OF q] by simp
  have b: "bn_mod_body a m ij s = Some (bn_sub q m)" for ij s
    using v assms(2) by (simp add: bn_mod_body_def q bn_cmp_val cmp3_def)
  have ne: "List.product (rev [0..<length a]) (rev [0..<64]) \<noteq> ([] :: (nat \<times> nat) list)"
    using assms(1) by (auto simp: bn_ok_def dest: arg_cong[of _ _ length])
  have "bn_mod a m = Some (bn_sub q m)"
    using ofold_const[OF ne b] assms(2) by (simp add: bn_mod_def bn_cmp_val cmp3_def)
  then show ?thesis using bn_sub_val[of m q] v assms(2) by simp
qed

section \<open>Powers, primes and inverses\<close>

lemma unat_shr1: "unat (drop_bit 1 (w :: u64)) = unat w div 2"
  unfolding unsigned_drop_bit_eq using unat_lt64[of w] by (simp add: drop_bit_eq_div take_bit_eq_mod)

lemma unat_shr_word: "unat (drop_bit 1 w OR push_bit 63 v :: u64) = unat w div 2 + 2 ^ 63 * (unat v mod 2)"
proof -
  have "drop_bit 1 w AND push_bit 63 v = 0"
    by (rule bit_word_eqI) (auto simp: bit_simps dest: bit_imp_le_length)
  from disjunctive_add_eq_or[OF this, symmetric]
  have "drop_bit 1 w OR push_bit 63 v = drop_bit 1 w + push_bit 63 v" .
  moreover have "unat (drop_bit 1 w) = unat w div 2" by (rule unat_shr1)
  moreover have "unat (push_bit 63 v) = 2 ^ 63 * (unat v mod 2)"
    unfolding unsigned_push_bit_eq by (simp add: take_bit_push_bit) (simp add: push_bit_eq_mult take_bit_eq_mod)
  moreover have "unat w div 2 + 2 ^ 63 * (unat v mod 2) < 2 ^ 64"
    using unat_lt64[of w] mod_less_divisor[of 2 "unat v"] by auto
  ultimately show ?thesis by (simp add: unat_word_ariths)
qed

lemma div2_low: "(x + 2 ^ 64 * y) div 2 = x div 2 + 2 ^ 63 * (y :: nat)" "(x + 2 ^ 64 * y) mod 2 = x mod 2"
proof -
  have "x + 2 ^ 64 * y = x + 2 * (2 ^ 63 * y)" by simp
  then show "(x + 2 ^ 64 * y) div 2 = x div 2 + 2 ^ 63 * y" "(x + 2 ^ 64 * y) mod 2 = x mod 2"
    by (simp_all only: div_mult_self2[OF zero_neq_numeral[symmetric]] mod_mult_self2 add.commute)
qed

lemma bn_shr_words_val: "bn_val (bn_shr_words e) = bn_val e div 2"
proof (induction e rule: bn_shr_words.induct)
  case (3 w v ws)
  let ?y = "bn_val (v # ws)"
  have "bn_val (w # v # ws) div 2 = unat w div 2 + 2 ^ 63 * ?y" by (simp only: bn_val.simps div2_low)
  also have "\<dots> = unat w div 2 + 2 ^ 63 * (?y mod 2 + 2 * (?y div 2))" by simp
  also have "?y mod 2 = unat v mod 2" by (simp only: bn_val.simps div2_low)
  also have "unat w div 2 + 2 ^ 63 * (unat v mod 2 + 2 * (?y div 2)) =
      unat w div 2 + 2 ^ 63 * (unat v mod 2) + 2 ^ 64 * (?y div 2)" by (simp only: distrib_left) simp
  finally show ?case by (simp only: bn_shr_words.simps bn_val.simps(2)[of "_ OR _"] unat_shr_word 3)
next
  case (2 w)
  then show ?case by (simp only: bn_shr_words.simps bn_val.simps unat_shr1 mult_0_right add_0_right)
qed simp

lemma bn_shr_words_length [simp]: "length (bn_shr_words e) = length e"
  by (induction e rule: bn_shr_words.induct) auto

lemma bn_shr1_val [simp]: "bn_val (bn_shr1 e) = bn_val e div 2"
  by (simp add: bn_shr1_def bn_shr_words_val)

lemma bn_trim_zero: "bn_val r = 0 \<Longrightarrow> r \<noteq> [] \<Longrightarrow> bn_trim r = [0]"
proof (induction r rule: bn_trim.induct)
  case (1 r)
  have all: "w = 0" if "w \<in> set ws" "bn_val ws = 0" for w ws
    using that by (induction ws) (auto simp: unat_eq_zero)
  show ?case
  proof (cases "length r > 1")
    case True
    have l: "last r = 0" using all[of "last r" r] 1 by simp
    have "bn_val (butlast r) = 0" using 1(2,3) bn_val_append[of "butlast r" "[last r]"] by simp
    then have "bn_trim (butlast r) = [0]" using 1(1)[OF conjI[OF True l]] True by (metis length_butlast length_greater_0_conv zero_less_diff)
    then show ?thesis using True l by (subst bn_trim.simps) simp
  next
    case False
    then obtain w where "r = [w]" using 1(3) by (cases r) auto
    then show ?thesis using 1(2) by (subst bn_trim.simps) (simp add: unat_eq_zero)
  qed
qed

lemma bn_shr1_decreases:
  assumes "e \<noteq> []" "\<not> bn_is_zero e"
  shows "bn_val (bn_shr1 e) + length (bn_shr1 e) < bn_val e + length e"
proof (cases "bn_val e = 0")
  case True
  have "bn_shr_words e \<noteq> []" using assms(1) bn_shr_words_length[of e] by (metis length_0_conv)
  then have "bn_shr1 e = [0]" using True by (simp add: bn_shr1_def bn_trim_zero bn_shr_words_val)
  moreover have "length e > 1"
  proof (rule ccontr)
    assume "\<not> length e > 1"
    then obtain w where "e = [w]" using assms(1) by (cases e) auto
    then show False using True assms(2) by (simp add: bn_is_zero_def unat_eq_zero)
  qed
  ultimately show ?thesis using True by simp
next
  case False
  then show ?thesis using bn_trim_length(1)[of "bn_shr_words e"] by (simp add: bn_shr1_def bn_shr_words_val)
qed

text \<open>The loop of \<open>bn_powmod\<close>. A \<open>BN\<close> has at least one word; the loop ends on a list of none.\<close>

function bn_powmod_loop :: "bn \<Rightarrow> bn \<Rightarrow> bn \<Rightarrow> bn \<Rightarrow> bn option" where
  "bn_powmod_loop m e res b =
     (if e = [] \<or> bn_is_zero e then Some res
      else Option.bind (if e ! 0 AND 1 \<noteq> 0 then bn_mulmod res b m else Some res) (\<lambda>res.
           Option.bind (bn_mulmod b b m) (\<lambda>cur. bn_powmod_loop m (bn_shr1 e) res cur)))"
  by auto
termination
  by (relation "measure (\<lambda>(m, e, res, b). bn_val e + length e)") (simp_all add: bn_shr1_decreases del: bn_shr1_val)

declare bn_powmod_loop.simps [simp del]

definition bn_powmod :: "bn \<Rightarrow> bn \<Rightarrow> bn \<Rightarrow> bn option" where
  "bn_powmod bs e m = bn_powmod_loop m e bn_one bs"

text \<open>\<open>while((s_d.w[0]&1)==0)\<close>: halving until odd, which on zero never returns.\<close>

partial_function (option) bn_odd_loop :: "bn \<Rightarrow> nat \<Rightarrow> (bn \<times> nat) option" where
  "bn_odd_loop d s = (if d ! 0 AND 1 = 0 then bn_odd_loop (bn_shr1 d) (s + 1) else Some (d, s))"

text \<open>The squarings of one round: \<open>Some True\<close> when the round finds \<open>n\<close> composite.\<close>

fun bn_square_loop :: "bn \<Rightarrow> bn \<Rightarrow> nat \<Rightarrow> bn \<Rightarrow> bool option" where
  "bn_square_loop n nm1 0 x = Some True"
| "bn_square_loop n nm1 (Suc j) x = do {
     x \<leftarrow> bn_powmod x (bn_set_u64 2) n;
     if bn_cmp x nm1 = 0 then Some False
     else if bn_is_one x then Some False
     else bn_square_loop n nm1 j x }"

fun bn_rounds :: "bn \<Rightarrow> bn \<Rightarrow> nat \<Rightarrow> u64 list \<Rightarrow> bool option" where
  "bn_rounds n s_d s [] = Some True"
| "bn_rounds n s_d s (r # rs) =
     (let a = bn_set_u64 (2 + r) in
      if bn_cmp a n \<ge> 0 then Some True
      else do {
        x \<leftarrow> bn_powmod a s_d n;
        let nm1 = bn_sub n (bn_set_u64 2);
        if bn_is_one x \<or> bn_cmp x nm1 = 0 then bn_rounds n s_d s rs
        else do {
          composite \<leftarrow> bn_square_loop n nm1 (s - 1) x;
          if composite then Some False else bn_rounds n s_d s rs }})"

definition bn_is_prime :: "bn \<Rightarrow> nat \<Rightarrow> bool option" where
  "bn_is_prime n rounds =
     (let two = bn_set_u64 2 in
      if bn_cmp n two < 0 then Some False
      else if bn_cmp n two = 0 then Some True
      else if n ! 0 mod 2 = 0 then Some False
      else do {
        (s_d, s) \<leftarrow> bn_odd_loop (bn_sub n two) 0;
        bn_rounds n s_d s (map of_nat [0..<rounds]) })"

text \<open>The candidate of \<open>bn_gen_prime\<close>, the same in every iteration of its loop. The product
  \<open>i*0x12345678\<close> is of type \<open>int\<close>; it overflows from the eighth middle word on.\<close>

definition xorshift :: "u64 \<Rightarrow> u64" where
  "xorshift s = (let s = s XOR push_bit 13 s; s = s XOR drop_bit 17 s in s XOR push_bit 5 s)"

definition bn_candidate :: "nat \<Rightarrow> bn option" where
  "bn_candidate bits =
     (let wds = (bits + 63) div 64 in
      if bits = 0 \<or> wds > BN_MAX_WORDS then None
      else do {
        let p = (replicate wds 0)[wds - 1 := push_bit (bits - 1 - (wds - 1) * 64) 1];
        let p = p[0 := p ! 0 OR 1];
        ofold (\<lambda>i p. do {
          t \<leftarrow> chk32 (int i * 0x12345678);
          Some (p[i := xorshift (ucast (0xdeadbeef + of_int t :: u32))]) }) [1..<wds - 1] p })"

partial_function (option) bn_gen_prime :: "nat \<Rightarrow> bn option" where
  "bn_gen_prime bits = do {
     p \<leftarrow> bn_candidate bits;
     ok \<leftarrow> bn_is_prime p 8;
     if ok then Some p else bn_gen_prime bits }"

text \<open>The quotient words of \<open>bn_modinv\<close>: each is the quotient of its word and the word above it.\<close>

definition bn_quot_words :: "bn \<Rightarrow> u64 \<Rightarrow> bn" where
  "bn_quot_words r0 d = map (\<lambda>i.
     lo64 ((push_bit 64 (ucast (if i = length r0 - 1 then 0 else r0 ! (i + 1))) OR ucast (r0 ! i)) div ucast d))
     [0..<length r0]"

partial_function (option) bn_modinv_loop :: "bn \<Rightarrow> bn \<Rightarrow> bn \<Rightarrow> bn \<Rightarrow> (bn \<times> bn) option" where
  "bn_modinv_loop r0 r1 t0 t1 =
     (if bn_is_zero r1 then Some (r0, t0)
      else if length r1 = 1 \<and> r1 ! 0 > 0 then
        (let q = bn_quot_words r0 (r1 ! 0) in do {
           qt \<leftarrow> bn_mul q r1;
           qt2 \<leftarrow> bn_mul q t1;
           bn_modinv_loop r1 (bn_sub r0 qt) t1 (bn_sub t0 qt2) })
      else do {
        tmp \<leftarrow> bn_mod r0 r1;
        bn_modinv_loop r1 tmp t1 bn_zero })"

text \<open>\<open>Some None\<close> is the return value 0: no inverse.\<close>

definition bn_modinv :: "bn \<Rightarrow> bn \<Rightarrow> bn option option" where
  "bn_modinv a m = do {
     (r0, t0) \<leftarrow> bn_modinv_loop m a bn_zero bn_one;
     if bn_cmp r0 bn_one \<noteq> 0 then Some None
     else if bn_cmp t0 (bn_set_u64 0) < 0 then map_option Some (bn_add t0 m)
     else Some (Some t0) }"

definition bn_modinv_fermat :: "bn \<Rightarrow> bn \<Rightarrow> bn option" where
  "bn_modinv_fermat a m = bn_powmod a (bn_sub m (bn_set_u64 2)) m"

section \<open>Properties\<close>

text \<open>C9: the schoolbook product of two big integers that together have at most 64 words exists, and it
  stands for the product of the numbers.\<close>
theorem bn_mul_correct:
  assumes "bn_ok a" "bn_ok b" "length a + length b \<le> BN_MAX_WORDS"
  shows "\<exists>r. bn_mul a b = Some r \<and> bn_ok r \<and> bn_val r = bn_val a * bn_val b"
proof -
  obtain r where r: "bn_mul a b = Some r" using assms(3) by (auto simp: bn_mul_def Let_def)
  then show ?thesis using bn_mul_val[OF r] assms(1) by (auto simp: bn_ok_def)
qed

theorem bn_mul_correct_witness:
  "\<exists>r. bn_mul [-1, 5] [-1] = Some r \<and> bn_val r = bn_val [-1, 5] * bn_val [-1]"
  using bn_mul_correct[of "[-1, 5]" "[-1]"] by (auto simp: bn_ok_def)

text \<open>addition is exact, it has no defined result exactly when the sum needs more than 64 words, and
  subtracting a summand gives the other one back, as \<open>bn_cmp\<close> confirms.\<close>
theorem bn_add_sub_roundtrip:
  assumes "bn_ok a" "bn_ok b"
  shows "case bn_add a b of
      None \<Rightarrow> 2 ^ 4096 \<le> bn_val a + bn_val b
    | Some s \<Rightarrow> bn_val s = bn_val a + bn_val b \<and> bn_cmp (bn_sub s b) a = 0 \<and> bn_cmp (bn_sub s a) b = 0"
proof (cases "bn_add a b")
  case None
  have "(2 ^ 64) ^ 64 = (2 ^ 4096 :: nat)" by (simp only: power_mult[symmetric]) simp
  then show ?thesis using bn_add_defined[OF assms] None by simp
next
  case (Some s)
  note v = bn_add_val(1)[OF Some]
  have "bn_val (bn_sub s b) = bn_val a" "bn_val (bn_sub s a) = bn_val b"
    using bn_sub_val[of b s] bn_sub_val[of a s] v by simp_all
  then show ?thesis using Some v by (simp add: bn_cmp_val cmp3_def)
qed

theorem bn_add_sub_roundtrip_witness:
  "\<exists>s. bn_add [-1] [3] = Some s \<and> bn_val s = bn_val [-1] + bn_val [3] \<and> bn_cmp (bn_sub s [3]) [-1] = 0"
proof -
  have "bn_add [-1] [3] = Some [2, 1]" by code_simp
  then show ?thesis using bn_add_sub_roundtrip[of "[-1]" "[3]"] by (simp add: bn_ok_def)
qed

text \<open>\<open>bn_mod\<close> is not a remainder: on a number that is at least the modulus it returns twice the
  number less the modulus, which is again at least the modulus.\<close>
theorem bn_mod_not_reduced:
  assumes "bn_ok a" "bn_val m \<le> bn_val a" "2 * bn_val a < 2 ^ 4096"
  shows "\<exists>r. bn_mod a m = Some r \<and> bn_val r = 2 * bn_val a - bn_val m \<and> bn_cmp r m \<ge> 0"
proof -
  have p: "(2 ^ 64) ^ 64 = (2 ^ 4096 :: nat)" by (simp only: power_mult[symmetric]) simp
  obtain r where "bn_mod a m = Some r" "bn_val r = 2 * bn_val a - bn_val m"
    using bn_mod_large[OF assms(1,2)] assms(3) unfolding p by auto
  then show ?thesis using assms(2) by (auto simp: bn_cmp_val cmp3_def)
qed

theorem bn_mod_not_reduced_witness:
  "\<exists>r. bn_mod [9] [5] = Some r \<and> bn_val r = 13"
  using bn_mod_not_reduced[of "[9]" "[5]"] by (auto simp: bn_ok_def)

text \<open>So \<open>bn_powmod\<close> computes \<open>3\<^sup>2 mod 5\<close> as 21.\<close>

lemma bn_powmod_3_2_5: "bn_powmod [3] [2] [5] = Some [21]"
  by code_simp

text \<open>A candidate prime of 577 to 4096 bits has no defined value: the product in its eighth middle word
  leaves the \<open>int\<close> range.\<close>

lemma bn_candidate_undefined:
  assumes "577 \<le> bits"
  shows "bn_candidate bits = None"
proof -
  let ?f = "\<lambda>i p. do { t \<leftarrow> chk32 (int i * 0x12345678); Some (p[i := xorshift (ucast (0xdeadbeef + of_int t :: u32))]) }"
  have w: "10 \<le> (bits + 63) div 64" using assms by simp
  then obtain k where k: "(bits + 63) div 64 - 1 = 8 + Suc k" 
    using le_Suc_ex[of 10 "(bits + 63) div 64"] by auto
  have "[1..<8 + Suc k] = [1..<8] @ 8 # [9..<8 + Suc k]"
    using upt_add_eq_append[of 1 8 "Suc k"] upt_conv_Cons[of 8 "8 + Suc k"] by simp
  then have "[1..<(bits + 63) div 64 - 1] = [1..<8] @ 8 # [9..<8 + Suc k]" unfolding k .
  then have "ofold ?f [1..<(bits + 63) div 64 - 1] p = None" for p
    by (simp add: ofold_append chk32_def split: bind_splits)
  then show ?thesis by (simp add: bn_candidate_def Let_def)
qed

end
