(* ===== verification/Pig_Rsa.thy ===== *)
theory Pig_Rsa
  imports Pig_Bignum Pig_Sha256
begin

unbundle bit_operations_syntax

text \<open>
  RSA with PKCS#1 v1.5 padding, \<open>crypto/rsa.h\<close>, over the big integers of \<open>Pig_Bignum\<close>. Return codes are
  integers as in the source. Stack arrays the code does not fill completely are parameters, the bytes
  they held before.
\<close>

section \<open>Definitions\<close>

abbreviation (input) RSA_KEY_BYTES :: nat where "RSA_KEY_BYTES \<equiv> 256"

record rsa_key =
  rsa_n :: bn
  rsa_e :: bn
  rsa_d :: bn
  rsa_p :: bn
  rsa_q :: bn
  rsa_dp :: bn
  rsa_dq :: bn
  rsa_qinv :: bn

definition rsa_public :: "bn \<Rightarrow> bn \<Rightarrow> bn \<Rightarrow> bn option" where
  "rsa_public i e n = bn_powmod i e n"

text \<open>\<open>bn_mul(&h,&h,b)\<close>: the result is written over the first factor, which the zeroing of the result
  erases before it is read. The factor's word is read from memory in every step.\<close>

fun bn_mul_row_self :: "nat \<Rightarrow> nat \<Rightarrow> u64 list \<Rightarrow> u64 \<Rightarrow> bn \<Rightarrow> bn \<times> u64" where
  "bn_mul_row_self i k [] c r = (r, c)"
| "bn_mul_row_self i k (y # ys) c r =
     (let p = ucast (r ! i) * ucast y + ucast (r ! k) + ucast c
      in bn_mul_row_self i (k + 1) ys (hi64 p) (r[k := lo64 p]))"

definition bn_mul_self :: "bn \<Rightarrow> bn \<Rightarrow> bn option" where
  "bn_mul_self h b =
     (let rn = length h + length b in
      if rn > BN_MAX_WORDS then None
      else Some (bn_trim (fold (\<lambda>i r.
             let (r, c) = bn_mul_row_self i i b 0 r; k = i + length b
             in if c \<noteq> 0 then r[k := r ! k + c] else r) [0..<length h] (replicate rn 0))))"

definition rsa_private_crt :: "bn \<Rightarrow> rsa_key \<Rightarrow> bn option" where
  "rsa_private_crt c key = do {
     m1 \<leftarrow> bn_powmod c (rsa_dp key) (rsa_p key);
     m2 \<leftarrow> bn_powmod c (rsa_dq key) (rsa_q key);
     let h = bn_sub m1 m2;
     h \<leftarrow> (if bn_cmp h (bn_set_u64 0) < 0 then bn_add h (rsa_p key) else Some h);
     h \<leftarrow> bn_mulmod h (rsa_qinv key) (rsa_p key);
     h \<leftarrow> bn_mul_self h (rsa_q key);
     bn_add h m2 }"

text \<open>Eight bytes to a word, the first byte the most significant; the first word the least significant.\<close>

definition be_word :: "u8 list \<Rightarrow> nat \<Rightarrow> u64" where
  "be_word em i = foldl (\<lambda>w j. w OR push_bit (56 - j * 8) (ucast (em ! (i * 8 + j)))) 0 [0..<8]"

definition bn_of_bytes :: "u8 list \<Rightarrow> bn" where
  "bn_of_bytes em = map (be_word em) [0..<32]"

definition word_byte :: "u64 \<Rightarrow> nat \<Rightarrow> u8" where
  "word_byte w j = ucast (drop_bit (56 - j * 8) w)"

definition pad_byte :: "nat \<Rightarrow> u8" where
  "pad_byte i =
     (let s = xorshift (0xdeadbeef + of_nat i * 0x12345678); b = ucast (drop_bit ((i mod 8) * 8) s)
      in if b = 0 then 1 else b)"

definition encrypt_em :: "u8 list \<Rightarrow> u8 list" where
  "encrypt_em msg = [0x00, 0x02] @ map pad_byte [2..<RSA_KEY_BYTES - length msg - 1] @ 0x00 # msg"

text \<open>The bytes written to \<open>out\<close>: the first \<open>(c.n+7)/8\<close> words, cut at the caller's length. The result
  carries the return code, the output array and the new length.\<close>

definition put_words :: "bn \<Rightarrow> nat \<Rightarrow> u8 list \<Rightarrow> u8 list" where
  "put_words c out_len out =
     fold (\<lambda>(i, j) out. if i * 8 + j \<ge> out_len then out else out[i * 8 + j := word_byte (c ! i) j])
       (List.product [0..<min ((length c + 7) div 8) out_len] [0..<8]) out"

definition rsa_pkcs1_encrypt_pad :: "u8 list \<Rightarrow> nat \<Rightarrow> u8 list \<Rightarrow> bn \<Rightarrow> bn \<Rightarrow> (int \<times> u8 list \<times> nat) option" where
  "rsa_pkcs1_encrypt_pad out out_len msg e n =
     (if length msg > RSA_KEY_BYTES - 11 then Some (-1, out, out_len)
      else do {
        c \<leftarrow> rsa_public (bn_of_bytes (encrypt_em msg)) e n;
        Some (0, put_words c out_len out, RSA_KEY_BYTES) })"

text \<open>\<open>wn2<c.n\<close> bounds the word index by the size of the ciphertext, not of the decrypted number: a
  word that was never written may be read.\<close>

definition em_of_bn :: "nat \<Rightarrow> bn \<Rightarrow> u8 list option" where
  "em_of_bn cn mm = those (map (\<lambda>i.
     if i div 8 < cn then (if i div 8 < length mm then Some (word_byte (mm ! (i div 8)) (i mod 8)) else None)
     else Some 0) [0..<RSA_KEY_BYTES])"

fun scan_nonzero :: "u8 list \<Rightarrow> nat \<Rightarrow> nat" where
  "scan_nonzero [] ps = ps"
| "scan_nonzero (b # bs) ps = (if b \<noteq> 0 then scan_nonzero bs (ps + 1) else ps)"

definition rsa_pkcs1_decrypt :: "u8 list \<Rightarrow> rsa_key \<Rightarrow> (int \<times> u8 list) option" where
  "rsa_pkcs1_decrypt ct key =
     (if length ct \<noteq> RSA_KEY_BYTES then Some (-1, [])
      else do {
        let c = bn_of_bytes ct;
        mm \<leftarrow> rsa_private_crt c key;
        em \<leftarrow> em_of_bn (length c) mm;
        if em ! 0 \<noteq> 0x00 \<or> em ! 1 \<noteq> 0x02 then Some (-1, [])
        else (let ps = scan_nonzero (take (RSA_KEY_BYTES - 3) (drop 2 em)) 2 in
              if ps \<ge> RSA_KEY_BYTES - 1 then Some (-1, [])
              else Some (0, take (RSA_KEY_BYTES - 1 - ps) (drop ps em))) })"

partial_function (option) rsa_second_prime :: "bn \<Rightarrow> bn option" where
  "rsa_second_prime p = do {
     q \<leftarrow> bn_gen_prime 1024;
     if bn_cmp p q \<noteq> 0 then Some q else rsa_second_prime p }"

text \<open>The result of the last call of \<open>bn_modinv\<close> is not tested; without an inverse \<open>qinv\<close> stays unwritten.\<close>

partial_function (option) rsa_gen_key :: "unit \<Rightarrow> rsa_key option" where
  "rsa_gen_key u = do {
     p \<leftarrow> bn_gen_prime 1024;
     q \<leftarrow> rsa_second_prime p;
     n \<leftarrow> bn_mul p q;
     let pm1 = bn_sub p (bn_set_u64 1);
     let qm1 = bn_sub q (bn_set_u64 1);
     phi \<leftarrow> bn_mul pm1 qm1;
     inv \<leftarrow> bn_modinv (bn_set_u64 65537) phi;
     (case inv of
        None \<Rightarrow> rsa_gen_key u
      | Some d \<Rightarrow> do {
          dp \<leftarrow> bn_mod (bn_sub d pm1) pm1;
          dq \<leftarrow> bn_mod (bn_sub d qm1) qm1;
          qi \<leftarrow> bn_modinv q p;
          qinv \<leftarrow> qi;
          Some \<lparr>rsa_n = n, rsa_e = bn_set_u64 65537, rsa_d = d, rsa_p = p, rsa_q = q,
                rsa_dp = dp, rsa_dq = dq, rsa_qinv = qinv\<rparr> }) }"

definition digest_info :: "u8 list" where
  "digest_info = [0x30, 0x31, 0x30, 0x0d, 0x06, 0x09, 0x60, 0x86, 0x48, 0x01, 0x65, 0x03, 0x04, 0x02, 0x01,
     0x05, 0x00, 0x04, 0x20]"

definition sign_em :: "u8 list \<Rightarrow> u8 list \<Rightarrow> u8 list" where
  "sign_em stack hash =
     (let em = blit stack 0 ([0x00, 0x01] @ replicate 197 0xff @ [0x00])
      in blit em (RSA_KEY_BYTES - 38) (take 38 (digest_info @ take 32 hash)))"

definition bytes_of_bn :: "bn \<Rightarrow> u8 list" where
  "bytes_of_bn s = map (\<lambda>i. if i div 8 < length s then word_byte (s ! (i div 8)) (i mod 8) else 0) [0..<RSA_KEY_BYTES]"

definition rsa_sign :: "u8 list \<Rightarrow> u8 list \<Rightarrow> rsa_key \<Rightarrow> u8 list option" where
  "rsa_sign stack hash key = do {
     s \<leftarrow> rsa_private_crt (bn_of_bytes (sign_em stack hash)) key;
     Some (bytes_of_bn s) }"

text \<open>\<open>while(i<RSA_KEY_BYTES&&em[i]==0xff)i++\<close>\<close>

fun scan_ff :: "u8 list \<Rightarrow> nat \<Rightarrow> nat" where
  "scan_ff [] i = i"
| "scan_ff (b # bs) i = (if b = 0xff then scan_ff bs (i + 1) else i)"

definition rsa_check_em :: "u8 list \<Rightarrow> u8 list \<Rightarrow> int option" where
  "rsa_check_em em hash =
     (if em ! 0 \<noteq> 0x00 \<or> em ! 1 \<noteq> 0x01 then Some 0
      else (let i = scan_ff (drop 2 em) 2; di_start = RSA_KEY_BYTES - 38 - 19 in
            if i < 11 then Some 0
            else if i \<ge> RSA_KEY_BYTES then None
            else if em ! i \<noteq> 0x00 then Some 0
            else if i \<noteq> di_start then Some 0
            else if \<exists>j \<in> set [0..<19]. em ! (di_start + j) \<noteq> digest_info ! j then Some 0
            else if \<exists>j \<in> set [0..<32]. em ! (di_start + 19 + j) \<noteq> hash ! j then Some 0
            else Some 1))"

definition rsa_verify :: "u8 list \<Rightarrow> u8 list \<Rightarrow> bn \<Rightarrow> bn \<Rightarrow> int option" where
  "rsa_verify sig hash e n = do {
     mm \<leftarrow> rsa_public (bn_of_bytes sig) e n;
     rsa_check_em (bytes_of_bn mm) hash }"

section \<open>Lemmas\<close>

lemma bn_mul_row_self_zero:
  "bn_mul_row_self i k ys 0 (replicate n 0) = (replicate n 0, 0)" if "i < n" "k + length ys \<le> n"
  using that
proof (induction ys arbitrary: k)
  case (Cons y ys)
  have z: "lo64 0 = 0" "hi64 0 = 0" by (simp_all add: lo64_def hi64_def)
  have "(replicate n (0 :: u64))[k := 0] = replicate n 0" using Cons.prems by (metis list_update_id nth_replicate list_update_beyond not_less length_replicate)
  then show ?case using Cons by (simp add: Let_def z)
qed simp

text \<open>The product written over its own factor is zero.\<close>

lemma bn_mul_self_val:
  assumes "bn_mul_self h b = Some r"
  shows "bn_val r = 0"
proof -
  let ?z = "replicate (length h + length b) (0 :: u64)"
  let ?f = "\<lambda>i r. let (r, c) = bn_mul_row_self i i b 0 r; k = i + length b in if c \<noteq> 0 then r[k := r ! k + c] else r"
  have "fold ?f is ?z = ?z" if "set is \<subseteq> {..<length h}" for "is"
    using that by (induction "is") (simp_all add: bn_mul_row_self_zero)
  from this[of "[0..<length h]"] have "fold ?f [0..<length h] ?z = ?z" by (simp add: atLeast0LessThan)
  then have "r = bn_trim ?z" using assms by (simp add: bn_mul_self_def Let_def split: if_splits)
  then show ?thesis by simp
qed

text \<open>Primes of 1024 bits have no defined candidate, so key generation has no defined result.\<close>

lemma rsa_gen_key_undefined: "rsa_gen_key () = None"
  by (subst rsa_gen_key.simps, subst bn_gen_prime.simps) (simp add: bn_candidate_undefined)

section \<open>Properties\<close>

text \<open>C34: no signature is ever accepted: verification returns 0 or reads past the array. It demands a zero
  byte and the first byte of the digest prefix, \<open>0x30\<close>, at the same position.\<close>
theorem rsa_verify_rejects_all:
  "rsa_verify sig hash e n \<in> {None, Some 0}"
proof -
  have "rsa_check_em em hash \<in> {None, Some 0}" for em
  proof (cases "em ! 199 = 0")
    case True
    then have "em ! (199 + 0) \<noteq> digest_info ! 0" by (simp add: digest_info_def)
    then have "\<exists>j \<in> set [0..<19]. em ! (199 + j) \<noteq> digest_info ! j" by (intro bexI[of _ 0]) auto
    then show ?thesis by (simp add: rsa_check_em_def Let_def)
  next
    case False
    then show ?thesis by (auto simp: rsa_check_em_def Let_def)
  qed
  then show ?thesis by (auto simp: rsa_verify_def split: bind_splits)
qed

text \<open>the private-key operation ignores everything but the second of its two powers: the recombination
  multiplies a number in place and so turns it into zero.\<close>
theorem rsa_crt_recombination_lost:
  assumes "rsa_private_crt c key = Some r"
  shows "\<exists>m2. bn_powmod c (rsa_dq key) (rsa_q key) = Some m2 \<and> bn_val r = bn_val m2"
proof -
  obtain m2 h where "bn_powmod c (rsa_dq key) (rsa_q key) = Some m2" "bn_val h = 0" "bn_add h m2 = Some r"
    using assms by (auto simp: rsa_private_crt_def Let_def split: bind_splits dest: bn_mul_self_val)
  then show ?thesis using bn_add_val(1)[of h m2 r] by simp
qed

text \<open>A toy key for \<open>p = 3\<close>, \<open>q = 5\<close>.\<close>

definition toy_key :: rsa_key where
  "toy_key = \<lparr>rsa_n = [15], rsa_e = [3], rsa_d = [3], rsa_p = [3], rsa_q = [5], rsa_dp = [1], rsa_dq = [1], rsa_qinv = [2]\<rparr>"

theorem rsa_crt_recombination_lost_witness:
  "\<exists>r m2. rsa_private_crt [1] toy_key = Some r \<and> bn_powmod [1] [1] [5] = Some m2 \<and> bn_val r = bn_val m2"
proof -
  have r: "rsa_private_crt [1] toy_key = Some [1]" by code_simp
  from rsa_crt_recombination_lost[OF r] show ?thesis using r by (simp add: toy_key_def)
qed

end
