(* ===== verification/Pig_Asn1.thy ===== *)
theory Pig_Asn1
  imports Pig_Prelude
begin

unbundle bit_operations_syntax

text \<open>
  The DER parser of \<open>crypto/asn1.h\<close>. The input is a list of bytes and a pointer into it an offset; a read
  outside the list is undefined. Lengths are 32-bit words and wrap around as in the source. The node
  table is the list of its first \<open>nnodes\<close> entries.
\<close>

section \<open>Definitions\<close>

abbreviation (input) ASN1_MAX_DEPTH :: nat where "ASN1_MAX_DEPTH \<equiv> 16"
abbreviation (input) ASN1_MAX_NODES :: nat where "ASN1_MAX_NODES \<equiv> 256"

record asn1_node =
  an_tag :: u8
  an_len :: u32
  an_val :: nat
  an_children :: nat
  an_child_start :: nat

definition rd :: "u8 list \<Rightarrow> nat \<Rightarrow> u8 option" where
  "rd d i = (if i < length d then Some (d ! i) else None)"

fun asn1_len_loop :: "u8 list \<Rightarrow> nat \<Rightarrow> nat \<Rightarrow> u32 \<Rightarrow> u32 option" where
  "asn1_len_loop d p 0 len = Some len"
| "asn1_len_loop d p (Suc k) len = do {
     b \<leftarrow> rd d p;
     asn1_len_loop d (p + 1) k (push_bit 8 len OR ucast b) }"

text \<open>The length and the number of bytes it took, 0 when it is malformed.\<close>

definition asn1_parse_len :: "u8 list \<Rightarrow> nat \<Rightarrow> u32 \<Rightarrow> (u32 \<times> u32) option" where
  "asn1_parse_len d p mx =
     (if mx < 1 then Some (0, 0)
      else do {
        b \<leftarrow> rd d p;
        if b < 0x80 then Some (ucast b, 1)
        else (let nb = b AND 0x7F in
              if nb > 4 \<or> mx < 1 + ucast nb then Some (0, 0)
              else do {
                len \<leftarrow> asn1_len_loop d (p + 1) (unat nb) 0;
                Some (len, 1 + ucast nb) }) })"

text \<open>The header of a node: the entry as it is stored, the length of its length field, and whether the
  node ends inside the input, by the 32-bit sum of the source.\<close>

definition asn1_header :: "u8 list \<Rightarrow> nat \<Rightarrow> u32 \<Rightarrow> (asn1_node \<times> u32 \<times> bool) option" where
  "asn1_header d p mx = do {
     tag \<leftarrow> rd d p;
     (len, lc) \<leftarrow> asn1_parse_len d (p + 1) (mx - 1);
     Some (\<lparr>an_tag = tag, an_len = len, an_val = p + 1 + unat lc, an_children = 0, an_child_start = 0\<rparr>,
           lc, \<not> 1 + lc + len > mx) }"

definition set_start :: "nat \<Rightarrow> asn1_node list \<Rightarrow> asn1_node list" where
  "set_start i ns = ns[i := (ns ! i)\<lparr>an_child_start := length ns\<rparr>]"

definition inc_children :: "nat \<Rightarrow> asn1_node list \<Rightarrow> asn1_node list" where
  "inc_children i ns = ns[i := (ns ! i)\<lparr>an_children := an_children (ns ! i) + 1\<rparr>]"

text \<open>The parser and its loop over the children. The node index is \<^term>\<open>None\<close> for the result \<open>-1\<close>. The
  rest of the input shrinks in every iteration, as the child just parsed ends inside it; where that
  failed the loop would go on with a wrapped length, here it is undefined, and it never happens.\<close>

function asn1_parse_node :: "u8 list \<Rightarrow> asn1_node list \<Rightarrow> nat \<Rightarrow> u32 \<Rightarrow> nat \<Rightarrow> (nat option \<times> asn1_node list) option"
  and asn1_children :: "u8 list \<Rightarrow> nat \<Rightarrow> asn1_node list \<Rightarrow> nat \<Rightarrow> u32 \<Rightarrow> nat \<Rightarrow> asn1_node list option" where
  "asn1_parse_node d ns p mx depth =
     (if length ns \<ge> ASN1_MAX_NODES \<or> depth \<ge> ASN1_MAX_DEPTH \<or> mx < 2 then Some (None, ns)
      else Option.bind (asn1_header d p mx) (\<lambda>(nd, lc, inside).
        let idx = length ns; ns = ns @ [nd] in
        if \<not> inside then Some (None, ns)
        else if an_tag nd AND 0x20 \<noteq> 0 \<and> an_len nd > 0
        then map_option (Pair (Some idx)) (asn1_children d idx (set_start idx ns) (an_val nd) (an_len nd) depth)
        else Some (Some idx, ns)))"
| "asn1_children d idx ns cp rem depth =
     (if rem = 0 \<or> depth \<ge> ASN1_MAX_DEPTH then Some ns
      else Option.bind (asn1_parse_node d ns cp rem (depth + 1)) (\<lambda>(ci, ns).
        case ci of
          None \<Rightarrow> Some ns
        | Some ci \<Rightarrow>
            let ns = inc_children idx ns in
            Option.bind (if rem \<ge> 2 then map_option snd (asn1_parse_len d (cp + 1) (rem - 1)) else Some 0) (\<lambda>clc.
              let ctot = 1 + clc + an_len (ns ! ci) in
              if ctot = 0 then Some ns
              else if rem < ctot then None
              else asn1_children d idx ns (cp + unat ctot) (rem - ctot) depth)))"
  by pat_completeness auto
termination
proof (relation "measures [
    (\<lambda>x. case x of Inl (d, ns, p, mx, depth) \<Rightarrow> 17 - depth | Inr (d, idx, ns, cp, rem, depth) \<Rightarrow> 17 - depth),
    (\<lambda>x. case x of Inl _ \<Rightarrow> 1 | Inr _ \<Rightarrow> 0),
    (\<lambda>x. case x of Inl _ \<Rightarrow> 0 | Inr (d, idx, ns, cp, rem, depth) \<Rightarrow> unat rem)]", goal_cases)
  case (4 d idx ns cp rem depth r ci ns' c' ns'' clc ctot)
  then have "ctot \<le> rem" "ctot \<noteq> 0" by auto
  then have "unat (rem - ctot) < unat rem"
    by (simp add: unat_sub word_le_nat_alt) (metis diff_less le_zero_eq neq0_conv unat_eq_zero)
  then show ?case by simp
qed auto

declare asn1_parse_node.simps [simp del] asn1_children.simps [simp del]

definition asn1_parse :: "u8 list \<Rightarrow> u32 \<Rightarrow> (nat option \<times> asn1_node list) option" where
  "asn1_parse d len = asn1_parse_node d [] 0 len 0"

text \<open>The \<open>idx\<close>-th of a node's children is looked up at that distance behind the first one; in a parsed table
  the position is always an entry.\<close>

definition asn1_child :: "asn1_node list \<Rightarrow> asn1_node \<Rightarrow> nat \<Rightarrow> asn1_node option" where
  "asn1_child ns par idx =
     (if idx \<ge> an_children par then None
      else if an_child_start par + idx < length ns then Some (ns ! (an_child_start par + idx)) else None)"

definition asn1_find_seq :: "asn1_node list \<Rightarrow> nat \<Rightarrow> asn1_node option" where
  "asn1_find_seq ns start = find (\<lambda>nd. an_tag nd = 0x30) (drop start ns)"

definition asn1_find_tag :: "asn1_node list \<Rightarrow> asn1_node \<Rightarrow> u8 \<Rightarrow> asn1_node option" where
  "asn1_find_tag ns par tag =
     find (\<lambda>c. an_tag c = tag) (List.map_filter (asn1_child ns par) [0..<an_children par])"

definition slice :: "u8 list \<Rightarrow> nat \<Rightarrow> nat \<Rightarrow> u8 list option" where
  "slice d i n = (if i + n \<le> length d then Some (take n (drop i d)) else None)"

text \<open>The bytes \<open>asn1_extract_str\<close> copies before the terminator.\<close>

definition asn1_extract_str :: "u8 list \<Rightarrow> nat \<Rightarrow> asn1_node \<Rightarrow> u8 list option" where
  "asn1_extract_str d maxout nd =
     (if an_len nd = 0 then Some [] else slice d (an_val nd) (min (unat (an_len nd)) (maxout - 1)))"

record x509_cert =
  xc_n :: "u8 list"
  xc_e :: "u8 list"
  xc_cn :: "u8 list"
  xc_not_before :: "u8 list"
  xc_not_after :: "u8 list"

text \<open>One relative name of the subject: the common name is the attribute 2.5.4.3.\<close>

definition x509_rdn :: "u8 list \<Rightarrow> asn1_node list \<Rightarrow> asn1_node \<Rightarrow> nat \<Rightarrow> x509_cert \<Rightarrow> x509_cert option" where
  "x509_rdn d ns subject i cert =
     (case asn1_child ns subject i of None \<Rightarrow> Some cert | Some rset \<Rightarrow>
      case asn1_child ns rset 0 of None \<Rightarrow> Some cert | Some rseq \<Rightarrow>
      case (asn1_child ns rseq 0, asn1_child ns rseq 1) of
        (Some oid, Some v) \<Rightarrow>
          if an_tag oid = 0x06 \<and> an_len oid \<ge> 3 then do {
            b \<leftarrow> slice d (an_val oid) 3;
            if b = [0x55, 0x04, 0x03] then do {
              cn \<leftarrow> asn1_extract_str d 128 v;
              Some (cert\<lparr>xc_cn := cn\<rparr>) }
            else Some cert }
          else Some cert
      | _ \<Rightarrow> Some cert)"

definition opt_extract :: "u8 list \<Rightarrow> asn1_node option \<Rightarrow> (u8 list \<Rightarrow> x509_cert) \<Rightarrow> x509_cert \<Rightarrow> x509_cert option" where
  "opt_extract d nd f cert =
     (case nd of None \<Rightarrow> Some cert | Some nd \<Rightarrow> map_option f (asn1_extract_str d 32 nd))"

definition x509_validity :: "u8 list \<Rightarrow> asn1_node list \<Rightarrow> asn1_node \<Rightarrow> x509_cert \<Rightarrow> x509_cert option" where
  "x509_validity d ns validity cert = do {
     cert \<leftarrow> opt_extract d (asn1_child ns validity 0) (\<lambda>s. cert\<lparr>xc_not_before := s\<rparr>) cert;
     opt_extract d (asn1_child ns validity 1) (\<lambda>s. cert\<lparr>xc_not_after := s\<rparr>) cert }"

text \<open>The modulus, at most 256 bytes of it; a leading zero byte is dropped after the cut.\<close>

definition x509_modulus :: "u8 list \<Rightarrow> asn1_node \<Rightarrow> x509_cert \<Rightarrow> x509_cert option" where
  "x509_modulus d md cert =
     (if an_tag md \<noteq> 0x02 then Some cert
      else (let nlen = min (unat (an_len md)) 256 in
            if an_len md > 0 then do {
              b \<leftarrow> rd d (an_val md);
              bs \<leftarrow> (if b = 0 then slice d (an_val md + 1) (nlen - 1) else slice d (an_val md) nlen);
              Some (cert\<lparr>xc_n := bs\<rparr>) }
            else Some (cert\<lparr>xc_n := []\<rparr>)))"

definition x509_exponent :: "u8 list \<Rightarrow> asn1_node \<Rightarrow> x509_cert \<Rightarrow> x509_cert option" where
  "x509_exponent d ex cert =
     (if an_tag ex \<noteq> 0x02 then Some cert
      else do {
        bs \<leftarrow> slice d (an_val ex) (min (unat (an_len ex)) 8);
        Some (cert\<lparr>xc_e := bs\<rparr>) })"

text \<open>The key inside the bit string; its length \<open>bits->len-1\<close> wraps around for an empty one.\<close>

definition x509_pubkey :: "u8 list \<Rightarrow> asn1_node list \<Rightarrow> asn1_node \<Rightarrow> x509_cert \<Rightarrow> x509_cert option" where
  "x509_pubkey d ns pubkey cert =
     (case asn1_child ns pubkey 1 of
        None \<Rightarrow> Some cert
      | Some bits \<Rightarrow>
          if an_tag bits \<noteq> 0x03 then Some cert
          else do {
            let bp = an_val bits + (if an_len bits > 1 then 1 else 0);
            (r, t2) \<leftarrow> asn1_parse_node d [] bp (an_len bits - 1) 0;
            if r = None then Some cert
            else (let seq = t2 ! 0 in
                  if an_tag seq = 0x30 \<and> an_children seq \<ge> 2 then do {
                    cert \<leftarrow> (case asn1_child t2 seq 0 of None \<Rightarrow> Some cert | Some md \<Rightarrow> x509_modulus d md cert);
                    (case asn1_child t2 seq 1 of None \<Rightarrow> Some cert | Some ex \<Rightarrow> x509_exponent d ex cert) }
                  else Some cert) })"

definition on_child :: "asn1_node option \<Rightarrow> (asn1_node \<Rightarrow> x509_cert \<Rightarrow> x509_cert option) \<Rightarrow> x509_cert \<Rightarrow> x509_cert option" where
  "on_child nd f cert = (case nd of None \<Rightarrow> Some cert | Some nd \<Rightarrow> f nd cert)"

text \<open>\<open>Some None\<close> is the return value \<open>-1\<close>.\<close>

definition x509_parse_cert :: "u8 list \<Rightarrow> x509_cert option option" where
  "x509_parse_cert d = do {
     let cert = \<lparr>xc_n = [], xc_e = [], xc_cn = [], xc_not_before = [], xc_not_after = []\<rparr>;
     (r, ns) \<leftarrow> asn1_parse d (of_nat (length d));
     if r = None \<or> an_tag (ns ! 0) \<noteq> 0x30 then Some None
     else (case asn1_child ns (ns ! 0) 0 of
             None \<Rightarrow> Some None
           | Some tbs \<Rightarrow>
               if an_tag tbs \<noteq> 0x30 then Some None
               else do {
                 let v = (case asn1_child ns tbs 0 of None \<Rightarrow> 0 | Some ver \<Rightarrow> if an_tag ver = 0xA0 then 1 else 0);
                 cert \<leftarrow> on_child (asn1_child ns tbs (5 + v))
                           (\<lambda>subject cert. ofold (x509_rdn d ns subject) [0..<an_children subject] cert) cert;
                 cert \<leftarrow> on_child (asn1_child ns tbs (4 + v)) (x509_validity d ns) cert;
                 cert \<leftarrow> on_child (asn1_child ns tbs (6 + v)) (x509_pubkey d ns) cert;
                 Some (Some cert) }) }"

section \<open>The node table\<close>

text \<open>Parsing only appends entries and counts children.\<close>

definition ext :: "asn1_node list \<Rightarrow> asn1_node list \<Rightarrow> bool" where
  "ext ns ns' \<longleftrightarrow> length ns \<le> length ns' \<and>
     (\<forall>i < length ns. an_tag (ns' ! i) = an_tag (ns ! i) \<and> an_len (ns' ! i) = an_len (ns ! i) \<and> an_val (ns' ! i) = an_val (ns ! i))"

lemma ext_refl [simp]: "ext ns ns"
  by (simp add: ext_def)

lemma ext_trans: "ext a b \<Longrightarrow> ext b c \<Longrightarrow> ext a c"
  by (auto simp: ext_def)

lemma ext_append [simp]: "ext ns (ns @ xs)"
  by (auto simp: ext_def nth_append)

lemma nth_upd: "j < length xs \<Longrightarrow> xs[i := v] ! j = (if i = j then v else xs ! j)"
  by (cases "i = j") auto

lemma ext_updates [simp]: "ext ns (set_start i ns)" "ext ns (inc_children i ns)"
  by (auto simp: ext_def set_start_def inc_children_def nth_upd)

lemma length_updates [simp]: "length (set_start i ns) = length ns" "length (inc_children i ns) = length ns"
  by (simp_all add: set_start_def inc_children_def)

lemma parse_ext:
  "asn1_parse_node d ns p mx depth = Some (r, ns') \<Longrightarrow> ext ns ns' \<and> (length ns \<le> 256 \<longrightarrow> length ns' \<le> 256) \<and>
     (\<forall>ci. r = Some ci \<longrightarrow> ci = length ns \<and> ci < length ns' \<and>
        (\<exists>nd lc. mx \<ge> 2 \<and> asn1_header d p mx = Some (nd, lc, True) \<and> an_len (ns' ! ci) = an_len nd))"
  "asn1_children d idx ns cp rem depth = Some ns' \<Longrightarrow> ext ns ns' \<and> (length ns \<le> 256 \<longrightarrow> length ns' \<le> 256)"
proof (induction d ns p mx depth and d idx ns cp rem depth arbitrary: r ns' and ns' rule: asn1_parse_node_asn1_children.induct)
  case (1 d ns p mx depth)
  show ?case
  proof (cases "length ns \<ge> 256 \<or> depth \<ge> 16 \<or> mx < 2")
    case True
    then show ?thesis using 1(2) by (subst (asm) asn1_parse_node.simps) auto
  next
    case False
    then obtain nd lc ins where h: "asn1_header d p mx = Some (nd, lc, ins)"
      using 1(2) by (subst (asm) asn1_parse_node.simps) (auto split: bind_splits)
    show ?thesis
    proof (cases "ins \<and> an_tag nd AND 0x20 \<noteq> 0 \<and> an_len nd > 0")
      case True
      let ?ns1 = "set_start (length ns) (ns @ [nd])"
      have c: "asn1_children d (length ns) ?ns1 (an_val nd) (an_len nd) depth = Some ns'" and r: "r = Some (length ns)"
        using 1(2) False h True by (subst (asm) asn1_parse_node.simps; auto simp: Let_def)+
      have e: "ext ?ns1 ns'" "length ns' \<le> 256"
        using 1(1)[OF False h refl refl refl refl] True c False by (auto simp: Let_def)
      have "ext ns ns'" using ext_trans[OF ext_append ext_trans[OF ext_updates(1) e(1)]] .
      moreover have "an_len (ns' ! length ns) = an_len nd" "length ns < length ns'"
        using e(1) by (auto simp: ext_def set_start_def)
      ultimately show ?thesis using r e(2) h True False by auto
    next
      case no: False
      then show ?thesis using 1(2) False h
        by (subst (asm) asn1_parse_node.simps) (auto simp: Let_def split: if_splits)
    qed
  qed
next
  case (2 d idx ns cp rem depth)
  show ?case
  proof (cases "rem = 0 \<or> depth \<ge> 16")
    case True
    then show ?thesis using 2(3) by (subst (asm) asn1_children.simps) auto
  next
    case False
    then obtain ci n1 where n1: "asn1_parse_node d ns cp rem (depth + 1) = Some (ci, n1)"
      using 2(3) by (subst (asm) asn1_children.simps) (auto split: bind_splits)
    note P = 2(1)[OF False n1]
    show ?thesis
    proof (cases ci)
      case None
      then show ?thesis using 2(3) n1 False P by (subst (asm) asn1_children.simps) auto
    next
      case (Some k)
      let ?n2 = "inc_children idx n1"
      obtain clc where clc: "(if rem \<ge> 2 then map_option snd (asn1_parse_len d (cp + 1) (rem - 1)) else Some 0) = Some clc"
        using 2(3) n1 False Some by (subst (asm) asn1_children.simps) (auto simp: Let_def split: bind_splits)
      let ?ct = "1 + clc + an_len (?n2 ! k)"
      have res: "(if ?ct = 0 then Some ?n2 else if rem < ?ct then None
          else asn1_children d idx ?n2 (cp + unat ?ct) (rem - ?ct) depth) = Some ns'"
        using 2(3) n1 False Some clc by (subst (asm) asn1_children.simps) (simp add: Let_def)
      have e: "ext ns ?n2" using P ext_trans ext_updates(2) by blast
      show ?thesis
      proof (cases "?ct = 0")
        case True
        then show ?thesis using res e P by auto
      next
        case nz: False
        then have lt: "\<not> rem < ?ct" and c: "asn1_children d idx ?n2 (cp + unat ?ct) (rem - ?ct) depth = Some ns'"
          using res by (auto split: if_splits)
        from 2(2)[OF False n1 refl Some refl clc refl nz lt c] show ?thesis
          using e P ext_trans by auto
      qed
    qed
  qed
qed

section \<open>Reads\<close>

lemma len_loop_safe:
  "p + k \<le> length d \<Longrightarrow> unat len < 2 ^ (8 * j) \<Longrightarrow> j + k \<le> 4 \<Longrightarrow>
   \<exists>r. asn1_len_loop d p k len = Some r \<and> unat r < 2 ^ (8 * (j + k))"
proof (induction k arbitrary: p len j)
  case (Suc k)
  have p: "p < length d" using Suc.prems(1) by simp
  let ?l = "push_bit 8 len OR ucast (d ! p)"
  have a: "push_bit 8 len AND ucast (d ! p) = 0"
    by (rule bit_word_eqI) (auto simp: bit_simps dest: bit_imp_le_length)
  have b: "unat (ucast (d ! p) :: u32) < 2 ^ 8"
    using unsigned_less[of "d ! p", where 'a = nat] by (simp add: unsigned_ucast_eq take_bit_nat_eq_self)
  have "unat (push_bit 8 len) \<le> 2 ^ 8 * unat len"
    by (simp add: push_bit_eq_mult unat_word_ariths mult.commute)
  moreover have "?l = push_bit 8 len + ucast (d ! p)" by (rule disjunctive_add_eq_or[OF a, symmetric])
  then have "unat ?l \<le> unat (push_bit 8 len) + unat (ucast (d ! p) :: u32)"
    by (simp add: unat_word_ariths)
  ultimately have "unat ?l < 2 ^ 8 * (unat len + 1)" using b by (simp add: algebra_simps)
  also have "\<dots> \<le> 2 ^ 8 * 2 ^ (8 * j)" using Suc.prems(2) by (intro mult_le_mono2) simp
  finally have "unat ?l < 2 ^ (8 * (j + 1))" by (simp add: power_add mult.commute)
  from Suc.IH[OF _ this, of "p + 1"] Suc.prems p show ?case
    by (auto simp: rd_def add.commute)
qed auto

lemma unat_low7: "unat (b AND 0x7F :: u8) = unat b mod 128"
proof -
  have "(0x7F :: u8) = mask 7" by (simp add: mask_eq_exp_minus_1)
  then have "b AND 0x7F = take_bit 7 b" by (simp only: take_bit_eq_mask)
  then show ?thesis by (simp only: unsigned_take_bit_eq) (simp add: take_bit_eq_mod)
qed

lemma low7_4: "x mod 128 = 4 \<Longrightarrow> 128 \<le> x \<Longrightarrow> x < 256 \<Longrightarrow> x = 132" for x :: nat
  by (simp add: mod_if split: if_splits)

lemma parse_len_safe:
  assumes "p + unat mx \<le> length d"
  shows "\<exists>len lc. asn1_parse_len d p mx = Some (len, lc) \<and> lc \<le> mx \<and> lc \<le> 5 \<and>
    (0x84 \<notin> set d \<longrightarrow> unat len < 2 ^ 24)"
proof (cases "mx < 1")
  case True
  then show ?thesis by (simp add: asn1_parse_len_def)
next
  case False
  then have m1: "1 \<le> unat mx" by (simp add: word_less_nat_alt Suc_le_eq)
  then have p: "p < length d" using assms by simp
  let ?b = "d ! p" and ?nb = "d ! p AND 0x7F"
  show ?thesis
  proof (cases "?b < 0x80")
    case True
    have "unat (ucast ?b :: u32) < 2 ^ 24"
      using unsigned_less[of ?b, where 'a = nat] by (simp add: unsigned_ucast_eq take_bit_nat_eq_self)
    then show ?thesis using True p False m1 by (auto simp: asn1_parse_len_def rd_def word_le_nat_alt)
  next
    case ge: False
    show ?thesis
    proof (cases "?nb > 4 \<or> mx < 1 + ucast ?nb")
      case True
      then show ?thesis using ge p False by (simp add: asn1_parse_len_def rd_def Let_def)
    next
      case ok: False
      have n4: "unat ?nb \<le> 4" using ok by (simp add: word_less_nat_alt)
      have u: "unat (1 + ucast ?nb :: u32) = 1 + unat ?nb"
        using n4 by (simp add: unat_word_ariths unsigned_ucast_eq take_bit_nat_eq_self)
      have le: "1 + unat ?nb \<le> unat mx" using ok u by (simp add: word_less_nat_alt not_less)
      have n3: "unat ?nb \<le> 3" if "0x84 \<notin> set d"
      proof (rule ccontr)
        assume "\<not> unat ?nb \<le> 3"
        then have "unat ?nb = 4" using n4 by simp
        moreover have "unat ?nb = unat ?b mod 128" by (rule unat_low7)
        moreover have "128 \<le> unat ?b" "unat ?b < 256"
          using ge unsigned_less[of ?b, where 'a = nat] by (simp_all add: word_less_nat_alt)
        ultimately have "unat ?b = 132" by (intro low7_4) simp_all
        then have "?b = 0x84" by (intro unsigned_word_eqI[where 'a = nat]) simp
        then show False using that p nth_mem by metis
      qed
      have "\<exists>r. asn1_len_loop d (p + 1) (unat ?nb) 0 = Some r \<and> unat r < 2 ^ (8 * (0 + unat ?nb))"
        using le assms n4 by (intro len_loop_safe) auto
      then obtain r where r: "asn1_len_loop d (p + 1) (unat ?nb) 0 = Some r" "unat r < 2 ^ (8 * unat ?nb)" by auto
      have "unat r < 2 ^ 24" if "0x84 \<notin> set d"
        using r(2) power_increasing[of "8 * unat ?nb" 24 "2 :: nat"] n3[OF that] by simp
      moreover have "(1 + ucast ?nb :: u32) \<le> 5" using u n4 by (simp add: word_le_nat_alt)
      ultimately show ?thesis using r(1) ge ok p False by (auto simp: asn1_parse_len_def rd_def Let_def not_less)
    qed
  qed
qed

lemma header_ctot:
  assumes "asn1_header d p mx = Some (nd, lc, True)"
  shows "map_option snd (asn1_parse_len d (p + 1) (mx - 1)) = Some lc" "1 + lc + an_len nd \<le> mx"
  using assms by (auto simp: asn1_header_def not_less split: bind_splits)

text \<open>The child just parsed ends inside the rest: the branch for a wrapped rest is never taken.\<close>

lemma children_never_wrap:
  assumes "asn1_parse_node d ns cp rem k = Some (Some ci, ns')" "2 \<le> rem"
    and "map_option snd (asn1_parse_len d (cp + 1) (rem - 1)) = Some clc"
  shows "1 + clc + an_len (inc_children idx ns' ! ci) \<le> rem"
proof -
  obtain nd lc where h: "asn1_header d cp rem = Some (nd, lc, True)" "an_len (ns' ! ci) = an_len nd" "ci < length ns'"
    using parse_ext(1)[OF assms(1)] by auto
  moreover have "an_len (inc_children idx ns' ! ci) = an_len (ns' ! ci)"
    using h(3) by (simp add: inc_children_def nth_upd)
  moreover have "clc = lc" using header_ctot(1)[OF h(1)] assms(3) by (simp only: option.inject)
  ultimately show ?thesis using header_ctot(2)[OF h(1)] by simp
qed

lemma unat_total:
  "unat len < 2 ^ 24 \<Longrightarrow> lc \<le> 5 \<Longrightarrow> unat (1 + lc + len :: u32) = 1 + unat lc + unat len"
  by (simp add: unat_word_ariths word_le_nat_alt)

lemma unat_minus1: "2 \<le> (mx :: u32) \<Longrightarrow> unat (mx - 1) = unat mx - 1"
  by (simp add: unat_sub word_le_nat_alt)

lemma header_safe:
  assumes "0x84 \<notin> set d" "p + unat mx \<le> length d" "2 \<le> mx"
  shows "\<exists>nd lc ins. asn1_header d p mx = Some (nd, lc, ins) \<and> an_val nd = p + 1 + unat lc \<and>
    unat (an_len nd) < 2 ^ 24 \<and> lc \<le> 5 \<and> (ins \<longrightarrow> an_val nd + unat (an_len nd) \<le> p + unat mx)"
proof -
  have m: "2 \<le> unat mx" using assms(3) by (simp add: word_le_nat_alt)
  have "p + 1 + unat (mx - 1) \<le> length d" using assms(2) m unat_minus1[OF assms(3)] by simp
  from parse_len_safe[OF this] assms(1) obtain len lc where
    l: "asn1_parse_len d (p + 1) (mx - 1) = Some (len, lc)" "lc \<le> 5" "unat len < 2 ^ 24" by auto
  moreover have "rd d p = Some (d ! p)" using assms(2) m by (simp add: rd_def)
  ultimately show ?thesis
    using unat_total[OF l(3,2)] by (auto simp: asn1_header_def word_less_nat_alt)
qed

lemma parse_safe:
  assumes d: "0x84 \<notin> set d"
  shows "p + unat mx \<le> length d \<Longrightarrow> \<exists>r ns'. asn1_parse_node d ns p mx depth = Some (r, ns')"
    "cp + unat rem \<le> length d \<Longrightarrow> \<exists>ns'. asn1_children d idx ns cp rem depth = Some ns'"
  using d
proof (induction d ns p mx depth and d idx ns cp rem depth rule: asn1_parse_node_asn1_children.induct)
  case (1 d ns p mx depth)
  show ?case
  proof (cases "length ns \<ge> 256 \<or> depth \<ge> 16 \<or> mx < 2")
    case True
    then show ?thesis by (subst asn1_parse_node.simps) auto
  next
    case False
    then obtain nd lc ins where h: "asn1_header d p mx = Some (nd, lc, ins)"
        "ins \<longrightarrow> an_val nd + unat (an_len nd) \<le> p + unat mx"
      using header_safe[OF 1(3,2)] by (auto simp: not_less)
    have "\<exists>ns'. asn1_children d (length ns) (set_start (length ns) (ns @ [nd])) (an_val nd) (an_len nd) depth = Some ns'"
      if "ins" "an_tag nd AND 0x20 \<noteq> 0 \<and> an_len nd > 0"
      using 1(1)[OF False h(1) refl refl refl refl _ that(2)] that h(2) 1(2,3) by (auto simp: Let_def)
    then show ?thesis using False h(1)
      by (subst asn1_parse_node.simps) (auto simp: Let_def)
  qed
next
  case (2 d idx ns cp rem depth)
  show ?case
  proof (cases "rem = 0 \<or> depth \<ge> 16")
    case True
    then show ?thesis by (subst asn1_children.simps) auto
  next
    case False
    obtain ci n1 where n1: "asn1_parse_node d ns cp rem (depth + 1) = Some (ci, n1)"
      using 2(1)[OF False 2(3,4)] by auto
    show ?thesis
    proof (cases ci)
      case None
      then show ?thesis using n1 False by (subst asn1_children.simps) auto
    next
      case (Some k)
      let ?n2 = "inc_children idx n1"
      obtain nd lc where h: "2 \<le> rem" "asn1_header d cp rem = Some (nd, lc, True)"
        using parse_ext(1)[OF n1] Some by auto
      note clc = header_ctot(1)[OF h(2)]
      let ?ct = "1 + lc + an_len (?n2 ! k)"
      have le: "?ct \<le> rem" using children_never_wrap[OF n1[unfolded Some] h(1) clc] .
      have "\<exists>ns'. asn1_children d idx ?n2 (cp + unat ?ct) (rem - ?ct) depth = Some ns'" if nz: "?ct \<noteq> 0"
      proof -
        have "cp + unat ?ct + unat (rem - ?ct) \<le> length d"
          using le 2(3) by (simp add: unat_sub word_le_nat_alt)
        moreover have "(if rem \<ge> 2 then map_option snd (asn1_parse_len d (cp + 1) (rem - 1)) else Some 0) = Some lc"
          using h(1) clc by simp
        ultimately show ?thesis
          using 2(2)[OF False n1 refl Some refl _ refl nz] le 2(4) by (auto simp: not_less)
      qed
      then show ?thesis using n1 False Some h(1) clc le
        by (subst asn1_children.simps) (auto simp: Let_def not_less)
    qed
  qed
qed

section \<open>Properties\<close>



text \<open>with a four-byte length the sum \<open>1+lc+len\<close> wraps around, the check against the input's size
  passes, and parsing the six bytes of such a sequence reads behind them.\<close>
theorem asn1_length_wraps: "asn1_parse [0x30, 0x84, 0xff, 0xff, 0xff, 0xff] 6 = None"
  by code_simp

text \<open>The second child of a sequence that \<open>asn1_child\<close> returns is the first grandchild, when the first
  child is itself constructed: nodes are stored depth first.\<close>
lemma asn1_child_grandchild:
  "\<exists>ns c. asn1_parse [0x30, 8, 0x30, 3, 2, 1, 7, 4, 1, 9] 10 = Some (Some 0, ns) \<and>
     asn1_child ns (ns ! 0) 1 = Some c \<and> an_tag c = 2 \<and> an_tag (ns ! 3) = 4 \<and> an_children (ns ! 0) = 2"
proof -
  have "map_option (\<lambda>(r, ns). (r, map (\<lambda>nd. (an_tag nd, an_children nd, an_child_start nd)) ns))
      (asn1_parse [0x30, 8, 0x30, 3, 2, 1, 7, 4, 1, 9] 10) =
      Some (Some 0, [(0x30, 2, 1), (0x30, 1, 2), (2, 0, 0), (4, 0, 0)])" by code_simp
  then obtain ns where p: "asn1_parse [0x30, 8, 0x30, 3, 2, 1, 7, 4, 1, 9] 10 = Some (Some 0, ns)"
    and m: "map (\<lambda>nd. (an_tag nd, an_children nd, an_child_start nd)) ns = [(0x30, 2, 1), (0x30, 1, 2), (2, 0, 0), (4, 0, 0)]"
    by auto
  from m obtain z0 z1 z2 z3 where "ns = [z0, z1, z2, z3]" by (auto simp: map_eq_Cons_conv)
  then show ?thesis using p m by (intro exI[of _ ns] exI[of _ z2]) (simp add: asn1_child_def)
qed

end
