(* ===== verification/Pig_Json.thy ===== *)
theory Pig_Json
  imports Pig_Mem
begin

text \<open>
  The JSON parser of \<open>crypto/json.h\<close>. The parser's position is the rest of the text, its suffix from
  \<open>pos\<close> on. Strings grow in a buffer whose capacity is kept, so that a store behind it is undefined, as
  is a number that leaves the 64-bit range. The node table is the list of its first \<open>nnodes\<close> entries;
  a key or string value that is a null pointer is \<^term>\<open>None\<close>.
\<close>

section \<open>Definitions\<close>

abbreviation (input) JSON_MAX_NODES :: nat where "JSON_MAX_NODES \<equiv> 1024"

datatype json_type = JSON_NULL | JSON_BOOL | JSON_NUMBER | JSON_STRING | JSON_ARRAY | JSON_OBJECT

record json_node =
  jn_type :: json_type
  jn_key :: "string option"
  jn_str :: "string option"
  jn_num :: int
  jn_bool :: bool
  jn_children :: nat
  jn_start :: nat

definition json_node0 :: json_node where
  "json_node0 = \<lparr>jn_type = JSON_NULL, jn_key = None, jn_str = None, jn_num = 0, jn_bool = False, jn_children = 0, jn_start = 0\<rparr>"

definition is_ws :: "char \<Rightarrow> bool" where
  "is_ws c \<longleftrightarrow> c = CHR '' '' \<or> c = CHR 0x09 \<or> c = CHR 0x0A \<or> c = CHR 0x0D"

definition json_skip_ws :: "string \<Rightarrow> string" where
  "json_skip_ws p = dropWhile is_ws p"

text \<open>\<open>if(i>=cap-2){cap*=2;...} buf[i++]=c\<close>\<close>

definition json_put :: "char \<Rightarrow> string \<times> int \<Rightarrow> (string \<times> int) option" where
  "json_put c = (\<lambda>(buf, cap). do {
     cap \<leftarrow> (if int (length buf) \<ge> cap - 2 then chk32 (cap * 2) else Some cap);
     if int (length buf) < cap then Some (buf @ [c], cap) else None })"

definition json_escape :: "char \<Rightarrow> char" where
  "json_escape ec =
     (if ec = CHR ''n'' then CHR 0x0A else if ec = CHR ''t'' then CHR 0x09 else if ec = CHR ''r'' then CHR 0x0D
      else if ec = CHR ''b'' then CHR 0x08 else if ec = CHR ''f'' then CHR 0x0C else ec)"

fun json_str_loop :: "string \<times> int \<Rightarrow> string \<Rightarrow> ((string \<times> int) \<times> string) option" where
  "json_str_loop b [] = Some (b, [])"
| "json_str_loop b (c # cs) =
     (if c = CHR 0x22 then Some (b, cs)
      else if c = CHR 0x5C then
        (case cs of
           [] \<Rightarrow> Some (b, [])
         | ec # cs' \<Rightarrow> Option.bind (json_put (json_escape ec) b) (\<lambda>b. json_str_loop b cs'))
      else Option.bind (json_put c b) (\<lambda>b. json_str_loop b cs))"

text \<open>The string, after the store of its terminator, and the rest; \<^term>\<open>None\<close> for no string here.\<close>

definition json_parse_string_raw :: "string \<Rightarrow> (string option \<times> string) option" where
  "json_parse_string_raw p =
     (case p of
        c # cs \<Rightarrow> if c = CHR 0x22 then do {
            ((buf, cap), p) \<leftarrow> json_str_loop ([], 64) cs;
            if int (length buf) < cap then Some (Some buf, p) else None }
          else Some (None, p)
      | [] \<Rightarrow> Some (None, p))"

definition is_digit :: "char \<Rightarrow> bool" where
  "is_digit c \<longleftrightarrow> CHR ''0'' \<le> c \<and> c \<le> CHR ''9''"

fun json_digits :: "string \<Rightarrow> int \<Rightarrow> int option" where
  "json_digits [] v = Some v"
| "json_digits (c # cs) v =
     (if is_digit c then do {
        v \<leftarrow> chk64 (v * 10);
        v \<leftarrow> chk64 (v + (int (of_char c) - 48));
        json_digits cs v }
      else Some v)"

definition nexts :: "char \<Rightarrow> string \<Rightarrow> bool" where
  "nexts c p \<longleftrightarrow> (case p of x # _ \<Rightarrow> x = c | [] \<Rightarrow> False)"

text \<open>The characters behind the sign: \<open>if(buf[si]=='-'){neg=1;si++;} if(buf[si]=='+') si++;\<close>\<close>

definition json_unsigned :: "string \<Rightarrow> string" where
  "json_unsigned b =
     (let s = (if nexts CHR ''-'' b then tl b else b) in if nexts CHR ''+'' s then tl s else s)"

definition json_number :: "string \<Rightarrow> json_node \<Rightarrow> (json_node \<times> string) option" where
  "json_number p n =
     (let b = takeWhile (\<lambda>c. is_digit c \<or> c = CHR ''-'' \<or> c = CHR ''+'') p; p = drop (length b) p;
          n = n\<lparr>jn_type := JSON_NUMBER\<rparr> in
      if length b > 0 \<and> length b < 24 then do {
        v \<leftarrow> json_digits (json_unsigned b) 0;
        Some (n\<lparr>jn_num := (if nexts CHR ''-'' b then - v else v)\<rparr>, p) }
      else Some (n, p))"

text \<open>\<open>p->pos+3<p->len&&p->src[p->pos+1]=='r'&&\<dots>\<close>: a keyword is skipped only when it is there.\<close>

definition skip_word :: "string \<Rightarrow> string \<Rightarrow> string" where
  "skip_word w p = (if take (length w) p = w then drop (length w) p else p)"

definition json_scalar :: "char \<Rightarrow> string \<Rightarrow> (json_node \<times> string) option" where
  "json_scalar c p =
     (if c = CHR 0x22 then do {
        (s, p) \<leftarrow> json_parse_string_raw p;
        Some (json_node0\<lparr>jn_type := JSON_STRING, jn_str := s\<rparr>, p) }
      else if c = CHR ''t'' then Some (json_node0\<lparr>jn_type := JSON_BOOL, jn_bool := True\<rparr>, skip_word ''true'' p)
      else if c = CHR ''f'' then Some (json_node0\<lparr>jn_type := JSON_BOOL\<rparr>, skip_word ''false'' p)
      else if c = CHR ''n'' then Some (json_node0, skip_word ''null'' p)
      else if c = CHR ''-'' \<or> is_digit c then json_number p json_node0
      else Some (json_node0, p))"

definition skip1 :: "char \<Rightarrow> string \<Rightarrow> string" where
  "skip1 c p = (if nexts c p then tl p else p)"

definition add_child :: "nat \<Rightarrow> json_node list \<Rightarrow> json_node list" where
  "add_child i ns = ns[i := (ns ! i)\<lparr>jn_children := jn_children (ns ! i) + 1\<rparr>]"

definition set_key :: "string option \<Rightarrow> nat \<Rightarrow> json_node list \<Rightarrow> json_node list" where
  "set_key k ci ns = ns[ci := (ns ! ci)\<lparr>jn_key := k\<rparr>]"

text \<open>A value, and the members of an object or array. The node index is \<^term>\<open>None\<close> for the result \<open>-1\<close>.
  A member only adds nodes and only moves forward; a loop that did not would not be defined here,
  and that never happens.\<close>

type_synonym json_state = "json_node list \<times> string"

function json_parse_value :: "json_state \<Rightarrow> (nat option \<times> json_state) option"
  and json_members :: "bool \<Rightarrow> nat \<Rightarrow> json_state \<Rightarrow> json_state option" where
  "json_parse_value (ns, p) =
     (if length ns \<ge> JSON_MAX_NODES then Some (None, ns, p)
      else (let idx = length ns; p = json_skip_ws p in
            if p = [] then Some (None, ns @ [json_node0], p)
            else (let c = hd p in
              if c = CHR ''{'' \<or> c = CHR ''['' then
                (let obj = (c = CHR ''{''); close = (if obj then CHR ''}'' else CHR '']'');
                     ns = ns @ [json_node0\<lparr>jn_type := (if obj then JSON_OBJECT else JSON_ARRAY), jn_start := idx + 1\<rparr>];
                     p = json_skip_ws (tl p)
                 in Option.bind (if p \<noteq> [] \<and> hd p \<noteq> close then json_members obj idx (ns, p) else Some (ns, p)) (\<lambda>(ns, p).
                    Some (Some idx, ns, skip1 close p)))
              else Option.bind (json_scalar c p) (\<lambda>(n, p). Some (Some idx, ns @ [n], p)))))"
| "json_members obj idx (ns, p) =
     (let p0 = (if obj then json_skip_ws p else p) in
      if obj \<and> (p0 = [] \<or> nexts CHR ''}'' p0) then Some (ns, p0)
      else Option.bind (if obj then json_parse_string_raw p0 else Some (None, p0)) (\<lambda>(k, p1).
        let p2 = (if obj then skip1 CHR '':'' (json_skip_ws p1) else p1) in
        if length p2 > length p then None
        else Option.bind (json_parse_value (ns, p2)) (\<lambda>(ci, ns', p3).
          let ns' = (case ci of None \<Rightarrow> ns'
                     | Some ci \<Rightarrow> add_child idx (if obj then set_key k ci ns' else ns'));
              p4 = json_skip_ws p3 in
          if nexts CHR '','' p4
          then (if length p \<le> length (tl p4) \<or> length ns' < length ns then None else json_members obj idx (ns', tl p4))
          else Some (ns', p4))))"
  by pat_completeness auto
termination
  by (relation "measures [
      (\<lambda>x. case x of Inl (ns, p) \<Rightarrow> 1024 - length ns | Inr (obj, idx, ns, p) \<Rightarrow> 1024 - length ns),
      (\<lambda>x. case x of Inl _ \<Rightarrow> 0 | Inr _ \<Rightarrow> 1),
      (\<lambda>x. case x of Inl _ \<Rightarrow> 0 | Inr (obj, idx, ns, p) \<Rightarrow> length p)]") auto

declare json_parse_value.simps [simp del] json_members.simps [simp del]

definition json_parse :: "string \<Rightarrow> json_node list option" where
  "json_parse str = do { (r, ns, p) \<leftarrow> json_parse_value ([], str); Some ns }"

text \<open>The children of a node are looked up behind its first one.\<close>

definition json_kids :: "json_node list \<Rightarrow> json_node \<Rightarrow> json_node list" where
  "json_kids ns n = map (\<lambda>i. ns ! (jn_start n + i)) [0..<jn_children n]"

definition json_find_key :: "json_node list \<Rightarrow> json_node option \<Rightarrow> string \<Rightarrow> json_node option" where
  "json_find_key ns obj key =
     (case obj of
        None \<Rightarrow> None
      | Some n \<Rightarrow> if jn_type n \<noteq> JSON_OBJECT then None
          else find (\<lambda>c. case jn_key c of None \<Rightarrow> False | Some k \<Rightarrow> ksc k key = 0) (json_kids ns n))"

definition json_get_string :: "json_node list \<Rightarrow> json_node option \<Rightarrow> string \<Rightarrow> string option" where
  "json_get_string ns obj key =
     (case json_find_key ns obj key of Some n \<Rightarrow> if jn_type n = JSON_STRING then jn_str n else None | None \<Rightarrow> None)"

definition json_get_number :: "json_node list \<Rightarrow> json_node option \<Rightarrow> string \<Rightarrow> int" where
  "json_get_number ns obj key =
     (case json_find_key ns obj key of Some n \<Rightarrow> if jn_type n = JSON_NUMBER then jn_num n else 0 | None \<Rightarrow> 0)"

text \<open>The conversion to \<open>int\<close> keeps the low 32 bits.\<close>

definition json_get_int :: "json_node list \<Rightarrow> json_node option \<Rightarrow> string \<Rightarrow> int" where
  "json_get_int ns obj key = sint (word_of_int (json_get_number ns obj key) :: u32)"

definition json_get_array :: "json_node list \<Rightarrow> json_node option \<Rightarrow> string \<Rightarrow> json_node option" where
  "json_get_array ns obj key = json_find_key ns obj key"

definition json_get_object :: "json_node list \<Rightarrow> json_node option \<Rightarrow> string \<Rightarrow> json_node option" where
  "json_get_object ns obj key =
     (case json_find_key ns obj key of Some n \<Rightarrow> if jn_type n = JSON_OBJECT then Some n else None | None \<Rightarrow> None)"

definition json_array_get :: "json_node list \<Rightarrow> json_node option \<Rightarrow> int \<Rightarrow> json_node option" where
  "json_array_get ns arr idx =
     (case arr of
        None \<Rightarrow> None
      | Some n \<Rightarrow> if jn_type n \<noteq> JSON_ARRAY \<or> idx < 0 \<or> idx \<ge> int (jn_children n) then None
          else Some (ns ! (jn_start n + nat idx)))"

definition json_array_len :: "json_node option \<Rightarrow> nat" where
  "json_array_len arr = (case arr of None \<Rightarrow> 0 | Some n \<Rightarrow> if jn_type n \<noteq> JSON_ARRAY then 0 else jn_children n)"

section \<open>Strings\<close>

definition plain :: "string \<Rightarrow> bool" where
  "plain s \<longleftrightarrow> cstr s \<and> CHR 0x22 \<notin> set s \<and> CHR 0x5C \<notin> set s"

text \<open>The buffer always has room for the next character and the terminator.\<close>

definition buf_ok :: "string \<times> int \<Rightarrow> bool" where
  "buf_ok b \<longleftrightarrow> 64 \<le> snd b \<and> int (length (fst b)) < snd b - 1"

lemma json_put_ok:
  assumes "buf_ok b" "length (fst b) < 2 ^ 30 - 2"
  shows "\<exists>cap. json_put c b = Some (fst b @ [c], cap) \<and> buf_ok (fst b @ [c], cap)"
proof (cases b)
  case (Pair buf cap)
  show ?thesis
  proof (cases "int (length buf) \<ge> cap - 2")
    case True
    then have "i32 (cap * 2)" using assms Pair by (simp add: i32_def buf_ok_def)
    then show ?thesis using True assms Pair by (simp add: json_put_def buf_ok_def)
  next
    case False
    then show ?thesis using assms Pair by (simp add: json_put_def buf_ok_def)
  qed
qed

lemma json_str_loop_plain:
  "buf_ok b \<Longrightarrow> CHR 0x22 \<notin> set s \<Longrightarrow> CHR 0x5C \<notin> set s \<Longrightarrow> length (fst b) + length s < 2 ^ 30 - 2 \<Longrightarrow>
   \<exists>cap. json_str_loop b (s @ CHR 0x22 # r) = Some ((fst b @ s, cap), r) \<and> buf_ok (fst b @ s, cap)"
proof (induction s arbitrary: b)
  case Nil
  then show ?case by (cases b) auto
next
  case (Cons c s)
  obtain cap where 1: "json_put c b = Some (fst b @ [c], cap)" "buf_ok (fst b @ [c], cap)"
    using json_put_ok[of b c] Cons.prems by auto
  show ?case using Cons.IH[OF 1(2)] Cons.prems 1(1) by auto
qed

definition quoted :: "string \<Rightarrow> string" where
  "quoted s = CHR 0x22 # s @ [CHR 0x22]"

lemma json_string_quoted:
  assumes "plain s" "length s < 2 ^ 30 - 2"
  shows "json_parse_string_raw (quoted s @ r) = Some (Some s, r)"
proof -
  have "buf_ok ([], 64)" by (simp add: buf_ok_def)
  from json_str_loop_plain[OF this, of s r] assms obtain cap where
    "json_str_loop ([], 64) (s @ CHR 0x22 # r) = Some ((s, cap), r)" "buf_ok (s, cap)"
    by (auto simp: plain_def)
  then show ?thesis by (simp add: json_parse_string_raw_def quoted_def buf_ok_def)
qed

section \<open>Printing and parsing flat objects\<close>

fun json_print :: "(string \<times> string) list \<Rightarrow> string" where
  "json_print [] = []"
| "json_print [(k, v)] = quoted k @ '':'' @ quoted v"
| "json_print ((k, v) # kvs) = quoted k @ '':'' @ quoted v @ '','' @ json_print kvs"

definition member_node :: "string \<times> string \<Rightarrow> json_node" where
  "member_node kv = json_node0\<lparr>jn_type := JSON_STRING, jn_str := Some (snd kv), jn_key := Some (fst kv)\<rparr>"

lemma json_value_quoted:
  assumes "length ns < 1024" "plain v" "length v < 2 ^ 30 - 2"
  shows "json_parse_value (ns, quoted v @ r) =
    Some (Some (length ns), ns @ [json_node0\<lparr>jn_type := JSON_STRING, jn_str := Some v\<rparr>], r)"
proof -
  have "json_skip_ws (quoted v @ r) = quoted v @ r" by (simp add: json_skip_ws_def quoted_def is_ws_def)
  moreover have "hd (quoted v @ r) = CHR 0x22" "quoted v @ r \<noteq> []" by (simp_all add: quoted_def)
  ultimately show ?thesis
    using assms json_string_quoted[of v r] by (auto simp: json_parse_value.simps json_scalar_def Let_def)
qed

lemma json_members_step:
  assumes "idx < length ns" "length ns < 1024" "plain k" "plain v" "length k < 2 ^ 30 - 2" "length v < 2 ^ 30 - 2"
  shows "json_members True idx (ns, quoted k @ '':'' @ quoted v @ r) =
    (let ns' = add_child idx ns @ [member_node (k, v)]; p4 = json_skip_ws r in
     if nexts CHR '','' p4 then json_members True idx (ns', tl p4) else Some (ns', p4))"
proof -
  let ?p = "quoted k @ '':'' @ quoted v @ r"
  have ws: "json_skip_ws ?p = ?p" "\<not> nexts CHR ''}'' ?p" "?p \<noteq> []"
    by (simp_all add: json_skip_ws_def quoted_def is_ws_def nexts_def)
  have kr: "json_parse_string_raw ?p = Some (Some k, '':'' @ quoted v @ r)"
    using json_string_quoted[OF assms(3,5)] .
  have col: "skip1 CHR '':'' (json_skip_ws ('':'' @ quoted v @ r)) = quoted v @ r"
    by (simp add: json_skip_ws_def is_ws_def skip1_def nexts_def)
  have val: "json_parse_value (ns, quoted v @ r) =
      Some (Some (length ns), ns @ [json_node0\<lparr>jn_type := JSON_STRING, jn_str := Some v\<rparr>], r)"
    using json_value_quoted[OF assms(2,4,6)] .
  have up: "add_child idx (set_key (Some k) (length ns) (ns @ [json_node0\<lparr>jn_type := JSON_STRING, jn_str := Some v\<rparr>])) =
      add_child idx ns @ [member_node (k, v)]"
    using assms(1) by (simp add: add_child_def set_key_def member_node_def nth_append list_update_append)
  have len: "length (tl (json_skip_ws r)) < length ?p"
    using length_dropWhile_le[of is_ws r] by (simp add: json_skip_ws_def quoted_def)
  have l2: "length (add_child idx ns) = length ns" by (simp add: add_child_def)
  show ?thesis
    using ws kr col val up len l2 by (simp add: json_members.simps Let_def)
qed

lemma add_child_append: "idx < length ns \<Longrightarrow> add_child idx (ns @ ms) = add_child idx ns @ ms"
  by (simp add: add_child_def nth_append list_update_append)

lemma json_members_print:
  "kvs \<noteq> [] \<Longrightarrow> idx < length ns \<Longrightarrow> length ns + length kvs \<le> 1024 \<Longrightarrow>
   \<forall>(k, v) \<in> set kvs. plain k \<and> plain v \<and> length k < 2 ^ 30 - 2 \<and> length v < 2 ^ 30 - 2 \<Longrightarrow>
   json_members True idx (ns, json_print kvs @ ''}'' @ r) =
     Some ((add_child idx ^^ length kvs) ns @ map member_node kvs, ''}'' @ r)"
proof (induction kvs arbitrary: ns rule: json_print.induct)
  case (2 k v)
  have "json_skip_ws (''}'' @ r) = ''}'' @ r" "\<not> nexts CHR '','' (''}'' @ r)"
    by (simp_all add: json_skip_ws_def is_ws_def nexts_def)
  then show ?case using json_members_step[of idx ns k v "''}'' @ r"] 2 by (simp add: Let_def)
next
  case (3 k v kv kvs)
  let ?r = "'','' @ json_print (kv # kvs) @ ''}'' @ r" and ?ns = "add_child idx ns @ [member_node (k, v)]"
  have "json_skip_ws ?r = ?r" "nexts CHR '','' ?r" "tl ?r = json_print (kv # kvs) @ ''}'' @ r"
    by (simp_all add: json_skip_ws_def is_ws_def nexts_def)
  then have "json_members True idx (ns, json_print ((k, v) # kv # kvs) @ ''}'' @ r) =
      json_members True idx (?ns, json_print (kv # kvs) @ ''}'' @ r)"
    using json_members_step[of idx ns k v ?r] 3(2-) by (simp add: Let_def)
  also have "\<dots> = Some ((add_child idx ^^ length (kv # kvs)) ?ns @ map member_node (kv # kvs), ''}'' @ r)"
    using 3(2-) by (intro 3(1)) (auto simp: add_child_def)
  also have "(add_child idx ^^ n) ?ns = (add_child idx ^^ Suc n) ns @ [member_node (k, v)]" for n
  proof (induction n)
    case (Suc n)
    have "idx < length ((add_child idx ^^ Suc n) ns)"
      using 3(3) by (induction n) (simp_all add: add_child_def)
    then show ?case using Suc add_child_append by simp
  qed simp
  finally show ?case by simp
qed simp

section \<open>Progress and bounds\<close>

text \<open>A list of digits short enough stays in range.\<close>

lemma is_digit_val: "is_digit c \<Longrightarrow> 0 \<le> int (of_char c) - 48 \<and> int (of_char c) - 48 \<le> 9"
  by (auto simp: is_digit_def less_eq_char_def)

lemma json_digits_bound:
  "0 \<le> v \<Longrightarrow> v < 10 ^ j \<Longrightarrow> j + length (takeWhile is_digit s) \<le> 18 \<Longrightarrow> \<exists>w. json_digits s v = Some w"
proof (induction s arbitrary: v j)
  case (Cons c s)
  show ?case
  proof (cases "is_digit c")
    case True
    note d = is_digit_val[OF True]
    have j: "j \<le> 17" using Cons.prems(3) True by simp
    have v: "v * 10 < 10 ^ Suc j" using Cons.prems(2) by simp
    have le: "(10 :: int) ^ Suc j \<le> 10 ^ 18" using j by (intro power_increasing) auto
    have nx: "v * 10 + (int (of_char c) - 48) < 10 ^ Suc j" using Cons.prems(2) d by simp
    have c1: "chk64 (v * 10) = Some (v * 10)" "chk64 (v * 10 + (int (of_char c) - 48)) = Some (v * 10 + (int (of_char c) - 48))"
      using Cons.prems(1) v nx le d by (simp_all add: chk64_eq_Some)
    from Cons.IH[OF _ nx] Cons.prems d True show ?thesis by (simp add: c1)
  qed simp
qed simp

text \<open>No run of 19 digits.\<close>

definition short_nums :: "string \<Rightarrow> bool" where
  "short_nums s \<longleftrightarrow> (\<forall>a b c. s = a @ b @ c \<longrightarrow> (\<forall>x \<in> set b. is_digit x) \<longrightarrow> length b \<le> 18)"

lemma short_nums_suffix: "short_nums s \<Longrightarrow> s = a @ t \<Longrightarrow> short_nums t"
  unfolding short_nums_def by (metis append.assoc)

lemma short_nums_prefix: "short_nums s \<Longrightarrow> s = t @ a \<Longrightarrow> short_nums t"
  unfolding short_nums_def by (metis append.assoc)

lemma short_nums_take: "short_nums s \<Longrightarrow> length (takeWhile is_digit s) \<le> 18"
  unfolding short_nums_def using takeWhile_dropWhile_id[of is_digit s] set_takeWhileD by (metis append_Nil)

text \<open>The rest after parsing is a suffix of what was there before.\<close>

definition suf :: "string \<Rightarrow> string \<Rightarrow> bool" where
  "suf q p \<longleftrightarrow> (\<exists>a. p = a @ q)"

lemma suf_refl [simp]: "suf p p"
  by (simp add: suf_def)

lemma suf_trans: "suf r q \<Longrightarrow> suf q p \<Longrightarrow> suf r p"
  by (auto simp: suf_def)

lemma suf_dropWhile [simp]: "suf (dropWhile P p) p"
  unfolding suf_def by (metis takeWhile_dropWhile_id)

lemma suf_simps [simp]: "suf (json_skip_ws p) p" "suf (tl p) p" "suf (skip1 c p) p" "suf (skip_word w p) p" "suf (drop n p) p"
proof -
  show t: "suf (tl p) p" for p by (cases p) (auto simp: suf_def)
  show d: "suf (drop n p) p" for n p unfolding suf_def by (metis append_take_drop_id)
  show "suf (json_skip_ws p) p" by (simp add: json_skip_ws_def)
  show "suf (skip1 c p) p" "suf (skip_word w p) p" by (simp_all add: skip1_def skip_word_def t d)
qed

lemma suf_length: "suf q p \<Longrightarrow> length q \<le> length p"
  by (auto simp: suf_def)

lemma suf_short: "suf q p \<Longrightarrow> short_nums p \<Longrightarrow> short_nums q"
  using short_nums_suffix by (auto simp: suf_def)

lemma json_str_loop_ok:
  "buf_ok b \<Longrightarrow> length (fst b) + length p < 2 ^ 30 - 2 \<Longrightarrow>
   \<exists>b' q. json_str_loop b p = Some (b', q) \<and> buf_ok b' \<and> suf q p"
proof (induction b p rule: json_str_loop.induct)
  case (2 b c cs)
  have put: "\<exists>cap. json_put x b = Some (fst b @ [x], cap) \<and> buf_ok (fst b @ [x], cap)" for x
    using json_put_ok[of b x] 2(3,4) by simp
  consider "c = CHR 0x22" | "c = CHR 0x5C" "cs = []" | ec cs' where "c = CHR 0x5C" "cs = ec # cs'"
    | "c \<noteq> CHR 0x22" "c \<noteq> CHR 0x5C" by (cases cs) auto
  then show ?case
  proof cases
    case (3 ec cs')
    obtain cap where cap: "json_put (json_escape ec) b = Some (fst b @ [json_escape ec], cap)" "buf_ok (fst b @ [json_escape ec], cap)"
      using put by blast
    from 2(1)[OF _ 3(1,2) cap(1)] cap(2) 2(4) 3 obtain b' q where
      "json_str_loop (fst b @ [json_escape ec], cap) cs' = Some (b', q)" "buf_ok b'" "suf q cs'" by auto
    then show ?thesis using 3 cap(1) by (auto simp: suf_def)
  next
    case 4
    obtain cap where cap: "json_put c b = Some (fst b @ [c], cap)" "buf_ok (fst b @ [c], cap)"
      using put by blast
    from 2(2)[OF 4 cap(1)] cap(2) 2(4) obtain b' q where
      "json_str_loop (fst b @ [c], cap) cs = Some (b', q)" "buf_ok b'" "suf q cs" by auto
    then show ?thesis using 4 cap(1) by (auto simp: suf_def)
  qed (use 2(3) in \<open>auto simp: suf_def\<close>)
qed (simp add: suf_def)

lemma json_string_ok:
  assumes "length p < 2 ^ 30 - 2"
  shows "\<exists>s q. json_parse_string_raw p = Some (s, q) \<and> suf q p"
proof (cases p)
  case (Cons c cs)
  have "buf_ok ([], 64)" by (simp add: buf_ok_def)
  from json_str_loop_ok[OF this, of cs] assms Cons obtain b q where
    "json_str_loop ([], 64) cs = Some (b, q)" "buf_ok b" "suf q cs" by auto
  then show ?thesis using Cons
    by (cases b) (auto simp: json_parse_string_raw_def buf_ok_def suf_def)
qed (auto simp: json_parse_string_raw_def)

lemma json_number_ok:
  assumes "short_nums p"
  shows "\<exists>n' q. json_number p n = Some (n', q) \<and> suf q p"
proof -
  let ?b = "takeWhile (\<lambda>c. is_digit c \<or> c = CHR ''-'' \<or> c = CHR ''+'') p"
  have b: "short_nums ?b" using short_nums_prefix[OF assms] takeWhile_dropWhile_id by metis
  have "suf (json_unsigned ?b) ?b"
    using suf_trans[OF suf_simps(2) suf_simps(2)] by (simp add: json_unsigned_def Let_def)
  then have "short_nums (json_unsigned ?b)" using suf_short b by blast
  then obtain v where "json_digits (json_unsigned ?b) 0 = Some v"
    using json_digits_bound[of 0 0 "json_unsigned ?b"] short_nums_take by fastforce
  then show ?thesis by (simp add: json_number_def Let_def)
qed

lemma json_scalar_ok:
  assumes "short_nums p" "length p < 2 ^ 30 - 2"
  shows "\<exists>n q. json_scalar c p = Some (n, q) \<and> suf q p"
  using json_string_ok[OF assms(2)] json_number_ok[OF assms(1), of json_node0]
  by (auto simp: json_scalar_def)

lemma length_json_upd [simp]: "length (add_child i ns) = length ns" "length (set_key k i ns) = length ns"
  by (simp_all add: add_child_def set_key_def)

lemma nexts_tl: "nexts c p \<Longrightarrow> length (tl p) < length p"
  by (cases p) (auto simp: nexts_def)

lemma json_key_ok:
  assumes "length p < 2 ^ 30 - 2"
  shows "\<exists>k q. (if obj then json_parse_string_raw p else Some (None, p)) = Some (k, q) \<and> suf q p"
  using json_string_ok[OF assms] by auto

lemma json_defined:
  "short_nums (snd s) \<Longrightarrow> length (snd s) < 2 ^ 30 - 2 \<Longrightarrow>
     \<exists>r ns' q. json_parse_value s = Some (r, ns', q) \<and> suf q (snd s) \<and> length (fst s) \<le> length ns' \<and>
       (length (fst s) \<le> 1024 \<longrightarrow> length ns' \<le> 1024)"
  "short_nums (snd s) \<Longrightarrow> length (snd s) < 2 ^ 30 - 2 \<Longrightarrow>
     \<exists>ns' q. json_members obj idx s = Some (ns', q) \<and> suf q (snd s) \<and> length (fst s) \<le> length ns' \<and>
       (length (fst s) \<le> 1024 \<longrightarrow> length ns' \<le> 1024)"
proof (induction s and obj idx s rule: json_parse_value_json_members.induct)
  case (1 ns p)
  let ?p = "json_skip_ws p"
  have sp: "suf ?p p" "short_nums ?p" "length ?p < 2 ^ 30 - 2"
    using 1(2,3) suf_short[OF suf_simps(1)] suf_length[OF suf_simps(1)[of p]] by auto
  consider "length ns \<ge> 1024" | "length ns < 1024" "?p = []" | "length ns < 1024" "?p \<noteq> []" "hd ?p = CHR ''{'' \<or> hd ?p = CHR ''[''"
    | "length ns < 1024" "?p \<noteq> []" "\<not> (hd ?p = CHR ''{'' \<or> hd ?p = CHR ''['')" by linarith
  then show ?case
  proof cases
    case 1
    then show ?thesis by (simp add: json_parse_value.simps)
  next
    case 2
    then show ?thesis using sp(1) by (simp add: json_parse_value.simps)
  next
    case 3
    let ?obj = "hd ?p = CHR ''{''"
    let ?close = "if ?obj then CHR ''}'' else CHR '']''"
    let ?ns = "ns @ [json_node0\<lparr>jn_type := (if ?obj then JSON_OBJECT else JSON_ARRAY), jn_start := length ns + 1\<rparr>]"
    let ?q = "json_skip_ws (tl ?p)"
    have q: "suf ?q p" using suf_trans[OF suf_simps(1) suf_trans[OF suf_simps(2) sp(1)]] .
    have q2: "short_nums ?q" "length ?q < 2 ^ 30 - 2" using suf_short[OF q] suf_length[OF q] 1(2,3) by auto
    have "\<exists>ns' r. (if ?q \<noteq> [] \<and> hd ?q \<noteq> ?close then json_members ?obj (length ns) (?ns, ?q) else Some (?ns, ?q)) = Some (ns', r) \<and>
        suf r ?q \<and> length ?ns \<le> length ns' \<and> (length ?ns \<le> 1024 \<longrightarrow> length ns' \<le> 1024)"
      using 1(1)[OF _ refl refl _ refl _ refl refl refl refl] 3 q2 by (cases "?q \<noteq> [] \<and> hd ?q \<noteq> ?close") auto
    then obtain ns' r where r: "(if ?q \<noteq> [] \<and> hd ?q \<noteq> ?close then json_members ?obj (length ns) (?ns, ?q) else Some (?ns, ?q)) = Some (ns', r)"
        "suf r ?q" "length ?ns \<le> length ns'" "length ?ns \<le> 1024 \<longrightarrow> length ns' \<le> 1024" by blast
    have "json_parse_value (ns, p) = Some (Some (length ns), ns', skip1 ?close r)"
      using 3 r(1) by (subst json_parse_value.simps) (simp only: Let_def if_False if_True not_le bind.simps prod.case leD split: if_split; simp)
    moreover have "suf (skip1 ?close r) p" using suf_trans[OF suf_simps(3) suf_trans[OF r(2) q]] .
    ultimately show ?thesis using r(3,4) 3(1) by simp
  next
    case 4
    obtain n q where "json_scalar (hd ?p) ?p = Some (n, q)" "suf q ?p" using json_scalar_ok[OF sp(2,3)] by blast
    then show ?thesis using 4 suf_trans[OF _ sp(1)] by (simp add: json_parse_value.simps Let_def)
  qed
next
  case (2 obj idx ns p)
  let ?p0 = "if obj then json_skip_ws p else p"
  have p0: "suf ?p0 p" by simp
  have lp0: "length ?p0 < 2 ^ 30 - 2" using suf_length[OF p0] 2(4) by simp
  show ?case
  proof (cases "obj \<and> (?p0 = [] \<or> nexts CHR ''}'' ?p0)")
    case True
    have "json_members obj idx (ns, p) = Some (ns, ?p0)"
      unfolding json_members.simps[of obj idx ns p] Let_def if_P[OF True] by (rule refl)
    then show ?thesis using p0 by simp
  next
    case False
    obtain k p1 where k: "(if obj then json_parse_string_raw ?p0 else Some (None, ?p0)) = Some (k, p1)" "suf p1 ?p0"
      using json_key_ok[OF lp0, of obj] by blast
    let ?p2 = "if obj then skip1 CHR '':'' (json_skip_ws p1) else p1"
    have p2: "suf ?p2 p"
      using suf_trans[OF k(2) p0] suf_trans[OF suf_simps(3) suf_trans[OF suf_simps(1) suf_trans[OF k(2) p0]]] by simp
    have g: "\<not> length ?p2 > length p" using suf_length[OF p2] by simp
    have h: "short_nums ?p2" "length ?p2 < 2 ^ 30 - 2" using suf_short[OF p2] suf_length[OF p2] 2(3,4) by auto
    obtain ci n1 p3 where v: "json_parse_value (ns, ?p2) = Some (ci, n1, p3)" "suf p3 ?p2" "length ns \<le> length n1"
        "length ns \<le> 1024 \<longrightarrow> length n1 \<le> 1024"
      using 2(1)[OF refl False k(1) refl refl g] h by auto
    let ?n2 = "case ci of None \<Rightarrow> n1 | Some ci \<Rightarrow> add_child idx (if obj then set_key k ci n1 else n1)"
    let ?p4 = "json_skip_ws p3"
    have l2: "length ?n2 = length n1" by (simp split: option.split)
    have p4: "suf ?p4 p" using suf_trans[OF suf_simps(1) suf_trans[OF v(2) p2]] .
    show ?thesis
    proof (cases "nexts CHR '','' ?p4")
      case True
      have g2: "\<not> (length p \<le> length (tl ?p4) \<or> length ?n2 < length ns)"
        using nexts_tl[OF True] suf_length[OF p4] v(3) l2 by simp
      have t: "suf (tl ?p4) p" using suf_trans[OF suf_simps(2) p4] .
      have "\<exists>ns' q. json_members obj idx (?n2, tl ?p4) = Some (ns', q) \<and> suf q (tl ?p4) \<and> length ?n2 \<le> length ns' \<and>
          (length ?n2 \<le> 1024 \<longrightarrow> length ns' \<le> 1024)"
        using 2(2)[OF refl False k(1) refl refl g v(1) refl refl refl refl True g2] suf_short[OF t] suf_length[OF t] 2(3,4) by auto
      then obtain ns' q where r: "json_members obj idx (?n2, tl ?p4) = Some (ns', q)" "suf q (tl ?p4)" "length ?n2 \<le> length ns'"
          "length ?n2 \<le> 1024 \<longrightarrow> length ns' \<le> 1024" by blast
      have "json_members obj idx (ns, p) = Some (ns', q)"
        unfolding json_members.simps[of obj idx ns p] Let_def if_not_P[OF False] k(1) bind.simps prod.case if_not_P[OF g] v(1) if_P[OF True] if_not_P[OF g2]
        by (rule r(1))
      then show ?thesis using suf_trans[OF r(2) t] r(3,4) v(3,4) l2 by auto
    next
      case no: False
      have "json_members obj idx (ns, p) = Some (?n2, ?p4)"
        unfolding json_members.simps[of obj idx ns p] Let_def if_not_P[OF False] k(1) bind.simps prod.case if_not_P[OF g] v(1) if_not_P[OF no] by (rule refl)
      then show ?thesis using p4 v(3,4) l2 by auto
    qed
  qed
qed

section \<open>Properties\<close>





end
