(* ===== verification/Pig_Net.thy ===== *)
theory Pig_Net
  imports Pig_Polctl Pig_Log
begin

text \<open>
  The network code of the kernel itself (\<open>drivers/net/network.h\<close>) and the driver of the RTL8139 card
  (\<open>lwip/port/netif/rtl8139.h\<close>): addresses, the ICMP checksum and the echo request, the choice of the card, the
  receive ring and the transmit slots of the driver, and the wrappers around the TCP calls.

  The TCP/IP stack and the card are outside. What the stack does with a frame, whether it has a buffer for one,
  and what the card's registers read are arguments of the definitions. The receive ring is the memory the card
  writes to: a function from offsets to bytes.
\<close>

unbundle bit_operations_syntax

section \<open>Definitions\<close>

subsection \<open>Addresses\<close>

text \<open>The loop of \<open>ip_parse\<close>: the numbers read so far and the current one. The inner \<^term>\<open>None\<close> is
  the early \<open>return 0\<close>.\<close>

fun ip_loop :: "int list \<Rightarrow> int \<Rightarrow> string \<Rightarrow> (int list \<times> int) option option" where
  "ip_loop v k [] = Some (Some (v, k))"
| "ip_loop v k (c # s) =
     (if length v \<ge> 4 then Some (Some (v, k))
      else if c = CHR ''.'' then ip_loop (v @ [k]) 0 s
      else if is_digit c then do { k \<leftarrow> chk32 (k * 10 + (of_char c - 48)); ip_loop v k s }
      else Some None)"

definition ip_word :: "int list \<Rightarrow> u32" where
  "ip_word v = push_bit 24 (word_of_int (v ! 3)) OR push_bit 16 (word_of_int (v ! 2)) OR
     push_bit 8 (word_of_int (v ! 1)) OR word_of_int (v ! 0)"

definition ip_generic :: "string \<Rightarrow> u32 option option" where
  "ip_generic s = do {
     r \<leftarrow> ip_loop [] 0 s;
     Some (case r of
         None \<Rightarrow> None
       | Some (v, k) \<Rightarrow> if length v < 3 then None else Some (ip_word (take 3 v @ [k]))) }"

definition ip_parse :: "string \<Rightarrow> u32 option option" where
  "ip_parse s =
     (if s = ''10.0.2.2'' then Some (Some 0x0202000A)
      else if s = ''10.0.2.15'' then Some (Some 0x0F02000A)
      else if s = ''127.0.0.1'' then Some (Some 0x0100007F)
      else if s = ''8.8.8.8'' then Some (Some 0x08080808)
      else if s = ''1.1.1.1'' then Some (Some 0x01010101)
      else ip_generic s)"

definition ip_byte :: "u32 \<Rightarrow> nat \<Rightarrow> int" where
  "ip_byte ip i = uint (take_bit 8 (drop_bit (8 * i) ip))"

definition ip_text :: "u32 \<Rightarrow> string" where
  "ip_text ip = kia_str (ip_byte ip 0) @ ''.'' @ kia_str (ip_byte ip 1) @ ''.'' @ kia_str (ip_byte ip 2) @ ''.'' @
     kia_str (ip_byte ip 3)"

definition net_print_ip :: "u32 \<Rightarrow> vga \<Rightarrow> vga" where
  "net_print_ip ip = seqs [vps (kia_str (ip_byte ip 0)), vpc CHR ''.'', vps (kia_str (ip_byte ip 1)), vpc CHR ''.'',
     vps (kia_str (ip_byte ip 2)), vpc CHR ''.'', vps (kia_str (ip_byte ip 3))]"

definition cmd_ifconfig :: "u32 \<Rightarrow> u32 \<Rightarrow> vga \<Rightarrow> vga" where
  "cmd_ifconfig my_ip gw_ip = seqs [vpln ''eth0: flags=UP,BROADCAST,MULTICAST'', vps ''  inet '', net_print_ip my_ip, vpln '''',
     vps ''  gateway '', net_print_ip gw_ip, vpln '''']"

subsection \<open>The checksum\<close>

fun words16 :: "u8 list \<Rightarrow> nat list" where
  "words16 (a # b # r) = (unat a * 256 + unat b) # words16 r"
| "words16 [a] = [unat a * 256]"
| "words16 [] = []"

text \<open>\<open>sum\<close> is a 32-bit variable.\<close>

definition cksum_sum :: "u8 list \<Rightarrow> nat" where
  "cksum_sum buf = foldl (\<lambda>s w. (s + w) mod 2 ^ 32) 0 (words16 buf)"

function fold16 :: "nat \<Rightarrow> nat" where
  "fold16 s = (if s div 65536 = 0 then s else fold16 (s mod 65536 + s div 65536))"
  by pat_completeness auto
termination
proof (relation "measure id")
  fix s :: nat
  assume "s div 65536 \<noteq> 0"
  then show "(s mod 65536 + s div 65536, s) \<in> measure id"
    using div_mult_mod_eq[of s 65536] unfolding in_measure id_def by linarith
qed simp

declare fold16.simps [simp del]

definition icmp_cksum :: "u8 list \<Rightarrow> u16" where
  "icmp_cksum buf = NOT (of_nat (fold16 (cksum_sum buf)))"

definition put_cksum :: "u8 list \<Rightarrow> u8 list" where
  "put_cksum buf = (let ck = icmp_cksum buf in buf[2 := ucast (drop_bit 8 ck), 3 := ucast (ck AND 0xFF)])"

text \<open>The echo request of \<open>do_ping_count\<close>.\<close>

definition echo_request :: "nat \<Rightarrow> u8 list" where
  "echo_request seq = put_cksum ([8, 0, 0, 0, 0x41, 0x00, of_nat (seq div 256), of_nat seq] @ map of_nat [0 ..< 56])"

subsection \<open>The choice of the card\<close>

datatype nic = NIC_NONE | NIC_RTL | NIC_E1000 | NIC_VIRTIO

definition nic_name :: "nic \<Rightarrow> string" where
  "nic_name k = (case k of NIC_RTL \<Rightarrow> ''RTL8139'' | NIC_E1000 \<Rightarrow> ''e1000 (Intel PRO/1000)'' | NIC_VIRTIO \<Rightarrow> ''VirtIO-Net''
     | NIC_NONE \<Rightarrow> ''none'')"

definition RTL_ID :: u32 where "RTL_ID = 0x813910EC"

definition e1000_ids :: "u32 list" where
  "e1000_ids = [0x10088086, 0x10098086, 0x10008086, 0x10018086, 0x10048086, 0x100E8086, 0x100F8086, 0x10118086,
     0x10158086, 0x10198086, 0x101D8086]"

definition pci_slots :: "(nat \<times> nat) list" where
  "pci_slots = [(b, d). b \<leftarrow> [0 ..< 4], d \<leftarrow> [0 ..< 32]]"

text \<open>\<open>mmio i\<close> are the magic number and the device number read from the \<open>i\<close>-th VirtIO window, \<open>pci b d\<close> the
  identification of a PCI device.\<close>

definition net_detect_nic :: "(nat \<Rightarrow> u32 \<times> u32) \<Rightarrow> (nat \<Rightarrow> nat \<Rightarrow> u32) \<Rightarrow> nic" where
  "net_detect_nic mmio pci =
     (if \<exists>i \<in> set [0 ..< 32]. mmio i = (0x74726976, 1) then NIC_VIRTIO
      else case List.find (\<lambda>(b, d). pci b d = RTL_ID \<or> pci b d \<in> set e1000_ids) pci_slots of
        None \<Rightarrow> NIC_NONE
      | Some (b, d) \<Rightarrow> if pci b d = RTL_ID then NIC_RTL else NIC_E1000)"

definition dec2 :: "nat \<Rightarrow> string" where
  "dec2 n = (if n \<ge> 10 then [char_of (48 + n div 10), char_of (48 + n mod 10)] else [char_of (48 + n)])"

definition netif_detect_name :: "(nat \<Rightarrow> nat \<Rightarrow> u32) \<Rightarrow> nic \<Rightarrow> string" where
  "netif_detect_name pci k =
     (case List.find (\<lambda>(b, d). k = NIC_RTL \<and> pci b d = RTL_ID \<or>
              k = NIC_E1000 \<and> (pci b d = 0x10088086 \<or> pci b d = 0x100E8086)) pci_slots of
        Some (b, d) \<Rightarrow> ''enp'' @ dec2 b @ ''s'' @ dec2 d
      | None \<Rightarrow> if k = NIC_VIRTIO then ''ens0'' else ''eth0'')"

text \<open>The card's address as \<open>eth0_up\<close> prints it, in decimal, through 4 bytes for a number and 20 for the whole.\<close>

definition mac_text :: "u8 list \<Rightarrow> string option" where
  "mac_text mac = do {
     h \<leftarrow> fits 4 (kia_str (uint (mac ! 0)));
     b \<leftarrow> fits 20 h;
     ofold (\<lambda>i b. do {
        b \<leftarrow> fits 20 (b @ '':'');
        h \<leftarrow> fits 4 (kia_str (uint (mac ! i)));
        fits 20 (b @ h) }) [1 ..< 6] b }"

subsection \<open>The RTL8139 card\<close>

record rtl =
  rtl_hw_ok :: bool
  rtl_ring :: "nat \<Rightarrow> u8"
  rtl_rx_ptr :: nat
  rtl_rx_count :: u32
  rtl_rx_poll_count :: u32
  rtl_capr :: u16
  rtl_tx_buf :: "nat \<Rightarrow> u8 list"
  rtl_tx_cur :: nat
  rtl_tx_count :: u32
  rtl_tsd :: "nat \<Rightarrow> u32"
  rtl_logs :: rtl_log
  inbox :: "u8 list list"

abbreviation (input) RTL_RX_SZ :: nat where "RTL_RX_SZ \<equiv> 8192"

definition rlog :: "string \<Rightarrow> string \<Rightarrow> rtl \<Rightarrow> rtl" where
  "rlog e d st = st\<lparr>rtl_logs := rtl_net_log_event e d (rtl_logs st)\<rparr>"

definition rd16 :: "(nat \<Rightarrow> u8) \<Rightarrow> nat \<Rightarrow> nat" where
  "rd16 mem p = unat (mem p) + 256 * unat (mem (p + 1))"

definition rx_data :: "(nat \<Rightarrow> u8) \<Rightarrow> nat \<Rightarrow> nat \<Rightarrow> u8 list" where
  "rx_data mem p n = map (\<lambda>i. mem (((p + 4) mod RTL_RX_SZ + i) mod RTL_RX_SZ)) [0 ..< n]"

definition rx_next :: "nat \<Rightarrow> nat \<Rightarrow> nat" where
  "rx_next p raw_len =
     (let q = ((p + 4 + raw_len + 3) div 4 * 4) mod 65536 in if q \<ge> RTL_RX_SZ then q - RTL_RX_SZ else q)"

text \<open>One packet of the loop of \<open>rtl_input\<close>; the flag says whether the loop goes on.\<close>

definition rtl_packet :: "(nat \<Rightarrow> bool) \<Rightarrow> (u8 list \<Rightarrow> rtl \<Rightarrow> rtl) \<Rightarrow> nat \<Rightarrow> rtl \<Rightarrow> bool \<times> rtl" where
  "rtl_packet room lwip pkt st =
     (let p = rtl_rx_ptr st; status = rd16 (rtl_ring st) p in
      if even status
      then (False, if pkt = 0 then rlog ''RX'' ''NO PACKETS - rx status=0x0000 (buffer empty)'' st else st)
      else
        (let st = rlog ''RX'' ''packet found! status=0x0001'' st;
             raw_len = rd16 (rtl_ring st) (p + 2); len = int raw_len - 4 in
         if len \<le> 0 \<or> len > 1518 then (False, rlog ''RX'' ''bad length'' st)
         else
           (let st = rlog ''RX'' ''processing packet'' (st\<lparr>rtl_rx_count := rtl_rx_count st + 1\<rparr>);
                f = rx_data (rtl_ring st) p (nat len);
                st = (if room (nat len)
                      then rlog ''RX'' ''packet delivered to lwIP'' (lwip f (st\<lparr>inbox := inbox st @ [f]\<rparr>)) else st);
                next_ptr = rx_next p raw_len
            in (True, st\<lparr>rtl_capr := of_nat next_ptr - 0x10, rtl_rx_ptr := next_ptr\<rparr>))))"

fun rtl_packets :: "(nat \<Rightarrow> bool) \<Rightarrow> (u8 list \<Rightarrow> rtl \<Rightarrow> rtl) \<Rightarrow> nat \<Rightarrow> nat \<Rightarrow> rtl \<Rightarrow> rtl" where
  "rtl_packets room lwip pkt 0 st = st"
| "rtl_packets room lwip pkt (Suc n) st =
     (case rtl_packet room lwip pkt st of (True, st) \<Rightarrow> rtl_packets room lwip (Suc pkt) n st | (False, st) \<Rightarrow> st)"

definition rtl_input :: "(nat \<Rightarrow> bool) \<Rightarrow> (u8 list \<Rightarrow> rtl \<Rightarrow> rtl) \<Rightarrow> rtl \<Rightarrow> rtl" where
  "rtl_input room lwip st =
     (if \<not> rtl_hw_ok st then rlog ''RX'' ''RTL not initialized'' st
      else
        (let st = rlog ''RX'' ''polling for packets...'' (st\<lparr>rtl_rx_poll_count := rtl_rx_poll_count st + 1\<rparr>);
             st = rtl_packets room lwip 0 16 st
         in if rtl_rx_poll_count st mod 1000 = 0 then rlog ''RX'' ''poll check'' st else st))"

text \<open>Sending. A packet is a chain of buffers; \<open>tsd i\<close> is what the status register reads at the \<open>i\<close>-th poll.\<close>

datatype err = ERR_OK | ERR_BUF | ERR_IF

fun gather :: "nat \<Rightarrow> u8 list \<Rightarrow> u8 list list \<Rightarrow> u8 list" where
  "gather off buf [] = buf"
| "gather off buf (q # qs) =
     (let c = (if off + length q > 1514 then 1514 - off else length q) in gather (off + c) (buf @ take c q) qs)"

definition tx_wait :: "(nat \<Rightarrow> u32) \<Rightarrow> int" where
  "tx_wait tsd =
     (case List.find (\<lambda>i. \<not> bit (tsd i) 31) [0 ..< 1000000] of Some i \<Rightarrow> 999999 - int i | None \<Rightarrow> - 1)"

definition rtl_output :: "(nat \<Rightarrow> u32) \<Rightarrow> u8 list list \<Rightarrow> rtl \<Rightarrow> err \<times> rtl" where
  "rtl_output tsd p st =
     (if \<not> rtl_hw_ok st then (ERR_IF, rlog ''TX'' ''RTL not initialized'' st)
      else
        (let st = rlog ''TX'' ''starting packet send'' st;
             buf = gather 0 [] p;
             k = rtl_tx_cur st;
             st = st\<lparr>rtl_tx_buf := (rtl_tx_buf st)(k := buf @ drop (length buf) (rtl_tx_buf st k)),
                     rtl_tsd := (rtl_tsd st)(k := of_nat (length buf mod 8192) OR 0x80000000)\<rparr>;
             st = rlog ''TX'' ''waiting for TX completion'' st
         in if tx_wait tsd \<le> 0 then (ERR_BUF, rlog ''TX'' ''timeout waiting for TX'' st)
            else (ERR_OK, (rlog ''TX'' ''packet sent successfully'' st)
                   \<lparr>rtl_tx_cur := (k + 1) mod 4, rtl_tx_count := rtl_tx_count st + 1\<rparr>)))"

text \<open>The raw helper \<open>rtl_recv\<close>; its pointer leaves out the four bytes of the frame check sequence.\<close>

definition rtl_recv :: "nat \<Rightarrow> rtl \<Rightarrow> u8 list option \<times> rtl" where
  "rtl_recv mx st =
     (let p = rtl_rx_ptr st; len = (rd16 (rtl_ring st) (p + 2) + 65532) mod 65536 in
      if \<not> rtl_hw_ok st \<or> even (rd16 (rtl_ring st) p) \<or> len = 0 \<or> len > 1518 \<or> len > mx then (None, st)
      else (let q = rx_next p len in
        (Some (rx_data (rtl_ring st) p len), st\<lparr>rtl_capr := of_nat q - 0x10, rtl_rx_ptr := q\<rparr>)))"

subsection \<open>TCP\<close>

text \<open>\<open>seg\<close> is the segment the stack hands over while \<open>tcp_recv_sync\<close> waits, if there is one.\<close>

definition tcp_recv_sync :: "u8 list option \<Rightarrow> nat \<Rightarrow> u8 list \<Rightarrow> nat \<times> u8 list" where
  "tcp_recv_sync seg mx buf =
     (case seg of None \<Rightarrow> (0, buf)
      | Some s \<Rightarrow> let n = min (length s) mx in (n, take n s @ drop n buf))"

definition tcp_recv_compat :: "bool \<Rightarrow> u8 list option \<Rightarrow> nat \<Rightarrow> u8 list \<Rightarrow> int \<times> u8 list" where
  "tcp_recv_compat open seg mx buf =
     (if \<not> open then (- 1, buf)
      else let (r, buf) = tcp_recv_sync seg mx buf in (if r > 0 then 0x10 else - 1, buf))"

section \<open>Addresses are read back as printed\<close>

lemma ip_loop_number:
  assumes "0 \<le> n" "i32 n" "length v < 4" "rest = [] \<or> hd rest = CHR ''.''"
  shows "ip_loop v 0 (kia_str n @ rest) = ip_loop v n rest"
proof -
  have d: "\<forall>c \<in> set s. is_digit c \<Longrightarrow> dec_value s k = Some m \<Longrightarrow> ip_loop v k (s @ rest) = ip_loop v m rest" for s k m
  proof (induction s arbitrary: k)
    case (Cons c s)
    then have "c \<noteq> CHR ''.''" by (auto simp: is_digit_def)
    with Cons assms(3) show ?case by (auto simp: dec_value_def split: bind_splits)
  qed (simp add: dec_value_def)
  have "dec_value (kia_str n) 0 = Some n"
    using read_dec_kia[of n "[]"] kia_str_digits[OF assms(1)] assms(1,2)[unfolded i32_def]
    by (auto simp: read_dec_def takeWhile_eq_all_conv[THEN iffD2] split: bind_splits)
  then show ?thesis using d kia_str_digits[OF assms(1)] by simp
qed

lemma ip_byte_range: "0 \<le> ip_byte ip i" "ip_byte ip i < 256" "i32 (ip_byte ip i)"
proof -
  have "uint (take_bit 8 (drop_bit (8 * i) ip)) = take_bit 8 (uint (drop_bit (8 * i) ip))" by (simp add: unsigned_take_bit_eq)
  then show "0 \<le> ip_byte ip i" "ip_byte ip i < 256" by (simp_all add: ip_byte_def take_bit_eq_mod)
  then show "i32 (ip_byte ip i)" by (simp add: i32_def)
qed

lemma ip_word_bytes: "ip_word (map (ip_byte ip) [0, 1, 2, 3]) = ip"
proof (rule bit_word_eqI)
  fix n
  assume "n < LENGTH(32)"
  then have "n < 8 \<or> n - 8 < 8 \<and> n = 8 + (n - 8) \<or> n - 16 < 8 \<and> n = 16 + (n - 16) \<or> n - 24 < 8 \<and> n = 24 + (n - 24)"
    by simp linarith
  then consider "n < 8" | j where "n = 8 + j" "j < 8" | j where "n = 16 + j" "j < 8" | j where "n = 24 + j" "j < 8" by blast
  then show "bit (ip_word (map (ip_byte ip) [0, 1, 2, 3])) n = bit ip n"
    by cases (auto simp: ip_word_def ip_byte_def bit_simps)
qed

lemma ip_generic_text: "ip_generic (ip_text ip) = Some (Some ip)"
proof -
  have "ip_loop [] 0 (ip_text ip) = Some (Some (map (ip_byte ip) [0, 1, 2], ip_byte ip 3))"
    using ip_loop_number[OF ip_byte_range(1,3)[of ip 3], of _ "[]"] by (simp add: ip_text_def ip_loop_number ip_byte_range)
  then show ?thesis using ip_word_bytes[of ip] by (simp add: ip_generic_def)
qed

text \<open>C35: every address \<open>net_print_ip\<close> prints is read back by \<open>ip_parse\<close> as the same 32 bits, the
  addresses with an entry of their own included.\<close>

theorem ip_parse_text: "ip_parse (ip_text ip) = Some (Some ip)"
proof -
  have s: "ip_generic ''10.0.2.2'' = Some (Some 0x0202000A)" "ip_generic ''10.0.2.15'' = Some (Some 0x0F02000A)"
    "ip_generic ''127.0.0.1'' = Some (Some 0x0100007F)" "ip_generic ''8.8.8.8'' = Some (Some 0x08080808)"
    "ip_generic ''1.1.1.1'' = Some (Some 0x01010101)"
    by (simp_all add: ip_generic_def ip_word_def is_digit_def chk32_def numeral_2_eq_2 numeral_3_eq_3)
  show ?thesis unfolding ip_parse_def using ip_generic_text[of ip] s by (auto split: if_splits)
qed

text \<open>Numbers above 255 and a fifth number are accepted.\<close>

lemma ip_parse_accepts: "ip_parse ''1.2.3.256'' = Some (Some 0x00030201)" "ip_parse ''1.2.3.4.5'' = Some (Some 0x00030201)"
  "ip_parse ''...'' = Some (Some 0)"
  by (simp_all add: ip_parse_def ip_generic_def ip_word_def is_digit_def chk32_def)

section \<open>The checksum verifies\<close>

lemma fold16_mod: "fold16 s mod 65535 = s mod 65535"
proof (induction s rule: fold16.induct)
  case (1 s)
  have "s mod 65536 + s div 65536 + 65535 * (s div 65536) = s" using div_mult_mod_eq[of s 65536] by linarith
  then have "(s mod 65536 + s div 65536) mod 65535 = s mod 65535" by (metis mod_mult_self2)
  then show ?case using 1 by (subst fold16.simps) simp
qed

lemma fold16_range: "fold16 s < 65536" "0 < s \<Longrightarrow> 0 < fold16 s"
proof (induction s rule: fold16.induct)
  case (1 s)
  {
    case 1
    show ?case using "1.IH"(1) by (subst fold16.simps) (simp add: div_eq_0_iff)
  next
    case 2
    then show ?case using "1.IH"(2) by (subst fold16.simps) auto
  }
qed

lemma fold16_all_ones: "s mod 65535 = 0 \<Longrightarrow> 0 < s \<Longrightarrow> fold16 s = 65535"
  using fold16_mod[of s] fold16_range[of s] by (auto elim!: dvdE simp: mod_eq_0_iff_dvd)

lemma unat_less_exp: "unat (a :: u8) < 256" "unat (w :: u16) < 65536"
  by (rule order_less_le_trans[OF unsigned_less], simp)+

lemma words16_bound: "w \<in> set (words16 buf) \<Longrightarrow> w < 65536"
proof (induction buf rule: words16.induct)
  case (1 a b r)
  then show ?case using unat_less_exp(1)[of a] unat_less_exp(1)[of b] by auto
next
  case (2 a)
  then show ?case using unat_less_exp(1)[of a] by auto
qed simp

lemma length_words16: "length (words16 buf) = (length buf + 1) div 2"
  by (induction buf rule: words16.induct) auto

lemma cksum_sum_exact:
  assumes "length buf \<le> 65536"
  shows "cksum_sum buf = sum_list (words16 buf)"
proof -
  have "s + sum_list ws < 2 ^ 32 \<Longrightarrow> foldl (\<lambda>s w. (s + w) mod 2 ^ 32) s ws = s + sum_list ws" for s :: nat and ws
    by (induction ws arbitrary: s) (auto simp: add.assoc)
  moreover have "sum_list ws \<le> 65535 * length ws" if "\<forall>w \<in> set ws. w < 65536" for ws :: "nat list"
    using that by (induction ws) auto
  then have "sum_list (words16 buf) \<le> 65535 * ((length buf + 1) div 2)"
    using words16_bound length_words16[of buf] by metis
  then have "sum_list (words16 buf) < 2 ^ 32" using assms by simp
  ultimately show ?thesis by (simp add: cksum_sum_def)
qed

lemma unat_not16: "n < 65536 \<Longrightarrow> unat (NOT (of_nat n) :: u16) = 65535 - n"
proof -
  assume n: "n < 65536"
  then have "unat (of_nat n :: u16) = n" by (simp add: unsigned_of_nat take_bit_eq_mod)
  moreover have "NOT (of_nat n) = - 1 - (of_nat n :: u16)" by (simp add: not_eq_complement)
  moreover have "unat (- 1 - w) = unat (- 1 :: u16) - unat w" for w :: u16 by (rule unat_sub) simp
  moreover have "unat (- 1 :: u16) = 65535" by (simp add: unsigned_minus_1_eq_mask mask_eq_exp_minus_1)
  ultimately show ?thesis by simp
qed

lemma halves16: "unat (ucast (drop_bit 8 w) :: u8) * 256 + unat (ucast (w AND 0xFF) :: u8) = unat (w :: u16)"
proof -
  have "unat (ucast (drop_bit 8 w) :: u8) = unat w div 256"
    using unat_less_exp(2)[of w]
    by (simp add: unsigned_ucast_eq unsigned_drop_bit_eq take_bit_eq_mod drop_bit_eq_div less_mult_imp_div_less unat_div_distrib)
  moreover have "w AND 0xFF = take_bit 8 w" by (simp add: take_bit_eq_mask mask_eq_exp_minus_1)
  then have "unat (ucast (w AND 0xFF) :: u8) = unat w mod 256"
    by (simp add: unsigned_ucast_eq unsigned_take_bit_eq take_bit_eq_mod unat_mod_distrib)
  ultimately show ?thesis by simp
qed

lemma put_cksum_verifies:
  assumes "buf = a # b # 0 # 0 # r" "length buf \<le> 65536"
  shows "icmp_cksum (put_cksum buf) = 0"
proof -
  let ?S = "sum_list (words16 buf)" and ?ck = "icmp_cksum buf"
  have ck: "unat ?ck = 65535 - fold16 ?S"
    using cksum_sum_exact[OF assms(2)] fold16_range(1) by (simp add: icmp_cksum_def unat_not16)
  have "put_cksum buf = a # b # ucast (drop_bit 8 ?ck) # ucast (?ck AND 0xFF) # r"
    by (simp add: put_cksum_def assms(1) Let_def numeral_3_eq_3 numeral_2_eq_2)
  then have "sum_list (words16 (put_cksum buf)) = ?S + unat ?ck"
    using halves16[of ?ck] assms(1) by simp
  moreover have "length (put_cksum buf) \<le> 65536" using assms(2) by (simp add: put_cksum_def Let_def)
  ultimately have s: "cksum_sum (put_cksum buf) = ?S + (65535 - fold16 ?S)" by (simp add: cksum_sum_exact ck)
  have "(?S + (65535 - fold16 ?S)) mod 65535 = (fold16 ?S + (65535 - fold16 ?S)) mod 65535"
    by (metis fold16_mod mod_add_cong)
  also have "fold16 ?S + (65535 - fold16 ?S) = 65535" using fold16_range(1)[of ?S] by simp
  finally have m: "(?S + (65535 - fold16 ?S)) mod 65535 = 0" by simp
  have "0 < s + (65535 - fold16 s)" for s using fold16.simps[of 0] by (cases "s = 0") simp_all
  then have "fold16 (?S + (65535 - fold16 ?S)) = 65535" by (rule fold16_all_ones[OF m])
  then show ?thesis by (simp add: icmp_cksum_def s)
qed


section \<open>The receive ring\<close>

text \<open>What the card promises of a received frame: the status word has its lowest bit set, the length counts the four
  bytes of the check sequence, and the bytes follow the header, wrapping at the end of the ring. The next frame
  starts at the next multiple of four.\<close>

definition frame_at :: "(nat \<Rightarrow> u8) \<Rightarrow> nat \<Rightarrow> u8 list \<Rightarrow> bool" where
  "frame_at mem p f \<longleftrightarrow> odd (rd16 mem p) \<and> rd16 mem (p + 2) = length f + 4 \<and> 1 \<le> length f \<and> length f \<le> 1518 \<and>
     (\<forall>i < length f. mem ((p + 4 + i) mod RTL_RX_SZ) = f ! i)"

definition ring_next :: "nat \<Rightarrow> nat \<Rightarrow> nat" where
  "ring_next p n = ((p + 4 + (n + 4) + 3) div 4 * 4) mod RTL_RX_SZ"

fun frames_at :: "(nat \<Rightarrow> u8) \<Rightarrow> nat \<Rightarrow> u8 list list \<Rightarrow> bool" where
  "frames_at mem p [] \<longleftrightarrow> even (rd16 mem p)"
| "frames_at mem p (f # fs) \<longleftrightarrow> frame_at mem p f \<and> frames_at mem (ring_next p (length f)) fs"

definition quiet :: "(u8 list \<Rightarrow> rtl \<Rightarrow> rtl) \<Rightarrow> bool" where
  "quiet lwip \<longleftrightarrow> (\<forall>f st. rtl_ring (lwip f st) = rtl_ring st \<and> rtl_rx_ptr (lwip f st) = rtl_rx_ptr st \<and>
     inbox (lwip f st) = inbox st)"

lemma rlog_simps [simp]:
  "rtl_ring (rlog e d st) = rtl_ring st" "rtl_rx_ptr (rlog e d st) = rtl_rx_ptr st" "inbox (rlog e d st) = inbox st"
  by (simp_all add: rlog_def)

lemma rx_next_ring: "p < RTL_RX_SZ \<Longrightarrow> n \<le> 1518 \<Longrightarrow> rx_next p (n + 4) = ring_next p n"
proof -
  assume p: "p < RTL_RX_SZ" "n \<le> 1518"
  define q where "q = (p + 4 + (n + 4) + 3) div 4 * 4"
  have q: "q < 2 * RTL_RX_SZ" using p by (simp add: q_def)
  then have "rx_next p (n + 4) = (if q \<ge> RTL_RX_SZ then q - RTL_RX_SZ else q)" by (simp add: rx_next_def q_def Let_def)
  also have "\<dots> = q mod RTL_RX_SZ" using q by (simp add: mod_if)
  finally show ?thesis by (simp add: ring_next_def q_def)
qed

lemma ring_next_less: "ring_next p n < RTL_RX_SZ"
  by (simp add: ring_next_def)

lemma rx_data_frame: "frame_at mem p f \<Longrightarrow> rx_data mem p (length f) = f"
  by (rule nth_equalityI) (simp_all add: rx_data_def frame_at_def mod_add_left_eq)

lemma rtl_packet_frame:
  assumes "quiet lwip" "\<forall>n. room n" "rtl_rx_ptr st < RTL_RX_SZ" "frame_at (rtl_ring st) (rtl_rx_ptr st) f"
  shows "\<exists>st'. rtl_packet room lwip pkt st = (True, st') \<and> inbox st' = inbox st @ [f] \<and> rtl_ring st' = rtl_ring st \<and>
    rtl_rx_ptr st' = ring_next (rtl_rx_ptr st) (length f)"
  using assms rx_data_frame[OF assms(4)]
  by (auto simp: rtl_packet_def Let_def frame_at_def rx_next_ring quiet_def)

lemma rtl_packet_none:
  assumes "even (rd16 (rtl_ring st) (rtl_rx_ptr st))"
  shows "\<exists>st'. rtl_packet room lwip pkt st = (False, st') \<and> inbox st' = inbox st \<and> rtl_ring st' = rtl_ring st \<and>
    rtl_rx_ptr st' = rtl_rx_ptr st"
  using assms by (simp add: rtl_packet_def Let_def)

lemma rtl_packets_frames:
  assumes "quiet lwip" "\<forall>n. room n" "rtl_rx_ptr st < RTL_RX_SZ" "frames_at (rtl_ring st) (rtl_rx_ptr st) fs" "length fs \<le> n"
  shows "inbox (rtl_packets room lwip pkt n st) = inbox st @ fs \<and>
    rtl_ring (rtl_packets room lwip pkt n st) = rtl_ring st \<and>
    rtl_rx_ptr (rtl_packets room lwip pkt n st) = foldl (\<lambda>p f. ring_next p (length f)) (rtl_rx_ptr st) fs"
  using assms(3-5)
proof (induction fs arbitrary: st n pkt)
  case Nil
  then obtain st' where "rtl_packet room lwip pkt st = (False, st')" "inbox st' = inbox st" "rtl_ring st' = rtl_ring st"
      "rtl_rx_ptr st' = rtl_rx_ptr st"
    using rtl_packet_none[of st room lwip pkt] by auto
  then show ?case by (cases n) simp_all
next
  case (Cons f fs)
  obtain m where m: "n = Suc m" "length fs \<le> m" using Cons.prems(3) by (cases n) auto
  obtain st' where st': "rtl_packet room lwip pkt st = (True, st')" "inbox st' = inbox st @ [f]" "rtl_ring st' = rtl_ring st"
      "rtl_rx_ptr st' = ring_next (rtl_rx_ptr st) (length f)"
    using rtl_packet_frame[OF assms(1,2) Cons.prems(1)] Cons.prems(2) by fastforce
  then show ?case using Cons.IH[of st' m "Suc pkt"] Cons.prems(2) m ring_next_less by simp
qed


text \<open>The helper \<open>rtl_recv\<close> moves four bytes too little for every frame.\<close>

lemma rtl_recv_pointer_short:
  assumes "rtl_rx_ptr st < 1000" "rtl_rx_ptr st mod 4 = 0" "rtl_hw_ok st" "frame_at (rtl_ring st) (rtl_rx_ptr st) f"
    and "length f \<le> mx"
  shows "fst (rtl_recv mx st) = Some f" "rtl_rx_ptr (snd (rtl_recv mx st)) + 4 = ring_next (rtl_rx_ptr st) (length f)"
proof -
  let ?p = "rtl_rx_ptr st" and ?n = "length f"
  have f: "odd (rd16 (rtl_ring st) ?p)" "rd16 (rtl_ring st) (?p + 2) = ?n + 4" "1 \<le> ?n" "?n \<le> 1518"
    using assms(4) by (simp_all add: frame_at_def)
  then have "(rd16 (rtl_ring st) (?p + 2) + 65532) mod 65536 = ?n" by simp
  then have r: "rtl_recv mx st = (Some (rx_data (rtl_ring st) ?p ?n),
      st\<lparr>rtl_capr := of_nat (rx_next ?p ?n) - 0x10, rtl_rx_ptr := rx_next ?p ?n\<rparr>)"
    using f assms(3,5) by (auto simp: rtl_recv_def Let_def)
  then show "fst (rtl_recv mx st) = Some f" using rx_data_frame[OF assms(4)] by simp
  obtain a where a: "?p = 4 * a" using assms(2) by (metis mod_0_imp_dvd dvdE)
  have "(4 * a + 4 + ?n + 3) div 4 = a + 1 + (?n + 3) div 4" "(4 * a + 4 + (?n + 4) + 3) div 4 = a + 2 + (?n + 3) div 4"
    by presburger+
  moreover have "a + (?n + 3) div 4 < 1000" using a f(4) assms(1) by simp
  ultimately have "rx_next ?p ?n + 4 = ring_next ?p ?n" unfolding a rx_next_def ring_next_def Let_def by simp
  then show "rtl_rx_ptr (snd (rtl_recv mx st)) + 4 = ring_next ?p ?n" using r by simp
qed

section \<open>Sending\<close>

lemma gather_concat: "off = length buf \<Longrightarrow> off \<le> 1514 \<Longrightarrow> gather off buf qs = buf @ take (1514 - off) (concat qs)"
proof (induction qs arbitrary: off buf)
  case (Cons q qs)
  show ?case
  proof (cases "off + length q > 1514")
    case True
    then show ?thesis using Cons.prems Cons.IH[of 1514 "buf @ take (1514 - off) q"] by simp
  next
    case False
    then show ?thesis using Cons.prems Cons.IH[of "off + length q" "buf @ q"] by simp
  qed
qed simp

text \<open>sending. A chain of buffers goes out as one frame, cut at 1514 bytes, which is less than a transmit slot; the
  four slots are used in turn, and a card that never finishes keeps its slot and reports an error.\<close>

theorem rtl_output_frame:
  assumes "rtl_hw_ok st" "rtl_output tsd p st = (r, st')"
  shows "(\<exists>rest. rtl_tx_buf st' (rtl_tx_cur st) = take 1514 (concat p) @ rest) \<and>
    (r = ERR_OK \<and> rtl_tx_cur st' = (rtl_tx_cur st + 1) mod 4 \<and> (\<exists>i < 999999. \<not> bit (tsd i) 31) \<or>
     r = ERR_BUF \<and> rtl_tx_cur st' = rtl_tx_cur st \<and> (\<forall>i < 999999. bit (tsd i) 31))"
proof -
  have f: "find P [0 ..< n] = Some i \<Longrightarrow> P i \<and> i < n \<and> (\<forall>j < i. \<not> P j)" "find P [0 ..< n] = None \<Longrightarrow> \<forall>i < n. \<not> P i" for P n i
    by (auto simp: find_Some_iff find_None_iff)
  have w: "if 0 < tx_wait tsd then \<exists>i < 999999. \<not> bit (tsd i) 31 else \<forall>i < 999999. bit (tsd i) 31"
  proof (cases "find (\<lambda>i. \<not> bit (tsd i) 31) [0 ..< 1000000]")
    case None
    from f(2)[OF None] show ?thesis by (simp add: tx_wait_def None)
  next
    case (Some i)
    from f(1)[OF Some] show ?thesis unfolding tx_wait_def Some option.case
      by (cases "i < 999999") auto
  qed
  have g: "gather 0 [] p = take 1514 (concat p)" using gather_concat[of 0 "[]" p] by simp
  show ?thesis
    using assms w g by (cases "0 < tx_wait tsd") (auto simp: rtl_output_def Let_def rlog_def)
qed

section \<open>TCP\<close>

text \<open>The wrapper reports 16 for every segment, whatever its length; the TLS code above takes that for the number of
  bytes it got.\<close>

lemma tcp_recv_reports_16:
  "s \<noteq> [] \<Longrightarrow> 0 < mx \<Longrightarrow> tcp_recv_compat True (Some s) mx buf = (16, take (min (length s) mx) s @ drop (min (length s) mx) buf)"
  by (simp add: tcp_recv_compat_def tcp_recv_sync_def Let_def)

section \<open>The printed address of the card\<close>

text \<open>Six numbers of three digits need 24 bytes: a card whose address has them overruns the 20 bytes of
  \<open>macbuf\<close>.\<close>

lemma mac_text_overrun:
  assumes "\<forall>i < 6. 100 \<le> uint (mac ! i)"
  shows "mac_text mac = None"
proof -
  have "length (kia_str n) = 3" if "100 \<le> n" "n < 256" for n
  proof -
    have step: "0 < k \<Longrightarrow> length (kia_digits k) = Suc (length (kia_digits (k div 10)))" for k
      by (subst kia_digits.simps) simp
    have "0 < nat n" "0 < nat n div 10" "0 < nat n div 10 div 10" "nat n div 10 div 10 div 10 = 0" using that by simp_all
    then have "length (kia_digits (nat n)) = 3" by (simp only: step) (simp add: kia_digits.simps[of 0])
    then show ?thesis using that by (simp add: kia_str_def)
  qed
  moreover have "uint (b :: u8) < 256" for b by (rule order_less_le_trans[OF uint_bounded]) simp
  ultimately have l: "length (kia_str (uint (mac ! i))) = 3" if "i < 6" for i using assms that by simp
  have "[1 ..< 6] = [1, 2, 3, 4, 5]" by code_simp
  then show ?thesis
    using l[of 0] l[of 1] l[of 2] l[of 3] l[of 4] by (simp add: mac_text_def fits_def)
qed

section \<open>Examples\<close>

text \<open>A ring with one frame of four bytes across its end.\<close>

definition rtl_ex :: rtl where
  "rtl_ex = \<lparr>rtl_hw_ok = True,
     rtl_ring = (\<lambda>p. if p = 8188 then 1 else if p = 8190 then 8 else if p < 4 then of_nat (p + 1) else 0),
     rtl_rx_ptr = 8188, rtl_rx_count = 0, rtl_rx_poll_count = 0, rtl_capr = 0, rtl_tx_buf = (\<lambda>_. []), rtl_tx_cur = 3,
     rtl_tx_count = 0, rtl_tsd = (\<lambda>_. 0), rtl_logs = rtl_log0, inbox = []\<rparr>"


theorem rtl_output_frame_witness:
  "\<exists>rest. rtl_tx_buf (snd (rtl_output (\<lambda>_. 0) [[1, 2], [3]] rtl_ex)) 3 = [1, 2, 3] @ rest"
  using rtl_output_frame[of rtl_ex "\<lambda>_. 0" "[[1, 2], [3]]"] by (cases "rtl_output (\<lambda>_. 0) [[1, 2], [3]] rtl_ex") (simp add: rtl_ex_def)

end
