(* ===== verification/Pig_Ws.thy ===== *)
theory Pig_Ws
  imports Pig_Prelude
begin

text \<open>
  The WebSocket client of \<open>crypto/websocket.h\<close>: base64, masking, the frames in both directions and the text of the
  opening request. The connection below, \<open>tls_send\<close> and \<open>tls_recv\<close>, is an argument: a call asks for at most
  \<open>n\<close> bytes and returns some, or fails.
\<close>

unbundle bit_operations_syntax

section \<open>Definitions\<close>

subsection \<open>Base64\<close>

definition b64 :: string where
  "b64 = ''ABCDEFGHIJKLMNOPQRSTUVWXYZabcdefghijklmnopqrstuvwxyz0123456789+/''"

definition b64_char :: "u32 \<Rightarrow> nat \<Rightarrow> char" where
  "b64_char v k = b64 ! unat (drop_bit k v AND 0x3F)"

definition b64_word :: "u8 \<Rightarrow> u8 \<Rightarrow> u8 \<Rightarrow> u32" where
  "b64_word a b c = push_bit 16 (ucast a) OR push_bit 8 (ucast b) OR ucast c"

text \<open>The loop; the guard on the space left is looked at before each group.\<close>

fun b64_loop :: "nat \<Rightarrow> nat \<Rightarrow> u8 list \<Rightarrow> string" where
  "b64_loop mx oi [] = []"
| "b64_loop mx oi (a # r) =
     (if int oi < int mx - 4 then
        (case r of
           [] \<Rightarrow> (let v = b64_word a 0 0 in [b64_char v 18, b64_char v 12, CHR ''='', CHR ''=''])
         | [b] \<Rightarrow> (let v = b64_word a b 0 in [b64_char v 18, b64_char v 12, b64_char v 6, CHR ''=''])
         | b # c # r \<Rightarrow>
             (let v = b64_word a b c in [b64_char v 18, b64_char v 12, b64_char v 6, b64_char v 0]) @ b64_loop mx (oi + 4) r)
      else [])"

definition ws_b64_encode :: "u8 list \<Rightarrow> nat \<Rightarrow> string" where
  "ws_b64_encode inp outmax = b64_loop outmax 0 inp"

subsection \<open>Frames\<close>

abbreviation (input) WS_OP_PING :: u8 where "WS_OP_PING \<equiv> 9"
abbreviation (input) WS_OP_PONG :: u8 where "WS_OP_PONG \<equiv> 10"

definition ws_mask_data :: "u8 list \<Rightarrow> u8 list \<Rightarrow> u8 list" where
  "ws_mask_data data mk = map (\<lambda>i. data ! i XOR mk ! (i mod 4)) [0 ..< length data]"

definition xorshift :: "u32 \<Rightarrow> u32" where
  "xorshift s = (let s = s XOR push_bit 13 s; s = s XOR drop_bit 17 s in s XOR push_bit 5 s)"

definition mask_bytes :: "u32 \<Rightarrow> u8 list" where
  "mask_bytes ms = [ucast (ms AND 0xFF), ucast (drop_bit 8 ms AND 0xFF), ucast (drop_bit 16 ms AND 0xFF), ucast (drop_bit 24 ms AND 0xFF)]"

text \<open>The frame for a payload; from 65536 bytes on the length is shifted by more bits than an \<open>int\<close> has, which is
  undefined. The first argument is the state of the generator of masks.\<close>

definition ws_frame :: "u32 \<Rightarrow> u8 \<Rightarrow> u8 list \<Rightarrow> (u32 \<times> u8 list) option" where
  "ws_frame ms opcode payload =
     (let n = length payload; ms = xorshift ms; mk = mask_bytes ms in
      if n < 126 then Some (ms, [0x80 OR opcode, 0x80 OR of_nat n] @ mk @ ws_mask_data payload mk)
      else if n < 65536
      then Some (ms, [0x80 OR opcode, 0x80 OR 126, of_nat (n div 256), of_nat n] @ mk @ ws_mask_data payload mk)
      else None)"

text \<open>The loops \<open>while(got<n)\<close> around \<open>tls_recv\<close>.\<close>

function recv_exact :: "(nat \<Rightarrow> 's \<Rightarrow> (u8 list \<times> 's) option) \<Rightarrow> nat \<Rightarrow> 's \<Rightarrow> (u8 list \<times> 's) option" where
  "recv_exact recv n s =
     (if n = 0 then Some ([], s)
      else case recv n s of
        None \<Rightarrow> None
      | Some (d, s) \<Rightarrow>
          if d = [] then None
          else map_option (\<lambda>(e, s). (d @ e, s)) (recv_exact recv (n - length d) s))"
  by pat_completeness auto
termination
  by (relation "measure (\<lambda>(recv, n, s). n)") auto

declare recv_exact.simps [simp del]

definition be_num :: "u8 list \<Rightarrow> u64" where
  "be_num bs = foldl (\<lambda>p b. push_bit 8 p OR ucast b) 0 bs"

text \<open>What a call gives: the opcode and the payload, or the payload of a ping that has to be answered.\<close>

datatype ws_result = Frame u8 "u8 list" | Ping "u8 list"

definition ws_recv_frame :: "(nat \<Rightarrow> 's \<Rightarrow> (u8 list \<times> 's) option) \<Rightarrow> nat \<Rightarrow> 's \<Rightarrow> (ws_result \<times> 's) option" where
  "ws_recv_frame recv maxout s = do {
     (hdr, s) \<leftarrow> recv_exact recv 2 s;
     let opc = hdr ! 0 AND 0x0F;
     let len7 = hdr ! 1 AND 0x7F;
     (plen, s) \<leftarrow> (if len7 = 126 then map_option (\<lambda>(b, s). (be_num b, s)) (recv_exact recv 2 s)
       else if len7 = 127 then map_option (\<lambda>(b, s). (be_num b, s)) (recv_exact recv 8 s)
       else Some (ucast len7 :: u64, s));
     (mk, s) \<leftarrow> (if bit (hdr ! 1) 7 then recv_exact recv 4 s else Some ([0, 0, 0, 0], s));
     let n = sint (ucast plen :: u32);
     let n = (if n > int maxout then int maxout else n);
     (data, s) \<leftarrow> recv_exact recv (nat n) s;
     let out = (if bit (hdr ! 1) 7 then ws_mask_data data mk else data);
     Some (if opc = WS_OP_PING then Ping out else Frame opc out, s) }"

subsection \<open>The opening request\<close>

abbreviation "crlf \<equiv> [CHR 0x0D, CHR 0x0A]"

definition ws_lines :: "string \<Rightarrow> string \<Rightarrow> string \<Rightarrow> string list" where
  "ws_lines host path key_b64 =
     [''GET '', path, '' HTTP/1.1'' @ crlf, ''Host: '', host, crlf, ''Upgrade: websocket'' @ crlf, ''Connection: Upgrade'' @ crlf,
      ''Sec-WebSocket-Key: '', key_b64, crlf, ''Sec-WebSocket-Version: 13'' @ crlf, ''Sec-WebSocket-Protocol: json'' @ crlf, crlf]"

definition ws_request :: "string \<Rightarrow> string \<Rightarrow> string \<Rightarrow> string option" where
  "ws_request host path key_b64 =
     (let req = concat (take 9 (ws_lines host path key_b64)) in if length req \<le> 512 then Some req else None)"

section \<open>Base64 can be decoded\<close>

definition b64_index :: "char \<Rightarrow> nat" where
  "b64_index c = length (takeWhile (\<lambda>d. d \<noteq> c) b64)"

definition b64_value :: "char list \<Rightarrow> u32" where
  "b64_value cs = foldl (\<lambda>v c. push_bit 6 v OR of_nat (b64_index c)) 0 cs"

fun b64_decode :: "string \<Rightarrow> u8 list" where
  "b64_decode (p # q # r # s # cs) =
     (if r = CHR ''='' then [ucast (drop_bit 4 (b64_value [p, q]))]
      else if s = CHR ''='' then (let v = b64_value [p, q, r] in [ucast (drop_bit 10 v), ucast (drop_bit 2 v)])
      else (let v = b64_value [p, q, r, s] in [ucast (drop_bit 16 v), ucast (drop_bit 8 v), ucast v]) @ b64_decode cs)"
| "b64_decode _ = []"

lemma b64_alphabet: "distinct b64" "length b64 = 64" "CHR ''='' \<notin> set b64"
  by (simp_all add: b64_def)

lemma b64_index_nth: "i < 64 \<Longrightarrow> b64_index (b64 ! i) = i"
proof -
  assume i: "i < 64"
  have "takeWhile (\<lambda>d. d \<noteq> b64 ! i) b64 = take i b64"
  proof (rule takeWhile_eq_take_P_nth)
    fix j assume "j < i" "j < length b64"
    then show "b64 ! j \<noteq> b64 ! i" using b64_alphabet i by (simp add: nth_eq_iff_index_eq)
  qed (use i in simp)
  then show ?thesis using i b64_alphabet(2) by (simp add: b64_index_def)
qed

lemma b64_char_index: "of_nat (b64_index (b64_char v k)) = (take_bit 6 (drop_bit k v) :: u32)"
proof -
  have "drop_bit k v AND 0x3F = take_bit 6 (drop_bit k v)" by (simp add: take_bit_eq_mask mask_eq_exp_minus_1)
  moreover have "unat (take_bit 6 (drop_bit k v)) < 64"
    by (simp add: unsigned_take_bit_eq) (simp add: take_bit_eq_mod)
  ultimately show ?thesis by (simp add: b64_char_def b64_index_nth)
qed

lemma b64_char_not_pad: "b64_char v k \<noteq> CHR ''=''"
proof -
  have "drop_bit k v AND 0x3F = take_bit 6 (drop_bit k v)" by (simp add: take_bit_eq_mask mask_eq_exp_minus_1)
  moreover have "unat (take_bit 6 (drop_bit k v)) < 64"
    by (simp add: unsigned_take_bit_eq) (simp add: take_bit_eq_mod)
  ultimately have "b64_char v k \<in> set b64" using b64_alphabet(2) by (simp add: b64_char_def)
  then show ?thesis using b64_alphabet(3) by auto
qed

lemma sixes:
  assumes "n < (24 :: nat)"
  obtains j where "n = j" "j < 6" | j where "n = 6 + j" "j < 6" | j where "n = 12 + j" "j < 6" | j where "n = 18 + j" "j < 6"
proof -
  have "n < 6 \<or> (n = 6 + (n - 6) \<and> n - 6 < 6) \<or> (n = 12 + (n - 12) \<and> n - 12 < 6) \<or> (n = 18 + (n - 18) \<and> n - 18 < 6)"
    using assms by linarith
  then show thesis using that by blast
qed

lemma word_eq_24:
  fixes v w :: u32
  assumes "\<And>j. j < 6 \<Longrightarrow> bit v j = bit w j" "\<And>j. j < 6 \<Longrightarrow> bit v (6 + j) = bit w (6 + j)"
    and "\<And>j. j < 6 \<Longrightarrow> bit v (12 + j) = bit w (12 + j)" "\<And>j. j < 6 \<Longrightarrow> bit v (18 + j) = bit w (18 + j)"
    and "\<And>n. 24 \<le> n \<Longrightarrow> bit v n = bit w n"
  shows "v = w"
proof (rule bit_word_eqI)
  fix n
  show "bit v n = bit w n"
  proof (cases "n < 24")
    case True
    then show ?thesis using assms(1-4) by (cases rule: sixes) simp_all
  qed (simp add: assms(5))
qed

lemma b64_group:
  "b64_value [b64_char v 18, b64_char v 12, b64_char v 6, b64_char v 0] = take_bit 24 v"
  "b64_value [b64_char v 18, b64_char v 12, b64_char v 6] = take_bit 18 (drop_bit 6 v)"
  "b64_value [b64_char v 18, b64_char v 12] = take_bit 12 (drop_bit 12 v)"
  by (rule word_eq_24; auto simp: b64_value_def b64_char_index bit_simps)+

lemma b64_word_bytes:
  "ucast (drop_bit 16 (b64_word a b c)) = a" "ucast (drop_bit 8 (b64_word a b c)) = b" "ucast (b64_word a b c) = c"
  by (rule bit_word_eqI, auto simp: b64_word_def bit_simps dest: bit_imp_le_length)+

lemma b64_word_top: "take_bit 24 (b64_word a b c) = b64_word a b c"
  by (rule bit_word_eqI) (auto simp: b64_word_def bit_simps dest: bit_imp_le_length)

lemma b64_loop_decode: "oi + 4 * ((length inp + 2) div 3) < mx \<Longrightarrow> b64_decode (b64_loop mx oi inp) = inp"
proof (induction mx oi inp rule: b64_loop.induct)
  case (2 mx oi a r)
  consider "r = []" | b where "r = [b]" | b c s where "r = b # c # s" by (cases r; cases "tl r") auto
  then show ?case
  proof cases
    case 1
    have "ucast (drop_bit 4 (take_bit 12 (drop_bit 12 (b64_word a 0 0)))) = a"
      by (rule bit_word_eqI) (auto simp: b64_word_def bit_simps dest: bit_imp_le_length)
    then show ?thesis using 1 2 by (simp add: Let_def b64_group)
  next
    case (2 b)
    have "ucast (drop_bit 10 (take_bit 18 (drop_bit 6 (b64_word a b 0)))) = a"
      "ucast (drop_bit 2 (take_bit 18 (drop_bit 6 (b64_word a b 0)))) = b"
      by (rule bit_word_eqI, auto simp: b64_word_def bit_simps dest: bit_imp_le_length)+
    then show ?thesis using 2 "2.prems" by (simp add: Let_def b64_group b64_char_not_pad)
  next
    case (3 b c s)
    have "(5 + n) div 3 = Suc (Suc (Suc n) div 3)" for n :: nat by presburger
    with 3 show ?thesis
      using 2 by (simp add: Let_def b64_group b64_char_not_pad b64_word_top b64_word_bytes)
  qed
qed simp

text \<open>base64. A buffer larger than the text makes the encoder of the handshake keep every byte: decoding its output
  gives the input back, for every length.\<close>

theorem b64_roundtrip:
  assumes "4 * ((length inp + 2) div 3) < outmax"
  shows "b64_decode (ws_b64_encode inp outmax) = inp"
  using b64_loop_decode[of 0 inp outmax] assms by (simp add: ws_b64_encode_def)

section \<open>Frames\<close>

text \<open>A frame as RFC 6455 has it, masked or not, for payloads below 64 KB.\<close>

definition ws_encode :: "u8 list option \<Rightarrow> u8 \<Rightarrow> u8 list \<Rightarrow> u8 list" where
  "ws_encode mk opcode payload =
     (let n = length payload; m = (case mk of None \<Rightarrow> 0 | Some _ \<Rightarrow> 0x80) in
      (0x80 OR opcode) # (if n < 126 then [m OR of_nat n] else [m OR 126, of_nat (n div 256), of_nat n]) @
      (case mk of None \<Rightarrow> payload | Some k \<Rightarrow> k @ ws_mask_data payload k))"

text \<open>What the code relies on: a call returns some of the bytes that are waiting, in order, and at most as many as
  were asked for.\<close>

definition delivers :: "(nat \<Rightarrow> 's \<Rightarrow> (u8 list \<times> 's) option) \<Rightarrow> ('s \<Rightarrow> u8 list) \<Rightarrow> bool" where
  "delivers recv pending \<longleftrightarrow> (\<forall>n s. 0 < n \<longrightarrow> pending s \<noteq> [] \<longrightarrow>
     (\<exists>d s'. recv n s = Some (d, s') \<and> d \<noteq> [] \<and> length d \<le> n \<and> pending s = d @ pending s'))"

lemma recv_exact_pending:
  assumes "delivers recv pending" "pending s = a @ r" "length a = n"
  shows "\<exists>s'. recv_exact recv n s = Some (a, s') \<and> pending s' = r"
  using assms(2,3)
proof (induction n arbitrary: s a rule: less_induct)
  case (less n)
  show ?case
  proof (cases "n = 0")
    case False
    then have "pending s \<noteq> []" using less.prems by auto
    then obtain d s1 where d: "recv n s = Some (d, s1)" "d \<noteq> []" "length d \<le> n" "pending s = d @ pending s1"
      using assms(1) False unfolding delivers_def by blast
    then have a: "a = d @ drop (length d) a" "pending s1 = drop (length d) a @ r"
      using less.prems by (auto simp: append_eq_append_conv2)
    have "n - length d < n" using d(2) False by (cases d) auto
    from less.IH[OF this a(2)] obtain s' where "recv_exact recv (n - length d) s1 = Some (drop (length d) a, s')" "pending s' = r"
      using less.prems(2) by auto
    then show ?thesis using d a(1) False by (subst recv_exact.simps) auto
  qed (use less.prems in \<open>simp add: recv_exact.simps\<close>)
qed

lemma ws_mask_twice: "ws_mask_data (ws_mask_data p k) k = p"
  by (rule nth_equalityI) (simp_all add: ws_mask_data_def xor.assoc)

lemma length_ws_mask [simp]: "length (ws_mask_data p k) = length p"
  by (simp add: ws_mask_data_def)

lemma low7: "x < 0x80 \<Longrightarrow> (0x80 OR x) AND 0x7F = (x :: u8)" "x < 0x80 \<Longrightarrow> x AND 0x7F = x" "bit (0x80 OR x :: u8) 7"
  "x < 0x80 \<Longrightarrow> \<not> bit x 7" "y < 16 \<Longrightarrow> (0x80 OR y) AND 0x0F = (y :: u8)"
proof -
  have m: "z AND 0x7F = take_bit 7 z" "z AND 0x0F = take_bit 4 z" for z :: u8
    by (simp_all add: take_bit_eq_mask mask_eq_exp_minus_1)
  have s: "take_bit 7 x = x" if "x < 0x80" for x :: u8
    using that by (simp add: word_unat_eq_iff unsigned_take_bit_eq word_less_nat_alt take_bit_nat_eq_self)
  have s4: "take_bit 4 y = y" if "y < 16" for y :: u8
    using that by (simp add: word_unat_eq_iff unsigned_take_bit_eq word_less_nat_alt take_bit_nat_eq_self)
  show "x < 0x80 \<Longrightarrow> (0x80 OR x) AND 0x7F = x" "x < 0x80 \<Longrightarrow> x AND 0x7F = x" for x :: u8
    using s by (simp_all add: m take_bit_or)
  show "y < 16 \<Longrightarrow> (0x80 OR y) AND 0x0F = y" for y :: u8 using s4 by (simp add: m take_bit_or)
  show "bit (0x80 OR x :: u8) 7" by (simp add: bit_simps)
  show "x < 0x80 \<Longrightarrow> \<not> bit x 7" for x :: u8 using s[of x] by (metis bit_take_bit_iff less_irrefl)
qed

lemma be_num_two: "n < 65536 \<Longrightarrow> be_num [of_nat (n div 256), of_nat n] = of_nat n"
proof (rule bit_word_eqI)
  fix k
  assume n: "n < 65536"
  have "take_bit 16 n = n" using n by (simp add: take_bit_nat_eq_self)
  then have "k < 16" if "bit n k" using that by (metis bit_take_bit_iff)
  then show "bit (be_num [of_nat (n div 256), of_nat n]) k = bit (of_nat n :: u64) k"
    by (auto simp: be_num_def bit_simps less_diff_conv2 simp flip: drop_bit_eq_div[of 8, simplified])
qed


lemma ws_frame_encodes:
  "length payload < 65536 \<Longrightarrow>
   ws_frame ms opcode payload = Some (xorshift ms, ws_encode (Some (mask_bytes (xorshift ms))) opcode payload)"
  by (simp add: ws_frame_def ws_encode_def Let_def)

section \<open>The opening request\<close>

text \<open>Only nine of the fourteen pieces of the request are sent: it ends before the key, without the empty line a server
  waits for, and does not depend on the key at all.\<close>

lemma ws_request_has_no_key:
  "ws_request host path key = Some req \<Longrightarrow>
   req = ''GET '' @ path @ '' HTTP/1.1'' @ crlf @ ''Host: '' @ host @ crlf @ ''Upgrade: websocket'' @ crlf @
     ''Connection: Upgrade'' @ crlf @ ''Sec-WebSocket-Key: ''"
  by (simp add: ws_request_def ws_lines_def Let_def split: if_splits)

section \<open>Examples\<close>

theorem b64_roundtrip_witness: "b64_decode (ws_b64_encode [1, 2, 3, 4] 32) = [1, 2, 3, 4]"
  using b64_roundtrip[of "[1, 2, 3, 4]" 32] by simp


end
