(* ===== verification/Spec2Isabelle.thy ===== *)
theory Spec2Isabelle
  imports Pig_Lash Pig_Snake Pig_Wm Pig_Tetris Pig_Aes Pig_Rsa Pig_Asn1 Pig_Json Pig_Net Pig_Ws
begin

text \<open>
  A verification library for pigOS, a freestanding hobby operating system (\<open>src/pigOS\<close>). Its kernel modules
  are header files included into one translation unit, \<open>kernel/kernel.c\<close>, so the program is one set of
  global variables and the functions that update them. After booting, the kernel runs the shell, which reads keys,
  edits a line and dispatches it to a chain of commands; the commands work on the console, the file
  system, the accounts and the other tables. A window manager, two games, two editors, a cryptographic
  library, and a network driver with a WebSocket client complete the system.

  \<^bold>\<open>Conventions.\<close> A C string is a \<^typ>\<open>string\<close> without its terminating NUL. What the C standard leaves undefined,
  a store or load outside an object, a signed overflow, a shift by too many bits, is the value
  \<^term>\<open>None\<close>; a copy into a buffer of \<open>n\<close> bytes goes through \<^const>\<open>fits\<close>, which is
  \<^term>\<open>None\<close> when the string and its terminator do not fit, because the kernel's copy routines never check.
  So every theorem that says an operation returns \<^term>\<open>Some\<close> also says that it stays inside its
  objects. Signed integers are \<^typ>\<open>int\<close> with the 32-bit range checked by \<^const>\<open>chk32\<close>, unsigned ones are words.
  Where the aliasing or the bytes behind the terminator matter, the array is modelled byte for byte (the rows
  of \<open>pi\<close>, the line of the shell's editor, the buffers of \<open>kernel/mem.h\<close>).

  \<^bold>\<open>State.\<close> Each module extends the record of the one it is built on: the console (\<open>kst\<close>), the
  keyboard (\<open>kbd\<close>), the file system (\<open>fs\<close>), users (\<open>usys\<close>), the keys a command will read
  (\<open>tty\<close>), the init system (\<open>poing\<close>), packages (\<open>rpk\<close>) and the system log (\<open>pol\<close>). The operations of
  a module are polymorphic in the extension, so that what a lower module does to an upper one's fields is
  visible in its type. The shell's own variables are the record \<^typ>\<open>sh\<close>, with the machine below as its field
  \<open>sys\<close>. The window manager (\<open>wm\<close>) and the games extend the record they need.

  \<^bold>\<open>Interfaces.\<close> Four locales state what a client relies on, and each is interpreted on the kernel's own definitions:
  \<open>ring_log\<close> (a ring that forgets its oldest entry: the scrollback, the kernel and network logs, both
  histories), \<open>bounded_queue\<close> (the keyboard buffer), \<open>file_store\<close> (the files in memory) and
  \<open>assoc_store\<close> (the shell's variables and aliases).

  \<^bold>\<open>The theories and the code.\<close>

  \<^item> \<open>Pig_Prelude\<close>: integers, buffers, searches in tables, monadic folds. \<open>Pig_Ring\<close>: rings.
  \<^item> \<open>Pig_Mem\<close> (\<open>kernel/mem.h\<close>, \<open>kernel/libc_stubs.c\<close>): the allocator, whose blocks are disjoint, aligned and in the heap;
    memory moves and comparisons; numbers to text and back.
  \<^item> \<open>Pig_Vga\<close> (\<open>drivers/vga/vga.h\<close>): cells, scrolling, scrollback, boxes, the capture of a pipe. Printing never writes
    outside the screen, and the scrollback holds the last lines.
  \<^item> \<open>Pig_Ps2\<close> (\<open>drivers/ps2/ps2.h\<close>): scan codes to keys, the queue of keys, the mouse and its cursor.
  \<^item> \<open>Pig_Log\<close> (\<open>kernel/logger.h\<close>, \<open>kernel/netlog.h\<close>, the log of \<open>lwip/port/netif/rtl8139.h\<close>): the three logs.
  \<^item> \<open>Pig_Fs\<close>, \<open>Pig_FsCmd\<close> (\<open>kernel/pigfs.h\<close>): path resolution, which is the resolution of components; files in
    memory over the tree compiled in; the deletion store that survives a reboot; \<open>ls\<close>, \<open>cat\<close>,
    \<open>touch\<close>, \<open>rm\<close>, \<open>grep\<close>, \<open>find\<close>, \<open>cd\<close>. The critical paths cannot be removed, whatever the spelling.
  \<^item> \<open>Pig_Users\<close> (\<open>kernel/users.h\<close>): accounts and groups; names stay distinct, new homes get the skeleton files.
  \<^item> \<open>Pig_Poing\<close> (\<open>kernel/poing/poing.h\<close>), \<open>Pig_Rpk\<close> (\<open>shell/rpk.h\<close>), \<open>Pig_Polctl\<close> (\<open>shell/polctl.h\<close>): units, packages,
    the log viewer.
  \<^item> \<open>Pig_Env\<close>, \<open>Pig_Screens\<close>, \<open>Pig_Cmds\<close>, \<open>Pig_Shell\<close> (\<open>shell/shell.h\<close>, \<open>shell/pigfetch.h\<close>, \<open>crypto/pigssl.h\<close>): the
    shell's state and the expansion of variables; fixed pages; the commands with a body of their own; pipes,
    aliases, scripts and the chain of commands, kept as tables in the order of the code. \<open>su\<close> and
    \<open>rok\<close> are shown to check the password, a command line to have one result.
  \<^item> \<open>Pig_ShInv\<close>: the invariant of the whole machine and that every command line keeps it.
  \<^item> \<open>Pig_Lash\<close> (\<open>shell/lash.h\<close>): the line editor and completion, and whole sessions from \<open>shell_run\<close> on. The line that
    runs is the line that was edited; every session keeps the invariant of the machine.
  \<^item> \<open>Pig_Nano\<close> (\<open>pnano\<close> in \<open>shell/shell.h\<close>), \<open>Pig_Vi\<close> (\<open>shell/vi.h\<close>): the editors, from the
    keys to the file they save; \<open>pi\<close> is a refinement of a list of lines with a cursor.
  \<^item> \<open>Pig_Wm\<close> (\<open>wm/wm.h\<close>): windows, focus, drawing, mouse and keys. \<open>Pig_Tetris\<close> (\<open>shell/games/tetris.h\<close>), \<open>Pig_Snake\<close>
    (\<open>cmd_snake\<close> of \<open>shell/shell.h\<close>): the games.
  \<^item> \<open>Pig_Bignum\<close>, \<open>Pig_Sha256\<close>, \<open>Pig_Aes\<close>, \<open>Pig_Rsa\<close>, \<open>Pig_Asn1\<close>, \<open>Pig_Json\<close> (\<open>crypto/\<close>): arithmetic against the
    integers, the hash against the standard's definition, the block cipher (whose mixing step is shown to do
    nothing), padding, the DER and the JSON parser.
  \<^item> \<open>Pig_Net\<close> (\<open>drivers/net/network.h\<close>, \<open>lwip/port/netif/rtl8139.h\<close>): addresses, the checksum, the choice of the card,
    the receive ring and the transmit slots. \<open>Pig_Ws\<close> (\<open>crypto/websocket.h\<close>): base64 and frames.

  \<^bold>\<open>Bounds and fuel.\<close> Loops of the code are structural recursion or functions with a termination proof, but for these:
  the dispatcher takes the depth of nested calls (aliases and scripts may call it for ever; a result at some depth
  is the result at every larger one, and an alias to itself has none at any depth); the tetris loop that
  clears lines takes 40 steps, enough for 20 rows; the interactive loops (shell, editors, window manager, games)
  consume a list of keys, one step for each.

  \<^bold>\<open>Parameters.\<close> Commands whose bodies are outside the model are an argument of the dispatcher, with the hypothesis that they
  keep the invariant of the machine. Bytes the code reads before it writes them are an argument too. The
  TCP/IP stack, the registers of the card and the connection below the WebSocket code are arguments of the
  network definitions.

  \<^bold>\<open>Not modelled.\<close> The TCP/IP stack \<open>lwip/src\<close> and \<open>lwip/contrib\<close>, a vendored library the kernel only calls, and the
  font library \<open>stb_truetype.h\<close>. The drivers \<open>e1000.h\<close> and \<open>virtio.h\<close>, and the initialisation of the cards:
  sequences of register accesses whose effect is the hardware's. The TLS client (\<open>crypto/tls_client.h\<close>) and the
  Discord client (\<open>crypto/discord.h\<close>) above it; they run on \<open>tcp_recv_data\<close>, which reports 16 bytes for every
  segment (\<open>tcp_recv_reports_16\<close>). The network commands of the shell, \<open>netpg.h\<close> and \<open>menuconfig.h\<close>. The
  commands \<open>yes\<close> and \<open>matrix\<close>, which run against the clock. The desktop block of \<open>sh_dispatch\<close>, a second
  window system inside one branch. The boot code (\<open>boot/\<close>, assembly) and \<open>kernel.c\<close>: its splash screen,
  boot messages and calls of the initialisers, and \<open>rt_cfg\<close>, which reads the stored configuration. The
  display server and its demos (\<open>project/\<close>, \<open>vdm/\<close>, \<open>display-server/\<close>), which are programs for a Linux host, the
  shell written in Go and the bash completions, which are not part of the kernel. Headers no translation unit
  includes (\<open>shell.h.backup\<close>, \<open>kernel/poing.h\<close>).
  Delays and the moment at which an interrupt arrives are left out everywhere.
\<close>

section \<open>The heap and the deletion store\<close>

text \<open>The structure that remembers deleted files across a reboot sits at a fixed address
  (\<open>del_store\<close> in \<open>kernel/pigfs.h\<close>).\<close>

definition DEL_STORE :: u64 where
  "DEL_STORE = 0x600000"

lemma block_covers:
  assumes "unat n \<le> 2 ^ 32 - 16" "16 dvd p" "16 dvd a" "p \<le> a" "a < p + unat (round16 n)"
  shows "a < p + unat n"
proof -
  obtain i j where ij: "p = 16 * i" "a = 16 * j" using assms(2,3) by (auto elim!: dvdE)
  define q where "q = (unat n + 15) div 16"
  have "unat (round16 n) = 16 * q" using assms(1) by (simp add: unat_round16 unat_word_ariths q_def)
  then have "j < i + q" using assms(5) ij by linarith
  moreover have "16 * q \<le> unat n + 15" by (simp add: q_def)
  ultimately show ?thesis using ij by linarith
qed

lemma km_run_passes:
  assumes "heap_ok hp" "\<forall>n \<in> set ns. unat n \<le> 2 ^ 32 - 16" "km_run ns hp = (bs, hp')"
    and "16 dvd a" "unat hp \<le> a" "a < unat hp'"
  shows "\<exists>(p, n) \<in> set bs. unat p \<le> a \<and> a < unat p + unat n"
  using assms
proof (induction ns arbitrary: hp bs)
  case (Cons n ns)
  show ?case
  proof (cases "fst (km n hp)")
    case None
    then have "km n hp = (None, hp)" by (metis km_None prod.collapse)
    then show ?thesis using Cons by simp
  next
    case (Some p)
    then obtain h1 where k: "km n hp = (Some p, h1)" by (metis prod.collapse)
    obtain bs' where r: "km_run ns h1 = (bs', hp')" "bs = (p, n) # bs'"
      using Cons.prems(3) k by (auto split: prod.splits)
    note s = km_Some[OF Cons.prems(1) k]
    show ?thesis
    proof (cases "a < unat h1")
      case True
      then have "a < unat p + unat n"
        using block_covers[of n "unat hp" a] s Cons.prems heap_ok_bounds(3)[OF Cons.prems(1)] by simp
      then show ?thesis using r(2) s(1) Cons.prems(5) by auto
    next
      case False
      then show ?thesis using Cons.IH[OF s(3) _ r(1)] Cons.prems r(2) by auto
    qed
  qed
qed simp

text \<open>C24: the heap runs over the deletion store. The store lies in the middle of the heap, and no sequence of allocations
  gets past it without one that is given a block over it: the first two megabytes are all the memory that can
  be used without losing the record of deleted files.\<close>

theorem heap_overruns_store:
  assumes "\<forall>n \<in> set ns. unat n \<le> 2 ^ 32 - 16" "km_run ns HEAP_BASE = (bs, hp')" "DEL_STORE < hp'"
  shows "\<exists>(p, n) \<in> set bs. unat p \<le> unat DEL_STORE \<and> unat DEL_STORE < unat p + unat n"
proof -
  have "heap_ok HEAP_BASE" by (simp add: heap_ok_def HEAP_BASE_def HEAP_LIMIT_def HEAP_SIZE_def)
  from km_run_passes[OF this assms(1,2), of "unat DEL_STORE"] show ?thesis
    using assms(3) heap_consts(1) by (simp add: DEL_STORE_def word_less_nat_alt)
qed

theorem heap_overruns_store_witness:
  "\<exists>(p, n) \<in> set (fst (km_run [0x100000, 0x180000] HEAP_BASE)). unat p \<le> 0x600000 \<and> 0x600000 < unat p + unat n"
proof -
  have "km_run [0x100000, 0x180000] HEAP_BASE = ([(0x400000, 0x100000), (0x500000, 0x180000)], 0x680000)"
    by (simp add: km_def round16_def HEAP_BASE_def HEAP_LIMIT_def HEAP_SIZE_def)
  then show ?thesis using heap_overruns_store[of "[0x100000, 0x180000]"] by (simp add: DEL_STORE_def)
qed

end
